(* ===== verification/JsText.thy ===== *)
theory JsText
  imports Prelude "HOL-Library.Char_ord" "HOL-Library.List_Lexorder"
begin

text \<open>
  The parts of the JavaScript string library the code uses: \<open>trim\<close>, \<open>toUpperCase\<close>,
  \<open>toLowerCase\<close>, \<open>padStart\<close>, \<open>padEnd\<close>, \<open>split\<close> at a dot, and decimal rendering and parsing of
  non-negative integers. Strings are lists of characters below 256 (JavaScript's Latin-1 code
  units); case conversion is modelled on the ASCII letters, which is all the identifiers, codes
  and amounts of the code contain.
\<close>

section \<open>Characters\<close>

definition code_unit :: "char \<Rightarrow> nat" where
  "code_unit c = of_char c"

definition is_digit :: "char \<Rightarrow> bool" where
  "is_digit c = (48 \<le> code_unit c \<and> code_unit c \<le> 57)"

definition digit_value :: "char \<Rightarrow> nat" where
  "digit_value c = code_unit c - 48"

definition digit_char :: "nat \<Rightarrow> char" where
  "digit_char d = char_of (48 + d)"

definition js_space :: "char \<Rightarrow> bool" where
  "js_space c = (let u = code_unit c in 9 \<le> u \<and> u \<le> 13 \<or> u = 32 \<or> u = 160)"

definition upper_char :: "char \<Rightarrow> char" where
  "upper_char c = (if 97 \<le> code_unit c \<and> code_unit c \<le> 122 then char_of (code_unit c - 32) else c)"

definition lower_char :: "char \<Rightarrow> char" where
  "lower_char c = (if 65 \<le> code_unit c \<and> code_unit c \<le> 90 then char_of (code_unit c + 32) else c)"

lemma digit_char_simps [simp]:
  assumes "d < 10"
  shows "is_digit (digit_char d)" "digit_value (digit_char d) = d"
    "code_unit (digit_char d) = 48 + d"
  using assms by (simp_all add: is_digit_def digit_value_def digit_char_def code_unit_def)

lemma digit_value_lt: "is_digit c \<Longrightarrow> digit_value c < 10"
  by (auto simp: is_digit_def digit_value_def)

lemma digit_char_value: "is_digit c \<Longrightarrow> digit_char (digit_value c) = c"
  by (auto simp: is_digit_def digit_value_def digit_char_def code_unit_def)

lemma is_digit_not_space: "is_digit c \<Longrightarrow> \<not> js_space c"
  by (auto simp: is_digit_def js_space_def Let_def)

section \<open>Trimming and case\<close>

definition js_trim :: "string \<Rightarrow> string" where
  "js_trim s = rev (dropWhile js_space (rev (dropWhile js_space s)))"

definition to_upper :: "string \<Rightarrow> string" where
  "to_upper s = map upper_char s"

definition to_lower :: "string \<Rightarrow> string" where
  "to_lower s = map lower_char s"

lemma js_trim_id:
  assumes "\<forall>c \<in> set s. \<not> js_space c"
  shows "js_trim s = s"
proof -
  have *: "dropWhile js_space xs = xs" if "\<forall>c \<in> set xs. \<not> js_space c" for xs
    using that by (cases xs) auto
  from assms have "dropWhile js_space s = s" by (rule *)
  moreover have "dropWhile js_space (rev s) = rev s" using assms by (intro *) simp
  ultimately show ?thesis by (simp add: js_trim_def)
qed

section \<open>Decimal rendering\<close>

fun show_nat :: "nat \<Rightarrow> string" where
  "show_nat n = (if n < 10 then [digit_char n] else show_nat (n div 10) @ [digit_char (n mod 10)])"

declare show_nat.simps [simp del]

definition parse_nat :: "string \<Rightarrow> nat" where
  "parse_nat s = foldl (\<lambda>a c. 10 * a + digit_value c) 0 s"

definition all_digits :: "string \<Rightarrow> bool" where
  "all_digits s = list_all is_digit s"

definition pad_start :: "nat \<Rightarrow> string \<Rightarrow> string" where
  "pad_start k s = replicate (k - length s) (CHR ''0'') @ s"

definition pad_end :: "nat \<Rightarrow> string \<Rightarrow> string" where
  "pad_end k s = s @ replicate (k - length s) (CHR ''0'')"

lemma foldl_digits:
  "foldl (\<lambda>a c. 10 * a + digit_value c) a s = a * 10 ^ length s + foldl (\<lambda>a c. 10 * a + digit_value c) 0 s"
proof (induction s rule: rev_induct)
  case (snoc x xs)
  then show ?case by (simp add: algebra_simps)
qed simp

lemma parse_nat_simps [simp]:
  "parse_nat [] = 0"
  "parse_nat (s @ [c]) = 10 * parse_nat s + digit_value c"
  by (simp_all add: parse_nat_def)

lemma parse_nat_append: "parse_nat (s @ t) = parse_nat s * 10 ^ length t + parse_nat t"
  unfolding parse_nat_def by (simp, subst foldl_digits) simp

lemma parse_nat_Cons: "parse_nat (c # s) = digit_value c * 10 ^ length s + parse_nat s"
  using parse_nat_append [of "[c]" s] by (simp add: parse_nat_def)

lemma parse_nat_zeros [simp]: "parse_nat (replicate k (CHR ''0'')) = 0"
  by (induction k) (simp_all add: parse_nat_Cons digit_value_def code_unit_def)

lemma parse_nat_bound: "all_digits s \<Longrightarrow> parse_nat s < 10 ^ length s"
proof (induction s)
  case (Cons c s)
  then have "digit_value c \<le> 9" and "parse_nat s < 10 ^ length s"
    using digit_value_lt [of c] by (auto simp: all_digits_def)
  then have "digit_value c * 10 ^ length s + parse_nat s < 9 * 10 ^ length s + 10 ^ length s"
    by (intro add_le_less_mono) simp_all
  then show ?case by (simp add: parse_nat_Cons)
qed simp

lemma parse_show [simp]: "parse_nat (show_nat n) = n"
proof (induction n rule: show_nat.induct)
  case (1 n)
  then show ?case
    by (subst show_nat.simps) (auto simp: parse_nat_def)
qed

lemma show_nat_digits [simp]: "all_digits (show_nat n)"
proof (induction n rule: show_nat.induct)
  case (1 n)
  then show ?case by (subst show_nat.simps) (auto simp: all_digits_def)
qed

lemma show_nat_nonempty [simp]: "show_nat n \<noteq> []"
  by (subst show_nat.simps) simp

lemma show_nat_inject [simp]: "show_nat m = show_nat n \<longleftrightarrow> m = n"
  by (metis parse_show)

lemma show_nat_length_le: "0 < k \<Longrightarrow> n < 10 ^ k \<Longrightarrow> length (show_nat n) \<le> k"
proof (induction k arbitrary: n)
  case (Suc k)
  show ?case
  proof (cases "n < 10")
    case True
    then show ?thesis by (subst show_nat.simps) simp
  next
    case False
    with Suc.prems have "0 < k" by (cases k) auto
    moreover from Suc.prems have "n div 10 < 10 ^ k" by auto
    ultimately have "length (show_nat (n div 10)) \<le> k" by (rule Suc.IH)
    with False show ?thesis by (subst show_nat.simps) simp
  qed
qed simp

lemma show_nat_length_gt: "10 ^ k \<le> n \<Longrightarrow> k < length (show_nat n)"
  using parse_nat_bound [of "show_nat n"]
  by (metis linorder_not_less less_le_trans parse_show power_increasing_iff show_nat_digits
      one_less_numeral_iff semiring_norm(76))

lemma all_digits_append [simp]: "all_digits (s @ t) \<longleftrightarrow> all_digits s \<and> all_digits t"
  by (simp add: all_digits_def)

lemma all_digits_zeros [simp]: "all_digits (replicate k (CHR ''0''))"
  by (simp add: all_digits_def list_all_iff is_digit_def code_unit_def)

lemma pad_start_parse [simp]: "parse_nat (pad_start k s) = parse_nat s"
  by (simp add: pad_start_def parse_nat_append)

lemma pad_start_digits [simp]: "all_digits (pad_start k s) \<longleftrightarrow> all_digits s"
  by (simp add: pad_start_def)

lemma pad_start_length [simp]: "length (pad_start k s) = max k (length s)"
  by (simp add: pad_start_def max_def)

lemma pad_end_digits [simp]: "all_digits (pad_end k s) \<longleftrightarrow> all_digits s"
  by (simp add: pad_end_def)

lemma pad_end_length [simp]: "length (pad_end k s) = max k (length s)"
  by (simp add: pad_end_def max_def)

lemma all_digits_take [simp]: "all_digits s \<Longrightarrow> all_digits (take k s)"
  and all_digits_drop [simp]: "all_digits s \<Longrightarrow> all_digits (drop k s)"
  by (auto simp: all_digits_def list_all_iff dest: in_set_takeD in_set_dropD)

lemma all_digits_no_space: "all_digits s \<Longrightarrow> \<forall>c \<in> set s. \<not> js_space c"
  by (auto simp: all_digits_def list_all_iff is_digit_not_space)

lemma all_digits_no_dot: "all_digits s \<Longrightarrow> \<forall>c \<in> set s. c \<noteq> CHR ''.''"
  by (auto simp: all_digits_def list_all_iff is_digit_def code_unit_def)

end
