(* ===== verification/JsNumber.thy ===== *)
theory JsNumber
  imports JsText Complex_Main "HOL-Library.Log_Nat"
begin

text \<open>
  JavaScript numbers. A finite \<open>number\<close> is an IEEE double, that is a rational; the model keeps its
  exact value as a \<open>rat\<close> and rounds the result of every arithmetic operation with \<open>fl\<close>, the
  round-to-nearest-even of binary64 (53 significant bits, gradual underflow at \<open>2 ^ -1074\<close>).
  Overflow to \<open>Infinity\<close> is not represented by \<open>fl\<close>: the code reads products only through bounds
  that an infinity and a huge finite value fail alike. \<open>Math.round\<close> and
  \<open>Number.prototype.toFixed\<close> are exact on the value they read, as ECMA-262 defines them.
\<close>

section \<open>Values\<close>

datatype js_number = Finite rat | Infinite bool | NaN

text \<open>What an argument of type \<open>unknown\<close> can be, as far as the code distinguishes.\<close>

datatype js_value =
    JUndefined
  | JNull
  | JNumber js_number
  | JBigInt int
  | JString string
  | JOther

section \<open>Rounding to binary64\<close>

definition pow2 :: "int \<Rightarrow> rat" where
  "pow2 e = (if 0 \<le> e then 2 ^ nat e else 1 / 2 ^ nat (- e))"

definition round_half_even :: "rat \<Rightarrow> int" where
  "round_half_even x =
     (let f = \<lfloor>x\<rfloor>; r = x - of_int f
      in if r < 1 / 2 then f else if 1 / 2 < r then f + 1 else if even f then f else f + 1)"

text \<open>The exponent of the binade of \<open>x \<noteq> 0\<close>: \<open>2 ^ e \<le> \<bar>x\<bar> < 2 ^ (e + 1)\<close>.\<close>

definition binade :: "rat \<Rightarrow> int" where
  "binade x =
     (let (n, d) = quotient_of \<bar>x\<bar>;
          e = int (floorlog 2 (nat n)) - int (floorlog 2 (nat d))
      in if pow2 e \<le> \<bar>x\<bar> then e else e - 1)"

definition fl :: "rat \<Rightarrow> rat" where
  "fl x = (if x = 0 then 0
           else let u = pow2 (max (binade x - 52) (- 1074))
                in of_int (round_half_even (x / u)) * u)"

definition js_mult :: "rat \<Rightarrow> rat \<Rightarrow> rat" where
  "js_mult x y = fl (x * y)"

definition js_minus :: "rat \<Rightarrow> rat \<Rightarrow> rat" where
  "js_minus x y = fl (x - y)"

definition js_plus :: "rat \<Rightarrow> rat \<Rightarrow> rat" where
  "js_plus x y = fl (x + y)"

definition js_divide :: "rat \<Rightarrow> rat \<Rightarrow> rat" where
  "js_divide x y = fl (x / y)"

text \<open>\<open>Number.MAX_SAFE_INTEGER\<close>.\<close>

definition max_safe_integer :: int where
  "max_safe_integer = 9007199254740991"

text \<open>\<open>Math.round\<close>: the nearest integer, ties towards plus infinity.\<close>

definition math_round :: "rat \<Rightarrow> int" where
  "math_round x = \<lfloor>x + 1 / 2\<rfloor>"

text \<open>
  \<open>x.toFixed(f)\<close>: \<open>None\<close> is the exponent notation that ECMA-262 prescribes from \<open>10 ^ 21\<close> on.
\<close>

definition fixed_digits :: "nat \<Rightarrow> nat \<Rightarrow> string" where
  "fixed_digits f n =
     (if f = 0 then show_nat n
      else let m = pad_start (f + 1) (show_nat n); k = length m
           in take (k - f) m @ CHR ''.'' # drop (k - f) m)"

definition to_fixed :: "nat \<Rightarrow> rat \<Rightarrow> string option" where
  "to_fixed f x =
     (if 10 ^ 21 \<le> \<bar>x\<bar> then None
      else Some ((if x < 0 then ''-'' else '''') @ fixed_digits f (nat \<lfloor>\<bar>x\<bar> * 10 ^ f + 1 / 2\<rfloor>)))"

section \<open>The rounding error\<close>

lemma pow2_pos [simp]: "0 < pow2 e"
  by (simp add: pow2_def)

lemma round_half_even_error: "\<bar>of_int (round_half_even x) - x\<bar> \<le> 1 / 2"
proof -
  have "of_int \<lfloor>x\<rfloor> \<le> x" "x < of_int \<lfloor>x\<rfloor> + 1" by linarith+
  then show ?thesis by (auto simp: round_half_even_def Let_def abs_le_iff)
qed

lemma round_half_even_of_int [simp]: "round_half_even (of_int n) = n"
  by (simp add: round_half_even_def)

lemma fl_0 [simp]: "fl 0 = 0"
  by (simp add: fl_def)

lemma fl_error:
  "\<bar>fl x - x\<bar> \<le> pow2 (max (binade x - 52) (- 1074)) / 2"
proof (cases "x = 0")
  case False
  define u where "u = pow2 (max (binade x - 52) (- 1074))"
  have u: "0 < u" by (simp add: u_def)
  have "fl x - x = (of_int (round_half_even (x / u)) - x / u) * u"
    using False u by (simp add: fl_def Let_def u_def [symmetric] field_simps)
  then have "\<bar>fl x - x\<bar> = \<bar>of_int (round_half_even (x / u)) - x / u\<bar> * u"
    using u by (simp add: abs_mult)
  also have "\<dots> \<le> 1 / 2 * u"
    using round_half_even_error u by (intro mult_right_mono) simp_all
  finally show ?thesis by (simp add: u_def)
qed (simp add: less_imp_le)

lemma math_round_error: "\<bar>of_int (math_round x) - x\<bar> \<le> 1 / 2"
  unfolding math_round_def by linarith

lemma math_round_of_int [simp]: "math_round (of_int n) = n"
  unfolding math_round_def by linarith

lemma pow2_powi: "pow2 e = 2 powi e"
  by (simp add: pow2_def power_int_def power_one_over inverse_eq_divide)

lemma pow2_add: "pow2 (a + b) = pow2 a * pow2 b"
  by (simp add: pow2_powi power_int_add)

lemma pow2_strict_mono: "a < b \<Longrightarrow> pow2 a < pow2 b"
proof -
  assume "a < b"
  then have "1 < (2 :: rat) ^ nat (b - a)" by (intro one_less_power) simp_all
  then have "1 < pow2 (b - a)" using \<open>a < b\<close> by (simp add: pow2_def)
  then have "pow2 a * 1 < pow2 a * pow2 (b - a)" by (intro mult_strict_left_mono) simp_all
  then show ?thesis by (simp add: pow2_add [symmetric])
qed

lemma pow2_less_iff [simp]: "pow2 a < pow2 b \<longleftrightarrow> a < b"
  by (metis linorder_neqE_linordered_idom order_less_asym' pow2_strict_mono)

lemma pow2_le_iff [simp]: "pow2 a \<le> pow2 b \<longleftrightarrow> a \<le> b"
  by (simp flip: linorder_not_less)

lemma pow2_nat: "pow2 (int n) = 2 ^ n"
  by (simp add: pow2_def)

lemma floorlog_two_bounds:
  assumes "0 < n"
  shows "2 ^ (floorlog 2 n - 1) \<le> n" "n < 2 ^ floorlog 2 n" "0 < floorlog 2 n"
proof -
  have "0 < floorlog 2 n" using assms by (simp add: floorlog_def)
  then show "0 < floorlog 2 n" .
  show "2 ^ (floorlog 2 n - 1) \<le> n" "n < 2 ^ floorlog 2 n"
    using assms floorlog_bounds [of n 2] by simp_all
qed

lemma binade_lower:
  assumes "x \<noteq> 0"
  shows "pow2 (binade x) \<le> \<bar>x\<bar>"
proof -
  obtain n d where q: "quotient_of \<bar>x\<bar> = (n, d)" by (cases "quotient_of \<bar>x\<bar>")
  have d: "0 < d" using quotient_of_denom_pos [OF q] .
  have "\<bar>x\<bar> = of_int n / of_int d" using quotient_of_div [OF q] .
  then have "0 < of_int n / (of_int d :: rat)" using assms by (metis zero_less_abs_iff)
  then have "0 < n" using d by (simp add: zero_less_divide_iff)
  then obtain n' d' where nd: "n = int n'" "d = int d'" "0 < n'" "0 < d'"
    using d by (metis of_nat_0_less_iff zero_less_imp_eq_int)
  have x: "\<bar>x\<bar> = of_nat n' / of_nat d'" using \<open>\<bar>x\<bar> = of_int n / of_int d\<close> by (simp add: nd)
  define p where "p = floorlog 2 n'"
  define m where "m = floorlog 2 d'"
  have p: "2 ^ (p - 1) \<le> n'" "0 < p" and m: "d' < 2 ^ m"
    using floorlog_two_bounds [of n'] floorlog_two_bounds [of d'] nd by (simp_all add: p_def m_def)
  have e: "binade x = (if pow2 (int p - int m) \<le> \<bar>x\<bar> then int p - int m else int p - int m - 1)"
    by (simp add: binade_def q Let_def p_def m_def nd)
  show ?thesis
  proof (cases "pow2 (int p - int m) \<le> \<bar>x\<bar>")
    case False
    have "of_nat (2 ^ (p - 1)) \<le> (of_nat n' :: rat)" "(of_nat d' :: rat) < of_nat (2 ^ m)"
      using p(1) m by (simp_all only: of_nat_le_iff of_nat_less_iff)
    then have b: "pow2 (int (p - 1)) \<le> of_nat n'" "of_nat d' \<le> pow2 (int m)"
      by (simp_all add: pow2_nat)
    have "pow2 (int p - int m - 1) * of_nat d' \<le> pow2 (int p - int m - 1) * pow2 (int m)"
      using b(2) by (intro mult_left_mono) (simp_all add: less_imp_le)
    also have "\<dots> = pow2 (int (p - 1))"
      using p(2) by (simp add: pow2_add [symmetric] of_nat_diff)
    also note b(1)
    finally show ?thesis
      using False nd(4) by (simp add: e x le_divide_eq)
  qed (simp add: e)
qed

lemma binade_upper_bound: "x \<noteq> 0 \<Longrightarrow> \<bar>x\<bar> < 2 ^ n \<Longrightarrow> binade x < int n"
  using binade_lower [of x] pow2_nat [of n] by (metis le_less_trans pow2_less_iff)

lemma fl_error_below:
  assumes "\<bar>x\<bar> < 2 ^ n" "n \<le> 53"
  shows "\<bar>fl x - x\<bar> \<le> pow2 (int n - 53) / 2"
proof (cases "x = 0")
  case False
  have "max (binade x - 52) (- 1074) \<le> int n - 53" using binade_upper_bound [OF False assms(1)] by simp
  then have "pow2 (max (binade x - 52) (- 1074)) \<le> pow2 (int n - 53)" by (simp only: pow2_le_iff)
  then show ?thesis using fl_error [of x] by linarith
qed (simp add: less_imp_le)

end
