(* ===== verification/Money.thy ===== *)
theory Money
  imports JsNumber
begin

text \<open>
  The money boundary of the backend, \<open>src/common/money/decimal-amount.util.ts\<close>: amounts enter as
  text, number or bigint, are converted once to minor units (an unbounded integer), computed
  exactly, and leave as decimal text. The theory holds the conversion both ways, the strict parser
  that refuses what would need rounding, the rounding division with its two modes, and the
  proportional allocation with its residue rule.
\<close>

named_theorems money_simps "definitions of the money utilities, for evaluation"

section \<open>Errors and constants\<close>

datatype money_error =
    InvalidDecimalAmountError
  | ScaleRangeError
  | UnsupportedCurrencyError
  | CurrencyMismatchError "string list"
  | AmountOutOfRangeError
  | DenominatorRangeError
  | NoPartsRangeError
  | NegativeWeightsRangeError
  | ZeroWeightsRangeError
  | PartCountRangeError

datatype rounding_mode = HALF_UP | HALF_EVEN

definition default_amount_scale :: int where "default_amount_scale = 2"
definition max_supported_scale :: int where "max_supported_scale = 12"
definition money_rounding_mode :: rounding_mode where "money_rounding_mode = HALF_UP"
definition rate_scale :: int where "rate_scale = 6"
definition numeric_18_2_max_minor :: int where "numeric_18_2_max_minor = 10 ^ 18 - 1"

definition assert_scale :: "int \<Rightarrow> money_error + unit" where
  "assert_scale scale = ensure (0 \<le> scale \<and> scale \<le> max_supported_scale) ScaleRangeError"

section \<open>Text to minor units\<close>

definition signed_text :: "string \<Rightarrow> bool" where
  "signed_text s = (case s of [] \<Rightarrow> False | c # _ \<Rightarrow> c = CHR ''+'' \<or> c = CHR ''-'')"

definition strip_sign :: "string \<Rightarrow> string" where
  "strip_sign s = (if signed_text s then tl s else s)"

definition integer_part :: "string \<Rightarrow> string" where
  "integer_part u = takeWhile (\<lambda>c. c \<noteq> CHR ''.'') u"

definition fraction_part :: "string \<Rightarrow> string" where
  "fraction_part u =
     takeWhile (\<lambda>c. c \<noteq> CHR ''.'') (drop 1 (dropWhile (\<lambda>c. c \<noteq> CHR ''.'') u))"

text \<open>The regular expression \<open>^[+-]?(?:\d+(?:\.\d*)?|\.\d+)$\<close>.\<close>

definition amount_pattern :: "string \<Rightarrow> bool" where
  "amount_pattern s =
     (let u = strip_sign s; i = takeWhile is_digit u; r = dropWhile is_digit u
      in case r of
           [] \<Rightarrow> i \<noteq> []
         | c # f \<Rightarrow> c = CHR ''.'' \<and> all_digits f \<and> (i \<noteq> [] \<or> f \<noteq> []))"

definition minor_of_text :: "string \<Rightarrow> nat \<Rightarrow> money_error + int" where
  "minor_of_text text scale =
     (if \<not> amount_pattern text then Inl InvalidDecimalAmountError
      else
        let is_negative = (case text of [] \<Rightarrow> False | c # _ \<Rightarrow> c = CHR ''-'');
            unsigned = strip_sign text;
            integer_digits = (if integer_part unsigned = [] then ''0'' else integer_part unsigned);
            padded = pad_end (scale + 1) (fraction_part unsigned);
            kept_digits = take scale padded;
            rounding_digit = padded ! scale;
            minor = int (parse_nat (integer_digits @ kept_digits));
            rounded = (if 53 \<le> code_unit rounding_digit then minor + 1 else minor)
        in Inr (if is_negative then - rounded else rounded))"

definition show_int :: "int \<Rightarrow> string" where
  "show_int n = (if n < 0 then CHR ''-'' # show_nat (nat (- n)) else show_nat (nat n))"

definition to_minor_units :: "js_value \<Rightarrow> int \<Rightarrow> money_error + int" where
  "to_minor_units value scale = and_then (assert_scale scale) (\<lambda>_.
     case value of
       JNull \<Rightarrow> Inr 0
     | JUndefined \<Rightarrow> Inr 0
     | JBigInt n \<Rightarrow> minor_of_text (show_int n) (nat scale)
     | JNumber x \<Rightarrow>
         (case x of
            Finite r \<Rightarrow>
              (case to_fixed (nat scale) r of
                 None \<Rightarrow> Inl InvalidDecimalAmountError
               | Some text \<Rightarrow> minor_of_text text (nat scale))
          | _ \<Rightarrow> Inl InvalidDecimalAmountError)
     | JString s \<Rightarrow>
         (let text = js_trim s
          in if text = [] then Inr 0 else minor_of_text text (nat scale))
     | JOther \<Rightarrow> Inl InvalidDecimalAmountError)"

definition minor_text :: "int \<Rightarrow> nat \<Rightarrow> string" where
  "minor_text minor scale =
     (let is_negative = minor < 0;
          absolute = (if is_negative then - minor else minor);
          digits = pad_start (scale + 1) (show_nat (nat absolute));
          integer_digits = take (length digits - scale) digits;
          fraction_digits = (if scale = 0 then [] else drop (length digits - scale) digits);
          sign = (if is_negative \<and> absolute \<noteq> 0 then ''-'' else [])
      in sign @ integer_digits @ (if fraction_digits \<noteq> [] then CHR ''.'' # fraction_digits else []))"

definition from_minor_units :: "int \<Rightarrow> int \<Rightarrow> money_error + string" where
  "from_minor_units minor scale =
     and_then (assert_scale scale) (\<lambda>_. Inr (minor_text minor (nat scale)))"

definition normalize_amount :: "js_value \<Rightarrow> int \<Rightarrow> money_error + string" where
  "normalize_amount value scale =
     and_then (to_minor_units value scale) (\<lambda>m. from_minor_units m scale)"

section \<open>The strict boundary\<close>

definition currency_minor_scale :: "string \<Rightarrow> int option" where
  "currency_minor_scale code = (if code = ''BOB'' then Some 2 else if code = ''USD'' then Some 2 else None)"

definition currency_scale :: "string \<Rightarrow> money_error + int" where
  "currency_scale currency =
     from_option UnsupportedCurrencyError (currency_minor_scale (to_upper (js_trim currency)))"

text \<open>\<open>[...new Set(xs)]\<close>: the distinct elements in order of first occurrence.\<close>

fun distinct_in_order :: "'a list \<Rightarrow> 'a list" where
  "distinct_in_order [] = []"
| "distinct_in_order (x # xs) = x # filter (\<lambda>y. y \<noteq> x) (distinct_in_order xs)"

definition assert_single_currency :: "string list \<Rightarrow> money_error + string" where
  "assert_single_currency currencies =
     (let codes = distinct_in_order (map (\<lambda>c. to_upper (js_trim c)) currencies)
      in case codes of
           [code] \<Rightarrow> and_then (currency_scale code) (\<lambda>_. Inr code)
         | _ \<Rightarrow> Inl (CurrencyMismatchError codes))"

definition exact_decimal_text :: "js_value \<Rightarrow> int \<Rightarrow> money_error + string" where
  "exact_decimal_text value scale =
     (case value of
        JBigInt n \<Rightarrow> Inr (show_int n)
      | JString s \<Rightarrow> Inr (js_trim s)
      | JNumber x \<Rightarrow>
          (case x of
             Finite r \<Rightarrow>
               (let factor = 10 ^ nat scale; scaled = js_mult r factor; nearest = math_round scaled
                in if of_int max_safe_integer < \<bar>scaled\<bar> then Inl AmountOutOfRangeError
                   else if fl (1 / 10 ^ 6) < \<bar>js_minus scaled (of_int nearest)\<bar>
                        then Inl AmountOutOfRangeError
                   else from_option InvalidDecimalAmountError (to_fixed (nat scale) r))
           | _ \<Rightarrow> Inl InvalidDecimalAmountError)
      | _ \<Rightarrow> Inl InvalidDecimalAmountError)"

definition parse_decimal_exact :: "js_value \<Rightarrow> int \<Rightarrow> money_error + int" where
  "parse_decimal_exact value scale =
     and_then (assert_scale scale) (\<lambda>_.
     and_then (exact_decimal_text value scale) (\<lambda>text.
     and_then (ensure (amount_pattern text) InvalidDecimalAmountError) (\<lambda>_.
       let fraction = fraction_part (strip_sign text)
       in if nat scale < length fraction \<and>
             (\<exists>c \<in> set (drop (nat scale) fraction). is_digit c \<and> c \<noteq> CHR ''0'')
          then Inl AmountOutOfRangeError
          else to_minor_units (JString text) scale)))"

record parse_money_options =
  pm_currency :: "string option"
  pm_allow_negative :: bool
  pm_allow_zero :: "bool option"
  pm_max_minor :: "int option"

definition default_options :: parse_money_options where
  "default_options =
     \<lparr>pm_currency = None, pm_allow_negative = False, pm_allow_zero = None, pm_max_minor = None\<rparr>"

definition parse_money :: "js_value \<Rightarrow> parse_money_options \<Rightarrow> money_error + int" where
  "parse_money value options =
     and_then (currency_scale (case pm_currency options of None \<Rightarrow> ''BOB'' | Some c \<Rightarrow> c)) (\<lambda>scale.
     and_then (parse_decimal_exact value scale) (\<lambda>minor.
       let max = (case pm_max_minor options of None \<Rightarrow> numeric_18_2_max_minor | Some m \<Rightarrow> m)
       in if minor < 0 \<and> \<not> pm_allow_negative options then Inl AmountOutOfRangeError
          else if minor = 0 \<and> pm_allow_zero options = Some False then Inl AmountOutOfRangeError
          else if max < minor \<or> max < - minor then Inl AmountOutOfRangeError
          else Inr minor))"

definition parse_rate_percent :: "js_value \<Rightarrow> money_error + int" where
  "parse_rate_percent value =
     and_then (parse_decimal_exact value rate_scale) (\<lambda>units.
       if units < 0 \<or> 100 * 10 ^ nat rate_scale < units then Inl AmountOutOfRangeError
       else Inr units)"

section \<open>Arithmetic on minor units\<close>

definition rounded_quotient :: "rounding_mode \<Rightarrow> int \<Rightarrow> int \<Rightarrow> int" where
  "rounded_quotient mode numerator denominator =
     (let negative = numerator < 0;
          magnitude = (if negative then - numerator else numerator);
          quotient = magnitude div denominator;
          twice_remainder = (magnitude mod denominator) * 2;
          quotient' =
            (if denominator < twice_remainder \<or>
                twice_remainder = denominator \<and> (mode = HALF_UP \<or> quotient mod 2 = 1)
             then quotient + 1 else quotient)
      in if negative then - quotient' else quotient')"

definition divide_rounded :: "int \<Rightarrow> int \<Rightarrow> rounding_mode \<Rightarrow> money_error + int" where
  "divide_rounded numerator denominator mode =
     and_then (ensure (0 < denominator) DenominatorRangeError) (\<lambda>_.
       Inr (rounded_quotient mode numerator denominator))"

definition apply_rate_percent :: "int \<Rightarrow> int \<Rightarrow> rounding_mode \<Rightarrow> money_error + int" where
  "apply_rate_percent amount_minor rate_units mode =
     divide_rounded (amount_minor * rate_units) (100 * 10 ^ nat rate_scale) mode"

definition sum_minor :: "int list \<Rightarrow> int" where
  "sum_minor values = foldl (\<lambda>total value. total + value) 0 values"

text \<open>BigInt division truncates towards zero.\<close>

definition big_div :: "int \<Rightarrow> int \<Rightarrow> int" where
  "big_div a b = sgn a * sgn b * (\<bar>a\<bar> div \<bar>b\<bar>)"

definition allocate_proportionally :: "int \<Rightarrow> int list \<Rightarrow> money_error + int list" where
  "allocate_proportionally amount weights =
     (if weights = [] then Inl NoPartsRangeError
      else if \<exists>weight \<in> set weights. weight < 0 then Inl NegativeWeightsRangeError
      else let weight_total = sum_minor weights
           in if weight_total = 0 then Inl ZeroWeightsRangeError
              else let parts = map (\<lambda>weight. big_div (amount * weight) weight_total) weights
                   in Inr (parts[0 := parts ! 0 + (amount - sum_minor parts)]))"

definition split_evenly :: "int \<Rightarrow> int \<Rightarrow> money_error + int list" where
  "split_evenly amount count =
     and_then (ensure (1 \<le> count) PartCountRangeError) (\<lambda>_.
       allocate_proportionally amount (replicate (nat count) 1))"

lemmas [money_simps] =
  assert_scale_def max_supported_scale_def to_minor_units_def from_minor_units_def
  normalize_amount_def parse_decimal_exact_def exact_decimal_text_def parse_money_def
  parse_rate_percent_def rate_scale_def currency_scale_def currency_minor_scale_def
  numeric_18_2_max_minor_def divide_rounded_def apply_rate_percent_def

section \<open>The decimal value of a text\<close>

definition text_magnitude :: "string \<Rightarrow> rat" where
  "text_magnitude u =
     of_nat (parse_nat (integer_part u)) +
     of_nat (parse_nat (fraction_part u)) / 10 ^ length (fraction_part u)"

definition text_value :: "string \<Rightarrow> rat" where
  "text_value s =
     (if s \<noteq> [] \<and> hd s = CHR ''-'' then - text_magnitude (strip_sign s)
      else text_magnitude (strip_sign s))"

definition round_half_away :: "rat \<Rightarrow> int" where
  "round_half_away x = (if x < 0 then - \<lfloor>- x + 1 / 2\<rfloor> else \<lfloor>x + 1 / 2\<rfloor>)"

lemma round_half_away_of_int [simp]: "round_half_away (of_int n) = n"
  unfolding round_half_away_def by (simp, linarith)

lemma round_half_away_minus [simp]: "round_half_away (- x) = - round_half_away x"
proof -
  have "\<lfloor>1 / 2 :: rat\<rfloor> = 0" by linarith
  then show ?thesis by (auto simp: round_half_away_def)
qed

lemma is_digit_dot [simp]: "\<not> is_digit (CHR ''.'')"
  by (simp add: is_digit_def code_unit_def)

lemma digit_ge_5: "is_digit c \<Longrightarrow> 53 \<le> code_unit c \<longleftrightarrow> 5 \<le> digit_value c"
  by (auto simp: is_digit_def digit_value_def)

lemma pattern_parts:
  assumes "amount_pattern s"
  shows "all_digits (integer_part (strip_sign s))" "all_digits (fraction_part (strip_sign s))"
proof -
  define u where "u = strip_sign s"
  define i where "i = takeWhile is_digit u"
  define r where "r = dropWhile is_digit u"
  have u: "u = i @ r" by (simp add: i_def r_def)
  have i: "\<forall>c \<in> set i. is_digit c" by (auto simp: i_def dest: set_takeWhileD)
  then have nodot: "\<forall>c \<in> set i. c \<noteq> CHR ''.''" using is_digit_dot by blast
  have "all_digits (integer_part u) \<and> all_digits (fraction_part u)"
  proof (cases r)
    case Nil
    then have "u = i" using u by simp
    moreover have "takeWhile (\<lambda>c. c \<noteq> CHR ''.'') i = i" "dropWhile (\<lambda>c. c \<noteq> CHR ''.'') i = []"
      using nodot by simp_all
    ultimately have "integer_part u = i" "fraction_part u = []"
      unfolding integer_part_def fraction_part_def by (simp_all only: drop_Nil takeWhile.simps)
    then show ?thesis using i by (simp add: all_digits_def list_all_iff)
  next
    case (Cons c f)
    with assms have f: "c = CHR ''.''" "all_digits f"
      by (auto simp: amount_pattern_def Let_def r_def u_def)
    then have "takeWhile (\<lambda>c. c \<noteq> CHR ''.'') f = f"
      using all_digits_no_dot [OF f(2)] by simp
    moreover have "takeWhile (\<lambda>c. c \<noteq> CHR ''.'') u = i" "dropWhile (\<lambda>c. c \<noteq> CHR ''.'') u = r"
      unfolding u using nodot Cons f(1) by (simp_all add: takeWhile_append2 dropWhile_append2)
    ultimately have "integer_part u = i" "fraction_part u = f"
      unfolding integer_part_def fraction_part_def by (simp_all add: Cons)
    then show ?thesis using f i by (simp add: all_digits_def list_all_iff)
  qed
  then show "all_digits (integer_part (strip_sign s))" "all_digits (fraction_part (strip_sign s))"
    by (simp_all add: u_def)
qed

lemma rounded_digits:
  assumes digits: "all_digits s" and k: "k < length s"
  shows "\<lfloor>of_nat (parse_nat s) / 10 ^ length s * 10 ^ k + (1 / 2 :: rat)\<rfloor> =
    int (parse_nat (take k s)) + (if 5 \<le> digit_value (s ! k) then 1 else 0)"
proof -
  define m where "m = length s - k - 1"
  define a where "a = parse_nat (take k s)"
  define d where "d = digit_value (s ! k)"
  define r where "r = parse_nat (drop (Suc k) s)"
  have len: "length s = k + Suc m" using k by (simp add: m_def)
  have dr: "length (drop (Suc k) s) = m" by (simp add: len)
  have "parse_nat (take k s @ (s ! k) # drop (Suc k) s) = a * 10 ^ Suc m + (d * 10 ^ m + r)"
    by (simp add: parse_nat_append parse_nat_Cons a_def d_def r_def len)
  then have p: "parse_nat s = a * 10 ^ Suc m + (d * 10 ^ m + r)"
    by (simp only: id_take_nth_drop [OF k, symmetric])
  have "r < 10 ^ m" using parse_nat_bound [of "drop (Suc k) s"] digits dr by (simp add: r_def)
  then have "(of_nat r :: rat) < of_nat (10 ^ m)" by (simp only: of_nat_less_iff)
  then have r: "(of_nat r :: rat) < 10 ^ m" "0 \<le> (of_nat r :: rat)" by simp_all
  have "is_digit (s ! k)" using digits k by (simp add: all_digits_def list_all_length)
  then have d: "d < 10" using digit_value_lt by (simp add: d_def)
  let ?x = "of_nat (parse_nat s) / 10 ^ length s * 10 ^ k :: rat"
  have x: "?x = of_nat a + (of_nat d + of_nat r / 10 ^ m) / 10"
    unfolding p len by (simp add: field_simps power_add)
  define y where "y = (of_nat r :: rat) / 10 ^ m"
  have q: "0 \<le> y" "y < 1" using r by (simp_all add: y_def)
  define e where "e = (of_nat d :: rat)"
  have five: "5 \<le> d \<Longrightarrow> 5 \<le> e" and four: "\<not> 5 \<le> d \<Longrightarrow> e \<le> 4" and nine: "e \<le> 9" "0 \<le> e"
    using of_nat_le_iff [of 5 d, where 'a = rat] of_nat_le_iff [of d 4, where 'a = rat]
      of_nat_le_iff [of d 9, where 'a = rat] d by (simp_all add: e_def)
  have "\<lfloor>of_nat a + (e + y) / 10 + 1 / 2\<rfloor> = int a + (if 5 \<le> d then 1 else 0)"
  proof (rule floor_unique)
    show "of_int (int a + (if 5 \<le> d then 1 else 0)) \<le> of_nat a + (e + y) / 10 + 1 / 2"
      using q five nine by (cases "5 \<le> d") (simp_all add: add_divide_distrib)
    show "of_nat a + (e + y) / 10 + 1 / 2 < of_int (int a + (if 5 \<le> d then 1 else 0)) + 1"
      using q nine four by (cases "5 \<le> d") (simp_all add: add_divide_distrib)
  qed
  then have "\<lfloor>?x + 1 / 2\<rfloor> = int a + (if 5 \<le> d then 1 else 0)" unfolding x y_def e_def .
  then show ?thesis by (simp add: a_def d_def)
qed

lemma padded_value:
  "(of_nat (parse_nat (pad_end n f)) :: rat) / 10 ^ length (pad_end n f) = of_nat (parse_nat f) / 10 ^ length f"
  by (simp add: pad_end_def parse_nat_append power_add)

text \<open>The conversion is exactly rounding half away from zero of the decimal value.\<close>

lemma minor_of_text_value:
  assumes "amount_pattern s"
  shows "minor_of_text s k = Inr (round_half_away (text_value s * 10 ^ k))"
proof -
  define u where "u = strip_sign s"
  define f where "f = pad_end (k + 1) (fraction_part u)"
  define i where "i = (if integer_part u = [] then ''0'' else integer_part u)"
  note parts = pattern_parts [OF assms, folded u_def]
  have pi: "parse_nat i = parse_nat (integer_part u)"
    by (simp add: i_def parse_nat_Cons digit_value_def code_unit_def)
  have f: "all_digits f" "k < length f" using parts(2) by (simp_all add: f_def)
  then have fk: "is_digit (f ! k)" by (simp add: all_digits_def list_all_length)
  let ?minor = "int (parse_nat (i @ take k f))"
  let ?rounded = "if 53 \<le> code_unit (f ! k) then ?minor + 1 else ?minor"
  have "length (take k f) = k" using f(2) by simp
  then have "?rounded = int (parse_nat i) * 10 ^ k + (int (parse_nat (take k f)) + (if 5 \<le> digit_value (f ! k) then 1 else 0))"
    by (simp add: parse_nat_append digit_ge_5 [OF fk])
  also have "\<dots> = \<lfloor>of_int (int (parse_nat i) * 10 ^ k) + (of_nat (parse_nat f) / 10 ^ length f * 10 ^ k + (1 / 2 :: rat))\<rfloor>"
    using rounded_digits [OF f] by (simp only: floor_add_int [symmetric] int_add_floor [symmetric])
  also have "of_int (int (parse_nat i) * 10 ^ k) + (of_nat (parse_nat f) / 10 ^ length f * 10 ^ k + (1 / 2 :: rat)) = text_magnitude u * 10 ^ k + 1 / 2"
    using padded_value [of "k + 1" "fraction_part u"]
    by (simp add: text_magnitude_def f_def pi distrib_right)
  finally have rounded: "?rounded = \<lfloor>text_magnitude u * 10 ^ k + 1 / 2\<rfloor>" .
  have nonneg: "0 \<le> text_magnitude u * 10 ^ k" by (simp add: text_magnitude_def)
  have abs_case: "round_half_away (text_magnitude u * 10 ^ k) = \<lfloor>text_magnitude u * 10 ^ k + 1 / 2\<rfloor>"
    using nonneg by (simp add: round_half_away_def)
  have "minor_of_text s k = Inr (if (case s of [] \<Rightarrow> False | c # _ \<Rightarrow> c = CHR ''-'') then - ?rounded else ?rounded)"
    using assms by (simp add: minor_of_text_def Let_def u_def f_def i_def)
  then show ?thesis
    unfolding rounded abs_case [symmetric]
    by (simp add: text_value_def u_def [symmetric] neq_Nil_conv split: list.splits)
qed

section \<open>Conversion from text\<close>

lemma to_minor_units_text:
  assumes "amount_pattern (js_trim s)" "0 \<le> scale" "scale \<le> 12"
  shows "to_minor_units (JString s) scale = Inr (round_half_away (text_value (js_trim s) * 10 ^ nat scale))"
proof -
  have "js_trim s \<noteq> []" using assms(1) by (auto simp: amount_pattern_def strip_sign_def signed_text_def)
  then show ?thesis
    using assms by (simp add: to_minor_units_def assert_scale_def max_supported_scale_def minor_of_text_value Let_def)
qed

section \<open>Rendering\<close>

lemma take_drop_digits: "all_digits d \<Longrightarrow> all_digits (take k d) \<and> all_digits (drop k d)"
  by simp

lemma minus_not_digit [simp]: "\<not> is_digit (CHR ''-'')" "\<not> is_digit (CHR ''+'')"
  by (simp_all add: is_digit_def code_unit_def)

lemma amount_marks_no_space [simp]:
  "\<not> js_space (CHR ''.'')" "\<not> js_space (CHR ''-'')" "\<not> js_space (CHR ''+'')"
  by (simp_all add: js_space_def code_unit_def)

lemma digits_split:
  assumes "all_digits i" "all_digits f" "i \<noteq> []"
  defines "u \<equiv> i @ (if f \<noteq> [] then CHR ''.'' # f else [])"
  shows "integer_part u = i" "fraction_part u = f" "signed_text u = False"
    "takeWhile is_digit u = i" "dropWhile is_digit u = (if f \<noteq> [] then CHR ''.'' # f else [])"
proof -
  have i: "\<forall>c \<in> set i. c \<noteq> CHR ''.''" "\<forall>c \<in> set f. c \<noteq> CHR ''.''" using assms(1,2) all_digits_no_dot by blast+
  have d: "\<forall>c \<in> set i. is_digit c" using assms(1) by (simp add: all_digits_def list_all_iff)
  show "integer_part u = i" "fraction_part u = f"
    using i by (auto simp: integer_part_def fraction_part_def u_def takeWhile_append2 dropWhile_append2)
  show "takeWhile is_digit u = i" "dropWhile is_digit u = (if f \<noteq> [] then CHR ''.'' # f else [])"
    using d by (auto simp: u_def takeWhile_append2 dropWhile_append2)
  show "signed_text u = False"
    using assms(1,3) by (cases i) (auto simp: u_def signed_text_def all_digits_def)
qed

text \<open>What \<open>from_minor_units\<close> writes: a canonical amount text with exactly the value it was given.\<close>

lemma minor_text_facts:
  shows minor_text_pattern: "amount_pattern (minor_text m k)"
    and minor_text_value: "text_value (minor_text m k) = of_int m / 10 ^ k"
    and minor_text_no_space: "\<forall>c \<in> set (minor_text m k). \<not> js_space c"
    and minor_text_fraction: "length (fraction_part (strip_sign (minor_text m k))) = k"
proof -
  define d where "d = pad_start (k + 1) (show_nat (nat \<bar>m\<bar>))"
  define i where "i = take (length d - k) d"
  define f where "f = drop (length d - k) d"
  define u where "u = i @ (if f \<noteq> [] then CHR ''.'' # f else [])"
  have d: "all_digits d" "k < length d" by (simp_all add: d_def)
  then have "d \<noteq> []" by auto
  with d have dg: "all_digits i" "all_digits f" "i \<noteq> []" "length f = k"
    by (simp_all add: i_def f_def) 
  note parts = digits_split [OF dg(1-3), folded u_def]
  have u: "u \<noteq> []" "hd u \<noteq> CHR ''-''" using dg(1,3) by (cases i; auto simp: u_def all_digits_def)+
  have shown: "minor_text m k = (if m < 0 then CHR ''-'' # u else u)"
    using dg(4) by (auto simp: minor_text_def Let_def u_def d_def i_def f_def abs_if)
  have "signed_text (CHR ''-'' # u)" by (simp add: signed_text_def)
  then have strip: "strip_sign (minor_text m k) = u" using parts(3) by (simp add: shown strip_sign_def)
  show "amount_pattern (minor_text m k)"
    using parts(4,5) dg by (simp add: amount_pattern_def strip Let_def)
  show "length (fraction_part (strip_sign (minor_text m k))) = k"
    by (simp add: strip parts dg(4))
  have "parse_nat i * 10 ^ k + parse_nat f = parse_nat d"
    using parse_nat_append [of i f] by (simp add: dg(4)) (simp add: i_def f_def)
  then have "of_nat (parse_nat d) = (of_nat (parse_nat i) * 10 ^ k + of_nat (parse_nat f) :: rat)"
    by (metis of_nat_add of_nat_mult of_nat_numeral of_nat_power)
  moreover have "parse_nat d = nat \<bar>m\<bar>" by (simp add: d_def)
  ultimately have "text_magnitude u = of_int \<bar>m\<bar> / 10 ^ k"
    unfolding text_magnitude_def parts dg(4) by (simp add: field_simps)
  then show "text_value (minor_text m k) = of_int m / 10 ^ k"
    unfolding text_value_def strip using u by (auto simp: shown)
  show "\<forall>c \<in> set (minor_text m k). \<not> js_space c"
    using all_digits_no_space [OF dg(1)] all_digits_no_space [OF dg(2)]
    by (auto simp: shown u_def)
qed

lemma to_minor_units_minor_text:
  "0 \<le> scale \<Longrightarrow> scale \<le> 12 \<Longrightarrow> to_minor_units (JString (minor_text m (nat scale))) scale = Inr m"
  using minor_text_pattern [of m "nat scale"] js_trim_id [OF minor_text_no_space [of m "nat scale"]]
  by (simp add: to_minor_units_text minor_text_value)

lemma pattern_trim:
  assumes "amount_pattern s"
  shows "js_trim s = s"
proof (rule js_trim_id, intro ballI)
  fix c assume c: "c \<in> set s"
  define u where "u = strip_sign s"
  have u: "u = takeWhile is_digit u @ dropWhile is_digit u" by simp
  have "is_digit c \<or> c = CHR ''.''" if "c \<in> set u" for c
  proof (cases "c \<in> set (takeWhile is_digit u)")
    case False
    with that u have "c \<in> set (dropWhile is_digit u)" by (metis UnE set_append)
    with assms show ?thesis
      by (auto simp: amount_pattern_def Let_def u_def [symmetric] all_digits_def list_all_iff split: list.splits)
  qed (auto dest: set_takeWhileD)
  moreover have "c \<in> set u \<or> c = CHR ''+'' \<or> c = CHR ''-''"
    using c by (cases s) (auto simp: u_def strip_sign_def signed_text_def split: if_splits)
  ultimately show "\<not> js_space c" using is_digit_not_space amount_marks_no_space by metis
qed

text \<open>The strict parser never rounds: it returns exactly the decimal value, or refuses.\<close>

lemma nonzero_tail_value:
  assumes "all_digits s"
  shows "(\<exists>c \<in> set s. is_digit c \<and> c \<noteq> CHR ''0'') \<longleftrightarrow> parse_nat s \<noteq> 0"
  using assms
proof (induction s)
  case (Cons c s)
  have "is_digit c \<Longrightarrow> (c \<noteq> CHR ''0'') = (digit_value c \<noteq> 0)"
    using digit_char_value [of c] digit_char_value [of "CHR ''0''"]
    by (auto simp: digit_value_def code_unit_def is_digit_def)
  then show ?case using Cons by (auto simp: parse_nat_Cons all_digits_def)
qed simp

lemma integral_fraction:
  assumes "all_digits f"
  shows "of_nat (parse_nat f) / 10 ^ length f * (10 :: rat) ^ k \<in> \<int> \<longleftrightarrow> parse_nat (drop k f) = 0"
proof (cases "k \<le> length f")
  case False
  then have "(10 :: rat) ^ k = 10 ^ length f * 10 ^ (k - length f)" by (simp flip: power_add)
  then have "of_nat (parse_nat f) / 10 ^ length f * (10 :: rat) ^ k = of_nat (parse_nat f * 10 ^ (k - length f))"
    by simp
  with False show ?thesis by (simp del: of_nat_mult)
next
  case True
  define n where "n = length f - k"
  have len: "length f = k + n" using True by (simp add: n_def)
  define a where "a = parse_nat (take k f)"
  define b where "b = parse_nat (drop k f)"
  have "parse_nat f = a * 10 ^ n + b"
    using parse_nat_append [of "take k f" "drop k f"] by (simp add: a_def b_def len)
  then have x: "of_nat (parse_nat f) / 10 ^ length f * (10 :: rat) ^ k = of_nat a + of_nat b / 10 ^ n"
    by (simp add: len power_add field_simps)
  have "b < 10 ^ n" using parse_nat_bound [of "drop k f"] assms by (simp add: b_def n_def)
  then have "(of_nat b :: rat) < of_nat (10 ^ n)" by (simp only: of_nat_less_iff)
  then have b: "0 \<le> (of_nat b :: rat) / 10 ^ n" "(of_nat b :: rat) / 10 ^ n < 1" by simp_all
  have "of_nat b / 10 ^ n \<in> (\<int> :: rat set) \<longleftrightarrow> b = 0"
  proof
    assume "of_nat b / 10 ^ n \<in> (\<int> :: rat set)"
    then obtain z where z: "(of_nat b :: rat) / 10 ^ n = of_int z" by (rule Ints_cases)
    with b have "z = 0" by simp
    with z show "b = 0" by simp
  qed simp
  then show ?thesis unfolding x b_def [symmetric] by simp
qed

lemma parse_decimal_exact_text:
  assumes "amount_pattern (js_trim s)" "0 \<le> scale" "scale \<le> 12"
  shows "parse_decimal_exact (JString s) scale =
    (if text_value (js_trim s) * 10 ^ nat scale \<in> \<int>
     then Inr \<lfloor>text_value (js_trim s) * 10 ^ nat scale\<rfloor> else Inl AmountOutOfRangeError)"
proof -
  define t where "t = js_trim s"
  define k where "k = nat scale"
  define f where "f = fraction_part (strip_sign t)"
  have f: "all_digits f" using pattern_parts(2) assms(1) by (simp add: f_def t_def)
  have trim: "js_trim t = t" using pattern_trim [OF assms(1)] by (simp add: t_def)
  have mag: "text_magnitude (strip_sign t) * 10 ^ k \<in> \<int> \<longleftrightarrow> parse_nat (drop k f) = 0"
    using integral_fraction [OF f, of k]
    by (simp add: text_magnitude_def f_def distrib_right)
  then have int: "text_value t * 10 ^ k \<in> \<int> \<longleftrightarrow> parse_nat (drop k f) = 0"
    by (simp add: text_value_def)
  have cond: "(k < length f \<and> (\<exists>c \<in> set (drop k f). is_digit c \<and> c \<noteq> CHR ''0'')) \<longleftrightarrow> parse_nat (drop k f) \<noteq> 0"
    using nonzero_tail_value [of "drop k f"] f by (cases "k < length f") auto
  have run: "parse_decimal_exact (JString s) scale =
    (if parse_nat (drop k f) \<noteq> 0 then Inl AmountOutOfRangeError
     else to_minor_units (JString t) scale)"
    using assms cond
    by (simp add: parse_decimal_exact_def exact_decimal_text_def assert_scale_def max_supported_scale_def
        Let_def t_def [symmetric] f_def [symmetric] k_def [symmetric])
  show ?thesis
  proof (cases "text_value t * 10 ^ k \<in> \<int>")
    case True
    then obtain z where z: "text_value t * 10 ^ k = of_int z" by (rule Ints_cases)
    then have "to_minor_units (JString t) scale = Inr z"
      using to_minor_units_text [of t scale] assms trim by (simp add: t_def k_def)
    with True int run z show ?thesis by (simp add: t_def k_def)
  next
    case False
    with int run show ?thesis by (simp add: t_def k_def)
  qed
qed

section \<open>Rounding division\<close>

text \<open>
  The contract the callers of \<open>divideRounded\<close> rely on, whatever the mode: the result is a nearest
  multiple and the rule treats both signs alike.
\<close>

locale nearest_rounding =
  fixes rnd :: "int \<Rightarrow> int \<Rightarrow> int"
  assumes nearest: "0 < d \<Longrightarrow> 2 * \<bar>rnd n d * d - n\<bar> \<le> d"
    and symmetric: "0 < d \<Longrightarrow> rnd (- n) d = - rnd n d"
begin

lemma near:
  assumes "0 < d"
  shows "2 * (rnd n d * d) \<le> 2 * n + d" "2 * n \<le> 2 * (rnd n d * d) + d"
  using nearest [OF assms, of n] by (auto simp: abs_if split: if_splits)

lemma unique:
  assumes "0 < d" "2 * \<bar>q * d - n\<bar> < d"
  shows "rnd n d = q"
proof -
  have "2 * (q * d) < 2 * n + d" "2 * n < 2 * (q * d) + d"
    using assms(2) by (auto simp: abs_if split: if_splits)
  then have "\<bar>(rnd n d - q) * d\<bar> < d"
    using near [OF assms(1), of n] by (auto simp: left_diff_distrib abs_if)
  then have "\<bar>rnd n d - q\<bar> * d < 1 * d" using assms(1) by (simp add: abs_mult)
  then have "\<bar>rnd n d - q\<bar> < 1" using assms(1) by (simp only: mult_less_cancel_right_pos)
  then show ?thesis by simp
qed

lemma exact: "0 < d \<Longrightarrow> rnd (q * d) d = q"
  by (rule unique) simp_all

lemma monotone:
  assumes "0 < d" "m \<le> n"
  shows "rnd m d \<le> rnd n d"
proof (cases "m = n")
  case False
  have "(rnd m d - rnd n d) * d < 1 * d"
    using near(1) [OF assms(1), of m] near(2) [OF assms(1), of n] False assms(2)
    by (simp add: left_diff_distrib)
  then have "rnd m d - rnd n d < 1" using assms(1) by (simp only: mult_less_cancel_right_pos)
  then show ?thesis by simp
qed simp

lemma bounds:
  assumes "0 < d" "lo * d \<le> n" "n \<le> hi * d"
  shows "lo \<le> rnd n d" "rnd n d \<le> hi"
  using monotone [OF assms(1,2)] monotone [OF assms(1,3)] exact [OF assms(1)] by simp_all

end

lemma rounded_quotient_minus:
  "0 < d \<Longrightarrow> rounded_quotient mode (- n) d = - rounded_quotient mode n d"
  by (cases "n = 0") (auto simp: rounded_quotient_def Let_def)

lemma rounded_quotient_nonneg:
  assumes "0 < d" "0 \<le> n"
  shows "2 * \<bar>rounded_quotient mode n d * d - n\<bar> \<le> d"
proof -
  define q where "q = n div d"
  define r where "r = n mod d"
  have n: "n = q * d + r" by (simp add: q_def r_def)
  have r: "0 \<le> r" "r < d" using assms(1) by (simp_all add: r_def)
  have "rounded_quotient mode n d =
    (if d < r * 2 \<or> r * 2 = d \<and> (mode = HALF_UP \<or> q mod 2 = 1) then q + 1 else q)"
    using assms(2) by (simp add: rounded_quotient_def Let_def q_def r_def)
  then show ?thesis unfolding n using r by (auto simp: distrib_right)
qed

interpretation rounding: nearest_rounding "rounded_quotient mode" for mode
proof
  fix d n :: int assume d: "0 < d"
  show "rounded_quotient mode (- n) d = - rounded_quotient mode n d"
    using d by (rule rounded_quotient_minus)
  show "2 * \<bar>rounded_quotient mode n d * d - n\<bar> \<le> d"
  proof (cases "0 \<le> n")
    case False
    then have "2 * \<bar>rounded_quotient mode (- n) d * d - - n\<bar> \<le> d"
      using d by (intro rounded_quotient_nonneg) simp_all
    then show ?thesis by (simp add: rounded_quotient_minus [OF d] abs_minus_commute)
  qed (rule rounded_quotient_nonneg [OF d])
qed

text \<open>Ties: away from zero under \<open>HALF_UP\<close>, to the even quotient under \<open>HALF_EVEN\<close>.\<close>

lemma rounded_quotient_tie:
  assumes "0 < d" "0 \<le> n" "2 * (n mod d) = d"
  shows "rounded_quotient HALF_UP n d = n div d + 1"
    "even (rounded_quotient HALF_EVEN n d)"
proof -
  have r: "n mod d * 2 = d" using assms(3) by (simp add: mult.commute)
  have lt: "(d < n mod d * 2) = False" by (simp only: r less_irrefl)
  have neg: "(n < 0) = False" using assms(2) by simp
  have "rounded_quotient mode n d =
    (if mode = HALF_UP \<or> n div d mod 2 = 1 then n div d + 1 else n div d)" for mode
    unfolding rounded_quotient_def Let_def neg by (simp only: lt r less_irrefl simp_thms if_False)
  then show "rounded_quotient HALF_UP n d = n div d + 1" "even (rounded_quotient HALF_EVEN n d)"
    by (simp_all add: odd_iff_mod_2_eq_one [symmetric])
qed

section \<open>Proportional allocation\<close>

lemma sum_minor_eq [simp]: "sum_minor xs = sum_list xs"
proof -
  have "foldl (\<lambda>t v. t + v) a xs = a + sum_list xs" for a
    by (induction xs arbitrary: a) simp_all
  then show ?thesis by (simp add: sum_minor_def)
qed

lemma sum_list_update_first:
  "xs \<noteq> [] \<Longrightarrow> sum_list (xs[0 := x]) = (x :: int) + sum_list (tl xs)"
  by (cases xs) simp_all

lemma big_div_error:
  assumes "0 < W"
  shows "\<bar>W * big_div a W - a\<bar> < W" "0 \<le> a \<Longrightarrow> W * big_div a W \<le> a" "0 \<le> a \<Longrightarrow> 0 \<le> big_div a W"
proof -
  have *: "W * (\<bar>a\<bar> div W) = \<bar>a\<bar> - \<bar>a\<bar> mod W" by (simp add: minus_mod_eq_mult_div [symmetric])
  have m: "0 \<le> \<bar>a\<bar> mod W" "\<bar>a\<bar> mod W < W" using assms by simp_all
  show "0 \<le> a \<Longrightarrow> W * big_div a W \<le> a" "0 \<le> a \<Longrightarrow> 0 \<le> big_div a W"
    using assms * m by (auto simp: big_div_def sgn_if pos_imp_zdiv_nonneg_iff)
  show "\<bar>W * big_div a W - a\<bar> < W"
    using assms * m by (auto simp: big_div_def sgn_if abs_if split: if_splits)
qed

lemma allocate_proportionally_eq_Inr:
  "allocate_proportionally amount weights = Inr parts \<longleftrightarrow>
   weights \<noteq> [] \<and> (\<forall>w \<in> set weights. 0 \<le> w) \<and> sum_list weights \<noteq> 0 \<and>
   parts = (let qs = map (\<lambda>w. big_div (amount * w) (sum_list weights)) weights
            in qs[0 := qs ! 0 + (amount - sum_list qs)])"
  by (auto simp: allocate_proportionally_def Let_def split: if_splits dest: leD)

lemma allocation_total:
  assumes "allocate_proportionally amount weights = Inr parts"
  shows "sum_list parts = amount" "length parts = length weights"
proof -
  from assms have "weights \<noteq> []" by (simp add: allocate_proportionally_eq_Inr)
  then obtain w ws where "weights = w # ws" by (cases weights) auto
  with assms show "sum_list parts = amount" "length parts = length weights"
    by (simp_all add: allocate_proportionally_eq_Inr Let_def)
qed

text \<open>Every part but the first is within one minor unit of its exact share.\<close>

lemma allocation_share:
  assumes "allocate_proportionally amount weights = Inr parts" "0 < i" "i < length weights"
  shows "\<bar>sum_list weights * parts ! i - amount * weights ! i\<bar> < sum_list weights"
proof -
  define W where "W = sum_list weights"
  from assms have w: "\<forall>w \<in> set weights. 0 \<le> w" "W \<noteq> 0"
    and p: "parts ! i = big_div (amount * weights ! i) W"
    by (auto simp: allocate_proportionally_eq_Inr Let_def W_def)
  have "0 \<le> W" unfolding W_def using w(1) by (intro sum_list_nonneg) blast
  with w(2) have "0 < W" by simp
  then show ?thesis unfolding p W_def [symmetric] by (rule big_div_error(1))
qed

lemma allocation_nonneg:
  assumes "allocate_proportionally amount weights = Inr parts" "0 \<le> amount" "p \<in> set parts"
  shows "0 \<le> p" "p \<le> amount"
proof -
  define W where "W = sum_list weights"
  define qs where "qs = map (\<lambda>w. big_div (amount * w) W) weights"
  from assms have w: "weights \<noteq> []" "\<forall>w \<in> set weights. 0 \<le> w" "W \<noteq> 0"
    and parts: "parts = qs[0 := qs ! 0 + (amount - sum_list qs)]"
    by (auto simp: allocate_proportionally_eq_Inr Let_def W_def qs_def)
  have "0 \<le> W" unfolding W_def using w(2) by (intro sum_list_nonneg) blast
  with w(3) have W: "0 < W" by simp
  have aw: "0 \<le> amount * w" if "w \<in> set weights" for w using that w(2) assms(2) by simp
  have q: "0 \<le> q" if "q \<in> set qs" for q
    using that big_div_error(3) [OF W] aw by (auto simp: qs_def)
  have "W * sum_list qs = sum_list (map (\<lambda>w. W * big_div (amount * w) W) weights)"
    by (simp add: qs_def sum_list_const_mult)
  also have "\<dots> \<le> sum_list (map (\<lambda>w. amount * w) weights)"
    using big_div_error(2) [OF W] aw by (intro sum_list_map_le) blast
  also have "\<dots> = W * amount" by (simp add: W_def sum_list_const_mult)
  finally have total: "sum_list qs \<le> amount" using W by simp
  have nonneg: "0 \<le> p" if "p \<in> set parts" for p
  proof -
    have "qs \<noteq> []" using w(1) by (simp add: qs_def)
    then have "0 \<le> qs ! 0" using q by (simp add: nth_mem)
    moreover have "p \<in> insert (qs ! 0 + (amount - sum_list qs)) (set qs)"
      using that set_update_subset_insert unfolding parts by (rule rev_subsetD)
    ultimately show ?thesis using q total by auto
  qed
  have "p \<le> sum_list parts"
    using assms(3) nonneg by (induction parts) (auto simp: add_increasing2 sum_list_nonneg add_increasing)
  with allocation_total(1) [OF assms(1)] show "0 \<le> p" "p \<le> amount" using nonneg assms(3) by auto
qed

lemma split_evenly_eq:
  assumes "0 \<le> amount" "1 \<le> count"
  shows "split_evenly amount count =
    Inr ((amount div count + amount mod count) # replicate (nat count - 1) (amount div count))"
proof -
  obtain k where k: "nat count = Suc k" using assms(2) by (cases "nat count") auto
  have c: "int k = count - 1" using k assms(2) by linarith
  have q: "big_div amount count = amount div count"
    using assms by (auto simp: big_div_def sgn_if)
  have "amount - count * (amount div count) = amount mod count"
    by (simp add: minus_mult_div_eq_mod)
  then have m: "amount - (count - 1) * (amount div count) = amount div count + amount mod count"
    by (simp add: left_diff_distrib)
  show ?thesis
    using assms m
    by (simp add: split_evenly_def allocate_proportionally_def k c q Let_def sum_list_replicate)
qed

section \<open>Properties\<close>

text \<open>An amount text is converted to minor units by rounding its decimal value half away from
  zero at the requested scale; no digit of the text is otherwise lost.\<close>

theorem to_minor_units_rounds_half_away:
  assumes "amount_pattern (js_trim s)" and "0 \<le> scale" and "scale \<le> max_supported_scale"
  shows "to_minor_units (JString s) scale =
    Inr (round_half_away (text_value (js_trim s) * 10 ^ nat scale))"
  using assms by (simp add: to_minor_units_text max_supported_scale_def)

theorem to_minor_units_rounds_half_away_witness:
  "to_minor_units (JString '' -12.345 '') 2 = Inr (round_half_away (text_value ''-12.345'' * 100))
   \<and> to_minor_units (JString '' -12.345 '') 2 = Inr (-1235)"
proof -
  have t: "js_trim '' -12.345 '' = ''-12.345''" by code_simp
  have "amount_pattern (js_trim '' -12.345 '')" by code_simp
  then have "to_minor_units (JString '' -12.345 '') 2 = Inr (round_half_away (text_value (js_trim '' -12.345 '') * 10 ^ nat 2))"
    by (rule to_minor_units_rounds_half_away) (simp_all add: max_supported_scale_def)
  moreover have "to_minor_units (JString '' -12.345 '') 2 = Inr (-1235)" by code_simp
  ultimately show ?thesis by (simp add: t)
qed

text \<open>C31: rendering minor units and reading the text back yields the same amount at every scale,
  and normalising a rendered amount leaves the text unchanged.\<close>

theorem minor_units_roundtrip:
  assumes "0 \<le> scale" and "scale \<le> max_supported_scale"
  shows "and_then (from_minor_units m scale) (\<lambda>text. to_minor_units (JString text) scale) = Inr m
    \<and> and_then (from_minor_units m scale) (\<lambda>text. parse_decimal_exact (JString text) scale) = Inr m
    \<and> and_then (from_minor_units m scale) (\<lambda>text. normalize_amount (JString text) scale) = from_minor_units m scale"
proof -
  have trim: "js_trim (minor_text m (nat scale)) = minor_text m (nat scale)"
    by (rule js_trim_id [OF minor_text_no_space])
  have "from_minor_units m scale = Inr (minor_text m (nat scale))"
    using assms by (simp add: from_minor_units_def assert_scale_def)
  then show ?thesis
    using assms to_minor_units_minor_text [of scale m] trim minor_text_pattern [of m "nat scale"]
    by (simp add: max_supported_scale_def parse_decimal_exact_text minor_text_value normalize_amount_def)
qed

theorem minor_units_roundtrip_witness:
  "and_then (from_minor_units (-5) 2) (\<lambda>text. to_minor_units (JString text) 2) = Inr (-5)"
  using minor_units_roundtrip [of 2 "-5"] by (simp add: max_supported_scale_def)

text \<open>The strict parser accepts a well-formed text exactly when its value has no digit below
  the scale, and then returns that value; otherwise it refuses instead of rounding.\<close>

theorem parse_decimal_exact_never_rounds:
  assumes "amount_pattern (js_trim s)" and "0 \<le> scale" and "scale \<le> max_supported_scale"
  shows "parse_decimal_exact (JString s) scale =
    (let v = text_value (js_trim s) * 10 ^ nat scale
     in if v \<in> \<int> then Inr \<lfloor>v\<rfloor> else Inl AmountOutOfRangeError)"
  using assms by (simp add: parse_decimal_exact_text max_supported_scale_def Let_def)

theorem parse_decimal_exact_never_rounds_witness:
  "parse_decimal_exact (JString ''0.105'') 2 = Inl AmountOutOfRangeError \<and>
   text_value ''0.105'' * 10 ^ 2 \<notin> \<int>"
proof -
  have *: "amount_pattern (js_trim ''0.105'')" "js_trim ''0.105'' = ''0.105''"
    "parse_decimal_exact (JString ''0.105'') 2 = Inl AmountOutOfRangeError" by code_simp+
  from parse_decimal_exact_never_rounds [OF *(1), of 2] *(2,3) show ?thesis
    by (auto simp: max_supported_scale_def Let_def split: if_splits)
qed

text \<open>C32: what the money boundary lets through: a text is read as \<open>m\<close> cents exactly when the currency is one of the two the
  company uses (both with two decimals), the text is a well-formed decimal whose exact value is \<open>m\<close> hundredths (no digit
  below the cent is ever rounded away), \<open>m\<close> is within the bound of the caller or else of a \<open>numeric(18,2)\<close> column, and its
  sign and zero are allowed. What is written to such a column is read back as the same cents.\<close>

theorem parse_money_in_range:
  "(parse_money (JString s) options = Inr m \<longleftrightarrow>
      to_upper (js_trim (case pm_currency options of None \<Rightarrow> ''BOB'' | Some c \<Rightarrow> c)) \<in> {''BOB'', ''USD''}
      \<and> amount_pattern (js_trim s) \<and> text_value (js_trim s) = of_int m / 100
      \<and> \<bar>m\<bar> \<le> (case pm_max_minor options of None \<Rightarrow> 10 ^ 18 - 1 | Some k \<Rightarrow> k)
      \<and> (0 \<le> m \<or> pm_allow_negative options) \<and> (m \<noteq> 0 \<or> pm_allow_zero options \<noteq> Some False))
    \<and> (parse_money (JString s) options = Inr m \<longrightarrow> parse_money (JString (minor_text m 2)) options = Inr m)"
proof -
  let ?code = "to_upper (js_trim (case pm_currency options of None \<Rightarrow> ''BOB'' | Some c \<Rightarrow> c))"
  let ?max = "case pm_max_minor options of None \<Rightarrow> 10 ^ 18 - 1 | Some k \<Rightarrow> k"
  have scale: "currency_scale (case pm_currency options of None \<Rightarrow> ''BOB'' | Some c \<Rightarrow> c) = Inr k \<longleftrightarrow> k = 2 \<and> ?code \<in> {''BOB'', ''USD''}" for k
    by (auto simp: currency_scale_def currency_minor_scale_def from_option_def)
  have exact: "parse_decimal_exact (JString t) 2 = Inr m \<longleftrightarrow> amount_pattern (js_trim t) \<and> text_value (js_trim t) = of_int m / 100" for t
  proof (cases "amount_pattern (js_trim t)")
    case True
    define v where "v = text_value (js_trim t)"
    have "parse_decimal_exact (JString t) 2 = (if v * 100 \<in> \<int> then Inr \<lfloor>v * 100\<rfloor> else Inl AmountOutOfRangeError)"
      using parse_decimal_exact_text [of t 2] True by (simp add: v_def)
    then have "parse_decimal_exact (JString t) 2 = Inr m \<longleftrightarrow> v * 100 \<in> \<int> \<and> \<lfloor>v * 100\<rfloor> = m" by (simp only: split: if_split) simp
    also have "\<dots> \<longleftrightarrow> v * 100 = of_int m" by (auto elim!: Ints_cases)
    also have "\<dots> \<longleftrightarrow> v = of_int m / 100" by (simp only: eq_divide_eq) simp
    finally show ?thesis using True by (simp only: v_def simp_thms)
  next
    case False
    then show ?thesis
      by (simp add: parse_decimal_exact_def exact_decimal_text_def assert_scale_def max_supported_scale_def ensure_def and_then_def)
  qed
  have guard: "(if a < 0 \<and> \<not> neg then Inl e else if a = 0 \<and> zero then Inl e else if mx < a \<or> mx < - a then Inl e else Inr a) = Inr m
      \<longleftrightarrow> a = m \<and> \<bar>m\<bar> \<le> mx \<and> (0 \<le> m \<or> neg) \<and> (m \<noteq> 0 \<or> \<not> zero)" for a mx :: int and neg zero and e :: money_error
    by auto
  have iff: "parse_money (JString t) options = Inr m \<longleftrightarrow> ?code \<in> {''BOB'', ''USD''} \<and> amount_pattern (js_trim t)
      \<and> text_value (js_trim t) = of_int m / 100 \<and> \<bar>m\<bar> \<le> ?max \<and> (0 \<le> m \<or> pm_allow_negative options)
      \<and> (m \<noteq> 0 \<or> pm_allow_zero options \<noteq> Some False)" for t
  proof -
    have "parse_money (JString t) options = Inr m \<longleftrightarrow> (\<exists>k. currency_scale (case pm_currency options of None \<Rightarrow> ''BOB'' | Some c \<Rightarrow> c) = Inr k
        \<and> parse_decimal_exact (JString t) k = Inr m) \<and> \<bar>m\<bar> \<le> ?max \<and> (0 \<le> m \<or> pm_allow_negative options)
        \<and> (m \<noteq> 0 \<or> pm_allow_zero options \<noteq> Some False)"
      unfolding parse_money_def Let_def numeric_18_2_max_minor_def and_then_eq_Inr guard by blast
    then show ?thesis unfolding scale using exact [of t] by blast
  qed
  have "js_trim (minor_text m 2) = minor_text m 2" by (rule js_trim_id [OF minor_text_no_space])
  then have "parse_money (JString s) options = Inr m \<longrightarrow> parse_money (JString (minor_text m 2)) options = Inr m"
    unfolding iff by (simp add: minor_text_pattern minor_text_value)
  with iff [of s] show ?thesis by blast
qed

theorem parse_money_in_range_witness:
  "parse_money (JString '' +10.500 '') default_options = Inr 1050 \<and> parse_money (JString (minor_text 1050 2)) default_options = Inr 1050
    \<and> text_value (js_trim '' +10.500 '') = 1050 / 100 \<and> (\<forall>m. parse_money (JString ''10.505'') default_options \<noteq> Inr m)"
proof -
  have run: "parse_money (JString '' +10.500 '') default_options = Inr 1050" by code_simp
  have "parse_money (JString ''10.505'') default_options \<noteq> Inr m" for m
  proof -
    have "parse_money (JString ''10.505'') default_options = Inl AmountOutOfRangeError" by code_simp
    then show ?thesis by simp
  qed
  with parse_money_in_range [of "'' +10.500 ''" default_options 1050] run show ?thesis by simp
qed

text \<open>The rounding division returns a nearest integer in both modes, is exact on exact
  quotients, monotone in the numerator, and breaks ties away from zero or to even.\<close>

theorem divide_rounded_nearest:
  assumes "0 < d"
  shows "\<exists>q. divide_rounded n d mode = Inr q \<and> 2 * \<bar>q * d - n\<bar> \<le> d
    \<and> divide_rounded (- n) d mode = Inr (- q)
    \<and> (d dvd n \<longrightarrow> q = n div d)
    \<and> (\<forall>n' q'. n \<le> n' \<and> divide_rounded n' d mode = Inr q' \<longrightarrow> q \<le> q')
    \<and> (0 \<le> n \<and> 2 * (n mod d) = d \<longrightarrow> (if mode = HALF_UP then q = n div d + 1 else even q))"
proof -
  have "mode = HALF_UP \<or> mode = HALF_EVEN" by (cases mode) simp_all
  then have "0 \<le> n \<and> 2 * (n mod d) = d \<longrightarrow>
      (if mode = HALF_UP then rounded_quotient mode n d = n div d + 1 else even (rounded_quotient mode n d))"
    using rounded_quotient_tie [OF assms, of n] by auto
  moreover have "d dvd n \<longrightarrow> rounded_quotient mode n d = n div d"
    using rounding.exact [OF assms, of mode "n div d"] by (metis dvd_div_mult_self)
  ultimately show ?thesis
    using assms rounding.nearest [OF assms, of mode n] rounding.symmetric [OF assms, of mode n]
      rounding.monotone [OF assms, of n _ mode]
    by (auto simp: divide_rounded_def)
qed

theorem divide_rounded_nearest_witness:
  "\<exists>q. divide_rounded (-25) 10 HALF_EVEN = Inr q \<and> q = -2 \<and> 2 * \<bar>q * 10 - -25\<bar> \<le> 10"
proof -
  have "divide_rounded (-25) 10 HALF_EVEN = Inr (-2)" by code_simp
  then show ?thesis using divide_rounded_nearest [of 10 "-25" HALF_EVEN] by auto
qed

text \<open>C33: a proportional allocation distributes the whole amount: the parts add up to it exactly,
  every part but the first is within one minor unit of its exact share, and parts of a
  non-negative amount stay between zero and the amount.\<close>

theorem allocation_conserves:
  assumes "allocate_proportionally amount weights = Inr parts"
  shows "sum_list parts = amount \<and> length parts = length weights
    \<and> (\<forall>i. 0 < i \<and> i < length weights \<longrightarrow>
        \<bar>sum_list weights * parts ! i - amount * weights ! i\<bar> < sum_list weights)
    \<and> (0 \<le> amount \<longrightarrow> (\<forall>p \<in> set parts. 0 \<le> p \<and> p \<le> amount))"
  using allocation_total [OF assms] allocation_share [OF assms] allocation_nonneg [OF assms] by blast

theorem allocation_conserves_witness:
  "sum_list [3334, 3333, 3333] = (10000 :: int) \<and>
   allocate_proportionally 10000 [1, 1, 1] = Inr [3334, 3333, 3333]"
proof -
  have run: "allocate_proportionally 10000 [1, 1, 1] = Inr [3334, 3333, 3333]" by code_simp
  from allocation_conserves [OF this] run show ?thesis by blast
qed

end
