(* ===== verification/Rows.thy ===== *)
theory Rows
  imports Prelude JsText
begin

text \<open>
  Tables as lists of rows: identifiers and days (texts, compared as the code compares them), the
  lookup by primary key and the update of one row, and identifiers drawn from a sequence.
\<close>

type_synonym ident = string
type_synonym day = string

section \<open>Lookup and update\<close>

text \<open>\<open>findByPk\<close>: the row with the given key.\<close>

definition find_by :: "('r \<Rightarrow> ident) \<Rightarrow> ident \<Rightarrow> 'r list \<Rightarrow> 'r option" where
  "find_by key i rows = find (\<lambda>r. key r = i) rows"

definition update_by :: "('r \<Rightarrow> ident) \<Rightarrow> ident \<Rightarrow> ('r \<Rightarrow> 'r) \<Rightarrow> 'r list \<Rightarrow> 'r list" where
  "update_by key i f rows = map (\<lambda>r. if key r = i then f r else r) rows"

lemma find_by_Some: "find_by key i rows = Some r \<Longrightarrow> key r = i \<and> r \<in> set rows"
  unfolding find_by_def by (drule find_Some_iff_nth) simp

lemma find_by_None: "find_by key i rows = None \<longleftrightarrow> i \<notin> key ` set rows"
  by (auto simp: find_by_def find_None_iff)

lemma find_by_unique:
  "distinct (map key rows) \<Longrightarrow> r \<in> set rows \<Longrightarrow> find_by key (key r) rows = Some r"
  unfolding find_by_def by (induction rows) (auto simp: rev_image_eqI)

lemma find_by_append:
  "find_by key i (rows @ rows') =
   (case find_by key i rows of None \<Rightarrow> find_by key i rows' | Some r \<Rightarrow> Some r)"
  by (induction rows) (simp_all add: find_by_def)

lemma find_by_Cons [simp]:
  "find_by key i [] = None"
  "find_by key i (r # rows) = (if key r = i then Some r else find_by key i rows)"
  by (simp_all add: find_by_def)

lemma keys_update_by [simp]:
  "(\<And>r. key r = i \<Longrightarrow> key' (f r) = key' r) \<Longrightarrow> map key' (update_by key i f rows) = map key' rows"
  by (simp add: update_by_def)

lemma find_by_update_by:
  assumes "\<And>r. key r = i \<Longrightarrow> key (f r) = i"
  shows "find_by key j (update_by key i f rows) =
    (if j = i then map_option f (find_by key i rows) else find_by key j rows)"
  using assms by (induction rows) (auto simp: update_by_def find_by_def)

lemma set_update_by:
  "x \<in> set (update_by key i f rows) \<longleftrightarrow>
   (\<exists>r \<in> set rows. x = (if key r = i then f r else r))"
  unfolding update_by_def set_map image_iff ..

section \<open>Identifiers\<close>

definition ids_below :: "nat \<Rightarrow> ident set \<Rightarrow> bool" where
  "ids_below k ids = (\<forall>i \<in> ids. \<exists>n < k. i = show_nat n)"

lemma ids_below_fresh: "ids_below k ids \<Longrightarrow> k \<le> n \<Longrightarrow> show_nat n \<notin> ids"
  by (auto simp: ids_below_def)

lemma ids_below_mono: "ids_below k ids \<Longrightarrow> k \<le> k' \<Longrightarrow> ids_below k' ids"
  by (meson ids_below_def order_less_le_trans)

lemma ids_below_insert [simp]:
  "ids_below k (insert i ids) \<longleftrightarrow> (\<exists>n < k. i = show_nat n) \<and> ids_below k ids"
  by (auto simp: ids_below_def)

lemma ids_below_Un [simp]: "ids_below k (x \<union> y) \<longleftrightarrow> ids_below k x \<and> ids_below k y"
  by (auto simp: ids_below_def)

lemma ids_below_empty [simp]: "ids_below k {}"
  by (simp add: ids_below_def)

section \<open>Tables with generated keys\<close>

definition keyed :: "nat \<Rightarrow> ('r \<Rightarrow> ident) \<Rightarrow> 'r list \<Rightarrow> bool" where
  "keyed k key rows = (distinct (map key rows) \<and> ids_below k (key ` set rows))"

lemma keyed_append: "keyed k key rows \<Longrightarrow> key r = show_nat k \<Longrightarrow> keyed (Suc k) key (rows @ [r])"
  using ids_below_fresh [of k "key ` set rows" k] ids_below_mono [of k "key ` set rows" "Suc k"]
  by (auto simp: keyed_def)

lemma keyed_mono: "keyed k key rows \<Longrightarrow> k \<le> k' \<Longrightarrow> keyed k' key rows"
  using ids_below_mono by (auto simp: keyed_def)

lemma keyed_map [simp]: "(\<And>r. key (f r) = key r) \<Longrightarrow> keyed k key (map f rows) = keyed k key rows"
  by (simp add: keyed_def comp_def image_image)

lemma keyed_update [simp]: "(\<And>r. key (f r) = key r) \<Longrightarrow> keyed k key (update_by key' i f rows) = keyed k key rows"
  unfolding update_by_def by (rule keyed_map) simp

lemma keyed_unique: "keyed k key rows \<Longrightarrow> r \<in> set rows \<Longrightarrow> s \<in> set rows \<Longrightarrow> key r = key s \<Longrightarrow> r = s"
  using unique_row by (auto simp: keyed_def)

lemma keyed_fresh: "keyed k key rows \<Longrightarrow> show_nat k \<notin> key ` set rows"
  using ids_below_fresh [of k "key ` set rows" k] by (simp add: keyed_def)

end
