(* ===== verification/LedgerTypes.thy ===== *)
theory LedgerTypes
  imports Money Rows
begin

text \<open>
  The accounting data model: the rows of \<open>atlas_accounting\<close> the services read and write
  (\<open>src/database/models\<close>), the exceptions they throw, and the state of the books. A table is the
  list of its rows in insertion order. Identifiers are texts; the ones the database generates are
  drawn from a counter, so a new row's identifier is one that was never given out before. Dates of
  \<open>DATEONLY\<close> columns are their ISO text, ordered as texts.
\<close>

section \<open>Errors\<close>

datatype accounting_error =
    LEGAL_ENTITY_SCOPE_REQUIRED | LEGAL_ENTITY_FORBIDDEN
  | JOURNAL_TOO_FEW_LINES | INVALID_JOURNAL_LINE nat | UNBALANCED_JOURNAL int int
  | ACCOUNTING_PERIOD_NOT_FOUND | ACCOUNTING_PERIOD_CLOSED | PERIOD_LEGAL_ENTITY_MISMATCH
  | FISCAL_YEAR_NOT_FOUND | POSTING_DATE_OUTSIDE_PERIOD
  | LEDGER_NOT_FOUND | LEDGER_LEGAL_ENTITY_MISMATCH | LEDGER_NOT_ACTIVE
  | GL_ACCOUNT_NOT_FOUND nat | GL_ACCOUNT_NOT_ACTIVE nat
  | PARTNER_REQUIRED_FOR_GL_ACCOUNT nat | COST_CENTER_REQUIRED_FOR_GL_ACCOUNT nat
  | PROFIT_CENTER_REQUIRED_FOR_GL_ACCOUNT nat | TAX_CODE_REQUIRED_FOR_GL_ACCOUNT nat
  | CONTROL_ACCOUNT_REQUIRES_SUBLEDGER_REFERENCE nat | DIRECT_MANUAL_POSTING_TO_CONTROL_ACCOUNT_BLOCKED
  | LINE_PARTNER_NOT_ACTIVE nat | LINE_COST_CENTER_NOT_ACTIVE nat
  | LINE_COST_CENTER_LEGAL_ENTITY_MISMATCH nat | LINE_PROFIT_CENTER_NOT_ACTIVE nat
  | LINE_PROFIT_CENTER_LEGAL_ENTITY_MISMATCH nat | LINE_TAX_CODE_NOT_ACTIVE nat
  | LEDGER_NOT_RESOLVED nat | ACCOUNTING_PERIOD_NOT_RESOLVED nat
  | PARTNER_DEFAULT_ACCOUNT_NOT_SET | TAX_CODE_NOT_RESOLVED | BANK_GL_ACCOUNT_NOT_SET
  | BANK_GL_ACCOUNT_NOT_RESOLVED nat
  | ACCOUNTING_APPROVAL_POLICY_UNAVAILABLE | ACCOUNTING_DOCUMENT_APPROVAL_STATUS_CONTRADICTS_POLICY
  | ACCOUNTING_DOCUMENT_APPROVAL_NOT_CLIENT_SETTABLE | ACCOUNTING_DOCUMENT_APPROVAL_POLICY_MISSING
  | ACCOUNTING_DOCUMENT_APPROVAL_REQUIRED | ACCOUNTING_DOCUMENT_SELF_APPROVAL_FORBIDDEN
  | ACCOUNTING_DOCUMENT_NOT_PENDING_APPROVAL | ACCOUNTING_DOCUMENT_NOT_FOUND
  | ACCOUNTING_DOCUMENT_NOT_DRAFT | ACCOUNTING_DOCUMENT_NOT_POSTED
  | ACCOUNTING_DOCUMENT_ALREADY_REVERSED | JOURNAL_ENTRY_NOT_FOUND
  | CLOSE_RUN_LEGAL_ENTITY_PERIOD_MISMATCH | ACCOUNTING_PERIOD_ALREADY_CLOSED
  | PERIOD_CLOSE_CONTROLS_FAILED "string list" | ACCOUNTING_PERIOD_ALREADY_OPEN
  | UNIQUE_VIOLATION string
  | AMOUNT_ERROR money_error

definition lift_amount :: "money_error + 'a \<Rightarrow> accounting_error + 'a" where
  "lift_amount r = (case r of Inl e \<Rightarrow> Inl (AMOUNT_ERROR e) | Inr a \<Rightarrow> Inr a)"

lemma lift_amount_eq_Inr [simp]: "lift_amount r = Inr a \<longleftrightarrow> r = Inr a"
  by (auto simp: lift_amount_def split: sum.splits)

section \<open>Master data\<close>

record ledger_row =
  ledger_id :: ident
  ledger_entity :: ident
  ledger_code :: string
  ledger_status :: string
  ledger_is_default :: bool

record fiscal_year_row =
  year_id :: ident
  year_entity :: ident

record period_row =
  period_id :: ident
  period_year :: ident
  start_date :: day
  end_date :: day
  is_open :: bool
  close_status :: string
  closed_at :: "nat option"
  closed_by :: "ident option"

record gl_account_row =
  account_id :: ident
  account_status :: string
  requires_partner :: bool
  requires_cost_center :: bool
  requires_profit_center :: bool
  requires_tax_code :: bool
  is_control_account :: bool

record partner_row =
  partner_id :: ident
  partner_status :: string

record center_row =
  center_id :: ident
  center_status :: string
  center_entity :: ident

record tax_code_row =
  tax_id :: ident
  tax_status :: string
  tax_type :: string
  output_gl_account :: "ident option"
  tax_from :: day
  tax_to :: "day option"

record default_account_row =
  da_partner :: ident
  da_purpose :: string
  da_status :: string
  da_gl_account :: "ident option"

record bank_account_row =
  bank_id :: ident
  bank_entity :: ident
  bank_name :: string
  bank_status :: string
  bank_is_house :: bool
  bank_gl_account :: "ident option"

record posting_rule_row =
  rule_id :: ident
  rule_code :: string
  rule_version :: nat
  rule_status :: string
  rule_from :: day
  rule_to :: "day option"

section \<open>Documents and journals\<close>

datatype doc_status = DRAFT | POSTED | REVERSED | VOID
datatype approval_status = NOT_REQUIRED | PENDING | APPROVED | REJECTED

record document_row =
  doc_id :: ident
  doc_entity :: ident
  source_system :: string
  source_type :: string
  source_id :: string
  document_type :: string
  document_no :: string
  document_date :: day
  posting_date :: day
  doc_period :: ident
  doc_ledger :: ident
  doc_currency :: string
  status :: doc_status
  approval :: approval_status
  approval_policy_ref :: "string option"
  policy_snapshot :: "ident option"
  reversal_of :: "ident option"
  reversed_by :: "ident option"
  created_by :: "ident option"
  approved_by :: "ident option"
  approved_at :: "nat option"
  rejected_by :: "ident option"
  rejected_at :: "nat option"

record journal_row =
  journal_id :: ident
  journal_document :: ident
  journal_no :: string
  posting_status :: doc_status
  posted_at :: "nat option"
  posted_by :: "ident option"
  hash_sha256 :: "string option"

record line_row =
  line_journal :: ident
  line_no :: nat
  gl_account :: ident
  debit :: string
  credit :: string
  line_currency :: string
  amount_lc :: string
  line_partner :: "ident option"
  line_cost_center :: "ident option"
  line_profit_center :: "ident option"
  line_tax_code :: "ident option"
  reference_type :: "string option"
  reference_id :: "ident option"
  description :: "string option"

record audit_row =
  audit_document :: ident
  audit_event :: string
  audit_actor :: ident

record event_row =
  topic :: string
  aggregate_type :: string
  aggregate_id :: ident
  event_key :: string
  payload :: "(string \<times> string) list"
  published_at :: "nat option"

record action_row =
  action_code :: string
  action_actor :: ident
  action_aggregate :: "ident option"
  affected_records :: nat

record close_snapshot =
  prev_close_number :: nat
  prev_status :: string
  prev_completed_at :: "nat option"
  prev_closed_by :: "ident option"
  prev_reopened_by :: "ident option"
  prev_reopened_at :: "nat option"
  prev_reopen_reason :: "string option"

text \<open>A row of \<open>close_run\<close> with the fields the code keeps in \<open>control_report_json\<close>.\<close>

record close_run_row =
  close_run_id :: ident
  close_entity :: ident
  close_period_id :: ident
  close_type :: string
  close_run_status :: string
  started_at :: nat
  completed_at :: "nat option"
  report_blockers :: "string list"
  report_closed_by :: "ident option"
  report_close_number :: "nat option"
  report_previous_closes :: "close_snapshot list"
  report_reopened_by :: "ident option"
  report_reopened_at :: "nat option"
  report_reopen_reason :: "string option"

record reconciliation_row =
  reconciliation_period :: ident
  reconciliation_status :: string

record statement_line_row =
  statement_date :: day
  match_status :: string

section \<open>The books\<close>

record books =
  ledgers :: "ledger_row list"
  fiscal_years :: "fiscal_year_row list"
  periods :: "period_row list"
  gl_accounts :: "gl_account_row list"
  partners :: "partner_row list"
  cost_centers :: "center_row list"
  profit_centers :: "center_row list"
  tax_codes :: "tax_code_row list"
  default_accounts :: "default_account_row list"
  bank_accounts :: "bank_account_row list"
  posting_rules :: "posting_rule_row list"
  documents :: "document_row list"
  journals :: "journal_row list"
  journal_lines :: "line_row list"
  audit_log :: "audit_row list"
  events :: "event_row list"
  action_log :: "action_row list"
  close_runs :: "close_run_row list"
  reconciliation_items :: "reconciliation_row list"
  statement_lines :: "statement_line_row list"
  id_sequence :: nat
  clock :: nat

definition generated_id :: "books \<Rightarrow> ident" where
  "generated_id b = show_nat (id_sequence b)"

definition next_id :: "books \<Rightarrow> books" where
  "next_id b = b\<lparr>id_sequence := Suc (id_sequence b)\<rparr>"

end
