(* ===== verification/Defaults.thy ===== *)
theory Defaults
  imports LedgerTypes
begin

text \<open>
  What the system deduces instead of asking for it, \<open>shared/services/accounting-defaults.service.ts\<close>:
  the ledger of a legal entity, the open period of a date, the control and bank accounts, and the
  output tax. An explicit value always wins; otherwise a default is used only when it is unique or
  marked as the default, and the function fails rather than choose.
\<close>

section \<open>Query results\<close>

text \<open>\<open>order: [[key, 'ASC']]\<close>, as a stable insertion sort on the key text.\<close>

definition ordered_by :: "('r \<Rightarrow> string) \<Rightarrow> 'r list \<Rightarrow> 'r list" where
  "ordered_by key rows = sort_key key rows"

definition given :: "string option \<Rightarrow> string option" where
  "given provided = (if truthy provided then provided else None)"

section \<open>Ledger and period\<close>

definition resolve_ledger_id :: "books \<Rightarrow> ident \<Rightarrow> ident option \<Rightarrow> accounting_error + ident" where
  "resolve_ledger_id b entity provided =
     (case given provided of
        Some i \<Rightarrow> Inr i
      | None \<Rightarrow>
          let activos = ordered_by ledger_code
                (filter (\<lambda>l. ledger_entity l = entity \<and> ledger_status l = ''ACTIVE'') (ledgers b))
          in case find ledger_is_default activos of
               Some l \<Rightarrow> Inr (ledger_id l)
             | None \<Rightarrow>
                 (case activos of
                    [l] \<Rightarrow> Inr (ledger_id l)
                  | _ \<Rightarrow> Inl (LEDGER_NOT_RESOLVED (length activos))))"

definition period_accepts :: "period_row \<Rightarrow> bool" where
  "period_accepts p = (is_open p \<and> close_status p = ''OPEN'')"

definition resolve_open_period_id ::
    "books \<Rightarrow> ident \<Rightarrow> day \<Rightarrow> ident option \<Rightarrow> accounting_error + ident" where
  "resolve_open_period_id b entity dia provided =
     (case given provided of
        Some i \<Rightarrow> Inr i
      | None \<Rightarrow>
          let anios = map year_id (filter (\<lambda>y. year_entity y = entity) (fiscal_years b))
          in if anios = [] then Inl (ACCOUNTING_PERIOD_NOT_RESOLVED 0)
             else
               let candidatos = ordered_by start_date
                     (filter (\<lambda>p. period_year p \<in> set anios \<and> start_date p \<le> dia \<and> dia \<le> end_date p)
                       (periods b))
               in case find period_accepts candidatos of
                    Some p \<Rightarrow> Inr (period_id p)
                  | None \<Rightarrow> Inl (ACCOUNTING_PERIOD_NOT_RESOLVED (length candidatos)))"

section \<open>Accounts of a partner\<close>

definition resolve_partner_account_id ::
    "books \<Rightarrow> ident \<Rightarrow> string \<Rightarrow> ident option \<Rightarrow> accounting_error + ident" where
  "resolve_partner_account_id b partner purpose provided =
     (case given provided of
        Some i \<Rightarrow> Inr i
      | None \<Rightarrow>
          (case find (\<lambda>r. da_partner r = partner \<and> da_purpose r = purpose \<and> da_status r = ''ACTIVE'')
                  (default_accounts b) of
             None \<Rightarrow> Inl PARTNER_DEFAULT_ACCOUNT_NOT_SET
           | Some r \<Rightarrow> from_option PARTNER_DEFAULT_ACCOUNT_NOT_SET (given (da_gl_account r))))"

text \<open>\<open>l.debit > 0\<close> on the numeric column whose text the line holds.\<close>

definition positive_amount :: "string \<Rightarrow> bool" where
  "positive_amount t = (case to_minor_units (JString t) 2 of Inl _ \<Rightarrow> False | Inr m \<Rightarrow> 0 < m)"

text \<open>\<open>SELECT DISTINCT ... LIMIT 3\<close>: at most three of the distinct accounts.\<close>

definition ar_control_accounts_used_by :: "books \<Rightarrow> ident \<Rightarrow> ident list" where
  "ar_control_accounts_used_by b entity =
     take 3 (distinct_in_order
       [gl_account l. l \<leftarrow> journal_lines b, j \<leftarrow> journals b, d \<leftarrow> documents b,
          journal_id j = line_journal l \<and> doc_id d = journal_document j \<and> doc_entity d = entity
          \<and> reference_type l = Some ''AR_INVOICE'' \<and> positive_amount (debit l)])"

definition resolve_ar_control_account_id ::
    "books \<Rightarrow> ident \<Rightarrow> ident \<Rightarrow> ident option \<Rightarrow> accounting_error + ident" where
  "resolve_ar_control_account_id b entity partner provided =
     (case resolve_partner_account_id b partner ''AR_CONTROL'' provided of
        Inr i \<Rightarrow> Inr i
      | Inl e \<Rightarrow>
          (case ar_control_accounts_used_by b entity of
             [i] \<Rightarrow> Inr i
           | _ \<Rightarrow> Inl e))"

section \<open>Output tax\<close>

definition tax_in_force :: "day \<Rightarrow> tax_code_row \<Rightarrow> bool" where
  "tax_in_force dia t =
     (tax_status t = ''ACTIVE'' \<and> tax_from t \<le> dia \<and>
      (case tax_to t of None \<Rightarrow> True | Some u \<Rightarrow> dia \<le> u))"

definition resolve_output_tax ::
    "books \<Rightarrow> day \<Rightarrow> ident option \<Rightarrow> ident option \<Rightarrow> accounting_error + (ident \<times> ident)" where
  "resolve_output_tax b dia provided_code provided_account =
     (case (given provided_code, given provided_account) of
        (Some c, Some a) \<Rightarrow> Inr (c, a)
      | _ \<Rightarrow>
          let vigentes = rev (ordered_by tax_from (rev (filter (tax_in_force dia) (tax_codes b))))
          in case given provided_code of
               Some c \<Rightarrow>
                 (case find (\<lambda>t. tax_id t = c) vigentes of
                    None \<Rightarrow> Inl TAX_CODE_NOT_RESOLVED
                  | Some pedido \<Rightarrow>
                      let cuenta = (case provided_account of
                                      None \<Rightarrow> output_gl_account pedido | Some a \<Rightarrow> Some a)
                      in case given cuenta of
                           None \<Rightarrow> Inl TAX_CODE_NOT_RESOLVED
                         | Some a \<Rightarrow> Inr (tax_id pedido, a))
             | None \<Rightarrow>
                 (case filter (\<lambda>t. tax_type t = ''IVA'' \<and> truthy (output_gl_account t)) vigentes of
                    [t] \<Rightarrow> from_option TAX_CODE_NOT_RESOLVED
                             (map_option (Pair (tax_id t)) (output_gl_account t))
                  | _ \<Rightarrow> Inl TAX_CODE_NOT_RESOLVED))"

section \<open>The bank's account\<close>

definition resolve_bank_gl_account_id ::
    "books \<Rightarrow> ident \<Rightarrow> ident option \<Rightarrow> ident option \<Rightarrow> accounting_error + ident" where
  "resolve_bank_gl_account_id b entity bank provided =
     (case given provided of
        Some i \<Rightarrow> Inr i
      | None \<Rightarrow>
          (case given bank of
             Some k \<Rightarrow>
               (case find_by bank_id k (bank_accounts b) of
                  None \<Rightarrow> Inl BANK_GL_ACCOUNT_NOT_SET
                | Some r \<Rightarrow> from_option BANK_GL_ACCOUNT_NOT_SET (given (bank_gl_account r)))
           | None \<Rightarrow>
               let candidatas = ordered_by bank_name
                     (filter (\<lambda>r. bank_entity r = entity \<and> bank_status r = ''ACTIVE'') (bank_accounts b));
                   con_cuenta = filter (\<lambda>r. truthy (bank_gl_account r)) candidatas
               in case find bank_is_house con_cuenta of
                    Some r \<Rightarrow> from_option BANK_GL_ACCOUNT_NOT_SET (bank_gl_account r)
                  | None \<Rightarrow>
                      (case con_cuenta of
                         [r] \<Rightarrow> from_option BANK_GL_ACCOUNT_NOT_SET (bank_gl_account r)
                       | _ \<Rightarrow> Inl (BANK_GL_ACCOUNT_NOT_RESOLVED (length con_cuenta)))))"

section \<open>Lemmas\<close>

lemma given_Some [simp]: "given x = Some s \<longleftrightarrow> x = Some s \<and> s \<noteq> []"
  by (cases x) (auto simp: given_def)

lemma given_None [simp]: "given x = None \<longleftrightarrow> x = None \<or> x = Some []"
  by (cases x) (auto simp: given_def)

text \<open>An identifier that was deduced, not given, belongs to the legal entity and is usable.\<close>

lemma resolve_open_period_deduced:
  assumes "resolve_open_period_id b entity dia provided = Inr i" and "\<not> truthy provided"
  shows "\<exists>p \<in> set (periods b). period_id p = i \<and> period_accepts p \<and> start_date p \<le> dia \<and> dia \<le> end_date p
    \<and> (\<exists>y \<in> set (fiscal_years b). year_id y = period_year p \<and> year_entity y = entity)"
proof -
  from assms(2) have "given provided = None" by (cases provided) auto
  with assms(1) obtain p where f: "find period_accepts (ordered_by start_date
      (filter (\<lambda>p. period_year p \<in> set (map year_id (filter (\<lambda>y. year_entity y = entity) (fiscal_years b)))
        \<and> start_date p \<le> dia \<and> dia \<le> end_date p) (periods b))) = Some p" "i = period_id p"
    by (auto simp: resolve_open_period_id_def Let_def split: if_splits option.splits)
  from find_Some_iff_nth [OF f(1)] show ?thesis
    by (intro bexI [of _ p]) (auto simp: f(2) ordered_by_def)
qed

lemma resolve_ledger_deduced:
  assumes "resolve_ledger_id b entity provided = Inr i" and "\<not> truthy provided"
  shows "\<exists>l \<in> set (ledgers b). ledger_id l = i \<and> ledger_entity l = entity \<and> ledger_status l = ''ACTIVE''
    \<and> (ledger_is_default l \<or>
        (\<forall>l' \<in> set (ledgers b). ledger_entity l' = entity \<and> ledger_status l' = ''ACTIVE'' \<longrightarrow> l' = l))"
proof -
  define activos where "activos = ordered_by ledger_code
      (filter (\<lambda>l. ledger_entity l = entity \<and> ledger_status l = ''ACTIVE'') (ledgers b))"
  have members: "set activos = {l \<in> set (ledgers b). ledger_entity l = entity \<and> ledger_status l = ''ACTIVE''}"
    by (auto simp: activos_def ordered_by_def)
  from assms(2) have "given provided = None" by (cases provided) auto
  with assms(1) consider l where "find ledger_is_default activos = Some l" "i = ledger_id l"
    | l where "activos = [l]" "i = ledger_id l"
    by (auto simp: resolve_ledger_id_def Let_def activos_def [symmetric] split: option.splits list.splits)
  then show ?thesis
  proof cases
    case 1
    from find_Some_iff_nth [OF 1(1)] members 1(2) show ?thesis by auto
  next
    case 2
    then have "set activos = {l}" by simp
    with members have "{l} = {l \<in> set (ledgers b). ledger_entity l = entity \<and> ledger_status l = ''ACTIVE''}"
      by simp
    with 2(2) show ?thesis by blast
  qed
qed

end
