(* ===== verification/DoubleEntry.thy ===== *)
theory DoubleEntry
  imports LedgerTypes
begin

text \<open>
  The double-entry check, \<open>posting/validators/double-entry.validator.ts\<close>: the amounts of the lines
  as cents, one side per line, at least two lines, and equal totals. \<open>number_cents\<close> is the
  amount that \<open>String(value)\<close> shows for a number whose shortest text has at most two decimals;
  for every other number the text does not match \<open>CENT_AMOUNT\<close> and the line is rejected.
\<close>

section \<open>Line amounts\<close>

definition max_line_cents :: int where
  "max_line_cents = 999999999999999999"

definition cent_amount :: "string \<Rightarrow> bool" where
  "cent_amount s =
     (let r = dropWhile is_digit s
      in takeWhile is_digit s \<noteq> [] \<and>
         (case r of [] \<Rightarrow> True
          | c # f \<Rightarrow> c = CHR ''.'' \<and> all_digits f \<and> (length f = 1 \<or> length f = 2)))"

text \<open>The shortest decimal text of a double picks the fewest decimals that read back as it.\<close>

definition reads_back :: "nat \<Rightarrow> rat \<Rightarrow> bool" where
  "reads_back d r = (fl (of_int (round_half_even (r * 10 ^ d)) / 10 ^ d) = r)"

definition number_cents :: "rat \<Rightarrow> int option" where
  "number_cents r =
     (if r < 0 then None
      else if reads_back 0 r then Some (round_half_even r * 100)
      else if reads_back 1 r then Some (round_half_even (r * 10) * 10)
      else if reads_back 2 r then Some (round_half_even (r * 100))
      else None)"

definition cents_of :: "js_value \<Rightarrow> int option" where
  "cents_of v =
     (case v of
        JNumber (Finite r) \<Rightarrow>
          if of_int max_safe_integer < \<bar>r\<bar> then None
          else (case number_cents r of
                  None \<Rightarrow> None
                | Some amount \<Rightarrow> if amount \<le> max_line_cents then Some amount else None)
      | JString text \<Rightarrow>
          if cent_amount text
          then (case minor_of_text text 2 of
                  Inl _ \<Rightarrow> None
                | Inr amount \<Rightarrow> if amount \<le> max_line_cents then Some amount else None)
          else None
      | _ \<Rightarrow> None)"

section \<open>The check\<close>

type_synonym line_amount = "js_value \<times> js_value"

text \<open>The loop over the lines: totals so far and the index of the next line.\<close>

fun add_lines :: "nat \<Rightarrow> int \<Rightarrow> int \<Rightarrow> line_amount list \<Rightarrow> accounting_error + (int \<times> int)" where
  "add_lines i total_debit total_credit [] = Inr (total_debit, total_credit)"
| "add_lines i total_debit total_credit ((d, c) # ls) =
     (case (cents_of d, cents_of c) of
        (Some x, Some y) \<Rightarrow>
          if x = 0 \<and> y = 0 \<or> 0 < x \<and> 0 < y then Inl (INVALID_JOURNAL_LINE (i + 1))
          else add_lines (i + 1) (total_debit + x) (total_credit + y) ls
      | _ \<Rightarrow> Inl (INVALID_JOURNAL_LINE (i + 1)))"

definition validate_lines :: "line_amount list \<Rightarrow> accounting_error + unit" where
  "validate_lines ls =
     (if length ls < 2 then Inl JOURNAL_TOO_FEW_LINES
      else and_then (add_lines 0 0 0 ls) (\<lambda>(total_debit, total_credit).
        if total_debit \<noteq> total_credit then Inl (UNBALANCED_JOURNAL total_debit total_credit)
        else Inr ()))"

section \<open>What an accepted journal satisfies\<close>

definition valid_line :: "line_amount \<Rightarrow> int \<times> int \<Rightarrow> bool" where
  "valid_line l a = (cents_of (fst l) = Some (fst a) \<and> cents_of (snd l) = Some (snd a) \<and>
     (fst a = 0) \<noteq> (snd a = 0) \<and> 0 \<le> fst a \<and> 0 \<le> snd a)"

lemma number_cents_nonneg: "number_cents r = Some x \<Longrightarrow> 0 \<le> x"
proof -
  have "0 \<le> round_half_even y" if "0 \<le> y" for y
    using that by (auto simp: round_half_even_def Let_def)
  moreover assume "number_cents r = Some x"
  ultimately show ?thesis by (auto simp: number_cents_def split: if_splits)
qed

lemma cent_amount_parts:
  assumes "cent_amount s"
  shows "amount_pattern s" "strip_sign s = s" "\<not> (s \<noteq> [] \<and> hd s = CHR ''-'')"
proof -
  have "\<not> signed_text s" "hd s \<noteq> CHR ''-''"
    using assms by (cases s; auto simp: cent_amount_def signed_text_def Let_def split: if_splits)+
  then show strip: "strip_sign s = s" and "\<not> (s \<noteq> [] \<and> hd s = CHR ''-'')"
    by (simp_all add: strip_sign_def)
  show "amount_pattern s"
    using assms by (cases "dropWhile is_digit s") (simp_all add: amount_pattern_def strip cent_amount_def Let_def
        del: dropWhile_eq_Nil_conv takeWhile_eq_Nil_iff)
qed

lemma cent_amount_value:
  assumes "cent_amount s"
  shows "minor_of_text s 2 = Inr (round_half_away (text_magnitude s * 100))" "0 \<le> text_magnitude s"
  using minor_of_text_value [of s 2] cent_amount_parts [OF assms]
  by (simp_all add: text_value_def text_magnitude_def)

lemma round_half_away_nonneg: "0 \<le> x \<Longrightarrow> 0 \<le> round_half_away x"
  unfolding round_half_away_def by simp

lemma cents_of_nonneg: "cents_of v = Some x \<Longrightarrow> 0 \<le> x \<and> x \<le> max_line_cents"
  by (auto simp: cents_of_def cent_amount_value round_half_away_nonneg
      dest: number_cents_nonneg split: js_value.splits js_number.splits if_splits option.splits sum.splits)

lemma add_lines_eq_Inr:
  "add_lines i td tc ls = Inr (x, y) \<longleftrightarrow>
   (\<exists>as. list_all2 valid_line ls as \<and> x = td + sum_list (map fst as) \<and> y = tc + sum_list (map snd as))"
proof (induction ls arbitrary: i td tc)
  case (Cons l ls)
  obtain d c where l: "l = (d, c)" by (cases l)
  show ?case
  proof (cases "cents_of d = None \<or> cents_of c = None")
    case True
    then show ?thesis by (auto simp: l valid_line_def list_all2_Cons1 split: option.splits)
  next
    case False
    then obtain u v where uv: "cents_of d = Some u" "cents_of c = Some v" by auto
    have nonneg: "0 \<le> u" "0 \<le> v" using uv cents_of_nonneg by blast+
    have valid: "valid_line l a \<longleftrightarrow> a = (u, v) \<and> (u = 0) \<noteq> (v = 0)" for a
      using uv nonneg by (cases a) (auto simp: l valid_line_def)
    have ok: "(u = 0 \<and> v = 0 \<or> 0 < u \<and> 0 < v) \<longleftrightarrow> (u = 0) = (v = 0)" using nonneg by auto
    show ?thesis
      using uv by (auto simp: l Cons.IH valid list_all2_Cons1 ok algebra_simps)
        (auto simp: l [symmetric] valid)
  qed
qed auto

lemma validate_lines_eq_Inr:
  "validate_lines ls = Inr u \<longleftrightarrow>
   2 \<le> length ls \<and> (\<exists>as. list_all2 valid_line ls as \<and> sum_list (map fst as) = sum_list (map snd as))"
  by (auto simp: validate_lines_def result_simps add_lines_eq_Inr not_less split: if_splits)

section \<open>The recorded amounts\<close>

text \<open>
  The validator reads \<open>String(value)\<close>; the recorder writes \<open>normalizeAmount(value)\<close>, which rounds a
  number with \<open>toFixed\<close>. Both see the same cents for every text and for numbers below \<open>2 ^ 45\<close>; above
  that the spacing of doubles exceeds a cent and the two renderings of one number may differ.
\<close>

definition cents_stable :: "js_value \<Rightarrow> bool" where
  "cents_stable v = (case v of JNumber (Finite r) \<Rightarrow> r < 2 ^ 45 | JString _ \<Rightarrow> True | _ \<Rightarrow> False)"

lemma fixed_digits_minor_text: "fixed_digits 2 n = minor_text (int n) 2"
proof -
  have "0 < length (show_nat n)" by simp
  then show ?thesis by (auto simp: fixed_digits_def minor_text_def Let_def)
qed

lemma reads_back_error:
  assumes "reads_back d r" "0 \<le> r" "r < 2 ^ 45"
  shows "\<bar>of_int (round_half_even (r * 10 ^ d)) / 10 ^ d - r\<bar> \<le> 1 / 256"
proof -
  define k where "k = round_half_even (r * 10 ^ d)"
  define z where "z = (of_int k :: rat) / 10 ^ d"
  have "of_int k = z * 10 ^ d" by (simp add: z_def)
  then have "\<bar>z * 10 ^ d - r * 10 ^ d\<bar> \<le> 1 / 2"
    using round_half_even_error [of "r * 10 ^ d"] by (simp add: k_def)
  then have "\<bar>z - r\<bar> * 10 ^ d \<le> 1 / 2" by (simp add: left_diff_distrib [symmetric] abs_mult)
  moreover have "\<bar>z - r\<bar> * 1 \<le> \<bar>z - r\<bar> * 10 ^ d" by (intro mult_left_mono) simp_all
  ultimately have half: "\<bar>z - r\<bar> \<le> 1 / 2" by (metis mult_1_right order.trans)
  then have "\<bar>z\<bar> < 2 ^ 46"
    using abs_le_D1 [OF half] abs_le_D2 [OF half] assms(2,3) unfolding abs_less_iff by simp
  then have "\<bar>of_int k / 10 ^ d\<bar> < (2 :: rat) ^ 46" by (simp only: z_def)
  then have "\<bar>fl (of_int k / 10 ^ d) - of_int k / 10 ^ d\<bar> \<le> pow2 (int 46 - 53) / 2"
    by (rule fl_error_below) simp
  moreover have "pow2 (int 46 - 53) / 2 = 1 / 256" by (simp add: pow2_def)
  moreover have "fl (of_int k / 10 ^ d) = r" using assms(1) by (simp add: reads_back_def k_def)
  ultimately show ?thesis by (simp add: k_def [symmetric] abs_minus_commute)
qed

lemma number_cents_rounds:
  assumes "number_cents r = Some x" "r < 2 ^ 45"
  shows "\<lfloor>\<bar>r\<bar> * 100 + 1 / 2\<rfloor> = x"
proof -
  have r: "0 \<le> r" using assms(1) by (simp add: number_cents_def split: if_splits)
  have near: "\<lfloor>\<bar>r\<bar> * 100 + 1 / 2\<rfloor> = y" if "\<bar>of_int y / 100 - r\<bar> \<le> 1 / 256" for y
    using abs_le_D1 [OF that] abs_le_D2 [OF that] unfolding abs_of_nonneg [OF r]
    by (intro floor_unique) linarith+
  from assms(1) r consider "reads_back 0 r" "x = round_half_even r * 100"
    | "reads_back 1 r" "x = round_half_even (r * 10) * 10"
    | "reads_back 2 r" "x = round_half_even (r * 100)"
    by (auto simp: number_cents_def split: if_splits)
  then have "\<bar>of_int x / 100 - r\<bar> \<le> 1 / 256"
  proof cases
    case 1
    then show ?thesis using reads_back_error [of 0 r] r assms(2) by simp
  next
    case 2
    then show ?thesis using reads_back_error [of 1 r] r assms(2) by simp
  next
    case 3
    then show ?thesis using reads_back_error [of 2 r] r assms(2) by simp
  qed
  then show ?thesis by (rule near)
qed

lemma cent_amount_no_space: "cent_amount s \<Longrightarrow> js_trim s = s"
  by (rule pattern_trim) (rule cent_amount_parts)

lemma normalize_of_cents:
  assumes "cents_of v = Some x" "cents_stable v"
  shows "to_minor_units v 2 = Inr x" "normalize_amount v 2 = Inr (minor_text x 2)"
proof -
  show *: "to_minor_units v 2 = Inr x"
  proof (cases v)
    case (JNumber n)
    then obtain r where n: "n = Finite r" and r: "number_cents r = Some x" "r < 2 ^ 45"
      using assms by (auto simp: cents_of_def cents_stable_def split: js_number.splits if_splits option.splits)
    have r0: "0 \<le> r" using r(1) by (simp add: number_cents_def split: if_splits)
    have "\<not> 10 ^ 21 \<le> \<bar>r\<bar>" using r0 r(2) by simp
    then have "to_fixed 2 r = Some (minor_text x 2)"
      using r0 number_cents_rounds [OF r] number_cents_nonneg [OF r(1)]
      by (simp add: to_fixed_def fixed_digits_minor_text)
    then show ?thesis
      by (simp add: JNumber n to_minor_units_def assert_scale_def max_supported_scale_def
          minor_of_text_value [OF minor_text_pattern] minor_text_value)
  next
    case (JString s)
    then have s: "cent_amount s" "minor_of_text s 2 = Inr x"
      using assms by (auto simp: cents_of_def split: if_splits sum.splits)
    have "s \<noteq> []" using s(1) by (auto simp: cent_amount_def)
    then show ?thesis
      using s cent_amount_no_space [OF s(1)]
      by (simp add: JString to_minor_units_def assert_scale_def max_supported_scale_def)
  qed (use assms in \<open>auto simp: cents_stable_def\<close>)
  then show "normalize_amount v 2 = Inr (minor_text x 2)"
    by (simp add: normalize_amount_def from_minor_units_def assert_scale_def max_supported_scale_def)
qed

lemma cent_amount_minor_text: "0 \<le> x \<Longrightarrow> cent_amount (minor_text x 2)"
proof -
  assume x: "0 \<le> x"
  define d where "d = pad_start 3 (show_nat (nat x))"
  define i where "i = take (length d - 2) d"
  define f where "f = drop (length d - 2) d"
  have d: "all_digits d" "3 \<le> length d" by (simp_all add: d_def)
  then have "d \<noteq> []" by auto
  with d have i: "all_digits i" "all_digits f" "i \<noteq> []" "length f = 2" by (auto simp: i_def f_def)
  have shown: "minor_text x 2 = i @ (if f \<noteq> [] then CHR ''.'' # f else [])"
    using x i(4) by (auto simp: minor_text_def Let_def d_def i_def f_def)
  have "f \<noteq> []" using i(4) by auto
  with digits_split(4,5) [OF i(1-3)] i show ?thesis
    by (simp add: cent_amount_def shown Let_def)
qed

text \<open>What is recorded is read back by the validator when the document is posted.\<close>

lemma cents_of_recorded:
  "0 \<le> x \<Longrightarrow> x \<le> max_line_cents \<Longrightarrow> cents_of (JString (minor_text x 2)) = Some x"
  by (simp add: cents_of_def cent_amount_minor_text minor_of_text_value [OF minor_text_pattern] minor_text_value)

end
