(* ===== verification/PostingValidation.thy ===== *)
theory PostingValidation
  imports Defaults DoubleEntry
begin

text \<open>
  The structural checks before a document is recorded,
  \<open>posting/services/sap-posting-validation.service.ts\<close>, the guard on the period at posting time,
  \<open>posting/services/period-guard.service.ts\<close>, and the posting rule in force,
  \<open>posting/services/posting-rule-snapshot.service.ts\<close>. Lines are checked in order and the first
  failing check of the first failing line is the error; line numbers count from one.
\<close>

section \<open>The document under validation\<close>

record draft_line =
  in_account :: ident
  in_debit :: js_value
  in_credit :: js_value
  in_currency :: string
  in_amount_lc :: js_value
  in_partner :: "ident option"
  in_cost_center :: "ident option"
  in_profit_center :: "ident option"
  in_tax_code :: "ident option"
  in_reference_type :: "string option"
  in_reference_id :: "ident option"
  in_description :: "string option"

record resolved_document =
  rd_entity :: ident
  rd_source_system :: string
  rd_source_type :: string
  rd_source_id :: string
  rd_document_type :: string
  rd_document_no :: string
  rd_document_date :: day
  rd_posting_date :: day
  rd_period :: ident
  rd_ledger :: ident
  rd_currency :: string
  rd_lines :: "draft_line list"

section \<open>Period, fiscal year and ledger\<close>

definition get_fiscal_year :: "books \<Rightarrow> ident \<Rightarrow> accounting_error + fiscal_year_row" where
  "get_fiscal_year b i = from_option FISCAL_YEAR_NOT_FOUND (find_by year_id i (fiscal_years b))"

definition assert_period_belongs_and_is_open ::
    "books \<Rightarrow> ident \<Rightarrow> ident \<Rightarrow> day \<Rightarrow> accounting_error + period_row" where
  "assert_period_belongs_and_is_open b i entity posting_day =
     (case find_by period_id i (periods b) of
        None \<Rightarrow> Inl ACCOUNTING_PERIOD_NOT_FOUND
      | Some p \<Rightarrow>
          if \<not> is_open p \<or> close_status p \<noteq> ''OPEN'' then Inl ACCOUNTING_PERIOD_CLOSED
          else and_then (get_fiscal_year b (period_year p)) (\<lambda>y.
            if year_entity y \<noteq> entity then Inl PERIOD_LEGAL_ENTITY_MISMATCH
            else if posting_day < start_date p \<or> end_date p < posting_day
                 then Inl POSTING_DATE_OUTSIDE_PERIOD
                 else Inr p))"

definition assert_ledger_belongs :: "books \<Rightarrow> ident \<Rightarrow> ident \<Rightarrow> accounting_error + ledger_row" where
  "assert_ledger_belongs b i entity =
     (case find_by ledger_id i (ledgers b) of
        None \<Rightarrow> Inl LEDGER_NOT_FOUND
      | Some l \<Rightarrow>
          if ledger_entity l \<noteq> entity then Inl LEDGER_LEGAL_ENTITY_MISMATCH
          else if ledger_status l \<noteq> ''ACTIVE'' then Inl LEDGER_NOT_ACTIVE
          else Inr l)"

section \<open>Accounts and dimensions of the lines\<close>

definition assert_required_dimensions :: "draft_line \<Rightarrow> gl_account_row \<Rightarrow> nat \<Rightarrow> accounting_error + unit" where
  "assert_required_dimensions l a n =
     (if requires_partner a \<and> \<not> truthy (in_partner l) then Inl (PARTNER_REQUIRED_FOR_GL_ACCOUNT n)
      else if requires_cost_center a \<and> \<not> truthy (in_cost_center l)
           then Inl (COST_CENTER_REQUIRED_FOR_GL_ACCOUNT n)
      else if requires_profit_center a \<and> \<not> truthy (in_profit_center l)
           then Inl (PROFIT_CENTER_REQUIRED_FOR_GL_ACCOUNT n)
      else if requires_tax_code a \<and> \<not> truthy (in_tax_code l) then Inl (TAX_CODE_REQUIRED_FOR_GL_ACCOUNT n)
      else Inr ())"

definition allowed_subledger_references :: "string list" where
  "allowed_subledger_references =
     [''AR_INVOICE'', ''AP_INVOICE'', ''RECEIPT'', ''SUPPLIER_PAYMENT'', ''LOAN'', ''ASSET'',
      ''PROVISION'', ''REVERSAL'', ''INTERCOMPANY'']"

definition assert_control_account_reference ::
    "resolved_document \<Rightarrow> draft_line \<Rightarrow> gl_account_row \<Rightarrow> nat \<Rightarrow> accounting_error + unit" where
  "assert_control_account_reference d l a n =
     (if \<not> is_control_account a then Inr ()
      else if \<not> truthy (in_reference_type l) \<or> the (in_reference_type l) \<notin> set allowed_subledger_references
           then Inl (CONTROL_ACCOUNT_REQUIRES_SUBLEDGER_REFERENCE n)
      else if rd_source_system d = ''ACCOUNTING'' \<and> rd_source_type d \<noteq> ''REVERSAL''
           then Inl DIRECT_MANUAL_POSTING_TO_CONTROL_ACCOUNT_BLOCKED
      else Inr ())"

definition assert_center ::
    "center_row list \<Rightarrow> ident option \<Rightarrow> ident \<Rightarrow> accounting_error \<Rightarrow> accounting_error \<Rightarrow> accounting_error + unit"
where
  "assert_center rows i entity not_active mismatch =
     (if \<not> truthy i then Inr ()
      else case find_by center_id (the i) rows of
             None \<Rightarrow> Inl not_active
           | Some c \<Rightarrow>
               if center_status c \<noteq> ''ACTIVE'' then Inl not_active
               else if center_entity c \<noteq> entity then Inl mismatch
               else Inr ())"

definition assert_dimension_references_exist ::
    "books \<Rightarrow> draft_line \<Rightarrow> nat \<Rightarrow> ident \<Rightarrow> accounting_error + unit" where
  "assert_dimension_references_exist b l n entity =
     and_then (if \<not> truthy (in_partner l) then Inr ()
               else case find_by partner_id (the (in_partner l)) (partners b) of
                      None \<Rightarrow> Inl (LINE_PARTNER_NOT_ACTIVE n)
                    | Some p \<Rightarrow> ensure (partner_status p = ''ACTIVE'') (LINE_PARTNER_NOT_ACTIVE n)) (\<lambda>_.
     and_then (assert_center (cost_centers b) (in_cost_center l) entity
                 (LINE_COST_CENTER_NOT_ACTIVE n) (LINE_COST_CENTER_LEGAL_ENTITY_MISMATCH n)) (\<lambda>_.
     and_then (assert_center (profit_centers b) (in_profit_center l) entity
                 (LINE_PROFIT_CENTER_NOT_ACTIVE n) (LINE_PROFIT_CENTER_LEGAL_ENTITY_MISMATCH n)) (\<lambda>_.
     if \<not> truthy (in_tax_code l) then Inr ()
     else case find_by tax_id (the (in_tax_code l)) (tax_codes b) of
            None \<Rightarrow> Inl (LINE_TAX_CODE_NOT_ACTIVE n)
          | Some t \<Rightarrow> ensure (tax_status t = ''ACTIVE'') (LINE_TAX_CODE_NOT_ACTIVE n))))"

definition assert_line ::
    "books \<Rightarrow> resolved_document \<Rightarrow> nat \<times> draft_line \<Rightarrow> accounting_error + unit" where
  "assert_line b d x = (case x of (n, l) \<Rightarrow>
     (case find_by account_id (in_account l) (gl_accounts b) of
        None \<Rightarrow> Inl (GL_ACCOUNT_NOT_FOUND n)
      | Some a \<Rightarrow>
          if account_status a \<noteq> ''ACTIVE'' then Inl (GL_ACCOUNT_NOT_ACTIVE n)
          else and_then (assert_required_dimensions l a n) (\<lambda>_.
               and_then (assert_control_account_reference d l a n) (\<lambda>_.
               assert_dimension_references_exist b l n (rd_entity d)))))"

definition assert_lines_use_valid_accounts :: "books \<Rightarrow> resolved_document \<Rightarrow> accounting_error + unit" where
  "assert_lines_use_valid_accounts b d = each (assert_line b d) (enumerate 1 (rd_lines d))"

definition assert_document_can_be_posted ::
    "books \<Rightarrow> resolved_document \<Rightarrow> accounting_error + (period_row \<times> fiscal_year_row \<times> ledger_row)" where
  "assert_document_can_be_posted b d =
     and_then (assert_period_belongs_and_is_open b (rd_period d) (rd_entity d) (rd_posting_date d)) (\<lambda>p.
     and_then (get_fiscal_year b (period_year p)) (\<lambda>y.
     and_then (assert_ledger_belongs b (rd_ledger d) (rd_entity d)) (\<lambda>l.
     and_then (assert_lines_use_valid_accounts b d) (\<lambda>_. Inr (p, y, l)))))"

section \<open>Period guard and posting rule\<close>

definition assert_period_is_open :: "books \<Rightarrow> ident \<Rightarrow> accounting_error + period_row" where
  "assert_period_is_open b i =
     (case find_by period_id i (periods b) of
        None \<Rightarrow> Inl ACCOUNTING_PERIOD_NOT_FOUND
      | Some p \<Rightarrow>
          if \<not> is_open p \<or> close_status p \<noteq> ''OPEN'' then Inl ACCOUNTING_PERIOD_CLOSED else Inr p)"

definition rule_codes :: "resolved_document \<Rightarrow> string list" where
  "rule_codes d =
     [rd_source_system d @ ''.'' @ rd_source_type d @ ''.'' @ rd_document_type d,
      rd_source_system d @ ''.'' @ rd_source_type d,
      rd_source_type d]"

definition rule_applies :: "resolved_document \<Rightarrow> posting_rule_row \<Rightarrow> bool" where
  "rule_applies d r =
     (rule_status r = ''ACTIVE'' \<and> rule_code r \<in> set (rule_codes d) \<and> rule_from r \<le> rd_posting_date d \<and>
      (case rule_to r of None \<Rightarrow> True | Some u \<Rightarrow> rd_posting_date d \<le> u))"

text \<open>\<open>order: [['versionNo', 'DESC'], ['effectiveFrom', 'DESC']]\<close>, first row.\<close>

definition rule_before :: "posting_rule_row \<Rightarrow> posting_rule_row \<Rightarrow> bool" where
  "rule_before r s =
     (rule_version s < rule_version r \<or> rule_version r = rule_version s \<and> rule_from s < rule_from r)"

fun first_rule :: "posting_rule_row list \<Rightarrow> posting_rule_row option" where
  "first_rule [] = None"
| "first_rule (r # rs) =
     (case first_rule rs of None \<Rightarrow> Some r | Some s \<Rightarrow> Some (if rule_before s r then s else r))"

definition find_applicable_rule_id :: "books \<Rightarrow> resolved_document \<Rightarrow> ident option" where
  "find_applicable_rule_id b d = map_option rule_id (first_rule (filter (rule_applies d) (posting_rules b)))"

section \<open>Lemmas\<close>

lemma assert_period_is_open_eq_Inr [simp]:
  "assert_period_is_open b i = Inr p \<longleftrightarrow> find_by period_id i (periods b) = Some p \<and> period_accepts p"
  by (auto simp: assert_period_is_open_def period_accepts_def split: option.splits)

lemma assert_period_belongs_eq_Inr:
  "assert_period_belongs_and_is_open b i entity day = Inr p \<longleftrightarrow>
   find_by period_id i (periods b) = Some p \<and> period_accepts p \<and> start_date p \<le> day \<and> day \<le> end_date p
   \<and> (\<exists>y. find_by year_id (period_year p) (fiscal_years b) = Some y \<and> year_entity y = entity)"
  by (auto simp: assert_period_belongs_and_is_open_def get_fiscal_year_def period_accepts_def result_simps
      split: option.splits if_splits)

lemma assert_ledger_belongs_eq_Inr:
  "assert_ledger_belongs b i entity = Inr l \<longleftrightarrow>
   find_by ledger_id i (ledgers b) = Some l \<and> ledger_entity l = entity \<and> ledger_status l = ''ACTIVE''"
  by (auto simp: assert_ledger_belongs_def split: option.splits)

lemma assert_center_eq_Inr:
  "assert_center rows i entity e f = Inr u \<longleftrightarrow>
   (truthy i \<longrightarrow> (\<exists>c. find_by center_id (the i) rows = Some c \<and> center_status c = ''ACTIVE''
     \<and> center_entity c = entity))"
  by (auto simp: assert_center_def split: option.splits)

text \<open>What every line of an accepted document satisfies.\<close>

definition line_ok :: "books \<Rightarrow> resolved_document \<Rightarrow> draft_line \<Rightarrow> bool" where
  "line_ok b d l \<longleftrightarrow>
     (\<exists>a. find_by account_id (in_account l) (gl_accounts b) = Some a \<and> account_status a = ''ACTIVE''
       \<and> (requires_partner a \<longrightarrow> truthy (in_partner l))
       \<and> (requires_cost_center a \<longrightarrow> truthy (in_cost_center l))
       \<and> (requires_profit_center a \<longrightarrow> truthy (in_profit_center l))
       \<and> (requires_tax_code a \<longrightarrow> truthy (in_tax_code l))
       \<and> (is_control_account a \<longrightarrow>
            (\<exists>t \<in> set allowed_subledger_references. in_reference_type l = Some t)
            \<and> (rd_source_system d = ''ACCOUNTING'' \<longrightarrow> rd_source_type d = ''REVERSAL'')))
     \<and> (truthy (in_partner l) \<longrightarrow>
          (\<exists>p. find_by partner_id (the (in_partner l)) (partners b) = Some p \<and> partner_status p = ''ACTIVE''))
     \<and> (truthy (in_cost_center l) \<longrightarrow>
          (\<exists>c. find_by center_id (the (in_cost_center l)) (cost_centers b) = Some c
            \<and> center_status c = ''ACTIVE'' \<and> center_entity c = rd_entity d))
     \<and> (truthy (in_profit_center l) \<longrightarrow>
          (\<exists>c. find_by center_id (the (in_profit_center l)) (profit_centers b) = Some c
            \<and> center_status c = ''ACTIVE'' \<and> center_entity c = rd_entity d))
     \<and> (truthy (in_tax_code l) \<longrightarrow>
          (\<exists>t. find_by tax_id (the (in_tax_code l)) (tax_codes b) = Some t \<and> tax_status t = ''ACTIVE''))"

lemma truthy_iff: "truthy x \<longleftrightarrow> (\<exists>s. x = Some s \<and> s \<noteq> [])"
  by (cases x) auto

lemma assert_required_dimensions_eq_Inr:
  "assert_required_dimensions l a n = Inr u \<longleftrightarrow>
   (requires_partner a \<longrightarrow> truthy (in_partner l)) \<and> (requires_cost_center a \<longrightarrow> truthy (in_cost_center l))
   \<and> (requires_profit_center a \<longrightarrow> truthy (in_profit_center l)) \<and> (requires_tax_code a \<longrightarrow> truthy (in_tax_code l))"
  by (auto simp: assert_required_dimensions_def)

lemma assert_control_account_reference_eq_Inr:
  "assert_control_account_reference d l a n = Inr u \<longleftrightarrow>
   (is_control_account a \<longrightarrow>
     (\<exists>t \<in> set allowed_subledger_references. in_reference_type l = Some t)
     \<and> (rd_source_system d = ''ACCOUNTING'' \<longrightarrow> rd_source_type d = ''REVERSAL''))"
  by (auto simp: assert_control_account_reference_def truthy_iff) (auto simp: allowed_subledger_references_def)

lemma assert_dimension_references_eq_Inr:
  "assert_dimension_references_exist b l n entity = Inr u \<longleftrightarrow>
     (truthy (in_partner l) \<longrightarrow>
          (\<exists>p. find_by partner_id (the (in_partner l)) (partners b) = Some p \<and> partner_status p = ''ACTIVE''))
     \<and> (truthy (in_cost_center l) \<longrightarrow>
          (\<exists>c. find_by center_id (the (in_cost_center l)) (cost_centers b) = Some c
            \<and> center_status c = ''ACTIVE'' \<and> center_entity c = entity))
     \<and> (truthy (in_profit_center l) \<longrightarrow>
          (\<exists>c. find_by center_id (the (in_profit_center l)) (profit_centers b) = Some c
            \<and> center_status c = ''ACTIVE'' \<and> center_entity c = entity))
     \<and> (truthy (in_tax_code l) \<longrightarrow>
          (\<exists>t. find_by tax_id (the (in_tax_code l)) (tax_codes b) = Some t \<and> tax_status t = ''ACTIVE''))"
  unfolding assert_dimension_references_exist_def and_then_eq_Inr assert_center_eq_Inr
  by (simp split: option.splits)

lemma assert_line_eq_Inr: "assert_line b d (n, l) = Inr u \<longleftrightarrow> line_ok b d l"
  unfolding assert_line_def line_ok_def
  by (simp add: result_simps assert_required_dimensions_eq_Inr assert_control_account_reference_eq_Inr
      assert_dimension_references_eq_Inr split: option.splits)

lemma assert_lines_eq_Inr:
  "assert_lines_use_valid_accounts b d = Inr u \<longleftrightarrow> (\<forall>l \<in> set (rd_lines d). line_ok b d l)"
proof -
  have "(\<forall>x \<in> set (enumerate k ls). assert_line b d x = Inr ()) \<longleftrightarrow> (\<forall>l \<in> set ls. line_ok b d l)" for k ls
    by (induction ls arbitrary: k) (simp_all add: assert_line_eq_Inr)
  then show ?thesis by (simp add: assert_lines_use_valid_accounts_def each_eq_Inr)
qed

end
