(* ===== verification/Access.thy ===== *)
theory Access
  imports LedgerTypes
begin

text \<open>
  Authorisation by legal entity, \<open>common/services/legal-entity-access.service.ts\<close>: who may operate
  on, and who may list, the data of a legal entity.
\<close>

section \<open>Roles and scopes\<close>

record auth_user =
  sub :: ident
  role_code :: "string option"
  role :: "string option"
  roles :: "string list option"
  legal_entity_ids :: "ident list option"

definition user_roles :: "auth_user \<Rightarrow> string option list" where
  "user_roles user =
     [role_code user, role user] @ map Some (case roles user of None \<Rightarrow> [] | Some rs \<Rightarrow> rs)"

definition has_role :: "auth_user \<Rightarrow> string \<Rightarrow> bool" where
  "has_role user expected_role =
     (\<exists>r \<in> set (user_roles user).
        map_option (\<lambda>x. to_upper (js_trim x)) r = Some (to_upper (js_trim expected_role)))"

definition assert_can_access_legal_entity :: "auth_user \<Rightarrow> ident \<Rightarrow> accounting_error + unit" where
  "assert_can_access_legal_entity user entity =
     (if has_role user ''admin'' then Inr ()
      else case legal_entity_ids user of
             None \<Rightarrow> Inl LEGAL_ENTITY_SCOPE_REQUIRED
           | Some ids \<Rightarrow>
               if ids = [] then Inl LEGAL_ENTITY_SCOPE_REQUIRED
               else if entity \<notin> set ids then Inl LEGAL_ENTITY_FORBIDDEN
               else Inr ())"

definition accessible_legal_entity_ids :: "auth_user \<Rightarrow> ident list option" where
  "accessible_legal_entity_ids user =
     (if has_role user ''admin'' then None
      else Some (case legal_entity_ids user of None \<Rightarrow> [] | Some ids \<Rightarrow> ids))"

definition can_access_legal_entity :: "auth_user \<Rightarrow> ident \<Rightarrow> bool" where
  "can_access_legal_entity user entity =
     (case accessible_legal_entity_ids user of None \<Rightarrow> True | Some allowed \<Rightarrow> entity \<in> set allowed)"

section \<open>The three forms agree\<close>

lemma assert_can_access_iff:
  "assert_can_access_legal_entity user entity = Inr u \<longleftrightarrow> can_access_legal_entity user entity"
  by (auto simp: assert_can_access_legal_entity_def can_access_legal_entity_def
      accessible_legal_entity_ids_def split: option.splits)

end
