(* ===== verification/Approval.thy ===== *)
theory Approval
  imports Access
begin

text \<open>
  The approval of accounting documents, \<open>documents/domain/approval-policy.ts\<close> and
  \<open>documents/domain/document-approval.ts\<close>: the server's policy that decides whether a new document
  needs approval, what a client may declare, who may decide on a draft, and what a document must
  show to be posted. Explanatory texts of the decisions are not modelled.
\<close>

section \<open>The policy\<close>

datatype approval_origin = MANUAL | SERVER_GENERATED

datatype policy_decision =
    PolicyRequired string
  | PolicyNotRequired string
  | PolicyUnavailable

definition approval_policy_ids :: "string list" where
  "approval_policy_ids = [''ALL_MANUAL_REQUIRE_APPROVAL'']"

definition all_manual_policy_ref :: string where
  "all_manual_policy_ref = ''ALL_MANUAL_REQUIRE_APPROVAL@1''"

definition server_generated_policy_ref :: string where
  "server_generated_policy_ref = ''SERVER_GENERATED_DOCUMENT@1''"

definition is_known_approval_policy :: "string option \<Rightarrow> bool" where
  "is_known_approval_policy v =
     ((case v of None \<Rightarrow> [] | Some s \<Rightarrow> s) \<in> set approval_policy_ids)"

definition evaluate_approval_policy :: "approval_origin \<Rightarrow> string option \<Rightarrow> policy_decision" where
  "evaluate_approval_policy origin configured =
     (if origin = SERVER_GENERATED then PolicyNotRequired server_generated_policy_ref
      else if configured = None \<or> configured = Some [] then PolicyUnavailable
      else if \<not> is_known_approval_policy configured then PolicyUnavailable
      else PolicyRequired all_manual_policy_ref)"

text \<open>The status a client may send is compatibility only: it must agree with the server.\<close>

definition resolve_approval_for_creation ::
    "approval_origin \<Rightarrow> string option \<Rightarrow> approval_status option \<Rightarrow>
     accounting_error + (approval_status \<times> string)" where
  "resolve_approval_for_creation origin configured requested =
     (case evaluate_approval_policy origin configured of
        PolicyUnavailable \<Rightarrow> Inl ACCOUNTING_APPROVAL_POLICY_UNAVAILABLE
      | PolicyRequired ref \<Rightarrow>
          if requested \<noteq> None \<and> requested \<noteq> Some PENDING
          then Inl ACCOUNTING_DOCUMENT_APPROVAL_STATUS_CONTRADICTS_POLICY
          else Inr (PENDING, ref)
      | PolicyNotRequired ref \<Rightarrow>
          if requested \<noteq> None \<and> requested \<noteq> Some NOT_REQUIRED
          then Inl ACCOUNTING_DOCUMENT_APPROVAL_STATUS_CONTRADICTS_POLICY
          else Inr (NOT_REQUIRED, ref))"

definition assert_client_approval_status :: "approval_status option \<Rightarrow> accounting_error + unit" where
  "assert_client_approval_status requested =
     (case requested of
        None \<Rightarrow> Inr ()
      | Some s \<Rightarrow> ensure (s \<in> set [NOT_REQUIRED, PENDING]) ACCOUNTING_DOCUMENT_APPROVAL_NOT_CLIENT_SETTABLE)"

section \<open>Posting and deciding\<close>

definition approval_complete :: "document_row \<Rightarrow> bool" where
  "approval_complete d =
     (approval d = NOT_REQUIRED \<and> truthy (approval_policy_ref d) \<or>
      approval d = APPROVED \<and> truthy (approved_by d))"

definition assert_document_approved_for_posting :: "document_row \<Rightarrow> accounting_error + unit" where
  "assert_document_approved_for_posting d =
     (if approval d = NOT_REQUIRED \<and> truthy (approval_policy_ref d) then Inr ()
      else if approval d = APPROVED \<and> truthy (approved_by d) then Inr ()
      else if approval d = NOT_REQUIRED then Inl ACCOUNTING_DOCUMENT_APPROVAL_POLICY_MISSING
      else Inl ACCOUNTING_DOCUMENT_APPROVAL_REQUIRED)"

definition assert_pending_draft :: "document_row \<Rightarrow> accounting_error + unit" where
  "assert_pending_draft d =
     (if status d \<noteq> DRAFT \<or> approval d \<noteq> PENDING then Inl ACCOUNTING_DOCUMENT_NOT_PENDING_APPROVAL
      else Inr ())"

definition assert_can_decide :: "document_row \<Rightarrow> ident \<Rightarrow> accounting_error + unit" where
  "assert_can_decide d actor =
     (if truthy (created_by d) \<and> created_by d = Some actor
      then Inl ACCOUNTING_DOCUMENT_SELF_APPROVAL_FORBIDDEN
      else assert_pending_draft d)"

section \<open>Lemmas\<close>

lemma approved_for_posting_iff [simp]:
  "assert_document_approved_for_posting d = Inr u \<longleftrightarrow> approval_complete d"
  by (auto simp: assert_document_approved_for_posting_def approval_complete_def)

lemma can_decide_iff [simp]:
  "assert_can_decide d actor = Inr u \<longleftrightarrow>
   (created_by d \<noteq> Some actor \<or> actor = []) \<and> status d = DRAFT \<and> approval d = PENDING"
  by (auto simp: assert_can_decide_def assert_pending_draft_def)

lemma resolve_approval_eq_Inr:
  "resolve_approval_for_creation origin configured requested = Inr (st, ref) \<longleftrightarrow>
   (requested = None \<or> requested = Some st) \<and>
   (origin = SERVER_GENERATED \<and> st = NOT_REQUIRED \<and> ref = server_generated_policy_ref
    \<or> origin = MANUAL \<and> configured = Some ''ALL_MANUAL_REQUIRE_APPROVAL'' \<and> st = PENDING
      \<and> ref = all_manual_policy_ref)"
  by (cases origin; cases configured)
    (auto simp: resolve_approval_for_creation_def evaluate_approval_policy_def
      is_known_approval_policy_def approval_policy_ids_def split: if_splits)

end
