(* ===== verification/Numbering.thy ===== *)
theory Numbering
  imports JsText
begin

text \<open>
  The document series of \<open>common/numbering/document-numbering.ts\<close>. The numbers already issued are a
  list of texts (the column of the table, restricted to the scope of the series); the advisory
  lock of the source makes the read of the maximum and the insert of the caller one atomic step,
  so a series is a sequence of calls of \<open>next_document_number\<close> each followed by an insert. The SQL
  \<open>MAX\<close> of a text column is the lexicographic maximum.
\<close>

section \<open>The series\<close>

text \<open>\<open>/^(\d{4})/\<close> on the date text; \<open>None\<close> falls back to the current year of the clock.\<close>

definition serie_year :: "string \<Rightarrow> string \<Rightarrow> string" where
  "serie_year current_year date =
     (if 4 \<le> length date \<and> all_digits (take 4 date) then take 4 date else current_year)"

text \<open>\<open>Number.parseInt(text, 10)\<close>: leading white space, an optional sign, then digits; \<open>None\<close> is \<open>NaN\<close>.\<close>

definition parse_int :: "string \<Rightarrow> int option" where
  "parse_int s =
     (let t = dropWhile js_space s;
          negative = (case t of [] \<Rightarrow> False | c # _ \<Rightarrow> c = CHR ''-'');
          u = (case t of [] \<Rightarrow> [] | c # r \<Rightarrow> if c = CHR ''-'' \<or> c = CHR ''+'' then r else t);
          d = takeWhile is_digit u
      in if d = [] then None else Some (if negative then - int (parse_nat d) else int (parse_nat d)))"

definition starts_with :: "string \<Rightarrow> string \<Rightarrow> bool" where
  "starts_with prefix s = (take (length prefix) s = prefix)"

text \<open>\<open>SELECT MAX(column) ... WHERE column LIKE 'prefix%'\<close>; no row gives the SQL null.\<close>

fun text_max :: "string list \<Rightarrow> string option" where
  "text_max [] = None"
| "text_max (x # xs) = (case text_max xs of None \<Rightarrow> Some x | Some y \<Rightarrow> Some (if x < y then y else x))"

definition last_in_series :: "string \<Rightarrow> string list \<Rightarrow> string option" where
  "last_in_series prefix issued = text_max (filter (starts_with prefix) issued)"

definition series_prefix :: "string \<Rightarrow> string \<Rightarrow> string" where
  "series_prefix prefix year = prefix @ ''-'' @ year @ ''-''"

definition show_integer :: "int \<Rightarrow> string" where
  "show_integer n = (if n < 0 then CHR ''-'' # show_nat (nat (- n)) else show_nat (nat n))"

definition next_document_number :: "string \<Rightarrow> nat \<Rightarrow> string list \<Rightarrow> string" where
  "next_document_number full_prefix padding issued =
     (let correlativo =
            (case last_in_series full_prefix issued of
               None \<Rightarrow> Some 0
             | Some ultimo \<Rightarrow>
                 if ultimo = [] then Some 0 else parse_int (drop (length full_prefix) ultimo));
          siguiente = (case correlativo of Some n \<Rightarrow> n + 1 | None \<Rightarrow> 1)
      in full_prefix @ pad_start padding (show_integer siguiente))"

text \<open>The whole request: the year of the document's date selects the series.\<close>

definition document_number :: "string \<Rightarrow> string \<Rightarrow> string \<Rightarrow> nat option \<Rightarrow> string list \<Rightarrow> string" where
  "document_number current_year prefix date padding issued =
     next_document_number (series_prefix prefix (serie_year current_year date))
       (case padding of None \<Rightarrow> 6 | Some p \<Rightarrow> p) issued"

text \<open>A run of issues: each emission reads the series and inserts its number.\<close>

fun issue_many :: "string \<Rightarrow> nat \<Rightarrow> nat \<Rightarrow> string list \<Rightarrow> string list" where
  "issue_many full_prefix padding 0 issued = []"
| "issue_many full_prefix padding (Suc k) issued =
     (let n = next_document_number full_prefix padding issued
      in n # issue_many full_prefix padding k (issued @ [n]))"

section \<open>Lemmas\<close>

definition numbered :: "string \<Rightarrow> nat \<Rightarrow> nat \<Rightarrow> string" where
  "numbered full_prefix padding n = full_prefix @ pad_start padding (show_nat n)"

lemma starts_with_append [simp]: "starts_with p (p @ s)"
  by (simp add: starts_with_def)

lemma numbered_suffix [simp]: "drop (length p) (numbered p k n) = pad_start k (show_nat n)"
  by (simp add: numbered_def)

lemma numbered_starts [simp]: "starts_with p (numbered p k n)"
  by (simp add: numbered_def)

lemma pad_start_nonempty [simp]: "pad_start k s = [] \<longleftrightarrow> k = 0 \<and> s = []"
  by (auto simp: pad_start_def)

lemma numbered_inject [simp]: "numbered p k m = numbered p k n \<longleftrightarrow> m = n"
proof
  assume "numbered p k m = numbered p k n"
  then have "parse_nat (pad_start k (show_nat m)) = parse_nat (pad_start k (show_nat n))"
    by (simp add: numbered_def)
  then show "m = n" by simp
qed simp

lemma parse_int_digits:
  assumes "all_digits d" "d \<noteq> []"
  shows "parse_int d = Some (int (parse_nat d))"
proof -
  obtain c r where d: "d = c # r" using assms(2) by (cases d) auto
  have c: "is_digit c" "\<not> js_space c" using assms d by (auto simp: all_digits_def is_digit_not_space)
  then have "c \<noteq> CHR ''-''" "c \<noteq> CHR ''+''" by (auto simp: is_digit_def code_unit_def)
  moreover have tw: "takeWhile is_digit r = r" using assms(1) d by (simp add: all_digits_def list_all_iff)
  ultimately show ?thesis using c by (simp add: parse_int_def d Let_def tw)
qed

lemma parse_int_numbered [simp]:
  "parse_int (pad_start k (show_nat n)) = Some (int n)"
  by (subst parse_int_digits) simp_all

text \<open>Texts of equal length made of digits are ordered as their numbers.\<close>

lemma code_unit_less: "c < d \<longleftrightarrow> code_unit c < code_unit d"
  by (simp add: code_unit_def less_char_def)

lemma digit_texts_ordered:
  assumes "all_digits s" "all_digits t" "length s = length t"
  shows "s < t \<longleftrightarrow> parse_nat s < parse_nat t"
  using assms(3,1,2)
proof (induction s t rule: list_induct2)
  case (Cons a s b t)
  then have s: "parse_nat s < 10 ^ length s" "parse_nat t < 10 ^ length s"
    using parse_nat_bound [of s] parse_nat_bound [of t] by (simp_all add: all_digits_def)
  have ab: "is_digit a" "is_digit b" using Cons.prems by (simp_all add: all_digits_def)
  have order: "a < b \<longleftrightarrow> digit_value a < digit_value b"
    using ab unfolding code_unit_less digit_value_def is_digit_def by linarith
  have same: "a = b \<longleftrightarrow> digit_value a = digit_value b"
    using digit_char_value [OF ab(1)] digit_char_value [OF ab(2)] by metis
  have lift: "x * n + p < y * n + q" if "x < y" "p < n" for x y n p q :: nat
  proof -
    have "Suc x * n \<le> y * n" using that(1) by (intro mult_le_mono1) simp
    then show ?thesis using that(2) by simp
  qed
  have "(digit_value a * 10 ^ length s + parse_nat s < digit_value b * 10 ^ length s + parse_nat t) \<longleftrightarrow>
    digit_value a < digit_value b \<or> digit_value a = digit_value b \<and> parse_nat s < parse_nat t"
    using lift [of "digit_value a" "digit_value b" "parse_nat s" "10 ^ length s" "parse_nat t"]
      lift [of "digit_value b" "digit_value a" "parse_nat t" "10 ^ length s" "parse_nat s"] s
    by (metis add_less_cancel_left linorder_neqE_nat order_less_asym')
  then show ?case
    using Cons order same by (simp add: parse_nat_Cons all_digits_def)
qed simp

lemma numbered_less:
  assumes "m < 10 ^ k" "n < 10 ^ k" "0 < k"
  shows "numbered p k m < numbered p k n \<longleftrightarrow> m < n"
proof -
  have len: "length (pad_start k (show_nat i)) = k" if "i < 10 ^ k" for i
    using show_nat_length_le [OF assms(3) that] by simp
  have "pad_start k (show_nat m) < pad_start k (show_nat n) \<longleftrightarrow> m < n"
    using len assms by (subst digit_texts_ordered) simp_all
  moreover have "p @ s < p @ t \<longleftrightarrow> s < t" for s t :: string
    by (induction p) simp_all
  ultimately show ?thesis by (simp add: numbered_def)
qed

lemma text_max_numbered:
  assumes "0 < k" "ns \<noteq> []" "\<forall>n \<in> set ns. n < 10 ^ k"
  shows "text_max (map (numbered p k) ns) = Some (numbered p k (Max (set ns)))"
  using assms(2,3)
proof (induction ns)
  case (Cons n ns)
  show ?case
  proof (cases "ns = []")
    case False
    then have "Max (set ns) \<in> set ns" by simp
    with Cons False assms(1) show ?thesis
      by (auto simp: numbered_less max_def)
  qed simp
qed simp

lemma next_after:
  assumes "0 < k" "ns \<noteq> []" "\<forall>n \<in> set ns. n < 10 ^ k"
    and "filter (starts_with p) issued = map (numbered p k) ns"
  shows "next_document_number p k issued = numbered p k (Suc (Max (set ns)))"
proof -
  have last: "last_in_series p issued = Some (numbered p k (Max (set ns)))"
    using text_max_numbered [OF assms(1-3)] by (simp add: last_in_series_def assms(4))
  have "numbered p k n \<noteq> []" for n by (simp add: numbered_def)
  then show ?thesis
    by (simp add: next_document_number_def last Let_def show_integer_def numbered_def nat_add_distrib)
qed

lemma next_first:
  "filter (starts_with p) issued = [] \<Longrightarrow> next_document_number p k issued = numbered p k 1"
  by (simp add: next_document_number_def last_in_series_def Let_def show_integer_def numbered_def)

text \<open>Issuing from a series whose numbers are all below the padding's capacity continues it.\<close>

lemma issue_many_numbered:
  assumes "0 < k" "filter (starts_with p) issued = map (numbered p k) ns"
    and "\<forall>n \<in> set ns. n \<le> m" "m \<in> set ns \<or> ns = [] \<and> m = 0" "m + c < 10 ^ k"
  shows "issue_many p k c issued = map (numbered p k) [Suc m ..< Suc (m + c)]"
  using assms
proof (induction c arbitrary: issued ns m)
  case (Suc c)
  have next_eq: "next_document_number p k issued = numbered p k (Suc m)"
  proof (cases "ns = []")
    case True
    with Suc.prems show ?thesis by (simp add: next_first)
  next
    case False
    then have "Max (set ns) = m" using Suc.prems(3,4) by (intro Max_eqI) auto
    moreover have "\<forall>n \<in> set ns. n < 10 ^ k" using Suc.prems(3,5) by auto
    ultimately show ?thesis using next_after [OF Suc.prems(1) False _ Suc.prems(2)] by simp
  qed
  have "issue_many p k c (issued @ [numbered p k (Suc m)]) =
      map (numbered p k) [Suc (Suc m) ..< Suc (Suc m + c)]"
    using Suc.prems by (intro Suc.IH [of _ "ns @ [Suc m]"]) (auto simp: le_SucI)
  then show ?case by (simp add: next_eq Let_def upt_conv_Cons del: upt_Suc)
qed simp

lemma text_max_Max: "xs \<noteq> [] \<Longrightarrow> text_max xs = Some (Max (set xs))"
proof (induction xs)
  case (Cons x xs)
  then show ?case by (cases "xs = []") (auto simp: max_def)
qed simp

lemma shorter_text_less: "u < v \<Longrightarrow> length u = length v \<Longrightarrow> u @ r < (v :: string)"
proof (induction v arbitrary: u)
  case (Cons b v)
  then show ?case by (cases u) auto
qed simp

text \<open>The first number that does not fit the padding sorts below the last one that does.\<close>

lemma overflow_sorts_below:
  assumes "0 < k"
  shows "numbered p k (10 ^ k) < numbered p k (10 ^ k - 1)"
proof -
  define s where "s = show_nat (10 ^ k)"
  have len: "length s = Suc k"
    using show_nat_length_gt [of k "10 ^ k"] show_nat_length_le [of "Suc k" "10 ^ k"] by (simp add: s_def)
  define u where "u = take k s"
  have s: "s = u @ drop k s" "length u = k" "length (drop k s) = 1" using len by (simp_all add: u_def)
  have digits: "all_digits u" by (simp add: u_def s_def)
  have "parse_nat (u @ drop k s) = 10 ^ k" using s(1) by (simp add: s_def flip: s(1))
  then have "parse_nat u * 10 \<le> 10 ^ k" by (simp add: parse_nat_append len)
  moreover have "(1 :: nat) < 10 ^ k" using assms by (intro one_less_power) simp_all
  ultimately have small: "parse_nat u < 10 ^ k - 1" by linarith
  define d where "d = pad_start k (show_nat (10 ^ k - 1))"
  have "length (show_nat (10 ^ k - 1)) \<le> k" using show_nat_length_le [OF assms, of "10 ^ k - 1"] by simp
  then have d: "length d = k" "all_digits d" "parse_nat d = 10 ^ k - 1" by (simp_all add: d_def)
  have "u < d" using digit_texts_ordered [OF digits d(2)] s(2) d small by simp
  then have "s < d" using shorter_text_less [of u d "drop k s"] s(1,2) d(1) by metis
  moreover have "pad_start k s = s" using len by (simp add: pad_start_def)
  moreover have "p @ x < p @ y \<longleftrightarrow> x < y" for x y :: string by (induction p) simp_all
  ultimately show ?thesis by (simp add: numbered_def s_def d_def)
qed

section \<open>Properties\<close>

text \<open>C34: while the series stays below the capacity of its padding, consecutive emissions give
  consecutive numbers with no gap and no repetition, starting after the largest issued number.\<close>

theorem series_is_gapless:
  assumes "0 < padding" and "filter (starts_with p) issued = map (numbered p padding) [1 ..< Suc m]"
    and "m + c < 10 ^ padding"
  shows "issue_many p padding c issued = map (numbered p padding) [Suc m ..< Suc (m + c)]
    \<and> distinct (filter (starts_with p) issued @ issue_many p padding c issued)"
proof -
  have run: "issue_many p padding c issued = map (numbered p padding) [Suc m ..< Suc (m + c)]"
    by (rule issue_many_numbered [OF assms(1,2) _ _ assms(3)]) auto
  have "[1 ..< Suc m] @ [Suc m ..< Suc (m + c)] = [1 ..< Suc (m + c)]"
    using upt_add_eq_append [of 1 "Suc m" c] by (simp del: upt_Suc)
  then have "filter (starts_with p) issued @ issue_many p padding c issued =
      map (numbered p padding) [1 ..< Suc (m + c)]"
    unfolding run assms(2) map_append [symmetric] by simp
  moreover have "inj (numbered p padding)" by (simp add: inj_def)
  ultimately have "distinct (filter (starts_with p) issued @ issue_many p padding c issued)"
    by (metis distinct_map distinct_upt inj_on_subset subset_UNIV)
  with run show ?thesis by blast
qed

theorem series_is_gapless_witness:
  "issue_many ''F-2026-'' 6 2 [''F-2026-000001'', ''G-2026-000009''] = [''F-2026-000002'', ''F-2026-000003'']"
proof -
  have *: "filter (starts_with ''F-2026-'') [''F-2026-000001'', ''G-2026-000009''] =
      map (numbered ''F-2026-'' 6) [1 ..< Suc 1]" by code_simp
  have "map (numbered ''F-2026-'' 6) [Suc 1 ..< Suc (1 + 2)] = [''F-2026-000002'', ''F-2026-000003'']"
    by code_simp
  with series_is_gapless [OF _ *, of 2] show ?thesis by simp
qed

text \<open>C35: past the capacity of the padding the textual maximum stops growing: once the series
  holds the last number that fits and its successor, every further emission repeats that
  successor, so the series no longer issues fresh numbers.\<close>

theorem series_overflow_repeats:
  assumes "0 < padding" and "filter (starts_with p) issued = map (numbered p padding) [1 ..< Suc (10 ^ padding)]"
  shows "next_document_number p padding issued = numbered p padding (10 ^ padding)
    \<and> next_document_number p padding issued \<in> set issued"
proof -
  define ns where "ns = [1 ..< Suc (10 ^ padding)]"
  let ?top = "numbered p padding (10 ^ padding - 1)"
  have "n \<in> set ns \<Longrightarrow> numbered p padding n \<le> ?top" for n
    using overflow_sorts_below [OF assms(1), of p] numbered_less [of "10 ^ padding - 1" padding n p] assms(1)
    by (cases "n = 10 ^ padding") (auto simp: ns_def not_less [symmetric])
  moreover have "(10 ^ padding - 1 :: nat) \<in> set ns"
    using assms(1) one_less_power [of "10 :: nat" padding] by (auto simp: ns_def)
  ultimately have "Max (numbered p padding ` set ns) = ?top" by (intro Max_eqI) auto
  then have "last_in_series p issued = Some ?top"
    by (simp add: last_in_series_def assms(2) text_max_Max flip: ns_def) (simp add: ns_def)
  moreover have "?top \<noteq> []" by (simp add: numbered_def)
  ultimately have next_eq: "next_document_number p padding issued = numbered p padding (10 ^ padding)"
    by (simp add: next_document_number_def Let_def show_integer_def) (simp add: numbered_def nat_power_eq)
  have "numbered p padding (10 ^ padding) \<in> set (filter (starts_with p) issued)"
    unfolding assms(2) by simp
  with next_eq show ?thesis by simp
qed

theorem series_overflow_repeats_witness:
  "next_document_number ''S-'' 1 (map (numbered ''S-'' 1) [1 ..< 11]) = ''S-10''"
proof -
  have *: "filter (starts_with ''S-'') (map (numbered ''S-'' 1) [1 ..< 11]) = map (numbered ''S-'' 1) [1 ..< Suc (10 ^ 1)]"
    by code_simp
  have "numbered ''S-'' 1 (10 ^ 1) = ''S-10''" by code_simp
  with series_overflow_repeats [OF _ *] show ?thesis by simp
qed

end
