(* ===== verification/Documents.thy ===== *)
theory Documents
  imports PostingValidation Approval Numbering
begin

text \<open>
  The life of an accounting document (\<open>accounting/documents/services\<close>): drafts are resolved,
  validated and recorded (\<open>accounting-draft\<close>, \<open>document-draft-resolver\<close>, \<open>document-draft-recorder\<close>),
  approved or rejected (\<open>document-approval\<close>), posted (\<open>accounting-posting\<close>) and reversed
  (\<open>accounting-reversal\<close>), each step in one transaction that also writes the audit log and the
  outbox (\<open>accounting-event-outbox\<close>). Reads are those of \<open>accounting-document-queries\<close>. The unique
  constraints of the tables, as the migrations leave them (a document has one journal, and \<open>journal_no\<close> is no longer unique), are
  checked where the rows are inserted. A document is locked by the step that decides, posts or reverses it; the
  accounting period is locked by none. The digest that seals a
  journal (SHA-256 of a JSON text) is the parameter \<open>digest\<close>.
\<close>

section \<open>Reads\<close>

definition lock_document :: "books \<Rightarrow> ident \<Rightarrow> accounting_error + document_row" where
  "lock_document b i = from_option ACCOUNTING_DOCUMENT_NOT_FOUND (find_by doc_id i (documents b))"

definition find_active_reversal_of :: "books \<Rightarrow> ident \<Rightarrow> document_row option" where
  "find_active_reversal_of b i = find (\<lambda>d. reversal_of d = Some i \<and> status d \<noteq> VOID) (documents b)"

definition find_active_document_by_source ::
    "books \<Rightarrow> string \<Rightarrow> string \<Rightarrow> string \<Rightarrow> document_row option" where
  "find_active_document_by_source b sys typ src =
     find (\<lambda>d. source_system d = sys \<and> source_type d = typ \<and> source_id d = src \<and> status d \<noteq> VOID)
       (documents b)"

definition lines_of :: "books \<Rightarrow> ident \<Rightarrow> line_row list" where
  "lines_of b j = sort_key line_no (filter (\<lambda>l. line_journal l = j) (journal_lines b))"

definition load_journal_with_lines :: "books \<Rightarrow> ident \<Rightarrow> journal_row option \<times> line_row list" where
  "load_journal_with_lines b i =
     (case find_by journal_document i (journals b) of
        None \<Rightarrow> (None, [])
      | Some j \<Rightarrow> (Some j, lines_of b (journal_id j)))"

definition assert_journal_exists :: "journal_row option \<Rightarrow> accounting_error + journal_row" where
  "assert_journal_exists j = from_option JOURNAL_ENTRY_NOT_FOUND j"

type_synonym document_view = "document_row \<times> journal_row option \<times> line_row list"

definition get_document :: "books \<Rightarrow> ident \<Rightarrow> accounting_error + document_view" where
  "get_document b i =
     and_then (lock_document b i) (\<lambda>d. Inr (d, load_journal_with_lines b i))"

definition get_document_for_user :: "books \<Rightarrow> ident \<Rightarrow> auth_user \<Rightarrow> accounting_error + document_view" where
  "get_document_for_user b i user =
     and_then (get_document b i) (\<lambda>v.
     and_then (assert_can_access_legal_entity user (doc_entity (fst v))) (\<lambda>_. Inr v))"

text \<open>\<open>ORDER BY document_date DESC, id DESC LIMIT .. OFFSET ..\<close>, and the count with the same filter.\<close>

definition list_documents :: "books \<Rightarrow> auth_user \<Rightarrow> nat option \<Rightarrow> nat option \<Rightarrow> document_row list \<times> nat" where
  "list_documents b user page page_size =
     (let page = (case page of None \<Rightarrow> 1 | Some p \<Rightarrow> p);
          page_size = (case page_size of None \<Rightarrow> 500 | Some k \<Rightarrow> k);
          visible = filter (\<lambda>d. can_access_legal_entity user (doc_entity d)) (documents b);
          ordered = rev (sort_key document_date (sort_key doc_id visible))
      in (take page_size (drop ((page - 1) * page_size) ordered), length visible))"

section \<open>Writes\<close>

definition publish :: "event_row \<Rightarrow> books \<Rightarrow> accounting_error + books" where
  "publish e b =
     (if event_key e \<in> event_key ` set (events b) then Inl (UNIQUE_VIOLATION ''event_key'')
      else Inr (b\<lparr>events := events b @ [e]\<rparr>))"

definition document_event :: "string \<Rightarrow> string \<Rightarrow> ident \<Rightarrow> (string \<times> string) list \<Rightarrow> event_row" where
  "document_event t key_prefix i p =
     \<lparr>topic = t, aggregate_type = ''accounting_document'', aggregate_id = i,
      event_key = key_prefix @ i, payload = p, published_at = None\<rparr>"

definition write_audit :: "ident \<Rightarrow> string \<Rightarrow> auth_user \<Rightarrow> books \<Rightarrow> books" where
  "write_audit i event user b =
     b\<lparr>audit_log := audit_log b @ [\<lparr>audit_document = i, audit_event = event, audit_actor = sub user\<rparr>]\<rparr>"

definition write_action :: "action_row \<Rightarrow> books \<Rightarrow> books" where
  "write_action a b = b\<lparr>action_log := action_log b @ [a]\<rparr>"

definition insert_document :: "document_row \<Rightarrow> books \<Rightarrow> accounting_error + books" where
  "insert_document d b =
     (if \<exists>x \<in> set (documents b). doc_entity x = doc_entity d \<and> document_no x = document_no d
      then Inl (UNIQUE_VIOLATION ''document_no'')
      else if \<exists>x \<in> set (documents b). source_system x = source_system d \<and> source_type x = source_type d
                \<and> source_id x = source_id d \<and> doc_ledger x = doc_ledger d
      then Inl (UNIQUE_VIOLATION ''source'')
      else Inr (b\<lparr>documents := documents b @ [d]\<rparr>))"

definition update_document :: "ident \<Rightarrow> (document_row \<Rightarrow> document_row) \<Rightarrow> books \<Rightarrow> books" where
  "update_document i f b = b\<lparr>documents := update_by doc_id i f (documents b)\<rparr>"

definition update_journal :: "ident \<Rightarrow> (journal_row \<Rightarrow> journal_row) \<Rightarrow> books \<Rightarrow> books" where
  "update_journal i f b = b\<lparr>journals := update_by journal_id i f (journals b)\<rparr>"

section \<open>Resolving a draft\<close>

record draft_input =
  di_entity :: ident
  di_source_system :: string
  di_source_type :: string
  di_source_id :: "string option"
  di_document_type :: string
  di_document_no :: "string option"
  di_document_date :: day
  di_posting_date :: "day option"
  di_period :: "ident option"
  di_ledger :: "ident option"
  di_currency :: string
  di_approval_status :: "approval_status option"
  di_lines :: "draft_line list"

definition allocate_document_number :: "books \<Rightarrow> ident \<Rightarrow> day \<Rightarrow> string" where
  "allocate_document_number b entity date =
     next_document_number (series_prefix ''DOC'' (take 4 date)) 6
       (map document_no (filter (\<lambda>d. doc_entity d = entity) (documents b)))"

definition with_document_number :: "books \<Rightarrow> draft_input \<Rightarrow> string" where
  "with_document_number b input =
     (case given (di_document_no input) of
        Some n \<Rightarrow> n
      | None \<Rightarrow> allocate_document_number b (di_entity input) (di_document_date input))"

definition with_resolved_defaults ::
    "books \<Rightarrow> draft_input \<Rightarrow> string \<Rightarrow> accounting_error + resolved_document" where
  "with_resolved_defaults b input no =
     (let date = (case di_posting_date input of None \<Rightarrow> di_document_date input | Some d \<Rightarrow> d);
          src = (case di_source_id input of
                   None \<Rightarrow> di_source_type input @ ''-'' @ no | Some s \<Rightarrow> s)
      in and_then (resolve_open_period_id b (di_entity input) date (di_period input)) (\<lambda>p.
         and_then (resolve_ledger_id b (di_entity input) (di_ledger input)) (\<lambda>l.
           Inr \<lparr>rd_entity = di_entity input, rd_source_system = di_source_system input,
                rd_source_type = di_source_type input, rd_source_id = src,
                rd_document_type = di_document_type input, rd_document_no = no,
                rd_document_date = di_document_date input, rd_posting_date = date,
                rd_period = p, rd_ledger = l, rd_currency = di_currency input,
                rd_lines = di_lines input\<rparr>)))"

section \<open>Recording a draft\<close>

text \<open>
  \<open>toMinorUnits(String(value))\<close>. The branch of a number whose shortest text has more than two
  decimals is never reached: such a line was rejected by the validator before.
\<close>

definition minor_of_shown :: "js_value \<Rightarrow> money_error + int" where
  "minor_of_shown v =
     (case v of
        JNumber (Finite r) \<Rightarrow> from_option InvalidDecimalAmountError (number_cents r)
      | _ \<Rightarrow> to_minor_units v 2)"

definition local_currency_amount_of :: "draft_line \<Rightarrow> money_error + string" where
  "local_currency_amount_of l =
     (let derived =
        and_then (to_minor_units (in_debit l) 2) (\<lambda>d.
        and_then (to_minor_units (in_credit l) 2) (\<lambda>c.
        and_then (minor_of_shown (if c \<le> d then in_debit l else in_credit l)) (\<lambda>m.
          from_minor_units m 2)))
      in if in_amount_lc l = JUndefined then derived
         else and_then (to_minor_units (in_amount_lc l) 2) (\<lambda>m.
           if m \<noteq> 0 then normalize_amount (in_amount_lc l) 2 else derived))"

definition recorded_line :: "ident \<Rightarrow> nat \<times> draft_line \<Rightarrow> money_error + line_row" where
  "recorded_line j x = (case x of (n, l) \<Rightarrow>
     and_then (normalize_amount (in_debit l) 2) (\<lambda>d.
     and_then (normalize_amount (in_credit l) 2) (\<lambda>c.
     and_then (local_currency_amount_of l) (\<lambda>lc.
       Inr \<lparr>line_journal = j, line_no = n, gl_account = in_account l, debit = d, credit = c,
            line_currency = in_currency l, amount_lc = lc, line_partner = in_partner l,
            line_cost_center = in_cost_center l, line_profit_center = in_profit_center l,
            line_tax_code = in_tax_code l, reference_type = in_reference_type l,
            reference_id = in_reference_id l, description = in_description l\<rparr>))))"

definition draft_row ::
    "ident \<Rightarrow> resolved_document \<Rightarrow> approval_status \<times> string \<Rightarrow> ident option \<Rightarrow> ident \<Rightarrow> document_row" where
  "draft_row i d decision snapshot creator =
     \<lparr>doc_id = i, doc_entity = rd_entity d, source_system = rd_source_system d,
      source_type = rd_source_type d, source_id = rd_source_id d, document_type = rd_document_type d,
      document_no = rd_document_no d, document_date = rd_document_date d,
      posting_date = rd_posting_date d, doc_period = rd_period d, doc_ledger = rd_ledger d,
      doc_currency = rd_currency d, status = DRAFT, approval = fst decision,
      approval_policy_ref = Some (snd decision), policy_snapshot = snapshot, reversal_of = None,
      reversed_by = None, created_by = Some creator, approved_by = None, approved_at = None,
      rejected_by = None, rejected_at = None\<rparr>"

definition draft_journal :: "ident \<Rightarrow> ident \<Rightarrow> string \<Rightarrow> journal_row" where
  "draft_journal j i no =
     \<lparr>journal_id = j, journal_document = i, journal_no = no @ ''-JRN'', posting_status = DRAFT,
      posted_at = None, posted_by = None, hash_sha256 = None\<rparr>"

definition record_draft ::
    "resolved_document \<Rightarrow> approval_status \<times> string \<Rightarrow> ident option \<Rightarrow> auth_user \<Rightarrow> books \<Rightarrow>
     accounting_error + (ident \<times> books)" where
  "record_draft d decision snapshot user b =
     (let i = generated_id b; b1 = next_id b; j = generated_id b1; b2 = next_id b1 in
      and_then (insert_document (draft_row i d decision snapshot (sub user)) b2) (\<lambda>b3.
      and_then (lift_amount (traverse (recorded_line j) (enumerate 1 (rd_lines d)))) (\<lambda>ls.
      let b4 = b3\<lparr>journals := journals b3 @ [draft_journal j i (rd_document_no d)],
                  journal_lines := journal_lines b3 @ ls\<rparr>;
          b5 = write_audit i ''DRAFT_CREATED'' user b4
      in and_then (publish (document_event ''accounting.document.draft_created''
                      ''accounting-document-draft-'' i
                      [(''accountingDocumentId'', i), (''documentNo'', rd_document_no d)]) b5) (\<lambda>b6.
         Inr (i, write_action
                   \<lparr>action_code = ''CREATE_ACCOUNTING_DRAFT_WITH_JOURNAL'', action_actor = sub user,
                    action_aggregate = Some i, affected_records = 4 + length (rd_lines d)\<rparr> b6)))))"

section \<open>Creating drafts\<close>

definition line_amounts :: "draft_line list \<Rightarrow> line_amount list" where
  "line_amounts ls = map (\<lambda>l. (in_debit l, in_credit l)) ls"

definition create_draft ::
    "string option \<Rightarrow> approval_origin \<Rightarrow> draft_input \<Rightarrow> auth_user \<Rightarrow> books \<Rightarrow>
     accounting_error + (document_view \<times> books)" where
  "create_draft configured origin input user b =
     and_then (assert_can_access_legal_entity user (di_entity input)) (\<lambda>_.
     and_then (assert_client_approval_status (di_approval_status input)) (\<lambda>_.
     and_then (resolve_approval_for_creation origin configured (di_approval_status input)) (\<lambda>decision.
     let no = with_document_number b input in
     and_then (with_resolved_defaults b input no) (\<lambda>d.
     and_then (validate_lines (line_amounts (rd_lines d))) (\<lambda>_.
     and_then (assert_document_can_be_posted b d) (\<lambda>_.
     and_then (record_draft d decision (find_applicable_rule_id b d) user b) (\<lambda>(i, b').
     and_then (get_document b' i) (\<lambda>view. Inr (view, b')))))))))"

text \<open>
  The same operation in its two halves: everything up to the first INSERT only reads; the inserts use what was read.
  No lock is held on the period between them, so another transaction may commit in between.
\<close>

definition draft_checks ::
    "string option \<Rightarrow> approval_origin \<Rightarrow> draft_input \<Rightarrow> auth_user \<Rightarrow> books \<Rightarrow>
     accounting_error + (resolved_document \<times> (approval_status \<times> string) \<times> ident option)" where
  "draft_checks configured origin input user b =
     and_then (assert_can_access_legal_entity user (di_entity input)) (\<lambda>_.
     and_then (assert_client_approval_status (di_approval_status input)) (\<lambda>_.
     and_then (resolve_approval_for_creation origin configured (di_approval_status input)) (\<lambda>decision.
     and_then (with_resolved_defaults b input (with_document_number b input)) (\<lambda>d.
     and_then (validate_lines (line_amounts (rd_lines d))) (\<lambda>_.
     and_then (assert_document_can_be_posted b d) (\<lambda>_.
       Inr (d, decision, find_applicable_rule_id b d)))))))"

fun create_drafts ::
    "string option \<Rightarrow> draft_input list \<Rightarrow> auth_user \<Rightarrow> books \<Rightarrow>
     accounting_error + (document_view list \<times> books)" where
  "create_drafts configured [] user b = Inr ([], b)"
| "create_drafts configured (x # xs) user b =
     and_then (create_draft configured MANUAL x user b) (\<lambda>(v, b').
     and_then (create_drafts configured xs user b') (\<lambda>(vs, b''). Inr (v # vs, b'')))"

definition create_draft_bulk ::
    "string option \<Rightarrow> string option \<Rightarrow> draft_input list \<Rightarrow> auth_user \<Rightarrow> books \<Rightarrow>
     accounting_error + (document_row list \<times> books)" where
  "create_draft_bulk configured batch items user b =
     and_then (create_drafts configured items user b) (\<lambda>(vs, b').
       Inr (map fst vs,
         write_action \<lparr>action_code = ''BULK_CREATE_ACCOUNTING_DRAFTS_WITH_JOURNALS'', action_actor = sub user,
           action_aggregate = batch,
           affected_records = length vs * 4 + sum_list (map (\<lambda>(_, _, ls). length ls) vs)\<rparr> b'))"

section \<open>Approval\<close>

datatype decision = Approve | Reject

text \<open>
  The reads and checks, and the conditional UPDATE that decides: it matches only a row that is
  still a pending draft, whatever another transaction did after the read.
\<close>

definition decide_checks :: "ident \<Rightarrow> auth_user \<Rightarrow> books \<Rightarrow> accounting_error + unit" where
  "decide_checks i user b =
     and_then (lock_document b i) (\<lambda>d.
     and_then (assert_can_access_legal_entity user (doc_entity d)) (\<lambda>_.
       assert_can_decide d (sub user)))"

definition decided :: "auth_user \<Rightarrow> decision \<Rightarrow> nat \<Rightarrow> document_row \<Rightarrow> document_row" where
  "decided user dec now r =
     (case dec of
        Approve \<Rightarrow> r\<lparr>approval := APPROVED, approved_by := Some (sub user), approved_at := Some now\<rparr>
      | Reject \<Rightarrow> r\<lparr>approval := REJECTED, rejected_by := Some (sub user), rejected_at := Some now\<rparr>)"

definition decide_write :: "ident \<Rightarrow> auth_user \<Rightarrow> decision \<Rightarrow> books \<Rightarrow> accounting_error + (document_view \<times> books)" where
  "decide_write i user dec b =
     (let matches = (\<lambda>r. doc_id r = i \<and> status r = DRAFT \<and> approval r = PENDING);
          affected = length (filter matches (documents b));
          b1 = b\<lparr>documents := map (\<lambda>r. if matches r then decided user dec (clock b) r else r) (documents b)\<rparr>
      in if affected \<noteq> 1 then Inl ACCOUNTING_DOCUMENT_NOT_PENDING_APPROVAL
         else let b2 = write_audit i (case dec of Approve \<Rightarrow> ''APPROVED'' | Reject \<Rightarrow> ''REJECTED'') user b1
              in and_then (get_document b2 i) (\<lambda>view. Inr (view, b2)))"

definition decide :: "ident \<Rightarrow> auth_user \<Rightarrow> decision \<Rightarrow> books \<Rightarrow> accounting_error + (document_view \<times> books)" where
  "decide i user dec b = and_then (decide_checks i user b) (\<lambda>_. decide_write i user dec b)"

section \<open>Posting\<close>

type_synonym seal_input = "ident \<times> ident \<times> (nat \<times> ident \<times> string \<times> string) list"

definition seal_journal :: "(seal_input \<Rightarrow> string) \<Rightarrow> ident \<Rightarrow> ident \<Rightarrow> line_row list \<Rightarrow> string" where
  "seal_journal digest i j ls =
     digest (i, j, map (\<lambda>l. (line_no l, gl_account l, debit l, credit l)) ls)"

definition stored_amounts :: "line_row list \<Rightarrow> line_amount list" where
  "stored_amounts ls = map (\<lambda>l. (JString (debit l), JString (credit l))) ls"

definition post_document ::
    "(seal_input \<Rightarrow> string) \<Rightarrow> ident \<Rightarrow> auth_user \<Rightarrow> books \<Rightarrow> accounting_error + (document_view \<times> books)" where
  "post_document digest i user b =
     and_then (lock_document b i) (\<lambda>d.
     and_then (assert_can_access_legal_entity user (doc_entity d)) (\<lambda>_.
     and_then (ensure (status d = DRAFT) ACCOUNTING_DOCUMENT_NOT_DRAFT) (\<lambda>_.
     and_then (assert_document_approved_for_posting d) (\<lambda>_.
     and_then (assert_period_is_open b (doc_period d)) (\<lambda>_.
     and_then (assert_journal_exists (fst (load_journal_with_lines b i))) (\<lambda>j.
     let ls = snd (load_journal_with_lines b i) in
     and_then (validate_lines (stored_amounts ls)) (\<lambda>_.
       let h = seal_journal digest (doc_id d) (journal_id j) ls;
           b1 = update_document i (\<lambda>r. r\<lparr>status := POSTED\<rparr>) b;
           b2 = update_journal (journal_id j) (\<lambda>r. r\<lparr>posting_status := POSTED,
                  posted_at := Some (clock b), posted_by := Some (sub user), hash_sha256 := Some h\<rparr>) b1;
           b3 = write_audit i ''POSTED'' user b2
       in and_then (publish (document_event ''accounting.document.posted'' ''accounting-document-posted-'' i
                       [(''accountingDocumentId'', i), (''hashSha256'', h)]) b3) (\<lambda>b4.
          and_then (get_document b4 i) (\<lambda>view. Inr (view, b4))))))))))"

section \<open>Voiding a draft\<close>

text \<open>
  When the tax office confirms the annulment of an invoice whose document is still a draft, the fiscal module
  updates the row itself; the statement matches no other state, and neither the period nor the journal is looked at.
\<close>

definition void_draft :: "ident \<Rightarrow> books \<Rightarrow> books" where
  "void_draft i b =
     b\<lparr>documents := map (\<lambda>r. if doc_id r = i \<and> status r = DRAFT then r\<lparr>status := VOID\<rparr> else r) (documents b)\<rparr>"

section \<open>Reversal\<close>

text \<open>\<open>uq_accounting_document_single_reversal\<close> is checked when the link is written.\<close>

definition link_reversal :: "ident \<Rightarrow> ident \<Rightarrow> books \<Rightarrow> accounting_error + books" where
  "link_reversal i original b =
     (if \<exists>d \<in> set (documents b). doc_id d \<noteq> i \<and> reversal_of d = Some original \<and> status d \<noteq> VOID
      then Inl (UNIQUE_VIOLATION ''reversal_of_id'')
      else Inr (update_document i (\<lambda>r. r\<lparr>reversal_of := Some original\<rparr>) b))"

definition mirrored_line :: "ident \<Rightarrow> string \<Rightarrow> line_row \<Rightarrow> draft_line" where
  "mirrored_line original reason l =
     \<lparr>in_account = gl_account l, in_debit = JString (credit l), in_credit = JString (debit l),
      in_currency = line_currency l, in_amount_lc = JString (amount_lc l),
      in_partner = line_partner l, in_cost_center = line_cost_center l,
      in_profit_center = line_profit_center l, in_tax_code = line_tax_code l,
      in_reference_type = Some ''REVERSAL'', in_reference_id = Some original,
      in_description = Some (''Reverso: '' @ reason)\<rparr>"

definition reversal_input :: "document_row \<Rightarrow> line_row list \<Rightarrow> string \<Rightarrow> day \<Rightarrow> ident option \<Rightarrow> string \<Rightarrow> draft_input" where
  "reversal_input original ls no date period reason =
     \<lparr>di_entity = doc_entity original, di_source_system = ''ACCOUNTING'', di_source_type = ''REVERSAL'',
      di_source_id = Some (doc_id original @ '':'' @ no), di_document_type = ''REVERSAL'',
      di_document_no = Some no, di_document_date = date, di_posting_date = Some date,
      di_period = given period, di_ledger = Some (doc_ledger original),
      di_currency = doc_currency original, di_approval_status = None,
      di_lines = map (mirrored_line (doc_id original) reason) ls\<rparr>"

definition reverse_document ::
    "(seal_input \<Rightarrow> string) \<Rightarrow> string option \<Rightarrow> ident \<Rightarrow> day \<Rightarrow> ident option \<Rightarrow> string \<Rightarrow> auth_user \<Rightarrow> books \<Rightarrow>
     accounting_error + (document_view \<times> books)" where
  "reverse_document digest configured i date period reason user b =
     and_then (lock_document b i) (\<lambda>original.
     and_then (assert_can_access_legal_entity user (doc_entity original)) (\<lambda>_.
     and_then (ensure (status original = POSTED) ACCOUNTING_DOCUMENT_NOT_POSTED) (\<lambda>_.
     and_then (ensure (find_active_reversal_of b (doc_id original) = None)
                ACCOUNTING_DOCUMENT_ALREADY_REVERSED) (\<lambda>_.
     and_then (assert_journal_exists (fst (load_journal_with_lines b (doc_id original)))) (\<lambda>oj.
     let ls = snd (load_journal_with_lines b (doc_id original));
         no = allocate_document_number b (doc_entity original) date in
     and_then (create_draft configured SERVER_GENERATED
                (reversal_input original ls no date period reason) user b) (\<lambda>(reversal, b1).
     let ri = doc_id (fst reversal) in
     and_then (link_reversal ri (doc_id original) b1) (\<lambda>b2.
     and_then (post_document digest ri user b2) (\<lambda>(posted, b3).
       let b4 = update_document (doc_id original)
                  (\<lambda>r. r\<lparr>status := REVERSED, reversed_by := Some (doc_id (fst posted))\<rparr>) b3;
           b5 = update_journal (journal_id oj) (\<lambda>r. r\<lparr>posting_status := REVERSED\<rparr>) b4;
           b6 = write_audit (doc_id original) ''REVERSED'' user b5
       in and_then (publish (document_event ''accounting.document.reversed''
                       ''accounting-document-reversed-'' (doc_id original)
                       [(''accountingDocumentId'', doc_id original),
                        (''reversedById'', doc_id (fst posted))]) b6) (\<lambda>b7. Inr (posted, b7))))))))))"

section \<open>What each operation writes\<close>

lemma publish_eq_Inr [result_simps]:
  "publish e b = Inr b' \<longleftrightarrow> event_key e \<notin> event_key ` set (events b) \<and> b' = b\<lparr>events := events b @ [e]\<rparr>"
  by (auto simp: publish_def)

lemma insert_document_eq_Inr [result_simps]:
  "insert_document d b = Inr b' \<longleftrightarrow>
   (\<forall>x \<in> set (documents b). \<not> (doc_entity x = doc_entity d \<and> document_no x = document_no d))
   \<and> (\<forall>x \<in> set (documents b). \<not> (source_system x = source_system d \<and> source_type x = source_type d
        \<and> source_id x = source_id d \<and> doc_ledger x = doc_ledger d))
   \<and> b' = b\<lparr>documents := documents b @ [d]\<rparr>"
  by (auto simp: insert_document_def)

lemma lock_document_eq_Inr [result_simps]:
  "lock_document b i = Inr d \<longleftrightarrow> find_by doc_id i (documents b) = Some d"
  by (simp add: lock_document_def)

lemma get_document_eq_Inr [result_simps]:
  "get_document b i = Inr v \<longleftrightarrow>
   (\<exists>d. find_by doc_id i (documents b) = Some d \<and> v = (d, load_journal_with_lines b i))"
  by (auto simp: get_document_def result_simps)

text \<open>The event every recorded draft publishes.\<close>

definition draft_event :: "ident \<Rightarrow> string \<Rightarrow> event_row" where
  "draft_event i no = document_event ''accounting.document.draft_created''
     ''accounting-document-draft-'' i [(''accountingDocumentId'', i), (''documentNo'', no)]"

lemma record_draft_writes:
  assumes "record_draft d dec snap user b = Inr (i, b')"
  shows "\<exists>ls row. i = show_nat (id_sequence b)
    \<and> row = draft_row i d dec snap (sub user)
    \<and> insert_document row (next_id (next_id b)) = Inr ((next_id (next_id b))\<lparr>documents := documents b @ [row]\<rparr>)
    \<and> traverse (recorded_line (show_nat (Suc (id_sequence b)))) (enumerate 1 (rd_lines d)) = Inr ls
    \<and> event_key (draft_event i (rd_document_no d)) \<notin> event_key ` set (events b)
    \<and> b' = b\<lparr>documents := documents b @ [row],
        journals := journals b @ [draft_journal (show_nat (Suc (id_sequence b))) i (rd_document_no d)],
        journal_lines := journal_lines b @ ls,
        audit_log := audit_log b @ [\<lparr>audit_document = i, audit_event = ''DRAFT_CREATED'', audit_actor = sub user\<rparr>],
        events := events b @ [draft_event i (rd_document_no d)],
        action_log := action_log b @ [\<lparr>action_code = ''CREATE_ACCOUNTING_DRAFT_WITH_JOURNAL'',
          action_actor = sub user, action_aggregate = Some i, affected_records = 4 + length (rd_lines d)\<rparr>],
        id_sequence := Suc (Suc (id_sequence b))\<rparr>"
  using assms
  by (auto simp: record_draft_def Let_def result_simps generated_id_def next_id_def write_audit_def
      write_action_def draft_event_def)

lemma create_draft_halves:
  "create_draft configured origin input user b =
     and_then (draft_checks configured origin input user b) (\<lambda>(d, decision, rule).
     and_then (record_draft d decision rule user b) (\<lambda>(i, b').
     and_then (get_document b' i) (\<lambda>view. Inr (view, b'))))"
  by (simp add: create_draft_def draft_checks_def Let_def and_then_def split: sum.splits)

lemma create_draft_eq_Inr:
  "create_draft configured origin input user b = Inr (v, b') \<longleftrightarrow>
   (\<exists>dec d x i. can_access_legal_entity user (di_entity input)
     \<and> assert_client_approval_status (di_approval_status input) = Inr ()
     \<and> resolve_approval_for_creation origin configured (di_approval_status input) = Inr dec
     \<and> with_resolved_defaults b input (with_document_number b input) = Inr d
     \<and> validate_lines (line_amounts (rd_lines d)) = Inr ()
     \<and> assert_document_can_be_posted b d = Inr x
     \<and> record_draft d dec (find_applicable_rule_id b d) user b = Inr (i, b')
     \<and> get_document b' i = Inr v)"
  unfolding create_draft_def Let_def and_then_eq_Inr assert_can_access_iff
  by (cases v) (auto simp: and_then_eq_Inr split: prod.splits)


definition posted_row :: "document_row \<Rightarrow> document_row" where
  "posted_row r = r\<lparr>status := POSTED\<rparr>"

definition posted_journal :: "nat \<Rightarrow> ident \<Rightarrow> string \<Rightarrow> journal_row \<Rightarrow> journal_row" where
  "posted_journal now actor h r =
     r\<lparr>posting_status := POSTED, posted_at := Some now, posted_by := Some actor, hash_sha256 := Some h\<rparr>"

lemma post_document_writes:
  assumes "post_document digest i user b = Inr (v, b')"
  shows "\<exists>d p j ls h. find_by doc_id i (documents b) = Some d \<and> can_access_legal_entity user (doc_entity d)
    \<and> status d = DRAFT \<and> approval_complete d
    \<and> find_by period_id (doc_period d) (periods b) = Some p \<and> period_accepts p
    \<and> find_by journal_document i (journals b) = Some j \<and> ls = lines_of b (journal_id j)
    \<and> validate_lines (stored_amounts ls) = Inr ()
    \<and> h = seal_journal digest i (journal_id j) ls
    \<and> ''accounting-document-posted-'' @ i \<notin> event_key ` set (events b)
    \<and> v = (posted_row d, load_journal_with_lines b' i)
    \<and> b' = b\<lparr>documents := update_by doc_id i posted_row (documents b),
        journals := update_by journal_id (journal_id j) (posted_journal (clock b) (sub user) h) (journals b),
        audit_log := audit_log b @ [\<lparr>audit_document = i, audit_event = ''POSTED'', audit_actor = sub user\<rparr>],
        events := events b @ [document_event ''accounting.document.posted'' ''accounting-document-posted-'' i
          [(''accountingDocumentId'', i), (''hashSha256'', h)]]\<rparr>"
proof -
  from assms obtain d p j where *: "find_by doc_id i (documents b) = Some d" "can_access_legal_entity user (doc_entity d)"
      "status d = DRAFT" "approval_complete d"
      "find_by period_id (doc_period d) (periods b) = Some p" "period_accepts p"
      "find_by journal_document i (journals b) = Some j"
    by (auto simp: post_document_def Let_def result_simps assert_can_access_iff assert_journal_exists_def
        load_journal_with_lines_def split: option.splits)
  have i: "doc_id d = i" using find_by_Some [OF *(1)] by simp
  have load: "load_journal_with_lines b i = (Some j, lines_of b (journal_id j))"
    by (simp add: load_journal_with_lines_def *)
  have found: "find_by doc_id i (update_by doc_id i posted_row (documents b)) = Some (posted_row d)"
    using *(1) by (simp add: find_by_update_by posted_row_def)
  show ?thesis
    apply (rule exI [of _ d], rule exI [of _ p], rule exI [of _ j], rule exI [of _ "lines_of b (journal_id j)"],
        rule exI [of _ "seal_journal digest i (journal_id j) (lines_of b (journal_id j))"])
    using assms * load found i
    by (auto simp: post_document_def Let_def result_simps assert_can_access_iff assert_journal_exists_def
        update_document_def update_journal_def write_audit_def document_event_def
        posted_row_def [abs_def] posted_journal_def [abs_def])
qed


lemma decide_writes:
  assumes "decide i user dec b = Inr (v, b')"
  shows "\<exists>d. find_by doc_id i (documents b) = Some d \<and> can_access_legal_entity user (doc_entity d)
    \<and> (created_by d \<noteq> Some (sub user) \<or> sub user = []) \<and> status d = DRAFT \<and> approval d = PENDING
    \<and> length (filter (\<lambda>r. doc_id r = i \<and> status r = DRAFT \<and> approval r = PENDING) (documents b)) = 1
    \<and> get_document b' i = Inr v
    \<and> b' = b\<lparr>documents := map (\<lambda>r. if doc_id r = i \<and> status r = DRAFT \<and> approval r = PENDING
          then decided user dec (clock b) r else r) (documents b),
        audit_log := audit_log b @ [\<lparr>audit_document = i,
          audit_event = (case dec of Approve \<Rightarrow> ''APPROVED'' | Reject \<Rightarrow> ''REJECTED''), audit_actor = sub user\<rparr>]\<rparr>"
  using assms
  by (cases v) (auto simp: decide_def decide_checks_def decide_write_def Let_def and_then_eq_Inr lock_document_eq_Inr
      assert_can_access_iff write_audit_def split: if_splits)

lemma reverse_document_steps:
  assumes "reverse_document digest configured i date period reason user b = Inr (v, b')"
  shows "\<exists>original oj ls no reversal ri b1 b2 b3 b4. find_by doc_id i (documents b) = Some original
    \<and> can_access_legal_entity user (doc_entity original) \<and> status original = POSTED
    \<and> find_active_reversal_of b i = None
    \<and> find_by journal_document i (journals b) = Some oj \<and> ls = lines_of b (journal_id oj)
    \<and> no = allocate_document_number b (doc_entity original) date
    \<and> create_draft configured SERVER_GENERATED (reversal_input original ls no date period reason) user b
        = Inr (reversal, b1)
    \<and> ri = doc_id (fst reversal) \<and> link_reversal ri i b1 = Inr b2
    \<and> post_document digest ri user b2 = Inr (v, b3)
    \<and> b4 = write_audit i ''REVERSED'' user (update_journal (journal_id oj) (\<lambda>r. r\<lparr>posting_status := REVERSED\<rparr>)
        (update_document i (\<lambda>r. r\<lparr>status := REVERSED, reversed_by := Some (doc_id (fst v))\<rparr>) b3))
    \<and> publish (document_event ''accounting.document.reversed'' ''accounting-document-reversed-'' i
          [(''accountingDocumentId'', i), (''reversedById'', doc_id (fst v))]) b4 = Inr b'"
proof -
  from assms obtain original where o: "find_by doc_id i (documents b) = Some original"
    by (auto simp: reverse_document_def and_then_eq_Inr lock_document_eq_Inr)
  then have i: "doc_id original = i" using find_by_Some by metis
  from assms show ?thesis
    by (cases v) (auto simp: reverse_document_def and_then_eq_Inr lock_document_eq_Inr o i assert_can_access_iff
        assert_journal_exists_def load_journal_with_lines_def Let_def split: option.splits prod.splits)
qed

end
