(* ===== verification/Closing.thy ===== *)
theory Closing
  imports Documents
begin

text \<open>
  Closing and reopening of accounting periods, \<open>accounting/closing/services/closing.service.ts\<close>, with
  the controls that must pass first, \<open>closing-control.service.ts\<close>. A period has one close run per
  close type; closing again after a reopening reuses the row and appends the earlier close to its
  history, and every close publishes an event of its own.
\<close>

section \<open>Controls\<close>

datatype close_control_evaluation = ENFORCED | NO_DATA_SOURCE | INFORMATIVE

record close_control =
  control_code :: string
  evaluation :: close_control_evaluation
  blocking :: bool
  control_count :: nat

record close_control_report =
  draft_document_count :: nat
  open_reconciliation_count :: nat
  unmatched_line_count :: nat
  pending_event_count :: nat
  blockers :: "string list"
  controls :: "close_control list"

definition count_open_reconciliation_items :: "books \<Rightarrow> ident \<Rightarrow> nat" where
  "count_open_reconciliation_items b i =
     length (filter (\<lambda>r. reconciliation_period r = i
       \<and> reconciliation_status r \<notin> set [''MATCHED'', ''RESOLVED'', ''APPROVED'']) (reconciliation_items b))"

definition count_unmatched_statement_lines :: "books \<Rightarrow> day \<Rightarrow> day \<Rightarrow> nat" where
  "count_unmatched_statement_lines b from until =
     length (filter (\<lambda>l. from \<le> statement_date l \<and> statement_date l \<le> until
       \<and> match_status l \<notin> set [''MATCHED'', ''APPROVED_IGNORED'']) (statement_lines b))"

definition count_pending_events :: "books \<Rightarrow> nat" where
  "count_pending_events b = length (filter (\<lambda>e. published_at e = None) (events b))"

definition count_draft_documents :: "books \<Rightarrow> ident \<Rightarrow> nat" where
  "count_draft_documents b i =
     length (filter (\<lambda>d. doc_period d = i \<and> status d = DRAFT) (documents b))"

definition build_close_control_report :: "books \<Rightarrow> ident \<Rightarrow> close_control_report" where
  "build_close_control_report b i =
     (let drafts = count_draft_documents b i;
          open_items = count_open_reconciliation_items b i;
          unmatched = (case find_by period_id i (periods b) of
                         None \<Rightarrow> 0
                       | Some p \<Rightarrow> count_unmatched_statement_lines b (start_date p) (end_date p));
          pending = count_pending_events b
      in \<lparr>draft_document_count = drafts, open_reconciliation_count = open_items,
          unmatched_line_count = unmatched, pending_event_count = pending,
          blockers =
            (if 0 < drafts then [''PERIOD_HAS_DRAFT_DOCUMENTS''] else []) @
            (if 0 < open_items then [''PERIOD_HAS_OPEN_RECONCILIATION_ITEMS''] else []) @
            (if 0 < unmatched then [''PERIOD_HAS_UNMATCHED_BANK_STATEMENT_LINES''] else []),
          controls =
            [\<lparr>control_code = ''PERIOD_HAS_DRAFT_DOCUMENTS'', evaluation = ENFORCED, blocking = True,
              control_count = drafts\<rparr>,
             \<lparr>control_code = ''PERIOD_HAS_OPEN_RECONCILIATION_ITEMS'', evaluation = NO_DATA_SOURCE,
              blocking = True, control_count = open_items\<rparr>,
             \<lparr>control_code = ''PERIOD_HAS_UNMATCHED_BANK_STATEMENT_LINES'', evaluation = NO_DATA_SOURCE,
              blocking = True, control_count = unmatched\<rparr>,
             \<lparr>control_code = ''PENDING_OUTBOX_EVENTS'', evaluation = INFORMATIVE, blocking = False,
              control_count = pending\<rparr>]\<rparr>)"

section \<open>Closing\<close>

definition get_period_legal_entity_id :: "books \<Rightarrow> period_row \<Rightarrow> accounting_error + ident" where
  "get_period_legal_entity_id b p = and_then (get_fiscal_year b (period_year p)) (\<lambda>y. Inr (year_entity y))"

definition assert_period_belongs_to_legal_entity :: "books \<Rightarrow> period_row \<Rightarrow> ident \<Rightarrow> accounting_error + unit" where
  "assert_period_belongs_to_legal_entity b p expected =
     and_then (get_period_legal_entity_id b p) (\<lambda>entity.
       ensure (entity = expected) CLOSE_RUN_LEGAL_ENTITY_PERIOD_MISMATCH)"

definition historial_de_cierres :: "close_run_row \<Rightarrow> close_snapshot list" where
  "historial_de_cierres anterior =
     (let previos = report_previous_closes anterior
      in previos @
         [\<lparr>prev_close_number = (case report_close_number anterior of
              Some n \<Rightarrow> n | None \<Rightarrow> length previos + 1),
           prev_status = close_run_status anterior, prev_completed_at = completed_at anterior,
           prev_closed_by = report_closed_by anterior, prev_reopened_by = report_reopened_by anterior,
           prev_reopened_at = report_reopened_at anterior,
           prev_reopen_reason = report_reopen_reason anterior\<rparr>])"

definition same_close :: "ident \<Rightarrow> ident \<Rightarrow> string \<Rightarrow> close_run_row \<Rightarrow> bool" where
  "same_close entity i typ c = (close_entity c = entity \<and> close_period_id c = i \<and> close_type c = typ)"

definition update_period :: "ident \<Rightarrow> (period_row \<Rightarrow> period_row) \<Rightarrow> books \<Rightarrow> books" where
  "update_period i f b = b\<lparr>periods := update_by period_id i f (periods b)\<rparr>"

definition period_event :: "string \<Rightarrow> string \<Rightarrow> ident \<Rightarrow> (string \<times> string) list \<Rightarrow> event_row" where
  "period_event t key i p =
     \<lparr>topic = t, aggregate_type = ''accounting_period'', aggregate_id = i, event_key = key,
      payload = p, published_at = None\<rparr>"

definition close_event_key :: "ident \<Rightarrow> nat \<Rightarrow> string" where
  "close_event_key run n = ''period-closed-'' @ run @ ''-'' @ show_nat n"

text \<open>The row of the close run after the close, and the books that hold it.\<close>

definition write_close_run ::
    "ident \<Rightarrow> ident \<Rightarrow> string \<Rightarrow> string list \<Rightarrow> auth_user \<Rightarrow> books \<Rightarrow> close_run_row \<times> books" where
  "write_close_run entity i typ bs user b =
     (case find (same_close entity i typ) (close_runs b) of
        Some anterior \<Rightarrow>
          let run = anterior\<lparr>close_run_status := ''COMPLETED'', started_at := clock b,
                completed_at := Some (clock b), report_blockers := bs,
                report_closed_by := Some (sub user),
                report_close_number := Some (length (historial_de_cierres anterior) + 1),
                report_previous_closes := historial_de_cierres anterior,
                report_reopened_by := None, report_reopened_at := None, report_reopen_reason := None\<rparr>
          in (run, b\<lparr>close_runs := update_by close_run_id (close_run_id anterior) (\<lambda>_. run) (close_runs b)\<rparr>)
      | None \<Rightarrow>
          let run = \<lparr>close_run_id = generated_id b, close_entity = entity, close_period_id = i,
                close_type = typ, close_run_status = ''COMPLETED'', started_at = clock b,
                completed_at = Some (clock b), report_blockers = bs,
                report_closed_by = Some (sub user), report_close_number = Some 1,
                report_previous_closes = [], report_reopened_by = None, report_reopened_at = None,
                report_reopen_reason = None\<rparr>
          in (run, (next_id b)\<lparr>close_runs := close_runs b @ [run]\<rparr>))"

definition close_period ::
    "ident \<Rightarrow> ident \<Rightarrow> string \<Rightarrow> auth_user \<Rightarrow> books \<Rightarrow> accounting_error + (close_run_row \<times> books)" where
  "close_period entity i typ user b =
     (case find_by period_id i (periods b) of
        None \<Rightarrow> Inl ACCOUNTING_PERIOD_NOT_FOUND
      | Some p \<Rightarrow>
          and_then (assert_period_belongs_to_legal_entity b p entity) (\<lambda>_.
          and_then (assert_can_access_legal_entity user entity) (\<lambda>_.
          if \<not> is_open p \<or> close_status p \<noteq> ''OPEN'' then Inl ACCOUNTING_PERIOD_ALREADY_CLOSED
          else
            let report = build_close_control_report b i in
            if blockers report \<noteq> [] then Inl (PERIOD_CLOSE_CONTROLS_FAILED (blockers report))
            else
              let (run, b1) = write_close_run entity i typ (blockers report) user b;
                  n = length (report_previous_closes run) + 1;
                  b2 = update_period i (\<lambda>p. p\<lparr>is_open := False, close_status := ''CLOSED'',
                         closed_at := Some (clock b), closed_by := Some (sub user)\<rparr>) b1
              in and_then (publish (period_event ''accounting.period.closed''
                             (close_event_key (close_run_id run) n) i
                             [(''closeRunId'', close_run_id run), (''periodId'', i), (''closeType'', typ),
                              (''closeNumber'', show_nat n)]) b2) (\<lambda>b3.
                 Inr (run, write_action \<lparr>action_code = ''CLOSE_ACCOUNTING_PERIOD'',
                        action_actor = sub user, action_aggregate = Some i, affected_records = 3\<rparr> b3)))))"

section \<open>Reopening\<close>

definition void_close :: "auth_user \<Rightarrow> nat \<Rightarrow> string \<Rightarrow> close_run_row \<Rightarrow> close_run_row" where
  "void_close user now reason c =
     c\<lparr>close_run_status := ''VOID'', report_reopened_by := Some (sub user),
       report_reopened_at := Some now, report_reopen_reason := Some reason\<rparr>"

definition live_close_of :: "ident \<Rightarrow> close_run_row \<Rightarrow> bool" where
  "live_close_of i c = (close_period_id c = i \<and> close_run_status c = ''COMPLETED'')"

definition reopen_event_key :: "ident \<Rightarrow> nat \<Rightarrow> string" where
  "reopen_event_key i now = ''period-reopened-'' @ i @ ''-'' @ show_nat now"

definition reopen_period ::
    "ident \<Rightarrow> string \<Rightarrow> auth_user \<Rightarrow> books \<Rightarrow> accounting_error + (ident list \<times> books)" where
  "reopen_period i reason user b =
     (case find_by period_id i (periods b) of
        None \<Rightarrow> Inl ACCOUNTING_PERIOD_NOT_FOUND
      | Some p \<Rightarrow>
          and_then (get_period_legal_entity_id b p) (\<lambda>entity.
          and_then (assert_can_access_legal_entity user entity) (\<lambda>_.
          if is_open p \<and> close_status p = ''OPEN'' then Inl ACCOUNTING_PERIOD_ALREADY_OPEN
          else
            let voided = filter (live_close_of i) (close_runs b);
                b1 = b\<lparr>close_runs := map (\<lambda>c. if live_close_of i c then void_close user (clock b) reason c else c)
                         (close_runs b)\<rparr>;
                b2 = update_period i (\<lambda>p. p\<lparr>is_open := True, close_status := ''OPEN'',
                       closed_at := None, closed_by := None\<rparr>) b1
            in and_then (publish (period_event ''accounting.period.reopened'' (reopen_event_key i (clock b)) i
                           [(''reason'', reason), (''reopenedBy'', sub user)]) b2) (\<lambda>b3.
               Inr (map close_run_id voided,
                 write_action \<lparr>action_code = ''REOPEN_ACCOUNTING_PERIOD'', action_actor = sub user,
                   action_aggregate = Some i, affected_records = length voided + 2\<rparr> b3)))))"

section \<open>What closing and reopening write\<close>

lemma close_period_writes:
  assumes "close_period entity i typ user b = Inr (run, b')"
  shows "\<exists>p y b1. find_by period_id i (periods b) = Some p \<and> period_accepts p
    \<and> find_by year_id (period_year p) (fiscal_years b) = Some y \<and> year_entity y = entity
    \<and> can_access_legal_entity user entity \<and> blockers (build_close_control_report b i) = []
    \<and> write_close_run entity i typ [] user b = (run, b1)
    \<and> close_event_key (close_run_id run) (length (report_previous_closes run) + 1) \<notin> event_key ` set (events b1)
    \<and> b' = b1\<lparr>periods := update_by period_id i (\<lambda>p. p\<lparr>is_open := False, close_status := ''CLOSED'',
          closed_at := Some (clock b), closed_by := Some (sub user)\<rparr>) (periods b1),
        events := events b1 @ [period_event ''accounting.period.closed''
          (close_event_key (close_run_id run) (length (report_previous_closes run) + 1)) i
          [(''closeRunId'', close_run_id run), (''periodId'', i), (''closeType'', typ),
           (''closeNumber'', show_nat (length (report_previous_closes run) + 1))]],
        action_log := action_log b1 @ [\<lparr>action_code = ''CLOSE_ACCOUNTING_PERIOD'',
          action_actor = sub user, action_aggregate = Some i, affected_records = 3\<rparr>]\<rparr>"
  using assms
  by (auto simp: close_period_def and_then_eq_Inr assert_can_access_iff assert_period_belongs_to_legal_entity_def
      get_period_legal_entity_id_def get_fiscal_year_def period_accepts_def Let_def publish_eq_Inr
      update_period_def write_action_def period_event_def split: option.splits if_splits prod.splits)

lemma reopen_period_writes:
  assumes "reopen_period i reason user b = Inr (ids, b')"
  shows "\<exists>p y. find_by period_id i (periods b) = Some p \<and> \<not> period_accepts p
    \<and> find_by year_id (period_year p) (fiscal_years b) = Some y
    \<and> can_access_legal_entity user (year_entity y)
    \<and> ids = map close_run_id (filter (live_close_of i) (close_runs b))
    \<and> reopen_event_key i (clock b) \<notin> event_key ` set (events b)
    \<and> b' = b\<lparr>close_runs := map (\<lambda>c. if live_close_of i c then void_close user (clock b) reason c else c) (close_runs b),
        periods := update_by period_id i (\<lambda>p. p\<lparr>is_open := True, close_status := ''OPEN'',
          closed_at := None, closed_by := None\<rparr>) (periods b),
        events := events b @ [period_event ''accounting.period.reopened'' (reopen_event_key i (clock b)) i
          [(''reason'', reason), (''reopenedBy'', sub user)]],
        action_log := action_log b @ [\<lparr>action_code = ''REOPEN_ACCOUNTING_PERIOD'', action_actor = sub user,
          action_aggregate = Some i,
          affected_records = length (filter (live_close_of i) (close_runs b)) + 2\<rparr>]\<rparr>"
  using assms
  by (auto simp: reopen_period_def and_then_eq_Inr assert_can_access_iff
      get_period_legal_entity_id_def get_fiscal_year_def period_accepts_def Let_def publish_eq_Inr
      update_period_def write_action_def period_event_def split: option.splits if_splits)

end
