(* ===== verification/Books.thy ===== *)
theory Books
  imports Closing
begin

text \<open>
  The books as a state machine: the operations of \<open>Documents\<close> and \<open>Closing\<close>, changes of master
  data and the passing of time are its steps. The invariant says what every reachable state of the
  books satisfies: posted and reversed documents are approved, balanced and sealed over exactly
  their current lines, nobody approved a document of their own,
  a reversed document has its published mirror, and event keys are unique.
\<close>

section \<open>The invariant\<close>

definition live :: "document_row \<Rightarrow> bool" where
  "live d = (status d = POSTED \<or> status d = REVERSED)"

definition sealed :: "(seal_input \<Rightarrow> string) \<Rightarrow> books \<Rightarrow> document_row \<Rightarrow> bool" where
  "sealed digest b d = (\<exists>j \<in> set (journals b). journal_document j = doc_id d \<and> posting_status j = status d
     \<and> validate_lines (stored_amounts (lines_of b (journal_id j))) = Inr ()
     \<and> hash_sha256 j = Some (seal_journal digest (doc_id d) (journal_id j) (lines_of b (journal_id j))))"

definition approver_differs :: "document_row \<Rightarrow> bool" where
  "approver_differs d = (\<forall>a. approved_by d = Some a \<longrightarrow> a = [] \<or> created_by d \<noteq> Some a)"

definition mirrored :: "books \<Rightarrow> document_row \<Rightarrow> bool" where
  "mirrored b d = (\<exists>r \<in> set (documents b). reversed_by d = Some (doc_id r)
     \<and> reversal_of r = Some (doc_id d) \<and> live r)"

definition in_open_period :: "books \<Rightarrow> document_row \<Rightarrow> bool" where
  "in_open_period b d = (\<exists>p. find_by period_id (doc_period d) (periods b) = Some p \<and> period_accepts p)"

definition sound :: "(seal_input \<Rightarrow> string) \<Rightarrow> books \<Rightarrow> document_row \<Rightarrow> bool" where
  "sound digest b d =
     ((live d \<longrightarrow> approval_complete d \<and> sealed digest b d)
      \<and> (status d = DRAFT \<longrightarrow> reversed_by d = None)
      \<and> (status d = REVERSED \<longrightarrow> mirrored b d)
      \<and> approver_differs d)"

definition well_keyed :: "books \<Rightarrow> bool" where
  "well_keyed b =
     (distinct (map doc_id (documents b)) \<and> distinct (map journal_id (journals b))
      \<and> distinct (map journal_document (journals b)) \<and> distinct (map event_key (events b))
      \<and> ids_below (id_sequence b) (doc_id ` set (documents b))
      \<and> ids_below (id_sequence b) (journal_id ` set (journals b))
      \<and> ids_below (id_sequence b) (journal_document ` set (journals b))
      \<and> ids_below (id_sequence b) (line_journal ` set (journal_lines b)))"

definition books_ok :: "(seal_input \<Rightarrow> string) \<Rightarrow> books \<Rightarrow> bool" where
  "books_ok digest b = (well_keyed b \<and> (\<forall>d \<in> set (documents b). sound digest b d))"

section \<open>Frame lemmas\<close>

lemma lines_of_append:
  "\<forall>l \<in> set ls. line_journal l \<noteq> j \<Longrightarrow> journal_lines b' = journal_lines b @ ls \<Longrightarrow> lines_of b' j = lines_of b j"
  by (simp add: lines_of_def)

lemma lines_of_cong: "journal_lines b' = journal_lines b \<Longrightarrow> lines_of b' j = lines_of b j"
  by (simp add: lines_of_def)

lemma recorded_lines_journal:
  assumes "traverse (recorded_line j) xs = Inr ls" "l \<in> set ls"
  shows "line_journal l = j"
  using traverse_elem [OF assms] by (auto simp: recorded_line_def result_simps split: prod.splits)

section \<open>Creating a draft keeps the invariant\<close>

lemma create_draft_writes:
  assumes "create_draft configured origin input user b = Inr (v, b')"
    and "ids_below (id_sequence b) (doc_id ` set (documents b))"
  shows "\<exists>d dec row ls p. row = draft_row (show_nat (id_sequence b)) d dec (find_applicable_rule_id b d) (sub user)
    \<and> resolve_approval_for_creation origin configured (di_approval_status input) = Inr dec
    \<and> with_resolved_defaults b input (with_document_number b input) = Inr d
    \<and> validate_lines (line_amounts (rd_lines d)) = Inr ()
    \<and> (\<forall>l \<in> set (rd_lines d). line_ok b d l)
    \<and> assert_period_belongs_and_is_open b (rd_period d) (rd_entity d) (rd_posting_date d) = Inr p
    \<and> (\<exists>l. assert_ledger_belongs b (rd_ledger d) (rd_entity d) = Inr l)
    \<and> traverse (recorded_line (show_nat (Suc (id_sequence b)))) (enumerate 1 (rd_lines d)) = Inr ls
    \<and> event_key (draft_event (show_nat (id_sequence b)) (rd_document_no d)) \<notin> event_key ` set (events b)
    \<and> v = (row, load_journal_with_lines b' (show_nat (id_sequence b)))
    \<and> b' = b\<lparr>documents := documents b @ [row],
        journals := journals b @ [draft_journal (show_nat (Suc (id_sequence b))) (show_nat (id_sequence b)) (rd_document_no d)],
        journal_lines := journal_lines b @ ls,
        audit_log := audit_log b' , action_log := action_log b',
        events := events b @ [draft_event (show_nat (id_sequence b)) (rd_document_no d)],
        id_sequence := Suc (Suc (id_sequence b))\<rparr>"
proof -
  from assms(1) obtain dec d x i where c: "resolve_approval_for_creation origin configured (di_approval_status input) = Inr dec"
      "with_resolved_defaults b input (with_document_number b input) = Inr d"
      "validate_lines (line_amounts (rd_lines d)) = Inr ()"
      "assert_document_can_be_posted b d = Inr x"
      "record_draft d dec (find_applicable_rule_id b d) user b = Inr (i, b')" "get_document b' i = Inr v"
    unfolding create_draft_eq_Inr by blast
  from c(4) obtain p where ok: "assert_period_belongs_and_is_open b (rd_period d) (rd_entity d) (rd_posting_date d) = Inr p"
      "\<exists>l. assert_ledger_belongs b (rd_ledger d) (rd_entity d) = Inr l" "\<forall>l \<in> set (rd_lines d). line_ok b d l"
    by (auto simp: assert_document_can_be_posted_def result_simps assert_lines_eq_Inr)
  from record_draft_writes [OF c(5)] obtain ls row where w: "i = show_nat (id_sequence b)"
      "row = draft_row i d dec (find_applicable_rule_id b d) (sub user)"
      "traverse (recorded_line (show_nat (Suc (id_sequence b)))) (enumerate 1 (rd_lines d)) = Inr ls"
      "event_key (draft_event i (rd_document_no d)) \<notin> event_key ` set (events b)"
      "b' = b\<lparr>documents := documents b @ [row],
        journals := journals b @ [draft_journal (show_nat (Suc (id_sequence b))) i (rd_document_no d)],
        journal_lines := journal_lines b @ ls,
        audit_log := audit_log b @ [\<lparr>audit_document = i, audit_event = ''DRAFT_CREATED'', audit_actor = sub user\<rparr>],
        events := events b @ [draft_event i (rd_document_no d)],
        action_log := action_log b @ [\<lparr>action_code = ''CREATE_ACCOUNTING_DRAFT_WITH_JOURNAL'',
          action_actor = sub user, action_aggregate = Some i, affected_records = 4 + length (rd_lines d)\<rparr>],
        id_sequence := Suc (Suc (id_sequence b))\<rparr>"
    by blast
  have "find_by doc_id i (documents b) = None"
    using ids_below_fresh [OF assms(2)] by (simp add: find_by_None w(1))
  then have "find_by doc_id i (documents b') = Some row"
    by (simp add: w(5) find_by_append) (simp add: w(2) draft_row_def)
  with c(6) have v: "v = (row, load_journal_with_lines b' i)" by (auto simp: get_document_eq_Inr)
  show ?thesis
    using c(1-3) ok w v
    by (intro exI [of _ d] exI [of _ dec] exI [of _ row] exI [of _ ls] exI [of _ p]) simp
qed

lemma create_draft_row:
  assumes "create_draft configured origin input user b = Inr (v, b')" "well_keyed b"
  shows "documents b' = documents b @ [fst v]"
proof -
  from create_draft_writes [OF assms(1)] assms(2) obtain row x y z u w a c where "fst v = row"
    and b': "b' = b\<lparr>documents := documents b @ [row], journals := x, journal_lines := y, audit_log := z, action_log := u,
      events := w, id_sequence := a\<rparr>"
    unfolding well_keyed_def by (metis fst_conv)
  then show ?thesis by simp
qed

text \<open>Rows are only added: what a document's soundness reads is unchanged.\<close>

lemma sealed_extend:
  assumes "sealed digest b d" and "set (journals b) \<subseteq> set (journals b')"
    and "\<forall>j \<in> set (journals b). lines_of b' (journal_id j) = lines_of b (journal_id j)"
  shows "sealed digest b' d"
  using assms unfolding sealed_def by (metis subsetD)

lemma mirrored_extend:
  "mirrored b d \<Longrightarrow> set (documents b) \<subseteq> set (documents b') \<Longrightarrow> mirrored b' d"
  unfolding mirrored_def by blast

lemma record_draft_keyed:
  assumes keyed: "well_keyed b" and run: "record_draft d dec rule user b = Inr (i, b')"
  shows "well_keyed b'"
proof -
  let ?n = "id_sequence b"
  from record_draft_writes [OF run] obtain ls where
    w: "i = show_nat ?n"
      "traverse (recorded_line (show_nat (Suc ?n))) (enumerate 1 (rd_lines d)) = Inr ls"
      "event_key (draft_event i (rd_document_no d)) \<notin> event_key ` set (events b)"
    and fields: "documents b' = documents b @ [draft_row i d dec rule (sub user)]"
      "journals b' = journals b @ [draft_journal (show_nat (Suc ?n)) i (rd_document_no d)]"
      "journal_lines b' = journal_lines b @ ls" "id_sequence b' = Suc (Suc ?n)"
      "events b' = events b @ [draft_event i (rd_document_no d)]"
    by fastforce
  have ids: "journal_id (draft_journal j k no) = j" "journal_document (draft_journal j k no) = k"
    "doc_id (draft_row k d dec rule c) = k" for j k no c
    by (simp_all add: draft_journal_def draft_row_def)
  have "ids_below (Suc (Suc ?n)) (line_journal ` set ls)"
    using recorded_lines_journal [OF w(2)] by (auto simp: ids_below_def)
  moreover have mono: "ids_below (Suc (Suc ?n)) s" if "ids_below ?n s" for s
    using that by (rule ids_below_mono) simp
  ultimately show ?thesis
    using keyed w(3) ids_below_fresh [of ?n _ ?n] ids_below_fresh [of ?n _ "Suc ?n"]
    unfolding well_keyed_def fields w(1) by (auto simp: ids image_Un)
qed

lemma record_draft_ok:
  assumes ok: "books_ok digest b" and run: "record_draft d dec rule user b = Inr (i, b')"
  shows "books_ok digest b'"
proof -
  let ?n = "id_sequence b" and ?row = "draft_row i d dec rule (sub user)"
  have keyed: "well_keyed b" and snd: "\<forall>d \<in> set (documents b). sound digest b d"
    using ok by (simp_all add: books_ok_def)
  from record_draft_writes [OF run] obtain ls where
    w: "traverse (recorded_line (show_nat (Suc ?n))) (enumerate 1 (rd_lines d)) = Inr ls"
    and fields: "documents b' = documents b @ [?row]"
      "journals b' = journals b @ [draft_journal (show_nat (Suc ?n)) i (rd_document_no d)]"
      "journal_lines b' = journal_lines b @ ls"
    by fastforce
  have lines_same: "\<forall>j \<in> set (journals b). lines_of b' (journal_id j) = lines_of b (journal_id j)"
  proof
    fix j assume "j \<in> set (journals b)"
    then have "journal_id j \<noteq> show_nat (Suc ?n)"
      using keyed ids_below_fresh [of ?n "journal_id ` set (journals b)" "Suc ?n"]
      unfolding well_keyed_def by (metis imageI le_SucI order_refl)
    then show "lines_of b' (journal_id j) = lines_of b (journal_id j)"
      using recorded_lines_journal [OF w] fields(3) by (intro lines_of_append [of ls]) auto
  qed
  have "sound digest b' x" if "x \<in> set (documents b)" for x
    using snd that sealed_extend [of digest b x b'] mirrored_extend [of b x b'] lines_same fields(1,2)
    by (auto simp: sound_def)
  moreover have "sound digest b' ?row" by (simp add: sound_def live_def approver_differs_def draft_row_def)
  ultimately show ?thesis using record_draft_keyed [OF keyed run] by (auto simp: books_ok_def fields(1))
qed

lemma create_draft_records:
  assumes "create_draft configured origin input user b = Inr (v, b')"
  obtains d dec rule i where "draft_checks configured origin input user b = Inr (d, dec, rule)"
    "record_draft d dec rule user b = Inr (i, b')"
  using assms by (auto simp: create_draft_halves and_then_eq_Inr split: prod.splits)

lemma create_draft_keyed:
  "well_keyed b \<Longrightarrow> create_draft configured origin input user b = Inr (v, b') \<Longrightarrow> well_keyed b'"
  by (metis create_draft_records record_draft_keyed)

lemma create_draft_ok:
  "books_ok digest b \<Longrightarrow> create_draft configured origin input user b = Inr (v, b') \<Longrightarrow> books_ok digest b'"
  by (metis create_draft_records record_draft_ok)

section \<open>Changing rows keeps the invariant\<close>

lemma well_keyed_update:
  assumes "well_keyed b" and "map doc_id (documents b') = map doc_id (documents b)"
    and "map journal_id (journals b') = map journal_id (journals b)"
    and "map journal_document (journals b') = map journal_document (journals b)"
    and "journal_lines b' = journal_lines b" and "id_sequence b \<le> id_sequence b'"
    and "events b' = events b @ es" "distinct (map event_key es)"
    and "event_key ` set (events b) \<inter> event_key ` set es = {}"
  shows "well_keyed b'"
proof -
  have keys: "distinct (map event_key (events b'))"
    using assms(1,8,9) by (simp add: assms(7) well_keyed_def)
  have sets: "doc_id ` set (documents b') = doc_id ` set (documents b)"
    "journal_id ` set (journals b') = journal_id ` set (journals b)"
    "journal_document ` set (journals b') = journal_document ` set (journals b)"
    using assms(2-4) by (metis list.set_map)+
  show ?thesis
    using assms(1-6) keys ids_below_mono [OF _ assms(6)] unfolding well_keyed_def sets by auto
qed

lemma sealed_update:
  assumes "sealed digest b d" "doc_id d' = doc_id d" "status d' = status d"
    and "\<And>j. j \<in> set (journals b) \<Longrightarrow> journal_document j = doc_id d \<Longrightarrow> j \<in> set (journals b')"
    and "journal_lines b' = journal_lines b"
  shows "sealed digest b' d'"
  using assms(1,4) lines_of_cong [OF assms(5)] unfolding sealed_def assms(2,3) by metis

lemma mirrored_update:
  assumes "mirrored b d" "documents b' = map g (documents b)" "reversed_by d' = reversed_by d"
    "doc_id d' = doc_id d"
    and "\<And>r. r \<in> set (documents b) \<Longrightarrow> live r \<Longrightarrow>
      live (g r) \<and> doc_id (g r) = doc_id r \<and> reversal_of (g r) = reversal_of r"
  shows "mirrored b' d'"
proof -
  from assms(1) obtain r where r: "r \<in> set (documents b)" "reversed_by d = Some (doc_id r)"
    "reversal_of r = Some (doc_id d)" "live r" unfolding mirrored_def by blast
  with assms(5) [OF r(1,4)] assms(2-4) show ?thesis
    unfolding mirrored_def by (intro bexI [of _ "g r"]) simp_all
qed

lemma decide_ok:
  assumes ok: "books_ok digest b" and run: "decide i user dec b = Inr (v, b')"
  shows "books_ok digest b'"
proof -
  define g where "g = (\<lambda>r :: document_row. if doc_id r = i \<and> status r = DRAFT \<and> approval r = PENDING
    then decided user dec (clock b) r else r)"
  from decide_writes [OF run] obtain d where
    d: "find_by doc_id i (documents b) = Some d" "created_by d \<noteq> Some (sub user) \<or> sub user = []"
    and b': "b' = b\<lparr>documents := map g (documents b), audit_log := audit_log b'\<rparr>"
    unfolding g_def by auto
  have fields: "documents b' = map g (documents b)" "journals b' = journals b" "journal_lines b' = journal_lines b"
    "events b' = events b" "id_sequence b' = id_sequence b" "periods b' = periods b"
    by (subst b', simp)+
  have keyed: "well_keyed b" using ok by (simp add: books_ok_def)
  have g: "doc_id (g r) = doc_id r" "status (g r) = status r" "doc_period (g r) = doc_period r"
    "reversed_by (g r) = reversed_by r" "reversal_of (g r) = reversal_of r" "live (g r) = live r"
    "live r \<Longrightarrow> g r = r" for r
    by (auto simp: g_def decided_def live_def split: decision.splits)
  have sound: "sound digest b' (g r)" if r: "r \<in> set (documents b)" for r
  proof -
    have s: "sound digest b r" using ok r by (simp add: books_ok_def)
    have "approver_differs (g r)"
    proof (cases "doc_id r = i")
      case True
      then have "r = d" using find_by_Some [OF d(1)] r keyed unique_row [of doc_id "documents b" r d]
        by (simp add: well_keyed_def)
      then show ?thesis using s d(2)
        by (auto simp: g_def decided_def approver_differs_def sound_def split: decision.splits)
    qed (use s in \<open>simp add: g_def sound_def\<close>)
    moreover have "sealed digest b r \<Longrightarrow> sealed digest b' (g r)"
      by (erule sealed_update) (simp_all add: g fields)
    moreover have "mirrored b r \<Longrightarrow> mirrored b' (g r)"
      by (erule mirrored_update [OF _ fields(1)]) (simp_all add: g)
    ultimately show ?thesis
      using s g
      by (auto simp: sound_def)
  qed
  have "well_keyed b'"
    using keyed by (rule well_keyed_update [where es = "[]"]) (simp_all add: fields g comp_def)
  with sound show ?thesis by (auto simp: books_ok_def fields(1))
qed

lemma post_document_ok:
  assumes ok: "books_ok digest b" and run: "post_document digest i user b = Inr (v, b')"
  shows "books_ok digest b'"
proof -
  from post_document_writes [OF run] obtain d j h where
    d: "find_by doc_id i (documents b) = Some d" "status d = DRAFT" "approval_complete d"
    and j: "find_by journal_document i (journals b) = Some j"
      "validate_lines (stored_amounts (lines_of b (journal_id j))) = Inr ()"
      "h = seal_journal digest i (journal_id j) (lines_of b (journal_id j))"
    and key: "''accounting-document-posted-'' @ i \<notin> event_key ` set (events b)"
    and b': "b' = b\<lparr>documents := update_by doc_id i posted_row (documents b),
        journals := update_by journal_id (journal_id j) (posted_journal (clock b) (sub user) h) (journals b),
        audit_log := audit_log b @ [\<lparr>audit_document = i, audit_event = ''POSTED'', audit_actor = sub user\<rparr>],
        events := events b @ [document_event ''accounting.document.posted'' ''accounting-document-posted-'' i
          [(''accountingDocumentId'', i), (''hashSha256'', h)]]\<rparr>"
    by blast
  define g where "g = (\<lambda>r :: document_row. if doc_id r = i then posted_row r else r)"
  have fields: "documents b' = map g (documents b)" "journal_lines b' = journal_lines b"
    "journals b' = update_by journal_id (journal_id j) (posted_journal (clock b) (sub user) h) (journals b)"
    "id_sequence b' = id_sequence b" "periods b' = periods b"
    by (simp_all add: b' g_def update_by_def)
  have keyed: "well_keyed b" using ok by (simp add: books_ok_def)
  have j': "j \<in> set (journals b)" "journal_document j = i" using find_by_Some [OF j(1)] by simp_all
  have pj: "journal_id (posted_journal t a h r) = journal_id r" "journal_document (posted_journal t a h r) = journal_document r"
    for t a r by (simp_all add: posted_journal_def)
  have g: "doc_id (g r) = doc_id r" "reversed_by (g r) = reversed_by r" "reversal_of (g r) = reversal_of r"
    "live r \<Longrightarrow> live (g r)" "doc_period (g r) = doc_period r" "approver_differs (g r) = approver_differs r" for r
    by (auto simp: g_def posted_row_def live_def approver_differs_def)
  have sound: "sound digest b' (g r)" if r: "r \<in> set (documents b)" for r
  proof (cases "doc_id r = i")
    case True
    then have "r = d" using find_by_Some [OF d(1)] r keyed unique_row [of doc_id "documents b" r d]
      by (simp add: well_keyed_def)
    have "posted_journal (clock b) (sub user) h j \<in> set (journals b')"
      using j'(1) unfolding fields set_update_by by (intro bexI [of _ j]) simp_all
    then have "sealed digest b' (g r)"
      using j j'(2) True unfolding sealed_def
      by (intro bexI [of _ "posted_journal (clock b) (sub user) h j"])
        (simp_all add: posted_journal_def g_def posted_row_def lines_of_cong [OF fields(2)])
    moreover have "sound digest b r" using ok r by (simp add: books_ok_def)
    ultimately show ?thesis
      using True d(3) \<open>r = d\<close> g(6) [of r]
      by (auto simp: sound_def g_def posted_row_def approval_complete_def)
  next
    case False
    then have gr: "g r = r" by (simp add: g_def)
    have s: "sound digest b r" using ok r by (simp add: books_ok_def)
    have "sealed digest b r \<Longrightarrow> sealed digest b' r"
    proof (erule sealed_update)
      fix x assume x: "x \<in> set (journals b)" "journal_document x = doc_id r"
      with False j' have "journal_id x \<noteq> journal_id j"
        using unique_row [of journal_id "journals b" x j] keyed by (auto simp: well_keyed_def)
      then show "x \<in> set (journals b')" using x unfolding fields set_update_by by (intro bexI [of _ x]) simp_all
    qed (simp_all add: fields)
    moreover have "mirrored b r \<Longrightarrow> mirrored b' r"
      by (erule mirrored_update [OF _ fields(1)]) (simp_all add: g)
    ultimately show ?thesis
      using s by (auto simp: sound_def gr)
  qed
  define ev where "ev = document_event ''accounting.document.posted'' ''accounting-document-posted-'' i
    [(''accountingDocumentId'', i), (''hashSha256'', h)]"
  have ev: "event_key ev \<notin> event_key ` set (events b)"
    unfolding ev_def using key by (simp only: document_event_def event_row.simps not_False_eq_True)
  have "well_keyed b'"
  proof (rule well_keyed_update [OF keyed, where es = "[ev]"])
    show "map doc_id (documents b') = map doc_id (documents b)" by (simp add: fields(1) g comp_def)
    show "map journal_id (journals b') = map journal_id (journals b)"
      "map journal_document (journals b') = map journal_document (journals b)"
      unfolding fields by (simp_all add: pj)
    show "events b' = events b @ [ev]" unfolding b' ev_def by simp
  qed (use ev in \<open>simp_all add: fields\<close>)
  with sound show ?thesis by (auto simp: books_ok_def fields(1))
qed

section \<open>Reversing keeps the invariant\<close>

lemma link_reversal_ok:
  assumes ok: "books_ok digest b" and run: "link_reversal i original b = Inr b'"
    and draft: "find_by doc_id i (documents b) = Some d" "status d = DRAFT"
  shows "books_ok digest b'"
proof -
  define g where "g = (\<lambda>r :: document_row. if doc_id r = i then r\<lparr>reversal_of := Some original\<rparr> else r)"
  from run have b': "b' = b\<lparr>documents := map g (documents b)\<rparr>"
    by (auto simp: link_reversal_def update_document_def update_by_def g_def split: if_splits)
  have keyed: "well_keyed b" using ok by (simp add: books_ok_def)
  have g: "doc_id (g r) = doc_id r" "reversed_by (g r) = reversed_by r" "live (g r) = live r" "status (g r) = status r"
    "doc_period (g r) = doc_period r" "approver_differs (g r) = approver_differs r"
    "approval_complete (g r) = approval_complete r" for r
    by (auto simp: g_def live_def approver_differs_def approval_complete_def)
  have glive: "reversal_of (g r) = reversal_of r" if "r \<in> set (documents b)" "live r" for r
  proof (cases "doc_id r = i")
    case True
    then have "r = d" using find_by_Some [OF draft(1)] that keyed unique_row [of doc_id "documents b" r d]
      by (simp add: well_keyed_def)
    with draft(2) that(2) show ?thesis by (simp add: live_def)
  qed (simp add: g_def)
  have "sound digest b' (g r)" if r: "r \<in> set (documents b)" for r
  proof -
    have s: "sound digest b r" using ok r by (simp add: books_ok_def)
    moreover have "sealed digest b r \<Longrightarrow> sealed digest b' (g r)"
      by (erule sealed_update) (simp_all add: g b')
    moreover have "mirrored b r \<Longrightarrow> mirrored b' (g r)"
      by (erule mirrored_update [where g = g]) (simp_all add: g b' glive)
    ultimately show ?thesis
      by (auto simp: sound_def g b')
  qed
  moreover have "well_keyed b'"
    using keyed by (rule well_keyed_update [where es = "[]"]) (simp_all add: b' g comp_def)
  ultimately show ?thesis by (auto simp: books_ok_def b')
qed

text \<open>The last step of a reversal: a posted document whose mirror is posted becomes reversed.\<close>

lemma mark_reversed_ok:
  assumes ok: "books_ok digest b"
    and d: "d \<in> set (documents b)" "doc_id d = i" "status d = POSTED"
    and j: "j \<in> set (journals b)" "journal_document j = i"
    and m: "m \<in> set (documents b)" "reversal_of m = Some i" "live m" "doc_id m = ri"
    and ev: "event_key ev \<notin> event_key ` set (events b)"
    and b': "documents b' = update_by doc_id i (\<lambda>r. r\<lparr>status := REVERSED, reversed_by := Some ri\<rparr>) (documents b)"
      "journals b' = update_by journal_id (journal_id j) (\<lambda>r. r\<lparr>posting_status := REVERSED\<rparr>) (journals b)"
      "journal_lines b' = journal_lines b" "events b' = events b @ [ev]" "id_sequence b' = id_sequence b"
      "periods b' = periods b"
  shows "books_ok digest b'"
proof -
  define g where "g = (\<lambda>r :: document_row. if doc_id r = i then r\<lparr>status := REVERSED, reversed_by := Some ri\<rparr> else r)"
  have docs: "documents b' = map g (documents b)" by (simp add: b' g_def update_by_def)
  have keyed: "well_keyed b" using ok by (simp add: books_ok_def)
  have only_d: "r = d" if "r \<in> set (documents b)" "doc_id r = i" for r
    using that d keyed unique_row [of doc_id "documents b" r d] by (simp add: well_keyed_def)
  have g: "doc_id (g r) = doc_id r" "reversal_of (g r) = reversal_of r" "live r \<Longrightarrow> live (g r)"
    "doc_period (g r) = doc_period r" "approver_differs (g r) = approver_differs r"
    "approval_complete (g r) = approval_complete r" for r
    by (auto simp: g_def live_def approver_differs_def approval_complete_def)
  have "sound digest b' (g r)" if r: "r \<in> set (documents b)" for r
  proof (cases "doc_id r = i")
    case True
    with r have rd: "r = d" using only_d by blast
    have s: "sound digest b d" using ok d(1) by (simp add: books_ok_def)
    then have "sealed digest b d" "approval_complete d" using d(3) by (simp_all add: sound_def live_def)
    then obtain k where k: "k \<in> set (journals b)" "journal_document k = i"
        "validate_lines (stored_amounts (lines_of b (journal_id k))) = Inr ()"
        "hash_sha256 k = Some (seal_journal digest i (journal_id k) (lines_of b (journal_id k)))"
      unfolding sealed_def d(2) by blast
    then have "k = j" using j keyed unique_row [of journal_document "journals b" k j] by (simp add: well_keyed_def)
    have "j\<lparr>posting_status := REVERSED\<rparr> \<in> set (journals b')"
      using j(1) unfolding b' set_update_by by (intro bexI [of _ j]) simp_all
    then have "sealed digest b' (g d)"
      using k \<open>k = j\<close> d(2) unfolding sealed_def
      by (intro bexI [of _ "j\<lparr>posting_status := REVERSED\<rparr>"]) (simp_all add: g_def lines_of_cong [OF b'(3)])
    moreover have "mirrored b' (g d)"
      unfolding mirrored_def docs using m d(2) g [of m] by (intro bexI [of _ "g m"]) (simp_all add: g_def)
    ultimately show ?thesis
      using s \<open>approval_complete d\<close> g [of d] d(2) by (auto simp: rd sound_def g_def)
  next
    case False
    then have gr: "g r = r" by (simp add: g_def)
    have s: "sound digest b r" using ok r by (simp add: books_ok_def)
    have "sealed digest b r \<Longrightarrow> sealed digest b' r"
    proof (erule sealed_update)
      fix x assume x: "x \<in> set (journals b)" "journal_document x = doc_id r"
      with False j have "journal_id x \<noteq> journal_id j"
        using unique_row [of journal_id "journals b" x j] keyed by (auto simp: well_keyed_def)
      then show "x \<in> set (journals b')" using x unfolding b' set_update_by by (intro bexI [of _ x]) simp_all
    qed (simp_all add: b')
    moreover have "mirrored b r \<Longrightarrow> mirrored b' r"
      by (erule mirrored_update [OF _ docs]) (simp_all add: g)
    ultimately show ?thesis
      using s by (auto simp: sound_def gr)
  qed
  moreover have "well_keyed b'"
  proof (rule well_keyed_update [OF keyed, where es = "[ev]"])
    show "map doc_id (documents b') = map doc_id (documents b)" by (simp add: docs g comp_def)
    show "map journal_id (journals b') = map journal_id (journals b)"
      "map journal_document (journals b') = map journal_document (journals b)"
      unfolding b' by simp_all
    show "events b' = events b @ [ev]" by (rule b')
  qed (use ev in \<open>simp_all add: b'\<close>)
  ultimately show ?thesis by (auto simp: books_ok_def docs)
qed

lemma update_by_append: "update_by key i f (rows @ rows') = update_by key i f rows @ update_by key i f rows'"
  by (simp add: update_by_def)

lemma update_by_other: "i \<notin> key ` set rows \<Longrightarrow> update_by key i f rows = rows"
  unfolding update_by_def by (rule map_idI) auto

lemma update_by_single: "update_by key i f [r] = [if key r = i then f r else r]"
  by (simp add: update_by_def)

definition mark_reversed :: "ident \<Rightarrow> document_row \<Rightarrow> document_row" where
  "mark_reversed ri r = r\<lparr>status := REVERSED, reversed_by := Some ri\<rparr>"

text \<open>A reversal up to the point where the mirror is posted and the original not yet marked.\<close>

lemma reverse_document_posts_mirror:
  assumes run: "reverse_document digest configured i date period reason user b = Inr (v, b')"
    and keyed: "well_keyed b"
  shows "\<exists>original oj row ls d h mirror input reversal b1 b2 b3 ev. find_by doc_id i (documents b) = Some original
    \<and> can_access_legal_entity user (doc_entity original) \<and> status original = POSTED
    \<and> find_active_reversal_of b i = None
    \<and> find_by journal_document i (journals b) = Some oj
    \<and> rd_lines d = map (mirrored_line i reason) (lines_of b (journal_id oj))
    \<and> rd_entity d = doc_entity original \<and> rd_posting_date d = date
    \<and> row = draft_row (show_nat (id_sequence b)) d (NOT_REQUIRED, server_generated_policy_ref)
        (find_applicable_rule_id b d) (sub user)
    \<and> mirror = row\<lparr>reversal_of := Some i, status := POSTED\<rparr>
    \<and> fst v = mirror
    \<and> traverse (recorded_line (show_nat (Suc (id_sequence b)))) (enumerate 1 (rd_lines d)) = Inr ls
    \<and> validate_lines (line_amounts (rd_lines d)) = Inr ()
    \<and> h = seal_journal digest (doc_id mirror) (show_nat (Suc (id_sequence b))) (sort_key line_no ls)
    \<and> create_draft configured SERVER_GENERATED input user b = Inr (reversal, b1)
    \<and> find_by doc_id (doc_id mirror) (documents b1) = Some row
    \<and> link_reversal (doc_id mirror) i b1 = Inr b2 \<and> post_document digest (doc_id mirror) user b2 = Inr (v, b3)
    \<and> documents b3 = documents b @ [mirror]
    \<and> journals b3 = journals b @ [posted_journal (clock b) (sub user) h
            (draft_journal (show_nat (Suc (id_sequence b))) (doc_id mirror) (rd_document_no d))]
    \<and> journal_lines b3 = journal_lines b @ ls
    \<and> doc_id mirror \<noteq> i \<and> show_nat (Suc (id_sequence b)) \<noteq> journal_id oj
    \<and> publish ev (write_audit i ''REVERSED'' user (update_journal (journal_id oj) (\<lambda>r. r\<lparr>posting_status := REVERSED\<rparr>)
        (update_document i (mark_reversed (doc_id mirror)) b3))) = Inr b'"
proof -
  let ?n = "id_sequence b"
  let ?ri = "show_nat ?n" and ?rj = "show_nat (Suc ?n)"
  from reverse_document_steps [OF run] obtain original oj no reversal b1 b2 b3 b4 ev where
    o: "find_by doc_id i (documents b) = Some original" "can_access_legal_entity user (doc_entity original)"
      "status original = POSTED" "find_active_reversal_of b i = None"
      "find_by journal_document i (journals b) = Some oj"
    and c: "create_draft configured SERVER_GENERATED
        (reversal_input original (lines_of b (journal_id oj)) no date period reason) user b = Inr (reversal, b1)"
    and l: "link_reversal (doc_id (fst reversal)) i b1 = Inr b2"
    and p: "post_document digest (doc_id (fst reversal)) user b2 = Inr (v, b3)"
    and b4: "b4 = write_audit i ''REVERSED'' user (update_journal (journal_id oj) (\<lambda>r. r\<lparr>posting_status := REVERSED\<rparr>)
        (update_document i (\<lambda>r. r\<lparr>status := REVERSED, reversed_by := Some (doc_id (fst v))\<rparr>) b3))"
    and e: "publish ev b4 = Inr b'"
    by blast
  have fresh: "?ri \<notin> doc_id ` set (documents b)" "?rj \<notin> journal_id ` set (journals b)"
    "?ri \<notin> journal_document ` set (journals b)" "?rj \<notin> line_journal ` set (journal_lines b)"
    using keyed ids_below_fresh [of ?n _ ?n] ids_below_fresh [of ?n _ "Suc ?n"] by (auto simp: well_keyed_def)
  from create_draft_writes [OF c] keyed obtain d dec row ls where
    row: "row = draft_row ?ri d dec (find_applicable_rule_id b d) (sub user)"
    and dec: "resolve_approval_for_creation SERVER_GENERATED configured
        (di_approval_status (reversal_input original (lines_of b (journal_id oj)) no date period reason)) = Inr dec"
    and d: "with_resolved_defaults b (reversal_input original (lines_of b (journal_id oj)) no date period reason)
        (with_document_number b (reversal_input original (lines_of b (journal_id oj)) no date period reason)) = Inr d"
    and ls: "traverse (recorded_line ?rj) (enumerate 1 (rd_lines d)) = Inr ls"
    and val: "validate_lines (line_amounts (rd_lines d)) = Inr ()"
    and v1: "reversal = (row, load_journal_with_lines b1 ?ri)"
    and b1: "b1 = b\<lparr>documents := documents b @ [row],
        journals := journals b @ [draft_journal ?rj ?ri (rd_document_no d)],
        journal_lines := journal_lines b @ ls, audit_log := audit_log b1, action_log := action_log b1,
        events := events b @ [draft_event ?ri (rd_document_no d)], id_sequence := Suc (Suc ?n)\<rparr>"
    unfolding well_keyed_def by blast
  have dec': "dec = (NOT_REQUIRED, server_generated_policy_ref)"
    using dec by (cases dec) (simp add: resolve_approval_eq_Inr)
  have rd: "rd_lines d = map (mirrored_line i reason) (lines_of b (journal_id oj))"
    "rd_entity d = doc_entity original" "rd_posting_date d = date"
    using d find_by_Some [OF o(1)] by (auto simp: with_resolved_defaults_def Let_def result_simps reversal_input_def)
  have ri: "doc_id row = ?ri" "status row = DRAFT" by (simp_all add: row draft_row_def)
  have rid: "doc_id (fst reversal) = ?ri" by (simp add: v1 ri)
  have f1: "documents b1 = documents b @ [row]" "journals b1 = journals b @ [draft_journal ?rj ?ri (rd_document_no d)]"
    "journal_lines b1 = journal_lines b @ ls" "clock b1 = clock b" by (subst b1, simp)+
  define linked where "linked = row\<lparr>reversal_of := Some i\<rparr>"
  from l have b2: "b2 = b1\<lparr>documents := documents b @ [linked]\<rparr>"
    using update_by_other [OF fresh(1)]
    by (auto simp: rid link_reversal_def update_document_def f1 update_by_append update_by_single ri linked_def
        split: if_splits)
  have f2: "documents b2 = documents b @ [linked]" "journals b2 = journals b1" "journal_lines b2 = journal_lines b1"
    "clock b2 = clock b" by (simp_all add: b2 f1)
  have found: "find_by journal_document ?ri (journals b2) = Some (draft_journal ?rj ?ri (rd_document_no d))"
    using fresh(3) by (simp add: f2 f1 find_by_append find_by_None [THEN iffD2]) (simp add: draft_journal_def)
  have lines: "lines_of b2 ?rj = sort_key line_no ls"
  proof -
    have "filter (\<lambda>l. line_journal l = ?rj) (journal_lines b) = []"
      using fresh(4) by (metis (mono_tags, lifting) filter_False imageI)
    moreover have "filter (\<lambda>l. line_journal l = ?rj) ls = ls"
      using recorded_lines_journal [OF ls] by simp
    ultimately show ?thesis by (simp add: lines_of_def f2 f1)
  qed
  have fl: "find_by doc_id ?ri (documents b2) = Some linked"
    using fresh(1) by (simp add: f2 find_by_append find_by_None [THEN iffD2]) (simp add: linked_def ri)
  define h where "h = seal_journal digest ?ri ?rj (sort_key line_no ls)"
  from post_document_writes [OF p] fl found lines have v: "fst v = posted_row linked"
    and b3: "documents b3 = update_by doc_id ?ri posted_row (documents b2)"
      "journals b3 = update_by journal_id ?rj (posted_journal (clock b) (sub user) h) (journals b2)"
      "journal_lines b3 = journal_lines b2"
    by (auto simp: rid h_def f2 draft_journal_def)
  define mirror where "mirror = row\<lparr>reversal_of := Some i, status := POSTED\<rparr>"
  have mirror: "fst v = mirror" "doc_id mirror = ?ri"
    by (simp_all add: v mirror_def linked_def posted_row_def ri)
  have jid: "journal_id (draft_journal ?rj ?ri (rd_document_no d)) = ?rj" by (simp add: draft_journal_def)
  have f3: "documents b3 = documents b @ [mirror]"
    "journals b3 = journals b @ [posted_journal (clock b) (sub user) h (draft_journal ?rj ?ri (rd_document_no d))]"
    using update_by_other [OF fresh(1)] update_by_other [OF fresh(2)]
    by (simp_all add: b3 f2 f1 update_by_append update_by_single jid)
      (simp add: linked_def ri mirror_def posted_row_def)
  have ne: "i \<noteq> ?ri" "journal_id oj \<noteq> ?rj"
    using find_by_Some [OF o(1)] find_by_Some [OF o(5)] fresh(1,2) by (metis imageI)+
  have fr: "find_by doc_id ?ri (documents b1) = Some row"
    using fresh(1) by (simp add: f1 find_by_append find_by_None [THEN iffD2]) (simp add: ri)
  have mark: "(\<lambda>r. r\<lparr>status := REVERSED, reversed_by := Some ?ri\<rparr>) = mark_reversed ?ri"
    by (simp add: mark_reversed_def [abs_def])
  show ?thesis
    apply (rule exI [of _ original], rule exI [of _ oj], rule exI [of _ row], rule exI [of _ ls], rule exI [of _ d],
        rule exI [of _ h], rule exI [of _ mirror],
        rule exI [of _ "reversal_input original (lines_of b (journal_id oj)) no date period reason"],
        rule exI [of _ reversal], rule exI [of _ b1],
        rule exI [of _ b2], rule exI [of _ b3], rule exI [of _ ev])
    using o rd row dec' ls val mirror c fr l p f3 b3(3) ne e mark
    by (simp add: h_def rid b4 f2 f1) (simp add: mirror_def row dec')
qed

text \<open>The complete effect of a reversal on documents, journals and lines.\<close>

lemma reverse_document_writes:
  assumes run: "reverse_document digest configured i date period reason user b = Inr (v, b')"
    and keyed: "well_keyed b"
  shows "\<exists>original oj row ls d h mirror. find_by doc_id i (documents b) = Some original
    \<and> can_access_legal_entity user (doc_entity original) \<and> status original = POSTED
    \<and> find_active_reversal_of b i = None
    \<and> find_by journal_document i (journals b) = Some oj
    \<and> rd_lines d = map (mirrored_line i reason) (lines_of b (journal_id oj))
    \<and> rd_entity d = doc_entity original \<and> rd_posting_date d = date
    \<and> row = draft_row (show_nat (id_sequence b)) d (NOT_REQUIRED, server_generated_policy_ref)
        (find_applicable_rule_id b d) (sub user)
    \<and> mirror = row\<lparr>reversal_of := Some i, status := POSTED\<rparr>
    \<and> fst v = mirror
    \<and> traverse (recorded_line (show_nat (Suc (id_sequence b)))) (enumerate 1 (rd_lines d)) = Inr ls
    \<and> validate_lines (line_amounts (rd_lines d)) = Inr ()
    \<and> h = seal_journal digest (doc_id mirror) (show_nat (Suc (id_sequence b))) (sort_key line_no ls)
    \<and> documents b' = update_by doc_id i (mark_reversed (doc_id mirror)) (documents b) @ [mirror]
    \<and> journals b' = update_by journal_id (journal_id oj) (\<lambda>r. r\<lparr>posting_status := REVERSED\<rparr>) (journals b)
        @ [posted_journal (clock b) (sub user) h
            (draft_journal (show_nat (Suc (id_sequence b))) (doc_id mirror) (rd_document_no d))]
    \<and> journal_lines b' = journal_lines b @ ls"
proof -
  have pj: "journal_id (posted_journal t a h (draft_journal j k no)) = j" for t a h j k no
    by (simp add: posted_journal_def draft_journal_def)
  show ?thesis
    using reverse_document_posts_mirror [OF run keyed]
    by (elim exE conjE) (intro exI conjI, assumption+, simp_all add: publish_eq_Inr write_audit_def
      update_journal_def update_document_def update_by_append update_by_single pj)
qed

lemma reverse_document_ok:
  assumes ok: "books_ok digest b"
    and run: "reverse_document digest configured i date period reason user b = Inr (v, b')"
  shows "books_ok digest b'"
proof -
  have keyed: "well_keyed b" using ok by (simp add: books_ok_def)
  from reverse_document_posts_mirror [OF run keyed] obtain original oj row mirror input reversal b1 b2 b3 ev d h where
    o: "find_by doc_id i (documents b) = Some original" "status original = POSTED"
      "find_by journal_document i (journals b) = Some oj"
    and m: "mirror = row\<lparr>reversal_of := Some i, status := POSTED\<rparr>"
    and row: "row = draft_row (show_nat (id_sequence b)) d (NOT_REQUIRED, server_generated_policy_ref)
        (find_applicable_rule_id b d) (sub user)"
    and c: "create_draft configured SERVER_GENERATED input user b = Inr (reversal, b1)"
      "find_by doc_id (doc_id mirror) (documents b1) = Some row"
    and l: "link_reversal (doc_id mirror) i b1 = Inr b2" and p: "post_document digest (doc_id mirror) user b2 = Inr (v, b3)"
    and f3: "documents b3 = documents b @ [mirror]"
      "journals b3 = journals b @ [posted_journal (clock b) (sub user) h
            (draft_journal (show_nat (Suc (id_sequence b))) (doc_id mirror) (rd_document_no d))]"
    and e: "publish ev (write_audit i ''REVERSED'' user (update_journal (journal_id oj) (\<lambda>r. r\<lparr>posting_status := REVERSED\<rparr>)
        (update_document i (mark_reversed (doc_id mirror)) b3))) = Inr b'"
    by blast
  have st: "status row = DRAFT" by (simp add: row draft_row_def)
  have "books_ok digest b1" using ok c(1) by (rule create_draft_ok)
  then have "books_ok digest b2" using l c(2) st by (rule link_reversal_ok)
  then have "books_ok digest b3" using p by (rule post_document_ok)
  then show ?thesis
  proof (rule mark_reversed_ok [where d = original and j = oj and m = mirror and ev = ev])
    show "original \<in> set (documents b3)" "doc_id original = i" "status original = POSTED"
      using o find_by_Some [OF o(1)] f3 by simp_all
    show "oj \<in> set (journals b3)" "journal_document oj = i" using find_by_Some [OF o(3)] f3(2) by auto
    show "mirror \<in> set (documents b3)" "reversal_of mirror = Some i" "live mirror" "doc_id mirror = doc_id mirror"
      by (simp_all add: f3 m live_def)
  qed (use e in \<open>auto simp: publish_eq_Inr write_audit_def update_journal_def update_document_def
      mark_reversed_def [abs_def]\<close>)
qed

lemma void_draft_ok:
  assumes ok: "books_ok digest b"
  shows "books_ok digest (void_draft i b)"
proof -
  define g where "g = (\<lambda>r :: document_row. if doc_id r = i \<and> status r = DRAFT then r\<lparr>status := VOID\<rparr> else r)"
  let ?b = "void_draft i b"
  have fields: "documents ?b = map g (documents b)" "journals ?b = journals b" "journal_lines ?b = journal_lines b"
    "events ?b = events b" "id_sequence ?b = id_sequence b" "periods ?b = periods b"
    by (simp_all add: void_draft_def g_def)
  have g: "doc_id (g r) = doc_id r" "doc_period (g r) = doc_period r" "reversed_by (g r) = reversed_by r"
    "reversal_of (g r) = reversal_of r" "approver_differs (g r) = approver_differs r" "live (g r) = live r" for r
    by (auto simp: g_def live_def approver_differs_def)
  have "sound digest ?b (g r)" if "r \<in> set (documents b)" for r
  proof -
    have s: "sound digest b r" using ok that by (simp add: books_ok_def)
    show ?thesis
    proof (cases "doc_id r = i \<and> status r = DRAFT")
      case True
      then have "status (g r) = VOID" by (simp add: g_def)
      then show ?thesis using s by (simp add: sound_def live_def g(5))
    next
      case False
      then have "g r = r" by (auto simp: g_def)
      moreover have "sealed digest b r \<Longrightarrow> sealed digest ?b r" by (erule sealed_update) (simp_all add: fields)
      moreover have "mirrored b r \<Longrightarrow> mirrored ?b r" by (erule mirrored_update [OF _ fields(1)]) (simp_all add: g)
      ultimately show ?thesis using s by (auto simp: sound_def)
    qed
  qed
  moreover have "well_keyed ?b"
    using ok unfolding books_ok_def
    by (elim conjE) (erule well_keyed_update [where es = "[]"], simp_all add: fields g comp_def)
  ultimately show ?thesis by (auto simp: books_ok_def fields(1))
qed

section \<open>Closing and reopening keep the invariant\<close>

lemma books_ok_periods:
  assumes ok: "books_ok digest b"
    and b': "documents b' = documents b" "journals b' = journals b" "journal_lines b' = journal_lines b"
      "id_sequence b \<le> id_sequence b'" "events b' = events b @ [ev]"
    and ev: "event_key ev \<notin> event_key ` set (events b)"
  shows "books_ok digest b'"
proof -
  have "sound digest b' d" if d: "d \<in> set (documents b)" for d
  proof -
    have s: "sound digest b d" using ok d by (simp add: books_ok_def)
    have "sealed digest b d \<Longrightarrow> sealed digest b' d" by (erule sealed_update) (simp_all add: b')
    then show ?thesis using s by (auto simp: sound_def mirrored_def b')
  qed
  moreover have "well_keyed b'"
  proof (rule well_keyed_update [where es = "[ev]"])
    show "well_keyed b" using ok by (simp add: books_ok_def)
    show "events b' = events b @ [ev]" "id_sequence b \<le> id_sequence b'" by (rule b')+
  qed (use ev in \<open>simp_all add: b'(1-3)\<close>)
  ultimately show ?thesis by (simp add: books_ok_def b')
qed

lemma write_close_run_writes:
  assumes "write_close_run entity i typ bs user b = (run, b')"
  shows "documents b' = documents b" "journals b' = journals b" "journal_lines b' = journal_lines b"
    "events b' = events b" "periods b' = periods b" "id_sequence b \<le> id_sequence b'" "action_log b' = action_log b"
    "clock b' = clock b"
  using assms by (auto simp: write_close_run_def Let_def next_id_def split: option.splits)

lemma close_period_ok:
  assumes ok: "books_ok digest b" and run: "close_period entity i typ user b = Inr (r, b')"
  shows "books_ok digest b'"
proof -
  define n where "n = length (report_previous_closes r) + 1"
  define ev where "ev = period_event ''accounting.period.closed'' (close_event_key (close_run_id r) n) i
    [(''closeRunId'', close_run_id r), (''periodId'', i), (''closeType'', typ), (''closeNumber'', show_nat n)]"
  define f where "f = (\<lambda>p :: period_row. p\<lparr>is_open := False, close_status := ''CLOSED'',
    closed_at := Some (clock b), closed_by := Some (sub user)\<rparr>)"
  from close_period_writes [OF run] obtain b1 where
    c: "blockers (build_close_control_report b i) = []" "write_close_run entity i typ [] user b = (r, b1)"
      "close_event_key (close_run_id r) n \<notin> event_key ` set (events b1)"
    and eq: "b' = b1\<lparr>periods := update_by period_id i f (periods b1), events := events b1 @ [ev],
        action_log := action_log b1 @ [\<lparr>action_code = ''CLOSE_ACCOUNTING_PERIOD'',
          action_actor = sub user, action_aggregate = Some i, affected_records = 3\<rparr>]\<rparr>"
    unfolding n_def ev_def f_def by blast
  have b': "documents b' = documents b1" "journals b' = journals b1" "journal_lines b' = journal_lines b1"
      "id_sequence b' = id_sequence b1" "events b' = events b1 @ [ev]" "periods b' = update_by period_id i f (periods b1)"
      "period_id (f p) = period_id p" for p
    by (simp_all add: eq f_def)
  have key: "event_key ev \<notin> event_key ` set (events b1)" using c(3) by (simp add: ev_def period_event_def)
  note w = write_close_run_writes [OF c(2)]
  show ?thesis by (rule books_ok_periods [OF ok, of _ ev]) (use b' w key in simp_all)
qed

lemma reopen_period_ok:
  assumes ok: "books_ok digest b" and run: "reopen_period i reason user b = Inr (ids, b')"
  shows "books_ok digest b'"
proof -
  define ev where "ev = period_event ''accounting.period.reopened'' (reopen_event_key i (clock b)) i
    [(''reason'', reason), (''reopenedBy'', sub user)]"
  define f where "f = (\<lambda>p :: period_row. p\<lparr>is_open := True, close_status := ''OPEN'', closed_at := None, closed_by := None\<rparr>)"
  from reopen_period_writes [OF run] obtain cs as where
    c: "reopen_event_key i (clock b) \<notin> event_key ` set (events b)"
    and eq: "b' = b\<lparr>close_runs := cs, periods := update_by period_id i f (periods b), events := events b @ [ev],
        action_log := as\<rparr>"
    unfolding ev_def f_def by blast
  have b': "documents b' = documents b" "journals b' = journals b" "journal_lines b' = journal_lines b"
      "id_sequence b' = id_sequence b" "events b' = events b @ [ev]" "periods b' = update_by period_id i f (periods b)"
      "period_id (f p) = period_id p" "period_accepts (f p)" for p
    by (simp_all add: eq f_def period_accepts_def)
  have key: "event_key ev \<notin> event_key ` set (events b)" using c by (simp add: ev_def period_event_def)
  show ?thesis
    by (rule books_ok_periods [OF ok, of _ ev]) (use b' key in simp_all)
qed

section \<open>The step relation\<close>

lemma create_drafts_ok:
  "books_ok digest b \<Longrightarrow> create_drafts configured items user b = Inr (vs, b') \<Longrightarrow> books_ok digest b'"
proof (induction items arbitrary: b vs)
  case (Cons x xs)
  then show ?case using create_draft_ok by (auto simp: and_then_eq_Inr split: prod.splits) blast
qed simp

lemma books_ok_cong:
  assumes "books_ok digest b" "documents b' = documents b" "journals b' = journals b"
    "journal_lines b' = journal_lines b" "id_sequence b' = id_sequence b" "events b' = events b" "periods b' = periods b"
  shows "books_ok digest b'"
  using assms by (simp add: books_ok_def well_keyed_def sound_def sealed_def mirrored_def
      lines_of_def)

text \<open>
  One step of the accounting system. The environment may change master data and let time pass;
  everything else is one of the service operations. A draft may also be recorded (\<open>late\<close>) after its checks
  ran on other, earlier books \<open>b0\<close>: no lock keeps other transactions from committing in between. In the same way a posting or
  a reversal, which lock their document, may have read the periods before (\<open>ps\<close>) and commit on the periods as they are now
  (\<open>post_late\<close>, \<open>reverse_late\<close>).
\<close>

inductive books_step :: "(seal_input \<Rightarrow> string) \<Rightarrow> string option \<Rightarrow> books \<Rightarrow> books \<Rightarrow> bool"
  for digest :: "seal_input \<Rightarrow> string" and configured :: "string option" where
  create: "create_draft configured origin input user b = Inr (v, b') \<Longrightarrow> books_step digest configured b b'"
| late: "\<lbrakk>draft_checks configured origin input user b0 = Inr (d, dec, rule); record_draft d dec rule user b = Inr (i, b')\<rbrakk>
    \<Longrightarrow> books_step digest configured b b'"
| bulk: "create_draft_bulk configured batch items user b = Inr (ds, b') \<Longrightarrow> books_step digest configured b b'"
| decide: "decide i user dec b = Inr (v, b') \<Longrightarrow> books_step digest configured b b'"
| post: "post_document digest i user b = Inr (v, b') \<Longrightarrow> books_step digest configured b b'"
| reverse: "reverse_document digest configured i date period reason user b = Inr (v, b')
    \<Longrightarrow> books_step digest configured b b'"
| post_late: "post_document digest i user (b\<lparr>periods := ps\<rparr>) = Inr (v, b')
    \<Longrightarrow> books_step digest configured b (b'\<lparr>periods := periods b\<rparr>)"
| reverse_late: "reverse_document digest configured i date period reason user (b\<lparr>periods := ps\<rparr>) = Inr (v, b')
    \<Longrightarrow> books_step digest configured b (b'\<lparr>periods := periods b\<rparr>)"
| void: "books_step digest configured b (void_draft i b)"
| close: "close_period entity i typ user b = Inr (run, b') \<Longrightarrow> books_step digest configured b b'"
| reopen: "reopen_period i reason user b = Inr (ids, b') \<Longrightarrow> books_step digest configured b b'"
| environment: "\<lbrakk>documents b' = documents b; journals b' = journals b; journal_lines b' = journal_lines b;
     id_sequence b' = id_sequence b; events b' = events b; periods b' = periods b; close_runs b' = close_runs b\<rbrakk>
    \<Longrightarrow> books_step digest configured b b'"

text \<open>The keys and the documents' soundness do not look at the periods.\<close>

lemma periods_irrelevant [simp]:
  "well_keyed (b\<lparr>periods := ps\<rparr>) = well_keyed b" "books_ok digest (b\<lparr>periods := ps\<rparr>) = books_ok digest b"
  by (simp_all add: books_ok_def well_keyed_def sound_def sealed_def mirrored_def lines_of_def)

inductive_cases books_step_cases: "books_step digest configured b b'"

definition reachable :: "(seal_input \<Rightarrow> string) \<Rightarrow> string option \<Rightarrow> books \<Rightarrow> books \<Rightarrow> bool" where
  "reachable digest configured = (books_step digest configured)\<^sup>*\<^sup>*"

lemma books_step_ok:
  assumes "books_step digest configured b b'" "books_ok digest b"
  shows "books_ok digest b'"
  using assms
proof (induction rule: books_step.induct)
  case (bulk batch items user b ds b')
  then obtain vs b1 where "create_drafts configured items user b = Inr (vs, b1)"
    and b': "b' = b1\<lparr>action_log := action_log b'\<rparr>"
    by (auto simp: create_draft_bulk_def and_then_eq_Inr write_action_def)
  then have "books_ok digest b1" using bulk.prems create_drafts_ok by blast
  then show ?case by (rule books_ok_cong) (subst b', simp)+
next
  case (environment b' b)
  then show ?case by (intro books_ok_cong [of digest b b'])
next
  case (post_late i user ps b v b')
  then show ?case using post_document_ok [of digest "b\<lparr>periods := ps\<rparr>"] by simp
next
  case (reverse_late i date period reason user ps b v b')
  then show ?case using reverse_document_ok [of digest "b\<lparr>periods := ps\<rparr>"] by simp
qed (auto intro: create_draft_ok record_draft_ok decide_ok post_document_ok reverse_document_ok void_draft_ok close_period_ok reopen_period_ok)

section \<open>What a step may do to a document\<close>

text \<open>
  The life of one document: a pending draft is decided, an approved draft is posted, any draft is voided, and a
  posted document is marked with its reversal. Nothing else ever changes a row, and no row is removed.
\<close>

inductive row_change :: "document_row \<Rightarrow> document_row \<Rightarrow> bool" where
  stays: "row_change d d"
| decided: "\<lbrakk>status d = DRAFT; approval d = PENDING\<rbrakk> \<Longrightarrow> row_change d (decided user dec now d)"
| posted: "\<lbrakk>status d = DRAFT; approval_complete d\<rbrakk> \<Longrightarrow> row_change d (posted_row d)"
| voided: "status d = DRAFT \<Longrightarrow> row_change d (d\<lparr>status := VOID\<rparr>)"
| reversed: "status d = POSTED \<Longrightarrow> row_change d (mark_reversed r d)"

lemma row_change_keeps:
  "row_change d d' \<Longrightarrow> doc_id d' = doc_id d \<and> doc_entity d' = doc_entity d \<and> doc_period d' = doc_period d
    \<and> source_system d' = source_system d \<and> source_type d' = source_type d \<and> source_id d' = source_id d
    \<and> created_by d' = created_by d \<and> (live d \<longrightarrow> live d') \<and> (approval d \<noteq> NOT_REQUIRED \<longrightarrow> approval d' \<noteq> NOT_REQUIRED)"
  by (induction rule: row_change.induct)
    (auto simp: decided_def posted_row_def mark_reversed_def live_def split: decision.splits)

definition rows_change :: "books \<Rightarrow> books \<Rightarrow> bool" where
  "rows_change b b' = (\<exists>f new. documents b' = map f (documents b) @ new \<and> (\<forall>d \<in> set (documents b). row_change d (f d)))"

lemma rows_change_appends: "documents b' = documents b @ new \<Longrightarrow> rows_change b b'"
  unfolding rows_change_def by (intro exI [of _ "\<lambda>d. d"] exI [of _ new]) (simp add: row_change.stays)

lemma rows_change_update:
  assumes "well_keyed b" "find_by doc_id i (documents b) = Some d" "row_change d (f d)"
    "documents b' = update_by doc_id i f (documents b) @ new"
  shows "rows_change b b'"
proof -
  have "x = d" if "x \<in> set (documents b)" "doc_id x = i" for x
    using assms(1) that find_by_Some [OF assms(2)] unique_row [of doc_id "documents b" x d] by (auto simp: well_keyed_def)
  then show ?thesis
    unfolding rows_change_def assms(4) update_by_def
    by (intro exI [of _ "\<lambda>x. if doc_id x = i then f x else x"] exI [of _ new]) (auto intro: row_change.stays assms(3))
qed

lemma create_drafts_appends_rows:
  "well_keyed b \<Longrightarrow> create_drafts configured items user b = Inr (vs, b') \<Longrightarrow> \<exists>new. documents b' = documents b @ new"
proof (induction items arbitrary: b vs)
  case (Cons x xs)
  from Cons.prems(2) obtain v b1 vs' where r: "create_draft configured MANUAL x user b = Inr (v, b1)"
      "create_drafts configured xs user b1 = Inr (vs', b')"
    by (auto simp: and_then_eq_Inr)
  have "\<exists>new. documents b1 = documents b @ new" using create_draft_row [OF r(1) Cons.prems(1)] by blast
  then show ?case using Cons.IH [OF create_draft_keyed [OF Cons.prems(1) r(1)] r(2)] by auto
qed simp

lemma post_document_rows:
  assumes keyed: "well_keyed b" and run: "post_document digest i user b = Inr (v, b')"
  shows "rows_change b b'"
proof -
  from post_document_writes [OF run] obtain d where
    "find_by doc_id i (documents b) = Some d" "status d = DRAFT" "approval_complete d"
    "documents b' = update_by doc_id i posted_row (documents b) @ []" by auto
  then show ?thesis using rows_change_update [OF keyed] row_change.posted by metis
qed

lemma reverse_document_rows:
  assumes keyed: "well_keyed b" and run: "reverse_document digest configured i date period reason user b = Inr (v, b')"
  shows "rows_change b b'"
proof -
  from reverse_document_writes [OF run keyed] obtain original mirror where
    "find_by doc_id i (documents b) = Some original" "status original = POSTED"
    "documents b' = update_by doc_id i (mark_reversed (doc_id mirror)) (documents b) @ [mirror]" by blast
  then show ?thesis using rows_change_update [OF keyed] row_change.reversed by metis
qed

lemma books_step_rows:
  assumes step: "books_step digest configured b b'" and keyed: "well_keyed b"
  shows "rows_change b b'"
  using step
proof (cases rule: books_step.cases)
  case (create origin input user v)
  from create_draft_row [OF this keyed] show ?thesis by (rule rows_change_appends)
next
  case (late origin input user b0 d dec rule i)
  from record_draft_writes [OF late(2)] obtain row where "documents b' = documents b @ [row]" by fastforce
  then show ?thesis by (rule rows_change_appends)
next
  case (bulk batch items user ds)
  then obtain vs b1 where c: "create_drafts configured items user b = Inr (vs, b1)" "documents b' = documents b1"
    by (auto simp: create_draft_bulk_def and_then_eq_Inr write_action_def)
  from create_drafts_appends_rows [OF keyed c(1)] c(2) rows_change_appends show ?thesis by metis
next
  case (decide i user dec v)
  from decide_writes [OF decide] have "documents b' = map (\<lambda>r. if doc_id r = i \<and> status r = DRAFT \<and> approval r = PENDING
      then decided user dec (clock b) r else r) (documents b) @ []" by auto
  then show ?thesis unfolding rows_change_def by (intro exI conjI, assumption) (auto intro: row_change.intros)
next
  case (post i user v)
  then show ?thesis by (rule post_document_rows [OF keyed])
next
  case (reverse i date period reason user v)
  then show ?thesis by (rule reverse_document_rows [OF keyed])
next
  case (post_late i user ps v b1)
  then show ?thesis using post_document_rows [of "b\<lparr>periods := ps\<rparr>"] keyed by (simp add: rows_change_def)
next
  case (reverse_late i date period reason user ps v b1)
  then show ?thesis using reverse_document_rows [of "b\<lparr>periods := ps\<rparr>"] keyed by (simp add: rows_change_def)
next
  case (void i)
  then show ?thesis unfolding rows_change_def void_draft_def
    by (intro exI [of _ "\<lambda>r. if doc_id r = i \<and> status r = DRAFT then r\<lparr>status := VOID\<rparr> else r"] exI [of _ "[]"])
      (auto intro: row_change.intros)
next
  case (close entity i t user run)
  from close_period_writes [OF this] show ?thesis
    by (elim exE conjE) (rule rows_change_appends [of _ _ "[]"], simp add: write_close_run_writes(1))
next
  case (reopen i reason user ids)
  from reopen_period_writes [OF this] show ?thesis by (elim exE conjE) (rule rows_change_appends [of _ _ "[]"], simp)
qed (rule rows_change_appends [of _ _ "[]"], simp)

lemma reachable_ok:
  assumes "reachable digest configured b b'" "books_ok digest b"
  shows "books_ok digest b'"
  using assms(1) unfolding reachable_def
  by (induction rule: rtranclp_induct) (auto intro: assms(2) books_step_ok)

end
