(* ===== verification/CloseKeys.thy ===== *)
theory CloseKeys
  imports Books
begin

text \<open>
  Closing a period never collides with an earlier close: the event key of a close is made of the
  close run and the number of the close, and the number grows with the history of the run. With
  \<open>books_ok\<close> this gives the invariant of the whole ledger, \<open>ledger_ok\<close>, which every step keeps.
\<close>

section \<open>Closing never collides with an earlier close\<close>

definition close_keys_ok :: "books \<Rightarrow> bool" where
  "close_keys_ok b =
     (distinct (map close_run_id (close_runs b))
      \<and> ids_below (id_sequence b) (close_run_id ` set (close_runs b))
      \<and> (\<forall>run n. close_event_key run n \<in> event_key ` set (events b) \<longrightarrow>
           (\<exists>c \<in> set (close_runs b). close_run_id c = run \<and> n \<le> length (report_previous_closes c) + 1)))"

lemma rev_close_key: "rev (close_event_key run n) = rev (show_nat n) @ CHR ''-'' # rev run @ rev ''period-closed-''"
  by (simp add: close_event_key_def)

lemma show_nat_no_dash: "CHR ''-'' \<notin> set (show_nat n)"
  using show_nat_digits [of n] minus_not_digit(1) by (auto simp: all_digits_def list_all_iff)

lemma close_event_key_inject [simp]:
  "close_event_key run n = close_event_key run' n' \<longleftrightarrow> run = run' \<and> n = n'"
proof
  assume "close_event_key run n = close_event_key run' n'"
  then have eq: "rev (show_nat n) @ CHR ''-'' # rev run @ rev ''period-closed-'' =
      rev (show_nat n') @ CHR ''-'' # rev run' @ rev ''period-closed-''"
    by (simp only: rev_close_key [symmetric])
  have split: "takeWhile (\<lambda>c. c \<noteq> CHR ''-'') (u @ CHR ''-'' # xs) = u" if "CHR ''-'' \<notin> set u" for u xs
    using that by (induction u) auto
  have clean: "CHR ''-'' \<notin> set (rev (show_nat k))" for k using show_nat_no_dash [of k] by simp
  from arg_cong [OF eq, of "takeWhile (\<lambda>c. c \<noteq> CHR ''-'')"] have "rev (show_nat n) = rev (show_nat n')"
    unfolding split [OF clean] .
  then have "n = n'" by simp
  with eq show "run = run' \<and> n = n'" by (simp only: same_append_eq list.inject append_same_eq rev_is_rev_conv)
qed simp


definition appends_document_events :: "books \<Rightarrow> books \<Rightarrow> bool" where
  "appends_document_events b b' =
     (close_runs b' = close_runs b \<and> id_sequence b \<le> id_sequence b' \<and>
      (\<exists>es. events b' = events b @ es \<and> (\<forall>e \<in> set es. \<exists>k. event_key e = ''accounting-document-'' @ k)))"

lemma appends_trans:
  "appends_document_events b b' \<Longrightarrow> appends_document_events b' b'' \<Longrightarrow> appends_document_events b b''"
  unfolding appends_document_events_def by fastforce

lemma appends_refl:
  "events b' = events b \<Longrightarrow> close_runs b' = close_runs b \<Longrightarrow> id_sequence b' = id_sequence b
   \<Longrightarrow> appends_document_events b b'"
  by (simp add: appends_document_events_def)

lemma appends_one:
  "events b' = events b @ [e] \<Longrightarrow> event_key e = ''accounting-document-'' @ k \<Longrightarrow>
   close_runs b' = close_runs b \<Longrightarrow> id_sequence b \<le> id_sequence b' \<Longrightarrow> appends_document_events b b'"
  unfolding appends_document_events_def by auto

lemma record_draft_appends:
  assumes "record_draft d dec rule user b = Inr (i, b')"
  shows "appends_document_events b b'"
  using record_draft_writes [OF assms]
  by (elim exE conjE) (rule appends_one [where k = "''draft-'' @ i" and e = "draft_event i (rd_document_no d)"],
    simp_all add: draft_event_def document_event_def)

lemma create_draft_appends:
  "create_draft configured origin input user b = Inr (v, b') \<Longrightarrow> appends_document_events b b'"
  by (metis create_draft_records record_draft_appends)

lemma create_drafts_appends:
  "create_drafts configured items user b = Inr (vs, b') \<Longrightarrow> appends_document_events b b'"
proof (induction items arbitrary: b vs)
  case Nil
  then show ?case by (simp add: appends_refl)
next
  case (Cons x xs)
  then obtain v b1 vs' where "create_draft configured MANUAL x user b = Inr (v, b1)"
      "create_drafts configured xs user b1 = Inr (vs', b')"
    by (auto simp: and_then_eq_Inr split: prod.splits)
  with Cons.IH create_draft_appends appends_trans show ?case by blast
qed

lemma post_document_appends:
  assumes "post_document digest i user b = Inr (v, b')"
  shows "appends_document_events b b'"
  using post_document_writes [OF assms]
  by (auto simp: appends_document_events_def document_event_def)

lemma reverse_document_appends:
  assumes "reverse_document digest configured i date period reason user b = Inr (v, b')"
  shows "appends_document_events b b'"
proof -
  show ?thesis
    using reverse_document_steps [OF assms]
  proof (elim exE conjE, goal_cases)
    case (1 original oj ls no reversal ri b1 b2 b3 b4)
    note c = 1(8) and l = 1(10) and p = 1(11) and b4 = 1(12) and e = 1(13)
  have "appends_document_events b1 b2"
    using l by (auto simp: link_reversal_def update_document_def appends_refl split: if_splits)
  moreover have "appends_document_events b3 b4"
    by (simp add: b4 write_audit_def update_journal_def update_document_def appends_refl)
  moreover have "appends_document_events b4 b'"
    using e by (auto simp: publish_eq_Inr document_event_def intro!: appends_one [where k = "''reversed-'' @ i"])
  ultimately show ?case
    using create_draft_appends [OF c] post_document_appends [OF p] appends_trans by blast
  qed
qed

lemma close_key_not_document: "close_event_key run n \<noteq> ''accounting-document-'' @ k"
  by (simp add: close_event_key_def)

lemma close_key_not_reopen: "close_event_key run n \<noteq> reopen_event_key i t"
  by (simp add: close_event_key_def reopen_event_key_def)

lemma close_keys_appends:
  assumes "close_keys_ok b" "appends_document_events b b'"
  shows "close_keys_ok b'"
proof -
  from assms(2) obtain es where es: "events b' = events b @ es" "close_runs b' = close_runs b"
    "id_sequence b \<le> id_sequence b'" "\<forall>e \<in> set es. \<exists>k. event_key e = ''accounting-document-'' @ k"
    unfolding appends_document_events_def by blast
  have "close_event_key run n \<in> event_key ` set (events b)" if key: "close_event_key run n \<in> event_key ` set (events b')" for run n
  proof -
    have "close_event_key run n \<notin> event_key ` set es"
    proof
      assume "close_event_key run n \<in> event_key ` set es"
      then obtain e where "e \<in> set es" "event_key e = close_event_key run n" by auto
      with es(4) obtain k where "close_event_key run n = ''accounting-document-'' @ k" by metis
      then show False using close_key_not_document by blast
    qed
    with key show ?thesis unfolding es(1) set_append image_Un by blast
  qed
  then show ?thesis
    using assms(1) ids_below_mono [OF _ es(3)] by (auto simp: close_keys_ok_def es(2))
qed


text \<open>What recording a close does to the keys: the run's close number is one no event carries.\<close>

definition close_number_fresh :: "books \<Rightarrow> close_run_row \<Rightarrow> books \<Rightarrow> bool" where
  "close_number_fresh b run b1 =
     (distinct (map close_run_id (close_runs b1))
      \<and> ids_below (id_sequence b1) (close_run_id ` set (close_runs b1)) \<and> run \<in> set (close_runs b1)
      \<and> close_event_key (close_run_id run) (length (report_previous_closes run) + 1) \<notin> event_key ` set (events b)
      \<and> (\<forall>c \<in> set (close_runs b). \<exists>c' \<in> set (close_runs b1). close_run_id c' = close_run_id c
           \<and> length (report_previous_closes c) \<le> length (report_previous_closes c')))"

lemma length_historial [simp]: "length (historial_de_cierres c) = Suc (length (report_previous_closes c))"
  by (simp add: historial_de_cierres_def Let_def)

lemma write_close_run_keys:
  assumes ok: "close_keys_ok b" and w: "write_close_run entity i typ bs user b = (run, b1)"
  shows "close_number_fresh b run b1"
proof (cases "find (same_close entity i typ) (close_runs b)")
  case None
  from w None have runs: "close_runs b1 = close_runs b @ [run]" and "id_sequence b1 = Suc (id_sequence b)"
    and id: "close_run_id run = show_nat (id_sequence b)" and "report_previous_closes run = []"
    by (auto simp: write_close_run_def Let_def next_id_def generated_id_def)
  moreover from ok have fresh: "show_nat (id_sequence b) \<notin> close_run_id ` set (close_runs b)"
    by (auto simp: close_keys_ok_def dest: ids_below_fresh [where n = "id_sequence b"])
  moreover from ok have below: "ids_below (Suc (id_sequence b)) (close_run_id ` set (close_runs b))"
    by (auto simp: close_keys_ok_def intro: ids_below_mono)
  moreover have "close_event_key (show_nat (id_sequence b)) n \<notin> event_key ` set (events b)" for n
    using ok fresh unfolding close_keys_ok_def by (metis imageI)
  ultimately show ?thesis
    using ok by (auto simp: close_number_fresh_def close_keys_ok_def)
next
  case (Some anterior)
  then have mem: "anterior \<in> set (close_runs b)" by (auto simp: find_Some_iff)
  from w Some have runs: "close_runs b1 = update_by close_run_id (close_run_id anterior) (\<lambda>_. run) (close_runs b)"
    and id: "close_run_id run = close_run_id anterior" "id_sequence b1 = id_sequence b"
    and len: "length (report_previous_closes run) = Suc (length (report_previous_closes anterior))"
    by (auto simp: write_close_run_def Let_def)
  have ids: "map close_run_id (close_runs b1) = map close_run_id (close_runs b)"
    unfolding runs by (simp add: id(1))
  have set_ids: "close_run_id ` set (close_runs b1) = close_run_id ` set (close_runs b)"
    unfolding set_map [symmetric] ids ..
  have same: "c = anterior" if "c \<in> set (close_runs b)" "close_run_id c = close_run_id anterior" for c
    using ok that mem by (auto simp: close_keys_ok_def distinct_map dest: inj_onD)
  have "run \<in> set (close_runs b1)" using mem by (auto simp: runs set_update_by)
  moreover have "close_event_key (close_run_id run) (length (report_previous_closes run) + 1) \<notin> event_key ` set (events b)"
    using ok same by (fastforce simp: close_keys_ok_def id len)
  moreover have "\<exists>c' \<in> set (close_runs b1). close_run_id c' = close_run_id c
      \<and> length (report_previous_closes c) \<le> length (report_previous_closes c')" if "c \<in> set (close_runs b)" for c
    using that same [OF that] id(1) len by (fastforce simp: runs set_update_by)
  ultimately show ?thesis
    using ok by (auto simp: close_number_fresh_def close_keys_ok_def ids set_ids id(2))
qed

lemma write_close_run_events: "write_close_run entity i typ bs user b = (run, b1) \<Longrightarrow> events b1 = events b"
  by (auto simp: write_close_run_def Let_def next_id_def split: option.splits)

lemma close_period_keys:
  assumes ok: "close_keys_ok b" and "close_period entity i typ user b = Inr (run, b')"
  shows "close_keys_ok b'"
proof -
  from close_period_writes [OF assms(2)] obtain b1 e where w: "write_close_run entity i typ [] user b = (run, b1)"
    and e: "events b' = events b1 @ [e]" and b': "close_runs b' = close_runs b1" "id_sequence b' = id_sequence b1"
      "event_key e = close_event_key (close_run_id run) (length (report_previous_closes run) + 1)"
    by (auto simp: period_event_def)
  note b' = b' e [unfolded write_close_run_events [OF w]]
  from write_close_run_keys [OF ok w] have f: "close_number_fresh b run b1" .
  have "\<exists>c \<in> set (close_runs b1). close_run_id c = r \<and> n \<le> length (report_previous_closes c) + 1"
    if "close_event_key r n \<in> event_key ` set (events b')" for r n
  proof (cases "close_event_key r n \<in> event_key ` set (events b)")
    case True
    with ok obtain c where "c \<in> set (close_runs b)" "close_run_id c = r" "n \<le> length (report_previous_closes c) + 1"
      by (auto simp: close_keys_ok_def)
    with f show ?thesis unfolding close_number_fresh_def by (meson add_le_mono1 order_trans)
  next
    case False
    with that b' have "r = close_run_id run" "n = length (report_previous_closes run) + 1" by auto
    with f show ?thesis by (auto simp: close_number_fresh_def)
  qed
  with f b' show ?thesis by (simp add: close_keys_ok_def close_number_fresh_def)
qed

lemma reopen_period_keys:
  assumes ok: "close_keys_ok b" and "reopen_period i reason user b = Inr (ids, b')"
  shows "close_keys_ok b'"
proof -
  define f where "f = (\<lambda>c. if live_close_of i c then void_close user (clock b) reason c else c)"
  from reopen_period_writes [OF assms(2)] obtain e where
    b': "events b' = events b @ [e]" "close_runs b' = map f (close_runs b)" "id_sequence b' = id_sequence b"
      "event_key e = reopen_event_key i (clock b)"
    by (auto simp: period_event_def f_def)
  have [simp]: "close_run_id (f c) = close_run_id c" "report_previous_closes (f c) = report_previous_closes c" for c
    by (simp_all add: f_def void_close_def)
  have [simp]: "close_run_id \<circ> f = close_run_id" by (simp add: fun_eq_iff)
  have "map close_run_id (close_runs b') = map close_run_id (close_runs b)" by (simp add: b')
  moreover have "close_run_id ` set (close_runs b') = close_run_id ` set (close_runs b)" by (simp add: b' image_image)
  moreover have "close_event_key r n \<in> event_key ` set (events b') \<longleftrightarrow> close_event_key r n \<in> event_key ` set (events b)" for r n
    using close_key_not_reopen [of r n i "clock b"] by (simp only: b' set_append image_Un Un_iff) (simp add: b' del: image_iff)
  ultimately show ?thesis
    using ok by (simp add: close_keys_ok_def b')
qed


section \<open>The invariant of the whole ledger\<close>

lemma decide_events:
  "decide i user dec b = Inr (v, b') \<Longrightarrow> appends_document_events b b'"
  by (rule appends_refl) (auto simp: decide_def decide_write_def Let_def and_then_eq_Inr write_audit_def split: if_splits)

lemma void_draft_events: "appends_document_events b (void_draft i b)"
  by (rule appends_refl) (simp_all add: void_draft_def)

definition ledger_ok :: "(seal_input \<Rightarrow> string) \<Rightarrow> books \<Rightarrow> bool" where
  "ledger_ok digest b = (books_ok digest b \<and> close_keys_ok b)"

lemma books_step_keys:
  assumes "books_step digest configured b b'" "close_keys_ok b"
  shows "close_keys_ok b'"
  using assms
proof (induction rule: books_step.induct)
  case (bulk batch items user b ds b')
  then obtain vs b1 where c: "create_drafts configured items user b = Inr (vs, b1)"
    and b': "b' = b1\<lparr>action_log := action_log b'\<rparr>"
    by (auto simp: create_draft_bulk_def and_then_eq_Inr write_action_def)
  have "close_keys_ok b1" using bulk.prems create_drafts_appends [OF c] by (rule close_keys_appends)
  then show ?case by (subst b') (simp add: close_keys_ok_def)
next
  case (environment b' b)
  then show ?case by (simp add: close_keys_ok_def)
next
  case (post_late i user ps b v b')
  then have "close_keys_ok b'"
    using close_keys_appends [OF _ post_document_appends [OF post_late.hyps]] by (simp add: close_keys_ok_def)
  then show ?case by (simp add: close_keys_ok_def)
next
  case (reverse_late i date period reason user ps b v b')
  then have "close_keys_ok b'"
    using close_keys_appends [OF _ reverse_document_appends [OF reverse_late.hyps]] by (simp add: close_keys_ok_def)
  then show ?case by (simp add: close_keys_ok_def)
qed (auto intro: close_keys_appends create_draft_appends record_draft_appends decide_events void_draft_events post_document_appends
    reverse_document_appends close_period_keys reopen_period_keys)

lemma reachable_ledger_ok:
  assumes "reachable digest configured b b'" "ledger_ok digest b"
  shows "ledger_ok digest b'"
  using assms(1) unfolding reachable_def
  by (induction rule: rtranclp_induct) (use assms(2) books_step_ok books_step_keys in \<open>auto simp: ledger_ok_def\<close>)

lemma close_period_possible:
  assumes keys: "close_keys_ok b"
    and "find_by period_id i (periods b) = Some p" "period_accepts p"
    and "find_by year_id (period_year p) (fiscal_years b) = Some y" "year_entity y = entity"
    and "can_access_legal_entity user entity" "blockers (build_close_control_report b i) = []"
  shows "\<exists>run b'. close_period entity i typ user b = Inr (run, b')"
proof -
  obtain run b1 where w: "write_close_run entity i typ [] user b = (run, b1)" by fastforce
  have "close_event_key (close_run_id run) (length (report_previous_closes run) + 1) \<notin> event_key ` set (events b1)"
    using write_close_run_keys [OF keys w] write_close_run_events [OF w] by (simp add: close_number_fresh_def)
  with assms w show ?thesis
    by (auto simp: close_period_def Let_def period_accepts_def result_simps assert_period_belongs_to_legal_entity_def
        get_period_legal_entity_id_def get_fiscal_year_def assert_can_access_iff update_period_def
        publish_def period_event_def)
qed

end
