(* ===== verification/BillingMath.thy ===== *)
theory BillingMath
  imports Money
begin

text \<open>
  B2B billing and merchant-discount arithmetic, \<open>b2b-sales-crm/domain/merchant-billing-math.ts\<close>:
  the split of a BNPL purchase, the MDR fee with its floor and cap, the totals of a merchant
  invoice with the tax distributed over its lines, and the exact match of a payment with its
  allocations. All of it works on minor units through the money boundary of theory \<open>Money\<close>.
\<close>

section \<open>Purchase split\<close>

datatype violation_code =
    INVALID_AMOUNT
  | DOWN_PAYMENT_NOT_60_PERCENT
  | FINANCED_NOT_REMAINDER
  | INSTALLMENTS_NOT_EQUAL_FINANCED
  | DUPLICATED_INSTALLMENT_NUMBER
  | NO_CHARGES
  | MIXED_CURRENCIES

datatype money_rule_violation = MoneyRuleViolation violation_code string

text \<open>What the functions of this file throw: a violation, or an error of the money boundary.\<close>

datatype billing_error = Violation money_rule_violation | MoneyFault money_error

definition lift_money :: "money_error + 'a \<Rightarrow> billing_error + 'a" where
  "lift_money r = (case r of Inl e \<Rightarrow> Inl (MoneyFault e) | Inr a \<Rightarrow> Inr a)"

lemma lift_money_eq_Inr [simp]: "lift_money r = Inr a \<longleftrightarrow> r = Inr a"
  by (auto simp: lift_money_def split: sum.splits)

definition down_payment_rate_percent :: string where
  "down_payment_rate_percent = ''60''"

record installment_input =
  installment_number :: js_number
  installment_amount :: js_value

record purchase_split_input =
  purchase_amount :: js_value
  down_payment_amount :: js_value
  financed_amount :: js_value
  installments_in :: "installment_input list"

record purchase_split =
  purchase :: int
  down_payment :: int
  financed :: int
  installments :: "int list"

definition positive_money :: parse_money_options where
  "positive_money = default_options\<lparr>pm_allow_zero := Some False\<rparr>"

definition parse_purchase_split :: "purchase_split_input \<Rightarrow> money_error + purchase_split" where
  "parse_purchase_split input =
     and_then (parse_money (purchase_amount input) positive_money) (\<lambda>p.
     and_then (parse_money (down_payment_amount input) default_options) (\<lambda>d.
     and_then (parse_money (financed_amount input) default_options) (\<lambda>f.
     and_then (traverse (\<lambda>i. parse_money (installment_amount i) positive_money) (installments_in input)) (\<lambda>is.
       Inr \<lparr>purchase = p, down_payment = d, financed = f, installments = is\<rparr>))))"

text \<open>The loop over the installments stops at the first number already seen.\<close>

fun has_duplicate :: "js_number list \<Rightarrow> js_number list \<Rightarrow> bool" where
  "has_duplicate seen [] = False"
| "has_duplicate seen (n # ns) = (if n \<in> set seen then True else has_duplicate (n # seen) ns)"

definition purchase_split_violations ::
    "purchase_split_input \<Rightarrow> billing_error + money_rule_violation list" where
  "purchase_split_violations input =
     (case parse_purchase_split input of
        Inl e \<Rightarrow> Inr [MoneyRuleViolation INVALID_AMOUNT ''purchaseAmount'']
      | Inr split \<Rightarrow>
          and_then (lift_money (parse_rate_percent (JString down_payment_rate_percent))) (\<lambda>rate.
          and_then (lift_money (apply_rate_percent (purchase split) rate money_rounding_mode)) (\<lambda>expected_down.
            let down_delta = down_payment split - expected_down
            in Inr
              ((if 1 < down_delta \<or> down_delta < - 1
                then [MoneyRuleViolation DOWN_PAYMENT_NOT_60_PERCENT ''downPaymentAmount''] else []) @
               (if purchase split - down_payment split \<noteq> financed split
                then [MoneyRuleViolation FINANCED_NOT_REMAINDER ''financedAmount''] else []) @
               (if sum_minor (installments split) \<noteq> financed split
                then [MoneyRuleViolation INSTALLMENTS_NOT_EQUAL_FINANCED ''installments''] else []) @
               (if has_duplicate [] (map installment_number (installments_in input))
                then [MoneyRuleViolation DUPLICATED_INSTALLMENT_NUMBER ''installments''] else [])))))"

section \<open>The MDR fee\<close>

record mdr_pricing =
  rate_percent :: js_value
  min_fee_amount :: js_value
  max_fee_amount :: js_value

record mdr_fee =
  rate_units :: int
  rate_text :: string
  fee_minor :: int
  fee_text :: string

definition present :: "js_value \<Rightarrow> bool" where
  "present v = (v \<noteq> JNull \<and> v \<noteq> JUndefined)"

definition compute_mdr_fee :: "js_value \<Rightarrow> mdr_pricing \<Rightarrow> money_error + mdr_fee" where
  "compute_mdr_fee amount pricing =
     and_then (parse_money amount positive_money) (\<lambda>p.
     and_then (parse_rate_percent (rate_percent pricing)) (\<lambda>units.
     and_then (apply_rate_percent p units money_rounding_mode) (\<lambda>fee.
     and_then (if present (min_fee_amount pricing)
               then and_then (parse_money (min_fee_amount pricing) default_options)
                      (\<lambda>m. Inr (if fee < m then m else fee))
               else Inr fee) (\<lambda>fee.
     and_then (if present (max_fee_amount pricing)
               then and_then (parse_money (max_fee_amount pricing) default_options)
                      (\<lambda>m. Inr (if m < fee then m else fee))
               else Inr fee) (\<lambda>fee.
     and_then (from_minor_units units 6) (\<lambda>rate_text.
     and_then (from_minor_units fee default_amount_scale) (\<lambda>fee_text.
       Inr \<lparr>rate_units = units, rate_text = rate_text, fee_minor = fee, fee_text = fee_text\<rparr>)))))))"

section \<open>Invoice totals\<close>

record invoiceable_charge =
  charge_id :: string
  amount_open :: js_value
  charge_currency :: string

record invoice_line_totals =
  line_id :: string
  line_net :: string
  line_tax :: string
  line_total :: string

record invoice_totals =
  totals_currency :: string
  subtotal :: string
  tax :: string
  total_amount :: string
  lines :: "invoice_line_totals list"

definition cents :: "int \<Rightarrow> billing_error + string" where
  "cents m = lift_money (from_minor_units m default_amount_scale)"

definition invoice_currency :: "invoiceable_charge list \<Rightarrow> billing_error + string" where
  "invoice_currency charges =
     (case assert_single_currency (map charge_currency charges) of
        Inr code \<Rightarrow> Inr code
      | Inl (CurrencyMismatchError _) \<Rightarrow>
          Inl (Violation (MoneyRuleViolation MIXED_CURRENCIES ''receivableIds''))
      | Inl e \<Rightarrow> Inl (MoneyFault e))"

definition invoice_line :: "invoiceable_charge \<times> int \<times> int \<Rightarrow> billing_error + invoice_line_totals" where
  "invoice_line x = (case x of (charge, net, its_tax) \<Rightarrow>
     and_then (cents net) (\<lambda>net_text.
     and_then (cents its_tax) (\<lambda>tax_text.
     and_then (cents (net + its_tax)) (\<lambda>total_text.
       Inr \<lparr>line_id = charge_id charge, line_net = net_text, line_tax = tax_text,
            line_total = total_text\<rparr>))))"

definition compute_invoice_totals ::
    "invoiceable_charge list \<Rightarrow> js_value \<Rightarrow> billing_error + invoice_totals" where
  "compute_invoice_totals charges tax_rate_percent =
     (if charges = [] then Inl (Violation (MoneyRuleViolation NO_CHARGES ''charges''))
      else
        and_then (invoice_currency charges) (\<lambda>currency.
        and_then (lift_money (traverse (\<lambda>c. parse_money (amount_open c)
                   (positive_money\<lparr>pm_currency := Some currency\<rparr>)) charges)) (\<lambda>nets.
        let subtotal = sum_minor nets in
        and_then (lift_money (parse_rate_percent tax_rate_percent)) (\<lambda>rate.
        and_then (lift_money (apply_rate_percent subtotal rate money_rounding_mode)) (\<lambda>tax.
        and_then (lift_money (allocate_proportionally tax nets)) (\<lambda>line_taxes.
        and_then (cents subtotal) (\<lambda>subtotal_text.
        and_then (cents tax) (\<lambda>tax_text.
        and_then (cents (subtotal + tax)) (\<lambda>total_text.
        and_then (traverse invoice_line (zip charges (zip nets line_taxes))) (\<lambda>ls.
          Inr \<lparr>totals_currency = currency, subtotal = subtotal_text, tax = tax_text,
               total_amount = total_text, lines = ls\<rparr>))))))))))"

section \<open>Payments and allocations\<close>

definition allocations_match_payment ::
    "js_value \<Rightarrow> js_value list \<Rightarrow> string \<Rightarrow> money_error + bool" where
  "allocations_match_payment amount allocations currency =
     (let options = positive_money\<lparr>pm_currency := Some currency\<rparr> in
      and_then (parse_money amount options) (\<lambda>payment.
      and_then (traverse (\<lambda>a. parse_money a options) allocations) (\<lambda>applied.
        Inr (sum_minor applied = payment))))"

section \<open>Lemmas\<close>

lemma parse_money_positive:
  "parse_money v (positive_money\<lparr>pm_currency := c\<rparr>) = Inr m \<Longrightarrow> 0 < m"
  by (auto simp: parse_money_def Let_def result_simps positive_money_def default_options_def split: if_splits)

lemma parse_money_nonneg: "parse_money v default_options = Inr m \<Longrightarrow> 0 \<le> m"
  by (auto simp: parse_money_def Let_def result_simps default_options_def split: if_splits)

lemma positive_money_no_currency: "positive_money = positive_money\<lparr>pm_currency := None\<rparr>"
  by (simp add: positive_money_def default_options_def)

lemma has_duplicate_iff: "has_duplicate seen ns \<longleftrightarrow> \<not> (distinct ns \<and> set ns \<inter> set seen = {})"
  by (induction ns arbitrary: seen) auto

lemma apply_rate_eq [simp]:
  "apply_rate_percent a r mode = Inr (rounded_quotient mode (a * r) 100000000)"
  by (simp add: apply_rate_percent_def divide_rounded_def rate_scale_def)

lemma sixty_percent: "parse_rate_percent (JString ''60'') = Inr 60000000"
  by code_simp

lemma parse_rate_percent_range: "parse_rate_percent v = Inr r \<Longrightarrow> 0 \<le> r \<and> r \<le> 100000000"
  by (auto simp: parse_rate_percent_def rate_scale_def result_simps split: if_splits)

text \<open>The minor units a rendered amount stands for.\<close>

definition minor_value :: "string \<Rightarrow> int" where
  "minor_value t = (case to_minor_units (JString t) 2 of Inr m \<Rightarrow> m | Inl _ \<Rightarrow> 0)"

lemma cents_eq_Inr: "cents m = Inr t \<longleftrightarrow> t = minor_text m 2"
  by (auto simp: cents_def from_minor_units_def default_amount_scale_def assert_scale_def max_supported_scale_def)

lemma minor_value_text [simp]: "minor_value (minor_text m 2) = m"
  using to_minor_units_minor_text [of 2 m] by (simp add: minor_value_def)

text \<open>A fee at a rate between 0 and 100 per cent lies between zero and the amount.\<close>

lemma rate_of_amount_bounds:
  assumes "0 \<le> a" "0 \<le> r" "r \<le> 100000000"
  shows "0 \<le> rounded_quotient mode (a * r) 100000000" "rounded_quotient mode (a * r) 100000000 \<le> a"
  using rounding.bounds [of 100000000 0 "a * r" a mode] assms
  by (auto intro: mult_left_mono)

lemma invoice_lines_values:
  assumes "traverse invoice_line (zip cs (zip ns ts)) = Inr ls"
    and "length ns = length cs" "length ts = length cs"
  shows "map line_id ls = map charge_id cs \<and> map (minor_value \<circ> line_net) ls = ns
    \<and> map (minor_value \<circ> line_tax) ls = ts
    \<and> (\<forall>l \<in> set ls. minor_value (line_total l) = minor_value (line_net l) + minor_value (line_tax l))"
  using assms
proof (induction cs arbitrary: ns ts ls)
  case (Cons c cs)
  from Cons.prems(2) obtain n ns' where ns: "ns = n # ns'" by (cases ns) auto
  from Cons.prems(3) obtain t ts' where ts: "ts = t # ts'" by (cases ts) auto
  from Cons.prems obtain l ls' where ls: "ls = l # ls'" "invoice_line (c, n, t) = Inr l"
    "traverse invoice_line (zip cs (zip ns' ts')) = Inr ls'"
    by (auto simp: ns ts result_simps)
  from Cons.IH [OF ls(3)] Cons.prems(2,3) ls(2) show ?case
    by (auto simp: ns ts ls(1) result_simps invoice_line_def cents_eq_Inr)
qed simp

lemma sum_list_pos_int: "xs \<noteq> [] \<Longrightarrow> \<forall>x \<in> set xs. 0 < x \<Longrightarrow> 0 < sum_list (xs :: int list)"
proof (induction xs)
  case (Cons a xs)
  then show ?case by (cases xs) (auto intro: add_pos_pos)
qed simp

lemma set_distinct_in_order [simp]: "set (distinct_in_order xs) = set xs"
  by (induction xs) auto

lemma assert_single_currency_all:
  assumes "assert_single_currency cs = Inr code"
  shows "\<forall>c \<in> set cs. to_upper (js_trim c) = code"
proof -
  have "distinct_in_order (map (\<lambda>c. to_upper (js_trim c)) cs) = [code]"
    using assms by (auto simp: assert_single_currency_def Let_def result_simps split: list.splits)
  then have "set (map (\<lambda>c. to_upper (js_trim c)) cs) = {code}"
    by (metis set_distinct_in_order list.set(1) list.simps(15))
  then show ?thesis by auto
qed

lemma invoice_currency_all:
  "invoice_currency charges = Inr code \<Longrightarrow>
   \<forall>c \<in> set charges. to_upper (js_trim (charge_currency c)) = code"
  using assert_single_currency_all [of "map charge_currency charges" code]
  by (auto simp: invoice_currency_def split: sum.splits money_error.splits)

lemma rounded_quotient_scale:
  assumes "0 < k"
  shows "rounded_quotient mode (n * k) (d * k) = rounded_quotient mode n d"
proof -
  have *: "(d * k < m mod d * k * 2) = (d < m mod d * 2)" "(m mod d * k * 2 = d * k) = (m mod d * 2 = d)"
    and s: "(n * k < 0) = (n < 0)" for m
    using assms by (auto simp: mult.assoc mult.commute [of k 2] mult_less_0_iff)
  have e: "m * k div (d * k) = m div d" "m * k mod (d * k) = m mod d * k" for m
    using assms by (simp_all add: mult_mod_left [symmetric])
  have "- (n * k) = - n * k" by simp
  then show ?thesis
    unfolding rounded_quotient_def Let_def s by (simp only: e * if_distrib [of "\<lambda>x. x * k", symmetric])
qed

section \<open>Properties\<close>

text \<open>The purchase split check reports no violation exactly when every amount is valid, the
  down payment is within one cent of 60 per cent, financed plus down payment is the purchase,
  the installments add up to the financed amount and their numbers are distinct.\<close>

theorem purchase_split_accepted_iff:
  "purchase_split_violations input = Inr [] \<longleftrightarrow>
   (\<exists>s. parse_purchase_split input = Inr s
      \<and> \<bar>down_payment s - rounded_quotient HALF_UP (purchase s * 60) 100\<bar> \<le> 1
      \<and> down_payment s + financed s = purchase s
      \<and> sum_list (installments s) = financed s
      \<and> distinct (map installment_number (installments_in input)))"
proof -
  have "rounded_quotient HALF_UP (a * 60000000) 100000000 = rounded_quotient HALF_UP (a * 60) 100" for a
    using rounded_quotient_scale [of 1000000 HALF_UP "a * 60" 100] by (simp add: mult.assoc)
  then show ?thesis
    by (cases "parse_purchase_split input")
      (auto simp: purchase_split_violations_def sixty_percent down_payment_rate_percent_def Let_def
        lift_money_def money_rounding_mode_def has_duplicate_iff abs_le_iff)
qed

text \<open>The MDR fee is the purchase times the rate, rounded to the cent, between zero and the
  purchase, raised to the floor and lowered to the cap of the rule; the cap wins over the
  floor, and the fee and rate texts stand for exactly the computed units.\<close>

theorem mdr_fee_bounds:
  assumes "compute_mdr_fee amount pricing = Inr fee"
  shows "\<exists>p r base. parse_money amount positive_money = Inr p \<and> parse_rate_percent (rate_percent pricing) = Inr r
    \<and> 2 * \<bar>base * 100000000 - p * r\<bar> \<le> 100000000 \<and> 0 \<le> base \<and> base \<le> p
    \<and> (\<not> present (min_fee_amount pricing) \<and> \<not> present (max_fee_amount pricing) \<longrightarrow> fee_minor fee = base)
    \<and> (present (max_fee_amount pricing) \<longrightarrow>
        (\<exists>m. parse_money (max_fee_amount pricing) default_options = Inr m \<and> fee_minor fee \<le> m))
    \<and> (present (min_fee_amount pricing) \<and> \<not> present (max_fee_amount pricing) \<longrightarrow>
        (\<exists>m. parse_money (min_fee_amount pricing) default_options = Inr m \<and> m \<le> fee_minor fee))
    \<and> 0 \<le> fee_minor fee
    \<and> fee_text fee = minor_text (fee_minor fee) 2 \<and> rate_text fee = minor_text r 6"
proof -
  from assms obtain p r raised where pr: "parse_money amount positive_money = Inr p"
      "parse_rate_percent (rate_percent pricing) = Inr r"
    and raised: "(if present (min_fee_amount pricing)
        then and_then (parse_money (min_fee_amount pricing) default_options)
          (\<lambda>m. Inr (if rounded_quotient money_rounding_mode (p * r) 100000000 < m then m
            else rounded_quotient money_rounding_mode (p * r) 100000000))
        else Inr (rounded_quotient money_rounding_mode (p * r) 100000000)) = Inr raised"
    and capped: "(if present (max_fee_amount pricing)
        then and_then (parse_money (max_fee_amount pricing) default_options)
          (\<lambda>m. Inr (if m < raised then m else raised))
        else Inr raised) = Inr (fee_minor fee)"
    and texts: "rate_text fee = minor_text r 6" "fee_text fee = minor_text (fee_minor fee) 2"
    unfolding compute_mdr_fee_def and_then_eq_Inr apply_rate_eq
    by (auto simp: from_minor_units_def assert_scale_def max_supported_scale_def default_amount_scale_def)
  define base where "base = rounded_quotient money_rounding_mode (p * r) 100000000"
  have "0 < p" using pr(1) positive_money_no_currency parse_money_positive by metis
  then have base: "0 \<le> base" "base \<le> p"
    using rate_of_amount_bounds [of p r money_rounding_mode] parse_rate_percent_range [OF pr(2)]
    by (simp_all add: base_def)
  have near: "2 * \<bar>base * 100000000 - p * r\<bar> \<le> 100000000"
    unfolding base_def by (rule rounding.nearest) simp
  have floor: "0 \<le> raised" "\<not> present (min_fee_amount pricing) \<longrightarrow> raised = base"
    "present (min_fee_amount pricing) \<longrightarrow>
      (\<exists>m. parse_money (min_fee_amount pricing) default_options = Inr m \<and> m \<le> raised)"
    using raised base(1) unfolding base_def [symmetric] by (auto simp: result_simps split: if_splits)
  have cap: "0 \<le> fee_minor fee" "\<not> present (max_fee_amount pricing) \<longrightarrow> fee_minor fee = raised"
    "present (max_fee_amount pricing) \<longrightarrow>
      (\<exists>m. parse_money (max_fee_amount pricing) default_options = Inr m \<and> fee_minor fee \<le> m)"
    using capped floor(1) by (auto simp: result_simps dest: parse_money_nonneg split: if_splits)
  show ?thesis
    using pr base near floor cap texts by (intro exI [of _ p] exI [of _ r] exI [of _ base]) simp
qed

theorem mdr_fee_bounds_witness:
  "returns (compute_mdr_fee (JString ''1000.00'')
      \<lparr>rate_percent = JString ''1.234567'', min_fee_amount = JNull, max_fee_amount = JString ''10.00''\<rparr>)
    (\<lambda>fee. fee_minor fee = 1000 \<and> fee_text fee = minor_text 1000 2)"
proof -
  let ?p = "\<lparr>rate_percent = JString ''1.234567'', min_fee_amount = JNull, max_fee_amount = JString ''10.00''\<rparr>"
  have run: "compute_mdr_fee (JString ''1000.00'') ?p =
    Inr \<lparr>rate_units = 1234567, rate_text = ''1.234567'', fee_minor = 1000, fee_text = ''10.00''\<rparr>"
    by code_simp
  let ?fee = "\<lparr>rate_units = 1234567, rate_text = ''1.234567'', fee_minor = 1000, fee_text = ''10.00''\<rparr>"
  have "fee_text ?fee = minor_text (fee_minor ?fee) 2" using mdr_fee_bounds [OF run] by blast
  then show ?thesis unfolding run returns_def by simp
qed

text \<open>The header of an invoice is the sum of its lines to the cent: the net amounts add up to
  the subtotal, the line taxes to the tax, every line totals net plus tax, the header total is
  subtotal plus tax, no tax is negative, and all charges are in the invoice's currency.\<close>

theorem invoice_header_is_sum_of_lines:
  assumes "compute_invoice_totals charges rate = Inr t"
  shows "sum_list (map (minor_value \<circ> line_net) (lines t)) = minor_value (subtotal t)
    \<and> sum_list (map (minor_value \<circ> line_tax) (lines t)) = minor_value (tax t)
    \<and> minor_value (total_amount t) = minor_value (subtotal t) + minor_value (tax t)
    \<and> (\<forall>l \<in> set (lines t). minor_value (line_total l) = minor_value (line_net l) + minor_value (line_tax l)
         \<and> 0 < minor_value (line_net l) \<and> 0 \<le> minor_value (line_tax l))
    \<and> map line_id (lines t) = map charge_id charges
    \<and> (\<forall>c \<in> set charges. to_upper (js_trim (charge_currency c)) = totals_currency t)"
proof -
  from assms obtain nets r taxes where ne: "charges \<noteq> []"
    and cur: "invoice_currency charges = Inr (totals_currency t)"
    and nets: "traverse (\<lambda>c. parse_money (amount_open c)
        (positive_money\<lparr>pm_currency := Some (totals_currency t)\<rparr>)) charges = Inr nets"
    and rate: "parse_rate_percent rate = Inr r"
    and taxes: "allocate_proportionally (minor_value (tax t)) nets = Inr taxes"
    and tax: "minor_value (tax t) = rounded_quotient money_rounding_mode (sum_list nets * r) 100000000"
    and header: "minor_value (subtotal t) = sum_list nets"
      "minor_value (total_amount t) = sum_list nets + minor_value (tax t)"
    and ls: "traverse invoice_line (zip charges (zip nets taxes)) = Inr (lines t)"
    by (auto simp: compute_invoice_totals_def Let_def result_simps cents_eq_Inr split: if_splits)
  have len: "length nets = length charges" "length taxes = length charges"
    using traverse_length [OF nets] allocation_total(2) [OF taxes] by simp_all
  have pos: "\<forall>n \<in> set nets. 0 < n"
    using traverse_elem [OF nets] parse_money_positive by blast
  then have "0 < sum_list nets" using ne len(1) by (intro sum_list_pos_int) auto
  then have "0 \<le> minor_value (tax t)"
    using tax rate_of_amount_bounds(1) [of "sum_list nets" r] parse_rate_percent_range [OF rate] by simp
  then have nonneg: "\<forall>x \<in> set taxes. 0 \<le> x" using allocation_nonneg(1) [OF taxes] by blast
  have currencies: "\<forall>c \<in> set charges. to_upper (js_trim (charge_currency c)) = totals_currency t"
    using invoice_currency_all [OF cur] .
  note vals = invoice_lines_values [OF ls len]
  have "\<forall>l \<in> set (lines t). 0 < minor_value (line_net l) \<and> 0 \<le> minor_value (line_tax l)"
    using vals pos nonneg by (metis comp_apply image_eqI list.set_map)
  then show ?thesis using vals header allocation_total(1) [OF taxes] currencies by auto
qed

theorem invoice_header_is_sum_of_lines_witness:
  "returns (compute_invoice_totals
      [\<lparr>charge_id = ''a'', amount_open = JString ''10.01'', charge_currency = ''bob''\<rparr>,
       \<lparr>charge_id = ''b'', amount_open = JString ''5'', charge_currency = ''BOB''\<rparr>] (JString ''13''))
    (\<lambda>t. sum_list (map (minor_value \<circ> line_tax) (lines t)) = 195)"
proof -
  let ?cs = "[\<lparr>charge_id = ''a'', amount_open = JString ''10.01'', charge_currency = ''bob''\<rparr>,
       \<lparr>charge_id = ''b'', amount_open = JString ''5'', charge_currency = ''BOB''\<rparr>]"
  let ?t = "\<lparr>totals_currency = ''BOB'', subtotal = ''15.01'', tax = ''1.95'', total_amount = ''16.96'',
    lines = [\<lparr>line_id = ''a'', line_net = ''10.01'', line_tax = ''1.31'', line_total = ''11.32''\<rparr>,
             \<lparr>line_id = ''b'', line_net = ''5.00'', line_tax = ''0.64'', line_total = ''5.64''\<rparr>]\<rparr>"
  have step:
    "assert_single_currency [''bob'', ''BOB''] = Inr ''BOB''"
    "parse_rate_percent (JString ''13'') = Inr 13000000"
    "parse_money (JString ''10.01'') (positive_money\<lparr>pm_currency := Some ''BOB''\<rparr>) = Inr 1001"
    "parse_money (JString ''5'') (positive_money\<lparr>pm_currency := Some ''BOB''\<rparr>) = Inr 500"
    "rounded_quotient money_rounding_mode 19513000000 100000000 = 195"
    "allocate_proportionally 195 [1001, 500] = Inr [131, 64]"
    "minor_text 1501 2 = ''15.01''" "minor_text 195 2 = ''1.95''" "minor_text 1696 2 = ''16.96''"
    "minor_text 1001 2 = ''10.01''" "minor_text 131 2 = ''1.31''" "minor_text 1132 2 = ''11.32''"
    "minor_text 500 2 = ''5.00''" "minor_text 64 2 = ''0.64''" "minor_text 564 2 = ''5.64''"
    by code_simp+
  have cents: "cents m = Inr (minor_text m 2)" for m by (simp add: cents_eq_Inr)
  have run: "compute_invoice_totals ?cs (JString ''13'') = Inr ?t"
    by (simp add: compute_invoice_totals_def invoice_currency_def invoice_line_def cents step lift_money_def)
  have "minor_value ''1.95'' = 195" by code_simp
  then have "sum_list (map (minor_value \<circ> line_tax) (lines ?t)) = 195"
    using invoice_header_is_sum_of_lines [OF run] by (simp only: invoice_totals.simps)
  then show ?thesis unfolding run returns_def by (simp only: sum.simps)
qed

text \<open>Allocations match a payment exactly when every amount is a valid positive amount of the
  currency and they add up to the payment with no tolerance.\<close>

theorem allocations_match_exactly:
  "allocations_match_payment amount allocations currency = Inr True \<longleftrightarrow>
   (\<exists>p xs. parse_money amount (positive_money\<lparr>pm_currency := Some currency\<rparr>) = Inr p
     \<and> list_all2 (\<lambda>a x. parse_money a (positive_money\<lparr>pm_currency := Some currency\<rparr>) = Inr x \<and> 0 < x) allocations xs
     \<and> sum_list xs = p)"
proof -
  have "list_all2 (\<lambda>a x. parse_money a (positive_money\<lparr>pm_currency := Some currency\<rparr>) = Inr x \<and> 0 < x) as xs
    \<longleftrightarrow> traverse (\<lambda>a. parse_money a (positive_money\<lparr>pm_currency := Some currency\<rparr>)) as = Inr xs" for as xs
    unfolding traverse_eq_Inr by (intro arg_cong [of _ _ "\<lambda>P. list_all2 P as xs"] ext) (auto dest: parse_money_positive)
  then show ?thesis by (auto simp: allocations_match_payment_def Let_def result_simps)
qed

end
