(* ===== verification/LedgerAmounts.thy ===== *)
theory LedgerAmounts
  imports CloseKeys BillingMath
begin

text \<open>
  The amounts of recorded journal lines in cents, and the link between the lines a client sends, the
  lines that are recorded and the check at posting time: what is recorded from an accepted draft
  reads back to the same cents and passes the double entry check again.
\<close>

section \<open>The amounts of recorded lines\<close>

definition debits :: "line_row list \<Rightarrow> int" where
  "debits ls = sum_list (map (\<lambda>l. minor_value (debit l)) ls)"

definition credits :: "line_row list \<Rightarrow> int" where
  "credits ls = sum_list (map (\<lambda>l. minor_value (credit l)) ls)"

lemma cents_of_text: "cents_of (JString s) = Some x \<Longrightarrow> minor_value s = x"
  using normalize_of_cents(1) [of "JString s" x] by (simp add: minor_value_def cents_stable_def)

lemma valid_stored_line:
  "valid_line (JString (debit l), JString (credit l)) a \<Longrightarrow> a = (minor_value (debit l), minor_value (credit l))"
  by (cases a) (auto simp: valid_line_def cents_of_text)

lemma stored_valid_amounts:
  "list_all2 valid_line (stored_amounts ls) as \<Longrightarrow> as = map (\<lambda>l. (minor_value (debit l), minor_value (credit l))) ls"
  unfolding stored_amounts_def
  by (induction ls arbitrary: as) (auto simp: list_all2_Cons1 dest: valid_stored_line)

lemma stored_balanced:
  assumes "validate_lines (stored_amounts ls) = Inr u"
  shows "2 \<le> length ls" "debits ls = credits ls"
proof -
  from assms obtain as where as: "list_all2 valid_line (stored_amounts ls) as" "2 \<le> length (stored_amounts ls)"
      "sum_list (map fst as) = sum_list (map snd as)"
    by (auto simp: validate_lines_eq_Inr)
  then show "2 \<le> length ls" by (simp add: stored_amounts_def)
  from stored_valid_amounts [OF as(1)] as(3) show "debits ls = credits ls"
    by (simp add: debits_def credits_def comp_def)
qed

lemma recorded_line_amounts:
  assumes "recorded_line j (n, l) = Inr r" "valid_line (in_debit l, in_credit l) a"
    and "cents_stable (in_debit l)" "cents_stable (in_credit l)"
  shows "debit r = minor_text (fst a) 2" "credit r = minor_text (snd a) 2" "gl_account r = in_account l" "line_no r = n"
    "line_journal r = j"
proof -
  have "normalize_amount (in_debit l) 2 = Inr (minor_text (fst a) 2)" "normalize_amount (in_credit l) 2 = Inr (minor_text (snd a) 2)"
    using assms(2-4) normalize_of_cents(2) by (auto simp: valid_line_def)
  with assms(1) show "debit r = minor_text (fst a) 2" "credit r = minor_text (snd a) 2" "gl_account r = in_account l" "line_no r = n"
    "line_journal r = j"
    by (auto simp: recorded_line_def result_simps)
qed

lemma recorded_valid:
  assumes "valid_line (in_debit l, in_credit l) a" "recorded_line j (n, l) = Inr r"
    and "cents_stable (in_debit l)" "cents_stable (in_credit l)"
  shows "valid_line (JString (debit r), JString (credit r)) a"
  using assms(1) recorded_line_amounts [OF assms(2,1,3,4)] cents_of_nonneg
  by (auto simp: valid_line_def cents_of_recorded)

lemma recorded_lines_valid:
  assumes "traverse (recorded_line j) (enumerate k ls) = Inr rs" "list_all2 valid_line (line_amounts ls) as"
    and "\<forall>l \<in> set ls. cents_stable (in_debit l) \<and> cents_stable (in_credit l)"
  shows "list_all2 valid_line (stored_amounts rs) as \<and> map line_no rs = [k ..< k + length ls]
    \<and> map gl_account rs = map in_account ls"
  using assms
proof (induction ls arbitrary: k rs as)
  case Nil
  then show ?case by (simp add: stored_amounts_def line_amounts_def)
next
  case (Cons l ls)
  from Cons.prems(1) obtain r rs' where r: "recorded_line j (k, l) = Inr r"
      "traverse (recorded_line j) (enumerate (Suc k) ls) = Inr rs'" "rs = r # rs'"
    by (auto simp: and_then_eq_Inr)
  from Cons.prems(2) obtain a as' where a: "valid_line (in_debit l, in_credit l) a" "as = a # as'"
      "list_all2 valid_line (line_amounts ls) as'"
    by (auto simp: line_amounts_def list_all2_Cons1)
  from Cons.prems(3) have st: "cents_stable (in_debit l)" "cents_stable (in_credit l)" by auto
  note IH = Cons.IH [OF r(2) a(3)]
  from recorded_valid [OF a(1) r(1) st] recorded_line_amounts [OF r(1) a(1) st] IH Cons.prems(3)
  show ?case by (simp add: a(2) r(3) stored_amounts_def upt_rec [of k] del: upt_Suc)
qed

lemma sorted_lines: "map line_no rs = [k ..< n] \<Longrightarrow> sort_key line_no rs = rs"
  by (rule sort_key_id_if_sorted) simp

lemma recorded_lines_balanced:
  assumes "traverse (recorded_line j) (enumerate k ls) = Inr rs" "validate_lines (line_amounts ls) = Inr ()"
    and "\<forall>l \<in> set ls. cents_stable (in_debit l) \<and> cents_stable (in_credit l)"
  shows "validate_lines (stored_amounts rs) = Inr ()" "debits rs = credits rs" "sort_key line_no rs = rs"
    "length rs = length ls"
proof -
  from assms(2) obtain as where as: "list_all2 valid_line (line_amounts ls) as" "2 \<le> length ls"
      "sum_list (map fst as) = sum_list (map snd as)"
    by (auto simp: validate_lines_eq_Inr line_amounts_def)
  note v = recorded_lines_valid [OF assms(1) as(1) assms(3)]
  then have n: "map line_no rs = [k ..< k + length ls]" by simp
  from arg_cong [OF n, of length] show len: "length rs = length ls" by simp
  then show *: "validate_lines (stored_amounts rs) = Inr ()"
    using v as by (auto simp: validate_lines_eq_Inr stored_amounts_def)
  from stored_balanced(2) [OF *] show "debits rs = credits rs" .
  from n show "sort_key line_no rs = rs" by (rule sorted_lines)
qed

end
