(* ===== verification/LedgerExample.thy ===== *)
theory LedgerExample
  imports LedgerAmounts
begin

text \<open>
  A concrete ledger and a short history on it (a server generated fee document, drafted and
  posted), evaluated with the operations of the model. The properties are applied to it.
\<close>

section \<open>A small ledger\<close>

text \<open>One legal entity with a ledger, an open month and two accounts; concrete runs start from it.\<close>

definition demo_books :: books where
  "demo_books =
     \<lparr>ledgers = [\<lparr>ledger_id = ''L'', ledger_entity = ''E'', ledger_code = ''GL'', ledger_status = ''ACTIVE'', ledger_is_default = True\<rparr>],
      fiscal_years = [\<lparr>year_id = ''Y'', year_entity = ''E''\<rparr>],
      periods = [\<lparr>period_id = ''P'', period_year = ''Y'', start_date = ''2026-01-01'', end_date = ''2026-01-31'',
        is_open = True, close_status = ''OPEN'', closed_at = None, closed_by = None\<rparr>],
      gl_accounts = [\<lparr>account_id = ''1'', account_status = ''ACTIVE'', requires_partner = False, requires_cost_center = False,
          requires_profit_center = False, requires_tax_code = False, is_control_account = False\<rparr>,
        \<lparr>account_id = ''2'', account_status = ''ACTIVE'', requires_partner = False, requires_cost_center = False,
          requires_profit_center = False, requires_tax_code = False, is_control_account = False\<rparr>],
      partners = [], cost_centers = [], profit_centers = [], tax_codes = [], default_accounts = [],
      bank_accounts = [], posting_rules = [], documents = [], journals = [], journal_lines = [], audit_log = [],
      events = [], action_log = [], close_runs = [], reconciliation_items = [], statement_lines = [],
      id_sequence = 1, clock = 7\<rparr>"

definition demo_user :: auth_user where
  "demo_user = \<lparr>sub = ''u'', role_code = None, role = Some ''accountant'', roles = None, legal_entity_ids = Some [''E'']\<rparr>"

definition demo_line :: "ident \<Rightarrow> string \<Rightarrow> string \<Rightarrow> draft_line" where
  "demo_line a d c = \<lparr>in_account = a, in_debit = JString d, in_credit = JString c, in_currency = ''BOB'', in_amount_lc = JUndefined,
     in_partner = None, in_cost_center = None, in_profit_center = None, in_tax_code = None,
     in_reference_type = None, in_reference_id = None, in_description = None\<rparr>"

definition demo_input :: draft_input where
  "demo_input = \<lparr>di_entity = ''E'', di_source_system = ''CRM'', di_source_type = ''FEE'', di_source_id = None,
     di_document_type = ''FEE'', di_document_no = None, di_document_date = ''2026-01-10'', di_posting_date = None,
     di_period = None, di_ledger = None, di_currency = ''BOB'', di_approval_status = None,
     di_lines = [demo_line ''1'' ''10.50'' ''0'', demo_line ''2'' ''0'' ''10.50'']\<rparr>"


definition demo_row :: document_row where
  "demo_row = \<lparr>doc_id = ''1'', doc_entity = ''E'', source_system = ''CRM'', source_type = ''FEE'',
     source_id = ''FEE-DOC-2026-000001'', document_type = ''FEE'', document_no = ''DOC-2026-000001'',
     document_date = ''2026-01-10'', posting_date = ''2026-01-10'', doc_period = ''P'', doc_ledger = ''L'',
     doc_currency = ''BOB'', status = DRAFT, approval = NOT_REQUIRED,
     approval_policy_ref = Some ''SERVER_GENERATED_DOCUMENT@1'', policy_snapshot = None, reversal_of = None,
     reversed_by = None, created_by = Some ''u'', approved_by = None, approved_at = None, rejected_by = None,
     rejected_at = None\<rparr>"

definition demo_recorded :: "nat \<Rightarrow> ident \<Rightarrow> string \<Rightarrow> string \<Rightarrow> line_row" where
  "demo_recorded n a d c = \<lparr>line_journal = ''2'', line_no = n, gl_account = a, debit = d, credit = c,
     line_currency = ''BOB'', amount_lc = ''10.50'', line_partner = None, line_cost_center = None,
     line_profit_center = None, line_tax_code = None, reference_type = None, reference_id = None, description = None\<rparr>"

definition demo_created :: books where
  "demo_created = demo_books\<lparr>documents := [demo_row],
     journals := [\<lparr>journal_id = ''2'', journal_document = ''1'', journal_no = ''DOC-2026-000001-JRN'',
       posting_status = DRAFT, posted_at = None, posted_by = None, hash_sha256 = None\<rparr>],
     journal_lines := [demo_recorded 1 ''1'' ''10.50'' ''0.00'', demo_recorded 2 ''2'' ''0.00'' ''10.50''],
     audit_log := [\<lparr>audit_document = ''1'', audit_event = ''DRAFT_CREATED'', audit_actor = ''u''\<rparr>],
     events := [document_event ''accounting.document.draft_created'' ''accounting-document-draft-'' ''1''
       [(''accountingDocumentId'', ''1''), (''documentNo'', ''DOC-2026-000001'')]],
     action_log := [\<lparr>action_code = ''CREATE_ACCOUNTING_DRAFT_WITH_JOURNAL'', action_actor = ''u'',
       action_aggregate = Some ''1'', affected_records = 6\<rparr>],
     id_sequence := 3\<rparr>"

definition demo_digest :: "seal_input \<Rightarrow> string" where
  "demo_digest x = fst x @ ''/'' @ fst (snd x)"

definition demo_posted :: books where
  "demo_posted = demo_created\<lparr>documents := [demo_row\<lparr>status := POSTED\<rparr>],
     journals := [\<lparr>journal_id = ''2'', journal_document = ''1'', journal_no = ''DOC-2026-000001-JRN'',
       posting_status = POSTED, posted_at = Some 7, posted_by = Some ''u'', hash_sha256 = Some ''1/2''\<rparr>],
     audit_log := audit_log demo_created @ [\<lparr>audit_document = ''1'', audit_event = ''POSTED'', audit_actor = ''u''\<rparr>],
     events := events demo_created @ [document_event ''accounting.document.posted'' ''accounting-document-posted-'' ''1''
       [(''accountingDocumentId'', ''1''), (''hashSha256'', ''1/2'')]]\<rparr>"

definition demo_view :: "books \<Rightarrow> document_view" where
  "demo_view b = (hd (documents b), load_journal_with_lines b ''1'')"

lemma demo_create:
  "create_draft None SERVER_GENERATED demo_input demo_user demo_books = Inr (demo_view demo_created, demo_created)"
  by code_simp

lemma demo_post: "post_document demo_digest ''1'' demo_user demo_created = Inr (demo_view demo_posted, demo_posted)"
  by code_simp

lemma demo_books_ok: "ledger_ok digest demo_books"
  by (simp add: ledger_ok_def books_ok_def well_keyed_def close_keys_ok_def demo_books_def)

lemma demo_created_ok: "ledger_ok digest demo_created"
  using demo_books_ok create_draft_ok [OF _ demo_create] close_keys_appends [OF _ create_draft_appends [OF demo_create]]
  by (simp add: ledger_ok_def)

lemma demo_posted_ok: "ledger_ok demo_digest demo_posted"
  using demo_created_ok post_document_ok [OF _ demo_post] close_keys_appends [OF _ post_document_appends [OF demo_post]]
  by (simp add: ledger_ok_def)

lemma demo_reversible:
  "\<exists>v b'. reverse_document demo_digest None ''1'' ''2026-01-11'' None ''error'' demo_user demo_posted = Inr (v, b')"
proof -
  have "returns (reverse_document demo_digest None ''1'' ''2026-01-11'' None ''error'' demo_user demo_posted) (\<lambda>_. True)"
    by code_simp
  then show ?thesis by (auto simp: returns_def split: sum.splits)
qed

end
