(* ===== verification/LedgerProperties.thy ===== *)
theory LedgerProperties
  imports LedgerExample
begin

text \<open>
  The properties of the accounting ledger: what each operation promises (drafting, approving,
  posting, reversing, closing), what holds in every reachable state, and what no operation can
  change.
\<close>

section \<open>Creating\<close>

lemma with_resolved_defaults_entity:
  "with_resolved_defaults b input no = Inr d \<Longrightarrow> rd_entity d = di_entity input \<and> rd_lines d = di_lines input
    \<and> rd_document_no d = no"
  by (auto simp: with_resolved_defaults_def Let_def result_simps)

lemma create_draft_obtains:
  assumes "create_draft configured origin input user b = Inr (v, b')" "ids_below (id_sequence b) (doc_id ` set (documents b))"
  obtains d dec row ls p l where
    "row = draft_row (show_nat (id_sequence b)) d dec (find_applicable_rule_id b d) (sub user)"
    "resolve_approval_for_creation origin configured (di_approval_status input) = Inr dec"
    "with_resolved_defaults b input (with_document_number b input) = Inr d"
    "validate_lines (line_amounts (rd_lines d)) = Inr ()" "\<forall>l \<in> set (rd_lines d). line_ok b d l"
    "assert_period_belongs_and_is_open b (rd_period d) (rd_entity d) (rd_posting_date d) = Inr p"
    "assert_ledger_belongs b (rd_ledger d) (rd_entity d) = Inr l"
    "traverse (recorded_line (show_nat (Suc (id_sequence b)))) (enumerate 1 (rd_lines d)) = Inr ls"
    "v = (row, load_journal_with_lines b' (show_nat (id_sequence b)))" "documents b' = documents b @ [row]"
    "journals b' = journals b @ [draft_journal (show_nat (Suc (id_sequence b))) (show_nat (id_sequence b)) (rd_document_no d)]"
    "journal_lines b' = journal_lines b @ ls" "periods b' = periods b" "id_sequence b' = Suc (Suc (id_sequence b))"
  using create_draft_writes [OF assms]
proof (elim exE conjE, goal_cases)
  case (1 d dec row ls p l)
  have "documents b' = documents b @ [row]" "periods b' = periods b" "id_sequence b' = Suc (Suc (id_sequence b))"
    "journals b' = journals b @ [draft_journal (show_nat (Suc (id_sequence b))) (show_nat (id_sequence b)) (rd_document_no d)]"
    "journal_lines b' = journal_lines b @ ls" by (subst 1(12), simp)+
  with 1(2-11) show ?case by (intro 1(1)) assumption+
qed

text \<open>C4: a draft is accepted only for a legal entity the user may operate on, in an open period of
  that entity that contains the posting date and in an active ledger of the entity, with every
  line on an active account; the books gain exactly that document, as a DRAFT of its creator, and
  what a person creates waits for approval.\<close>

theorem create_draft_contract:
  assumes "ledger_ok digest b" and run: "create_draft configured origin input user b = Inr (v, b')"
  shows "documents b' = documents b @ [fst v] \<and> status (fst v) = DRAFT \<and> created_by (fst v) = Some (sub user)
    \<and> doc_entity (fst v) = di_entity input \<and> can_access_legal_entity user (di_entity input)
    \<and> (\<exists>p \<in> set (periods b). \<exists>y \<in> set (fiscal_years b). \<exists>l \<in> set (ledgers b).
         period_id p = doc_period (fst v) \<and> period_accepts p
         \<and> start_date p \<le> posting_date (fst v) \<and> posting_date (fst v) \<le> end_date p
         \<and> year_id y = period_year p \<and> year_entity y = di_entity input
         \<and> ledger_id l = doc_ledger (fst v) \<and> ledger_entity l = di_entity input \<and> ledger_status l = ''ACTIVE'')
    \<and> (\<forall>l \<in> set (di_lines input). \<exists>a \<in> set (gl_accounts b). account_id a = in_account l \<and> account_status a = ''ACTIVE'')
    \<and> approval (fst v) = (if origin = MANUAL then PENDING else NOT_REQUIRED)
    \<and> (\<forall>x \<in> set (documents b). \<not> (doc_entity x = di_entity input \<and> document_no x = document_no (fst v)))"
proof -
  from assms(1) have "ids_below (id_sequence b) (doc_id ` set (documents b))"
    by (simp add: ledger_ok_def books_ok_def well_keyed_def)
  from create_draft_obtains [OF run this] obtain d dec row p l where
    row: "row = draft_row (show_nat (id_sequence b)) d dec (find_applicable_rule_id b d) (sub user)" "fst v = row"
    and dec: "resolve_approval_for_creation origin configured (di_approval_status input) = Inr dec"
    and d: "with_resolved_defaults b input (with_document_number b input) = Inr d"
    and ok: "\<forall>l \<in> set (rd_lines d). line_ok b d l"
      "assert_period_belongs_and_is_open b (rd_period d) (rd_entity d) (rd_posting_date d) = Inr p"
      "assert_ledger_belongs b (rd_ledger d) (rd_entity d) = Inr l"
    and b': "documents b' = documents b @ [row]"
    by (metis fst_conv)
  have acc: "can_access_legal_entity user (di_entity input)"
    using run by (auto simp: create_draft_eq_Inr)
  have fresh: "\<forall>x \<in> set (documents b). \<not> (doc_entity x = di_entity input \<and> document_no x = document_no row)"
  proof -
    from run obtain d' dec' i where "with_resolved_defaults b input (with_document_number b input) = Inr d'"
        "record_draft d' dec' (find_applicable_rule_id b d') user b = Inr (i, b')"
      by (auto simp: create_draft_eq_Inr)
    with d record_draft_writes [of d' dec' "find_applicable_rule_id b d'" user b i b'] show ?thesis
      by (auto simp: insert_document_eq_Inr next_id_def draft_row_def row with_resolved_defaults_entity)
  qed
  note e = with_resolved_defaults_entity [OF d]
  from ok(2) obtain y where per: "p \<in> set (periods b)" "period_id p = rd_period d" "period_accepts p"
      "start_date p \<le> rd_posting_date d" "rd_posting_date d \<le> end_date p"
      "y \<in> set (fiscal_years b)" "year_id y = period_year p" "year_entity y = rd_entity d"
    by (auto simp: assert_period_belongs_eq_Inr dest: find_by_Some)
  from ok(3) have led: "l \<in> set (ledgers b)" "ledger_id l = rd_ledger d" "ledger_entity l = rd_entity d"
      "ledger_status l = ''ACTIVE''"
    by (auto simp: assert_ledger_belongs_eq_Inr dest: find_by_Some)
  have acct: "\<forall>l \<in> set (di_lines input). \<exists>a \<in> set (gl_accounts b). account_id a = in_account l \<and> account_status a = ''ACTIVE''"
    using ok(1) e by (auto simp: line_ok_def dest!: find_by_Some)
  have app: "approval row = (if origin = MANUAL then PENDING else NOT_REQUIRED)"
    using dec by (cases dec; cases origin) (auto simp: resolve_approval_eq_Inr row draft_row_def)
  have fields: "status row = DRAFT" "created_by row = Some (sub user)" "doc_entity row = rd_entity d"
    "doc_period row = rd_period d" "doc_ledger row = rd_ledger d" "posting_date row = rd_posting_date d"
    by (simp_all add: row(1) draft_row_def)
  have place: "\<exists>p \<in> set (periods b). \<exists>y \<in> set (fiscal_years b). \<exists>l \<in> set (ledgers b).
         period_id p = doc_period row \<and> period_accepts p
         \<and> start_date p \<le> posting_date row \<and> posting_date row \<le> end_date p
         \<and> year_id y = period_year p \<and> year_entity y = di_entity input
         \<and> ledger_id l = doc_ledger row \<and> ledger_entity l = di_entity input \<and> ledger_status l = ''ACTIVE''"
    using per led e by (intro bexI [OF _ per(1)] bexI [OF _ per(6)] bexI [OF _ led(1)]) (simp add: fields)
  show ?thesis using place acc acct app fresh e by (simp only: row(2) b' fields simp_thms)
qed

theorem create_draft_contract_witness:
  "documents demo_created = documents demo_books @ [demo_row] \<and> approval demo_row = NOT_REQUIRED
    \<and> can_access_legal_entity demo_user ''E''"
  using create_draft_contract [OF demo_books_ok demo_create]
  by (simp add: demo_view_def demo_created_def demo_input_def)

text \<open>The journal that is recorded with a draft, and its lines as the validator reads them.\<close>

lemma create_draft_journal:
  assumes "ledger_ok digest b" and run: "create_draft configured origin input user b = Inr (v, b')"
    and stable: "\<forall>l \<in> set (di_lines input). cents_stable (in_debit l) \<and> cents_stable (in_credit l)"
  obtains j ls as where "load_journal_with_lines b' (doc_id (fst v)) = (Some j, ls)" "snd v = (Some j, ls)"
    "journal_document j = doc_id (fst v)" "lines_of b' (journal_id j) = ls"
    "list_all2 valid_line (line_amounts (di_lines input)) as" "list_all2 valid_line (stored_amounts ls) as"
    "validate_lines (stored_amounts ls) = Inr ()" "debits ls = credits ls" "map gl_account ls = map in_account (di_lines input)"
proof -
  let ?n = "id_sequence b"
  let ?j = "draft_journal (show_nat (Suc ?n)) (show_nat ?n)"
  have keyed: "well_keyed b" using assms(1) by (simp add: ledger_ok_def books_ok_def)
  then have ids: "ids_below ?n (doc_id ` set (documents b))" by (simp add: well_keyed_def)
  from create_draft_obtains [OF run ids] obtain d row ls dec where
    d: "with_resolved_defaults b input (with_document_number b input) = Inr d"
    and row: "row = draft_row (show_nat ?n) d dec (find_applicable_rule_id b d) (sub user)"
    and val: "validate_lines (line_amounts (rd_lines d)) = Inr ()"
    and ls: "traverse (recorded_line (show_nat (Suc ?n))) (enumerate 1 (rd_lines d)) = Inr ls"
    and v: "v = (row, load_journal_with_lines b' (show_nat ?n))"
    and b': "journals b' = journals b @ [?j (rd_document_no d)]" "journal_lines b' = journal_lines b @ ls"
    by metis
  have lines: "rd_lines d = di_lines input" using with_resolved_defaults_entity [OF d] by simp
  have fresh: "show_nat ?n \<notin> journal_document ` set (journals b)" "show_nat (Suc ?n) \<notin> line_journal ` set (journal_lines b)"
    using keyed ids_below_fresh [of ?n _ ?n] ids_below_fresh [of ?n _ "Suc ?n"] by (auto simp: well_keyed_def)
  have found: "find_by journal_document (show_nat ?n) (journals b') = Some (?j (rd_document_no d))"
    using fresh(1) by (simp add: b' find_by_append find_by_None [THEN iffD2]) (simp add: draft_journal_def)
  note bal = recorded_lines_balanced [OF ls val stable [folded lines]]
  have "filter (\<lambda>l. line_journal l = show_nat (Suc ?n)) (journal_lines b) = []"
    using fresh(2) by (metis (mono_tags, lifting) filter_False imageI)
  moreover have "filter (\<lambda>l. line_journal l = show_nat (Suc ?n)) ls = ls"
    using recorded_lines_journal [OF ls] by simp
  ultimately have at: "lines_of b' (show_nat (Suc ?n)) = ls" by (simp add: lines_of_def b' bal(3))
  then have load: "load_journal_with_lines b' (show_nat ?n) = (Some (?j (rd_document_no d)), ls)"
    by (simp add: load_journal_with_lines_def found draft_journal_def)
  have id: "doc_id row = show_nat ?n" by (simp add: row draft_row_def)
  from val obtain as where as: "list_all2 valid_line (line_amounts (rd_lines d)) as" by (auto simp: validate_lines_eq_Inr)
  note valid = recorded_lines_valid [OF ls as stable [folded lines]]
  show thesis
    by (rule that [of "?j (rd_document_no d)" ls as])
      (use load id v at as valid bal lines in \<open>simp_all add: draft_journal_def\<close>)
qed

text \<open>The journal recorded with a draft can be posted: when the amounts are texts or numbers below
  \<open>2 ^ 45\<close>, the recorded lines pass the double entry check again, read back in the order given and
  with the accounts given, and debits equal credits to the cent.\<close>

theorem recorded_journal_balanced:
  assumes "ledger_ok digest b" and run: "create_draft configured origin input user b = Inr (v, b')"
    and stable: "\<forall>l \<in> set (di_lines input). cents_stable (in_debit l) \<and> cents_stable (in_credit l)"
  shows "\<exists>j. fst (snd v) = Some j \<and> journal_document j = doc_id (fst v)
    \<and> validate_lines (stored_amounts (snd (snd v))) = Inr ()
    \<and> debits (snd (snd v)) = credits (snd (snd v))
    \<and> map gl_account (snd (snd v)) = map in_account (di_lines input)"
  by (rule create_draft_journal [OF assms]) simp

theorem recorded_journal_balanced_witness:
  "debits (journal_lines demo_created) = credits (journal_lines demo_created)"
proof -
  have *: "\<forall>l \<in> set (di_lines demo_input). cents_stable (in_debit l) \<and> cents_stable (in_credit l)"
    by (simp add: demo_input_def demo_line_def cents_stable_def)
  have "snd (snd (demo_view demo_created)) = journal_lines demo_created" by code_simp
  with recorded_journal_balanced [OF demo_books_ok demo_create *] show ?thesis by auto
qed

section \<open>Approving\<close>

lemma and_then_same: "and_then m (\<lambda>view. Inr (view, c)) = Inr (v, b1) \<Longrightarrow> b1 = c"
  by (auto simp: and_then_eq_Inr)
lemma decided_approval: "approval (decided user dec now r) \<noteq> PENDING"
  by (cases dec) (simp_all add: decided_def)

lemma decide_write_documents:
  assumes "decide_write i user dec b = Inr (v, b1)"
  shows "documents b1 = map (\<lambda>r. if doc_id r = i \<and> status r = DRAFT \<and> approval r = PENDING
      then decided user dec (clock b) r else r) (documents b)"
proof -
  note assms [unfolded decide_write_def Let_def]
  then show ?thesis by (auto simp: write_audit_def simp del: not_None_eq dest!: and_then_same split: if_split_asm)
qed

text \<open>Two transactions that both read a pending draft cannot both decide it: once one conditional
  update has written its decision, the other, whoever makes it and whatever it decides, is refused.\<close>

theorem second_decision_refused:
  assumes "decide_write i user dec b = Inr (v, b1)"
  shows "decide_write i user' dec' b1 = Inl ACCOUNTING_DOCUMENT_NOT_PENDING_APPROVAL"
proof -
  note b1 = decide_write_documents [OF assms]
  have "filter (\<lambda>r. doc_id r = i \<and> status r = DRAFT \<and> approval r = PENDING) (documents b1) = []"
    unfolding b1 by (auto simp: filter_empty_conv decided_approval)
  then show ?thesis by (simp add: decide_write_def Let_def)
qed

definition demo_manual :: books where
  "demo_manual = demo_created\<lparr>documents := [demo_row\<lparr>approval := PENDING\<rparr>]\<rparr>"

definition demo_approver :: auth_user where
  "demo_approver = demo_user\<lparr>sub := ''w''\<rparr>"

lemma demo_decide: "\<exists>v b1. decide_write ''1'' demo_approver Approve demo_manual = Inr (v, b1)"
proof -
  have "returns (decide_write ''1'' demo_approver Approve demo_manual) (\<lambda>_. True)" by code_simp
  then show ?thesis by (auto simp: returns_def split: sum.splits)
qed

theorem second_decision_refused_witness:
  "\<exists>v b1. decide_write ''1'' demo_approver Approve demo_manual = Inr (v, b1)
    \<and> decide_write ''1'' demo_user Reject b1 = Inl ACCOUNTING_DOCUMENT_NOT_PENDING_APPROVAL"
  using demo_decide second_decision_refused by blast

section \<open>Posting\<close>

text \<open>C2: posting changes only a draft: it succeeds only for an approved (or exempted) draft of an
  entity the user may operate on, in a period that accepts postings, whose journal balances to the
  cent; afterwards that document alone is POSTED, its journal carries the seal of its lines, no
  line of any journal has changed, and exactly the posting event is in the outbox.\<close>

theorem post_document_contract:
  assumes "post_document digest i user b = Inr (v, b')"
  shows "\<exists>d \<in> set (documents b). \<exists>j \<in> set (journals b). doc_id d = i \<and> journal_document j = i
    \<and> status d = DRAFT \<and> approval_complete d \<and> can_access_legal_entity user (doc_entity d) \<and> in_open_period b d
    \<and> 2 \<le> length (lines_of b (journal_id j)) \<and> debits (lines_of b (journal_id j)) = credits (lines_of b (journal_id j))
    \<and> documents b' = map (\<lambda>x. if doc_id x = i then x\<lparr>status := POSTED\<rparr> else x) (documents b)
    \<and> (\<exists>j' \<in> set (journals b'). journal_id j' = journal_id j \<and> posting_status j' = POSTED
         \<and> hash_sha256 j' = Some (seal_journal digest i (journal_id j) (lines_of b (journal_id j))))
    \<and> journal_lines b' = journal_lines b
    \<and> (\<exists>e. events b' = events b @ [e] \<and> topic e = ''accounting.document.posted'' \<and> aggregate_id e = i
         \<and> event_key e \<notin> event_key ` set (events b))"
  using post_document_writes [OF assms]
proof (elim exE conjE, goal_cases)
  case (1 d p j ls h)
  define e where "e = document_event ''accounting.document.posted'' ''accounting-document-posted-'' i
    [(''accountingDocumentId'', i), (''hashSha256'', h)]"
  have b': "documents b' = update_by doc_id i posted_row (documents b)" "journal_lines b' = journal_lines b"
    "journals b' = update_by journal_id (journal_id j) (posted_journal (clock b) (sub user) h) (journals b)"
    "events b' = events b @ [e]" by (simp_all add: 1(13) e_def)
  have d: "d \<in> set (documents b)" "doc_id d = i" and j: "j \<in> set (journals b)" "journal_document j = i"
    using find_by_Some [OF 1(1)] find_by_Some [OF 1(7)] by simp_all
  have bal: "2 \<le> length (lines_of b (journal_id j))" "debits (lines_of b (journal_id j)) = credits (lines_of b (journal_id j))"
    using stored_balanced 1(8,9) by blast+
  have sealed: "\<exists>j' \<in> set (journals b'). journal_id j' = journal_id j \<and> posting_status j' = POSTED
      \<and> hash_sha256 j' = Some (seal_journal digest i (journal_id j) (lines_of b (journal_id j)))"
    using j(1) 1(8,10) by (intro bexI [of _ "posted_journal (clock b) (sub user) h j"])
      (auto simp: b' set_update_by posted_journal_def)
  have ev: "topic e = ''accounting.document.posted''" "aggregate_id e = i" "event_key e \<notin> event_key ` set (events b)"
    using 1(11) by (simp_all add: e_def document_event_def)
  have docs: "documents b' = map (\<lambda>x. if doc_id x = i then x\<lparr>status := POSTED\<rparr> else x) (documents b)"
    by (simp add: b' update_by_def posted_row_def)
  have "in_open_period b d" using 1(5,6) by (auto simp: in_open_period_def)
  then show ?case
    using d j bal sealed ev docs 1(2-4) b'(2,4)
    by (intro bexI [OF _ d(1)] bexI [OF _ j(1)] conjI exI [of _ e]) assumption+
qed

theorem post_document_contract_witness:
  "journal_lines demo_posted = journal_lines demo_created
    \<and> (\<exists>e. events demo_posted = events demo_created @ [e] \<and> topic e = ''accounting.document.posted'')"
  using post_document_contract [OF demo_post] by blast

section \<open>Batches\<close>

lemma create_drafts_Inl:
  "create_drafts configured items user b = Inl e \<longleftrightarrow>
   (\<exists>xs x ys vs b1. items = xs @ x # ys \<and> create_drafts configured xs user b = Inr (vs, b1)
      \<and> create_draft configured MANUAL x user b1 = Inl e)"
proof (induction items arbitrary: b)
  case (Cons x items)
  show ?case
  proof (cases "create_draft configured MANUAL x user b")
    case (Inl e')
    show ?thesis (is "?l \<longleftrightarrow> ?r")
    proof
      assume ?l
      then have "create_draft configured MANUAL x user b = Inl e" using Inl by (simp add: and_then_def)
      then show ?r 
        by - (rule exI [of _ "[]"], rule exI [of _ x], rule exI [of _ items], rule exI [of _ "[]"],
            rule exI [of _ b], simp)
    next
      assume ?r
      then show ?l using Inl by (auto simp: and_then_def Cons_eq_append_conv)
    qed
  next
    case (Inr r)
    obtain v b' where r: "r = (v, b')" by (cases r)
    have step: "create_drafts configured (x # xs) user b = Inr (vs, b1) \<longleftrightarrow>
        (\<exists>vs'. vs = v # vs' \<and> create_drafts configured xs user b' = Inr (vs', b1))" for xs vs b1
      using Inr r by (auto simp: and_then_eq_Inr)
    have "create_drafts configured (x # items) user b = Inl e \<longleftrightarrow> create_drafts configured items user b' = Inl e"
      using Inr r by (simp add: and_then_def split: sum.splits)
    also have "\<dots> \<longleftrightarrow> (\<exists>xs y ys vs b1. x # items = xs @ y # ys \<and> create_drafts configured xs user b = Inr (vs, b1)
      \<and> create_draft configured MANUAL y user b1 = Inl e)" (is "?l \<longleftrightarrow> ?r")
    proof
      assume ?l
      then obtain xs y ys vs b1 where "items = xs @ y # ys" "create_drafts configured xs user b' = Inr (vs, b1)"
          "create_draft configured MANUAL y user b1 = Inl e" using Cons.IH by blast
      then show ?r using step by (intro exI [of _ "x # xs"]) auto
    next
      assume ?r
      then obtain xs y ys vs b1 where h: "x # items = xs @ y # ys" "create_drafts configured xs user b = Inr (vs, b1)"
          "create_draft configured MANUAL y user b1 = Inl e" by blast
      show ?l
      proof (cases xs)
        case Nil
        then show ?thesis using h Inr by auto
      next
        case (Cons z zs)
        then show ?thesis using h step Cons.IH by auto
      qed
    qed
    finally show ?thesis .
  qed
qed simp

lemma create_drafts_documents:
  assumes "ledger_ok digest b" "create_drafts configured items user b = Inr (vs, b')"
  shows "documents b' = documents b @ map fst vs \<and> length vs = length items"
  using assms
proof (induction items arbitrary: b vs)
  case (Cons x xs)
  from Cons.prems(2) obtain v b1 vs' where r: "create_draft configured MANUAL x user b = Inr (v, b1)"
      "create_drafts configured xs user b1 = Inr (vs', b')" "vs = v # vs'"
    by (auto simp: and_then_eq_Inr)
  have ok: "ledger_ok digest b1"
    using Cons.prems(1) create_draft_ok [OF _ r(1)] close_keys_appends [OF _ create_draft_appends [OF r(1)]]
    by (simp add: ledger_ok_def)
  have "ids_below (id_sequence b) (doc_id ` set (documents b))"
    using Cons.prems(1) by (simp add: ledger_ok_def books_ok_def well_keyed_def)
  from create_draft_obtains [OF r(1) this] have "documents b1 = documents b @ [fst v]" by (metis fst_conv)
  with Cons.IH [OF ok r(2)] show ?case by (simp add: r(3))
qed simp

text \<open>A batch is all or nothing: it fails exactly when one of its items fails after the ones before
  it were drafted, with that item's error, and when it returns the books hold one new document per
  item, in order.\<close>

theorem batch_all_or_nothing:
  assumes "ledger_ok digest b"
  shows "(create_draft_bulk configured batch items user b = Inl e \<longleftrightarrow>
      (\<exists>xs x ys vs b1. items = xs @ x # ys \<and> create_drafts configured xs user b = Inr (vs, b1)
        \<and> create_draft configured MANUAL x user b1 = Inl e))
    \<and> (create_draft_bulk configured batch items user b = Inr (ds, b')
        \<longrightarrow> documents b' = documents b @ ds \<and> length ds = length items)"
proof -
  have "create_draft_bulk configured batch items user b = Inl e \<longleftrightarrow> create_drafts configured items user b = Inl e"
    by (auto simp: create_draft_bulk_def and_then_def split: sum.splits prod.splits)
  moreover have "documents b' = documents b @ ds \<and> length ds = length items"
    if "create_draft_bulk configured batch items user b = Inr (ds, b')"
    using that create_drafts_documents [OF assms]
    by (auto simp: create_draft_bulk_def and_then_eq_Inr write_action_def)
  ultimately show ?thesis using create_drafts_Inl [of configured items user b e] by blast
qed

theorem batch_all_or_nothing_witness:
  "create_draft_bulk None None [demo_input] demo_user demo_books = Inl ACCOUNTING_APPROVAL_POLICY_UNAVAILABLE"
proof -
  have "create_draft None MANUAL demo_input demo_user demo_books = Inl ACCOUNTING_APPROVAL_POLICY_UNAVAILABLE"
    by code_simp
  then have "\<exists>xs x ys vs b1. [demo_input] = xs @ x # ys \<and> create_drafts None xs demo_user demo_books = Inr (vs, b1)
      \<and> create_draft None MANUAL x demo_user b1 = Inl ACCOUNTING_APPROVAL_POLICY_UNAVAILABLE"
    by (intro exI [of _ "[]"] exI [of _ demo_input]) simp
  with batch_all_or_nothing [OF demo_books_ok, of None None "[demo_input]" demo_user] show ?thesis by blast
qed

section \<open>Reversing\<close>

text \<open>What the journal of a document moves on an account, in cents: debits less credits.\<close>

definition net :: "ident \<Rightarrow> line_row list \<Rightarrow> int" where
  "net a ls = debits (filter (\<lambda>l. gl_account l = a) ls) - credits (filter (\<lambda>l. gl_account l = a) ls)"

definition account_net :: "books \<Rightarrow> ident \<Rightarrow> ident \<Rightarrow> int" where
  "account_net b i a = net a (snd (load_journal_with_lines b i))"

lemma net_Cons: "net a (l # ls) = (if gl_account l = a then minor_value (debit l) - minor_value (credit l) else 0) + net a ls"
  by (simp add: net_def debits_def credits_def)

lemma net_swapped:
  assumes "map gl_account ls' = map gl_account ls"
    and "map (\<lambda>l. (minor_value (debit l), minor_value (credit l))) ls' = map (\<lambda>l. (minor_value (credit l), minor_value (debit l))) ls"
  shows "net a ls' = - net a ls"
  using assms
proof (induction ls arbitrary: ls')
  case Nil
  then show ?case by (simp add: net_def debits_def credits_def)
next
  case (Cons l ls)
  then obtain l' ls'' where "ls' = l' # ls''" by (cases ls') auto
  with Cons show ?case by (auto simp: net_Cons)
qed

lemma mirrored_valid:
  assumes "list_all2 valid_line (line_amounts (map (mirrored_line i reason) ols)) as"
  shows "as = map (\<lambda>l. (minor_value (credit l), minor_value (debit l))) ols"
  using assms unfolding line_amounts_def
  by (induction ols arbitrary: as) (auto simp: list_all2_Cons1 mirrored_line_def valid_line_def dest!: cents_of_text)

text \<open>C3: a reversal undoes the document: the original ends REVERSED, linked to the reversing document,
  which is POSTED, and on every account the reversing journal moves exactly the opposite amount.\<close>

theorem reversal_nets_to_zero:
  assumes ok: "ledger_ok digest b" and run: "reverse_document digest configured i date period reason user b = Inr (v, b')"
  shows "account_net b' (doc_id (fst v)) a + account_net b' i a = 0 \<and> account_net b' i a = account_net b i a
    \<and> reversal_of (fst v) = Some i \<and> status (fst v) = POSTED \<and> fst v \<in> set (documents b')
    \<and> (\<exists>d \<in> set (documents b). doc_id d = i \<and> status d = POSTED
         \<and> d\<lparr>status := REVERSED, reversed_by := Some (doc_id (fst v))\<rparr> \<in> set (documents b'))"
proof -
  let ?n = "id_sequence b"
  let ?rj = "show_nat (Suc ?n)"
  have keyed: "well_keyed b" using ok by (simp add: ledger_ok_def books_ok_def)
  show ?thesis
    using reverse_document_writes [OF run keyed]
  proof (elim exE conjE, goal_cases)
    case (1 original oj row ls d h mirror)
    note o = 1(1) 1(3) and oj = 1(5) and lines = 1(6) and row = 1(9) and mirror = 1(10) and v = 1(11)
      and ls = 1(12) and val = 1(13) and docs = 1(15) and js = 1(16) and jl = 1(17)
    let ?ols = "lines_of b (journal_id oj)"
    have mem: "original \<in> set (documents b)" "doc_id original = i" "oj \<in> set (journals b)" "journal_document oj = i"
      using find_by_Some [OF o(1)] find_by_Some [OF oj] by simp_all
    have fresh: "?rj \<notin> journal_id ` set (journals b)" "show_nat ?n \<notin> journal_document ` set (journals b)"
        "?rj \<notin> line_journal ` set (journal_lines b)" "show_nat ?n \<notin> doc_id ` set (documents b)"
      using keyed ids_below_fresh [of ?n _ ?n] ids_below_fresh [of ?n _ "Suc ?n"] by (auto simp: well_keyed_def)
    from val obtain as where as: "list_all2 valid_line (line_amounts (rd_lines d)) as"
      by (auto simp: validate_lines_eq_Inr)
    have as_eq: "as = map (\<lambda>l. (minor_value (credit l), minor_value (debit l))) ?ols"
      using as unfolding lines by (rule mirrored_valid)
    have stable: "\<forall>l \<in> set (rd_lines d). cents_stable (in_debit l) \<and> cents_stable (in_credit l)"
      by (simp add: lines mirrored_line_def cents_stable_def)
    note rec = recorded_lines_valid [OF ls as stable]
    have accounts: "map gl_account ls = map gl_account ?ols"
      using rec by (simp add: lines mirrored_line_def comp_def)
    have amounts: "map (\<lambda>l. (minor_value (debit l), minor_value (credit l))) ls = map (\<lambda>l. (minor_value (credit l), minor_value (debit l))) ?ols"
      using stored_valid_amounts [of ls as] rec as_eq by simp
    have nets: "net a ls = - net a ?ols" by (rule net_swapped [OF accounts amounts])
    have lj: "\<forall>l \<in> set ls. line_journal l = ?rj" using recorded_lines_journal [OF ls] by blast
    have sorted: "sort_key line_no ls = ls" using rec sorted_lines by blast
    have none: "filter (\<lambda>l. line_journal l = ?rj) (journal_lines b) = []"
      using fresh(3) by (metis (mono_tags, lifting) filter_False imageI)
    have all: "filter (\<lambda>l. line_journal l = ?rj) ls = ls" using lj by simp
    have new_lines: "lines_of b' ?rj = ls" by (simp add: lines_of_def jl none all sorted)
    have "journal_id oj \<noteq> ?rj" using fresh(1) mem(3) by (metis imageI)
    then have old_lines: "lines_of b' (journal_id oj) = ?ols"
      using lj jl by (intro lines_of_append [of ls]) auto
    have id: "doc_id mirror = show_nat ?n" by (simp add: mirror row draft_row_def)
    have dj: "journal_document (posted_journal t u h (draft_journal j k no)) = k"
      "journal_id (posted_journal t u h (draft_journal j k no)) = j" for t u h j k no
      by (simp_all add: posted_journal_def draft_journal_def)
    have old: "find_by journal_document i (journals b') = Some (oj\<lparr>posting_status := REVERSED\<rparr>)"
    proof -
      have "find_by journal_document i (update_by journal_id (journal_id oj) f xs) = map_option f (find_by journal_document i xs)"
        if "distinct (map journal_id xs)" "distinct (map journal_document xs)" "oj \<in> set xs" "\<And>j. journal_document (f j) = journal_document j"
        for f xs
        using that(1-3) mem(4) by (induction xs) (auto simp: update_by_def that(4) rev_image_eqI find_by_None intro: map_idI)
      then show ?thesis
        using keyed mem(3) oj by (simp add: js find_by_append well_keyed_def)
    qed
    have new: "find_by journal_document (show_nat ?n) (journals b') = Some (posted_journal (clock b) (sub user) h
        (draft_journal ?rj (doc_id mirror) (rd_document_no d)))"
    proof -
      have "show_nat ?n \<notin> journal_document ` set (update_by journal_id (journal_id oj) (\<lambda>r. r\<lparr>posting_status := REVERSED\<rparr>) (journals b))"
        using fresh(2) by (auto simp: set_update_by split: if_splits)
      then show ?thesis by (simp add: js find_by_append find_by_None [THEN iffD2] dj id)
    qed
    have n1: "account_net b' (doc_id (fst v)) a = net a ls"
      by (simp add: account_net_def load_journal_with_lines_def v id new dj new_lines)
    have n2: "account_net b' i a = net a ?ols" "account_net b i a = net a ?ols"
      by (simp_all add: account_net_def load_journal_with_lines_def old old_lines oj)
    have "mark_reversed (doc_id mirror) original \<in> set (documents b')"
      using mem(1,2) by (auto simp: docs set_update_by)
    then have "original\<lparr>status := REVERSED, reversed_by := Some (doc_id (fst v))\<rparr> \<in> set (documents b')"
      by (simp add: mark_reversed_def v)
    moreover have "fst v \<in> set (documents b')" by (simp add: docs v)
    moreover have "reversal_of (fst v) = Some i" "status (fst v) = POSTED" by (simp_all add: v mirror)
    ultimately show ?case
      using n1 n2 nets mem(1,2) o(2) by (intro conjI bexI [OF _ mem(1)]) simp_all
  qed
qed

theorem reversal_nets_to_zero_witness:
  "\<exists>v b'. reverse_document demo_digest None ''1'' ''2026-01-11'' None ''error'' demo_user demo_posted = Inr (v, b')
    \<and> account_net b' (doc_id (fst v)) ''1'' = - 1050"
proof -
  from demo_reversible obtain v b' where
    r: "reverse_document demo_digest None ''1'' ''2026-01-11'' None ''error'' demo_user demo_posted = Inr (v, b')" by blast
  have "account_net demo_posted ''1'' ''1'' = 1050" by code_simp
  with reversal_nets_to_zero [OF demo_posted_ok r, of "''1''"] r show ?thesis by auto
qed

text \<open>A document is reversed at most once: after a reversal any further attempt on the same document,
  by anyone who may operate on its entity, is refused because the document is no longer POSTED.\<close>

theorem second_reversal_refused:
  assumes "ledger_ok digest b" and "reverse_document digest configured i date period reason user b = Inr (v, b')"
    and "\<forall>d \<in> set (documents b). doc_id d = i \<longrightarrow> can_access_legal_entity user' (doc_entity d)"
  shows "reverse_document digest configured' i date' period' reason' user' b' = Inl ACCOUNTING_DOCUMENT_NOT_POSTED"
proof -
  have keyed: "well_keyed b" using assms(1) by (simp add: ledger_ok_def books_ok_def)
  show ?thesis
    using reverse_document_writes [OF assms(2) keyed]
  proof (elim exE conjE, goal_cases)
    case (1 original oj row ls d h mirror)
    have "find_by doc_id i (update_by doc_id i (mark_reversed (doc_id mirror)) (documents b)) =
        Some (mark_reversed (doc_id mirror) original)"
      using 1(1) by (simp add: find_by_update_by mark_reversed_def)
    then have f: "find_by doc_id i (documents b') = Some (mark_reversed (doc_id mirror) original)"
      by (simp add: 1(15) find_by_append)
    have "can_access_legal_entity user' (doc_entity original)"
      using assms(3) find_by_Some [OF 1(1)] by blast
    then have "assert_can_access_legal_entity user' (doc_entity original) = Inr ()" by (simp add: assert_can_access_iff)
    with f show ?case
      by (simp add: reverse_document_def lock_document_def and_then_def mark_reversed_def ensure_def from_option_def)
  qed
qed

theorem second_reversal_refused_witness:
  "\<exists>v b'. reverse_document demo_digest None ''1'' ''2026-01-11'' None ''error'' demo_user demo_posted = Inr (v, b')
    \<and> reverse_document demo_digest None ''1'' ''2026-01-12'' None ''again'' demo_user b' = Inl ACCOUNTING_DOCUMENT_NOT_POSTED"
proof -
  have "\<forall>d \<in> set (documents demo_posted). doc_id d = ''1'' \<longrightarrow> can_access_legal_entity demo_user (doc_entity d)" by code_simp
  with demo_reversible second_reversal_refused [OF demo_posted_ok] show ?thesis by metis
qed

section \<open>Every reachable state\<close>

lemma demo_reachable: "reachable demo_digest None demo_books demo_posted"
  unfolding reachable_def using books_step.create [OF demo_create] books_step.post [OF demo_post]
  by (meson converse_rtranclp_into_rtranclp r_into_rtranclp)

text \<open>C1: in every state the operations can reach from books that satisfy the invariant, also when drafts are recorded
  after checks that ran on earlier books: no two documents, journals or events share their key and no document has two
  journals; every posted or reversed document has a journal in the same state, of at least two lines whose debits equal
  its credits to the cent, sealed with the digest of exactly those lines; and every reversed document names the live
  document that reverses it. Nothing is promised of the journal of a draft.\<close>

theorem books_stay_balanced:
  assumes "reachable digest configured b0 b" and "ledger_ok digest b0"
  shows "distinct (map doc_id (documents b)) \<and> distinct (map journal_id (journals b))
    \<and> distinct (map journal_document (journals b)) \<and> distinct (map event_key (events b))
    \<and> (\<forall>d \<in> set (documents b). status d = POSTED \<or> status d = REVERSED \<longrightarrow>
      (\<exists>j \<in> set (journals b). journal_document j = doc_id d \<and> posting_status j = status d
        \<and> 2 \<le> length (lines_of b (journal_id j))
        \<and> debits (lines_of b (journal_id j)) = credits (lines_of b (journal_id j))
        \<and> hash_sha256 j = Some (seal_journal digest (doc_id d) (journal_id j) (lines_of b (journal_id j)))))
    \<and> (\<forall>d \<in> set (documents b). status d = REVERSED \<longrightarrow>
      (\<exists>r \<in> set (documents b). reversed_by d = Some (doc_id r) \<and> reversal_of r = Some (doc_id d)
        \<and> (status r = POSTED \<or> status r = REVERSED)))"
proof -
  have keyed: "well_keyed b" and s: "\<And>d. d \<in> set (documents b) \<Longrightarrow> sound digest b d"
    using reachable_ledger_ok [OF assms] by (simp_all add: ledger_ok_def books_ok_def)
  have "\<exists>j \<in> set (journals b). journal_document j = doc_id d \<and> posting_status j = status d
        \<and> 2 \<le> length (lines_of b (journal_id j))
        \<and> debits (lines_of b (journal_id j)) = credits (lines_of b (journal_id j))
        \<and> hash_sha256 j = Some (seal_journal digest (doc_id d) (journal_id j) (lines_of b (journal_id j)))"
    if "sealed digest b d" for d
    using that stored_balanced unfolding sealed_def by metis
  moreover have "sealed digest b d" if "d \<in> set (documents b)" "status d = POSTED \<or> status d = REVERSED" for d
    using s [OF that(1)] that(2) by (simp add: sound_def live_def)
  moreover have "mirrored b d" if "d \<in> set (documents b)" "status d = REVERSED" for d
    using s [OF that(1)] that(2) by (simp add: sound_def)
  ultimately show ?thesis using keyed unfolding well_keyed_def mirrored_def live_def by blast
qed

theorem books_stay_balanced_witness:
  "distinct (map journal_document (journals demo_posted))
    \<and> (\<exists>j \<in> set (journals demo_posted). debits (lines_of demo_posted (journal_id j)) = credits (lines_of demo_posted (journal_id j))
      \<and> hash_sha256 j = Some (seal_journal demo_digest ''1'' (journal_id j) (lines_of demo_posted (journal_id j))))"
proof -
  have "demo_row\<lparr>status := POSTED\<rparr> \<in> set (documents demo_posted)" by (simp add: demo_posted_def)
  with books_stay_balanced [OF demo_reachable demo_books_ok] show ?thesis by (fastforce simp: demo_row_def)
qed

text \<open>What a request of a person records, and what stays of it.\<close>

lemma draft_checks_eq_Inr:
  "draft_checks configured origin input user b = Inr (d, dec, rule) \<longleftrightarrow>
   can_access_legal_entity user (di_entity input) \<and> assert_client_approval_status (di_approval_status input) = Inr ()
   \<and> resolve_approval_for_creation origin configured (di_approval_status input) = Inr dec
   \<and> with_resolved_defaults b input (with_document_number b input) = Inr d
   \<and> validate_lines (line_amounts (rd_lines d)) = Inr () \<and> (\<exists>x. assert_document_can_be_posted b d = Inr x)
   \<and> rule = find_applicable_rule_id b d"
  by (cases dec) (auto simp: draft_checks_def and_then_eq_Inr assert_can_access_iff)

lemma manual_draft_waits:
  assumes "draft_checks configured MANUAL input user b0 = Inr (d, dec, rule)" "record_draft d dec rule user b = Inr (i, b')"
  shows "\<exists>row \<in> set (documents b'). doc_id row = i \<and> created_by row = Some (sub user) \<and> approval row = PENDING"
proof -
  have "fst dec = PENDING"
    using assms(1) by (cases dec) (auto simp: draft_checks_eq_Inr resolve_approval_eq_Inr)
  with record_draft_writes [OF assms(2)] show ?thesis by (fastforce simp: draft_row_def)
qed

lemma made_by_stays:
  assumes "reachable digest configured b b'" "books_ok digest b"
    and "\<exists>row \<in> set (documents b). doc_id row = i \<and> created_by row = c \<and> approval row \<noteq> NOT_REQUIRED"
  shows "\<exists>row \<in> set (documents b'). doc_id row = i \<and> created_by row = c \<and> approval row \<noteq> NOT_REQUIRED"
  using assms(1) unfolding reachable_def
proof (induction rule: rtranclp_induct)
  case (step x y)
  have "books_ok digest x" using step.hyps(1) assms(2) reachable_ok by (simp add: reachable_def)
  then have "well_keyed x" by (simp add: books_ok_def)
  from books_step_rows [OF step.hyps(2) this] obtain f new where
    "documents y = map f (documents x) @ new" "\<forall>d \<in> set (documents x). row_change d (f d)"
    unfolding rows_change_def by blast
  with step.IH row_change_keeps show ?case by (metis (no_types, lifting) Un_iff image_eqI set_append set_map)
qed (rule assms(3))

text \<open>C5: four eyes: whatever operations run before and after, a document a person drafted (alone or in a batch; the checks
  may even have run on earlier books) is posted, or reversed later, only after a second person approved it: it is APPROVED
  then, by a known user other than the one who drafted it. No policy exempts it.\<close>

theorem posted_by_four_eyes:
  assumes "ledger_ok digest b0" and "reachable digest configured b0 b1"
    and "draft_checks configured MANUAL input user b = Inr (d, decision, rule)"
    and "record_draft d decision rule user b1 = Inr (i, b2)" and "reachable digest configured b2 b3"
    and "row \<in> set (documents b3)" and "doc_id row = i" and "status row = POSTED \<or> status row = REVERSED"
  shows "approval row = APPROVED \<and> (\<exists>a. approved_by row = Some a \<and> a \<noteq> [] \<and> a \<noteq> sub user)"
proof -
  have "books_ok digest b1" using reachable_ledger_ok [OF assms(2,1)] by (simp add: ledger_ok_def)
  then have ok2: "books_ok digest b2" using assms(4) by (rule record_draft_ok)
  then have ok3: "books_ok digest b3" using assms(5) reachable_ok by blast
  obtain row' where row': "row' \<in> set (documents b3)" "doc_id row' = i" "created_by row' = Some (sub user)"
      "approval row' \<noteq> NOT_REQUIRED"
    using made_by_stays [OF assms(5) ok2, of i "Some (sub user)"] manual_draft_waits [OF assms(3,4)] by force
  then have "row = row'"
    using ok3 assms(6,7) unique_row [of doc_id "documents b3" row row'] by (simp add: books_ok_def well_keyed_def)
  moreover have "sound digest b3 row" using ok3 assms(6) by (simp add: books_ok_def)
  ultimately show ?thesis
    using row' assms(8) by (auto simp: sound_def live_def approval_complete_def approver_differs_def truthy_iff)
qed

lemma demo_manual_run:
  "\<exists>d dec rule i b2 v b3 w b4. draft_checks (Some ''ALL_MANUAL_REQUIRE_APPROVAL'') MANUAL demo_input demo_user demo_books = Inr (d, dec, rule)
    \<and> record_draft d dec rule demo_user demo_books = Inr (i, b2) \<and> decide i demo_approver Approve b2 = Inr (v, b3)
    \<and> post_document demo_digest i demo_user b3 = Inr (w, b4) \<and> map (\<lambda>d. (doc_id d, status d)) (documents b4) = [(i, POSTED)]"
proof -
  have "returns (and_then (draft_checks (Some ''ALL_MANUAL_REQUIRE_APPROVAL'') MANUAL demo_input demo_user demo_books) (\<lambda>(d, dec, rule).
      and_then (record_draft d dec rule demo_user demo_books) (\<lambda>(i, b2).
      and_then (decide i demo_approver Approve b2) (\<lambda>(v, b3).
      and_then (post_document demo_digest i demo_user b3) (\<lambda>(w, b4). Inr (i, b4))))))
    (\<lambda>(i, b4). map (\<lambda>d. (doc_id d, status d)) (documents b4) = [(i, POSTED)])" by code_simp
  then show ?thesis unfolding returns_def
    by (auto simp: and_then_eq_Inr split: sum.splits prod.splits)
qed

theorem posted_by_four_eyes_witness:
  "\<exists>b row a. reachable demo_digest (Some ''ALL_MANUAL_REQUIRE_APPROVAL'') demo_books b \<and> row \<in> set (documents b)
    \<and> status row = POSTED \<and> approval row = APPROVED \<and> approved_by row = Some a \<and> a \<noteq> sub demo_user"
proof -
  let ?p = "Some ''ALL_MANUAL_REQUIRE_APPROVAL''"
  from demo_manual_run obtain d dec rule i b2 v b3 w b4 where r:
    "draft_checks ?p MANUAL demo_input demo_user demo_books = Inr (d, dec, rule)"
    "record_draft d dec rule demo_user demo_books = Inr (i, b2)" "decide i demo_approver Approve b2 = Inr (v, b3)"
    "post_document demo_digest i demo_user b3 = Inr (w, b4)" "map (\<lambda>d. (doc_id d, status d)) (documents b4) = [(i, POSTED)]"
    by (elim exE conjE) (rule that)
  from r(5) obtain row where row: "row \<in> set (documents b4)" "doc_id row = i" "status row = POSTED"
    by (cases "documents b4") auto
  have "reachable demo_digest ?p b2 b4"
    unfolding reachable_def using books_step.decide [OF r(3)] books_step.post [OF r(4)]
    by (meson converse_rtranclp_into_rtranclp r_into_rtranclp)
  note after = this
  have "reachable demo_digest ?p demo_books b2"
    unfolding reachable_def by (rule r_into_rtranclp, rule books_step.late [OF r(1,2)])
  then have all: "reachable demo_digest ?p demo_books b4" using after unfolding reachable_def by (rule rtranclp_trans)
  have "reachable demo_digest ?p demo_books demo_books" by (simp add: reachable_def)
  from posted_by_four_eyes [OF demo_books_ok this r(1,2) after row(1,2)] row(3) obtain a where
    "approval row = APPROVED" "approved_by row = Some a" "a \<noteq> sub demo_user" by auto
  with all row(1,3) show ?thesis by (intro exI conjI)
qed

section \<open>Periods\<close>

text \<open>C6: a period closes exactly when it exists and accepts postings, belongs to the legal entity, the
  user may operate on the entity, and no draft, open reconciliation item or unmatched bank line
  blocks it; earlier closes and reopenings never stand in the way.\<close>

theorem close_period_iff:
  assumes "reachable digest configured b0 b" and "ledger_ok digest b0"
  shows "(\<exists>run b'. close_period entity i typ user b = Inr (run, b')) \<longleftrightarrow>
    (\<exists>p y. find_by period_id i (periods b) = Some p \<and> period_accepts p
      \<and> find_by year_id (period_year p) (fiscal_years b) = Some y \<and> year_entity y = entity
      \<and> can_access_legal_entity user entity \<and> count_draft_documents b i = 0
      \<and> count_open_reconciliation_items b i = 0 \<and> count_unmatched_statement_lines b (start_date p) (end_date p) = 0)"
proof -
  have keys: "close_keys_ok b" using reachable_ledger_ok [OF assms] by (simp add: ledger_ok_def)
  have "blockers (build_close_control_report b i) = [] \<longleftrightarrow> count_draft_documents b i = 0
      \<and> count_open_reconciliation_items b i = 0 \<and> count_unmatched_statement_lines b (start_date p) (end_date p) = 0"
    if "find_by period_id i (periods b) = Some p" for p
    using that by (auto simp: build_close_control_report_def Let_def)
  then show ?thesis using close_period_possible [OF keys] close_period_writes by metis
qed

theorem close_period_iff_witness: "\<exists>run b'. close_period ''E'' ''P'' ''MONTH'' demo_user demo_posted = Inr (run, b')"
proof -
  have "find_by period_id ''P'' (periods demo_posted) = Some (hd (periods demo_books))"
    "find_by year_id ''Y'' (fiscal_years demo_posted) = Some (hd (fiscal_years demo_books))"
    "period_accepts (hd (periods demo_books))" "period_year (hd (periods demo_books)) = ''Y''"
    "year_entity (hd (fiscal_years demo_books)) = ''E''" "can_access_legal_entity demo_user ''E''"
    "count_draft_documents demo_posted ''P'' = 0" "count_open_reconciliation_items demo_posted ''P'' = 0"
    "count_unmatched_statement_lines demo_posted (start_date (hd (periods demo_books))) (end_date (hd (periods demo_books))) = 0"
    by code_simp+
  then show ?thesis using close_period_iff [OF demo_reachable demo_books_ok] by metis
qed

section \<open>History is immutable\<close>

text \<open>
  What a step may do to the documents of a period that does not accept postings: each stays, except that a posted one
  may be marked as reversed and a draft one may be decided or voided; and no document enters the period.
\<close>

definition preserves :: "ident \<Rightarrow> books \<Rightarrow> books \<Rightarrow> bool" where
  "preserves i b b' =
     ((\<forall>d \<in> set (documents b). doc_period d = i \<longrightarrow> d \<in> set (documents b')
         \<or> status d = POSTED \<and> (\<exists>r. mark_reversed r d \<in> set (documents b'))
         \<or> status d = DRAFT \<and> (\<exists>d' \<in> set (documents b'). doc_id d' = doc_id d \<and> (status d' = DRAFT \<or> status d' = VOID)))
      \<and> (\<forall>d \<in> set (documents b'). doc_period d = i \<longrightarrow> doc_id d \<in> doc_id ` set (documents b)))"










text \<open>A posting or a reversal touches the documents of a period only if it found the period open; then it posts one there.\<close>

definition posts_in :: "ident \<Rightarrow> books \<Rightarrow> books \<Rightarrow> bool" where
  "posts_in i b b' = (\<exists>d \<in> set (documents b'). doc_period d = i \<and> status d = POSTED \<and> d \<notin> set (documents b))"






lemma preserves_periods [simp]:
  "preserves i (b\<lparr>periods := ps\<rparr>) b' = preserves i b b'" "preserves i b (b'\<lparr>periods := qs\<rparr>) = preserves i b b'"
  "posts_in i (b\<lparr>periods := ps\<rparr>) b' = posts_in i b b'" "posts_in i b (b'\<lparr>periods := qs\<rparr>) = posts_in i b b'"
  by (simp_all add: preserves_def posts_in_def)





section \<open>A draft that is recorded after the close\<close>




lemma journal_id_fresh:
  assumes "well_keyed b" "j \<in> set (journals b)"
  shows "journal_id j \<noteq> show_nat (Suc (id_sequence b))"
proof -
  have "show_nat (Suc (id_sequence b)) \<notin> journal_id ` set (journals b)"
    using assms(1) by (intro ids_below_fresh [of "id_sequence b"]) (simp_all add: well_keyed_def)
  then show ?thesis using assms(2) by (metis imageI)
qed

lemma record_draft_lines:
  assumes keyed: "well_keyed b" and run: "record_draft d dec rule user b = Inr (i, b')" and j: "j \<in> set (journals b)"
  shows "lines_of b' (journal_id j) = lines_of b (journal_id j)"
proof -
  from record_draft_writes [OF run] obtain ls where
    ls: "traverse (recorded_line (show_nat (Suc (id_sequence b)))) (enumerate 1 (rd_lines d)) = Inr ls"
    and b': "journal_lines b' = journal_lines b @ ls" by fastforce
  with journal_id_fresh [OF keyed j] show ?thesis
    using recorded_lines_journal [OF ls] by (intro lines_of_append [of ls]) auto
qed

lemma create_draft_lines:
  assumes ok: "ledger_ok digest b" and run: "create_draft configured origin input user b = Inr (v, b')"
    and j: "j \<in> set (journals b)"
  shows "j \<in> set (journals b') \<and> lines_of b' (journal_id j) = lines_of b (journal_id j) \<and> ledger_ok digest b'"
proof -
  have keyed: "well_keyed b" using ok by (simp add: ledger_ok_def books_ok_def)
  then have "ids_below (id_sequence b) (doc_id ` set (documents b))" by (simp add: well_keyed_def)
  from create_draft_obtains [OF run this] obtain d :: resolved_document and ls where
    ls: "traverse (recorded_line (show_nat (Suc (id_sequence b)))) (enumerate 1 (rd_lines d)) = Inr ls"
    and b': "journal_lines b' = journal_lines b @ ls"
      "journals b' = journals b @ [draft_journal (show_nat (Suc (id_sequence b))) (show_nat (id_sequence b)) (rd_document_no d)]"
    by metis
  with journal_id_fresh [OF keyed j] have "lines_of b' (journal_id j) = lines_of b (journal_id j)"
    using recorded_lines_journal [OF ls] b'(1) by (intro lines_of_append [of ls]) auto
  moreover have "ledger_ok digest b'"
    using ok create_draft_ok [OF _ run] close_keys_appends [OF _ create_draft_appends [OF run]] by (simp add: ledger_ok_def)
  ultimately show ?thesis using j b'(2) by simp
qed

lemma create_drafts_lines:
  assumes "ledger_ok digest b" "create_drafts configured items user b = Inr (vs, b')" "j \<in> set (journals b)"
  shows "lines_of b' (journal_id j) = lines_of b (journal_id j)"
  using assms
proof (induction items arbitrary: b vs)
  case (Cons x xs)
  from Cons.prems(2) obtain v b1 vs' where r: "create_draft configured MANUAL x user b = Inr (v, b1)"
      "create_drafts configured xs user b1 = Inr (vs', b')"
    by (auto simp: and_then_eq_Inr)
  from create_draft_lines [OF Cons.prems(1) r(1) Cons.prems(3)] Cons.IH [OF _ r(2)] show ?case by simp
qed simp

text \<open>What was recorded is never rewritten: no operation changes a line of an existing journal, nor
  removes or reorders the lines.\<close>

theorem recorded_lines_immutable:
  assumes "books_step digest configured b b'" and ok: "ledger_ok digest b" and j: "j \<in> set (journals b)"
  shows "lines_of b' (journal_id j) = lines_of b (journal_id j)"
  using assms(1)
proof (cases rule: books_step.cases)
  case (create origin input user v)
  then show ?thesis using create_draft_lines [OF ok create j] by simp
next
  case (late origin input user b0 d dec rule i)
  then show ?thesis using record_draft_lines [OF _ late(2) j] ok by (simp add: ledger_ok_def books_ok_def)
next
  case (void i)
  then show ?thesis by (simp add: lines_of_def void_draft_def)
next
  case (bulk batch items user ds)
  then obtain vs b1 where c: "create_drafts configured items user b = Inr (vs, b1)" "journal_lines b' = journal_lines b1"
    by (auto simp: create_draft_bulk_def and_then_eq_Inr write_action_def)
  have "lines_of b1 (journal_id j) = lines_of b (journal_id j)"
    using create_drafts_lines [OF ok c(1) j] by simp
  then show ?thesis by (simp add: lines_of_def c(2))
next
  case (reverse k date period reason user v)
  have keyed: "well_keyed b" using ok by (simp add: ledger_ok_def books_ok_def)
  from reverse_document_writes [OF reverse keyed] obtain d :: resolved_document and ls where
    ls: "traverse (recorded_line (show_nat (Suc (id_sequence b)))) (enumerate 1 (rd_lines d)) = Inr ls"
    and b': "journal_lines b' = journal_lines b @ ls" by blast
  show ?thesis
    using journal_id_fresh [OF keyed j] recorded_lines_journal [OF ls] b' by (intro lines_of_append [of ls]) auto
next
  case (reverse_late k date period reason user ps v b1)
  have keyed: "well_keyed (b\<lparr>periods := ps\<rparr>)" using ok by (simp add: ledger_ok_def books_ok_def)
  from reverse_document_writes [OF reverse_late(2) keyed] obtain d :: resolved_document and ls where
    ls: "traverse (recorded_line (show_nat (Suc (id_sequence (b\<lparr>periods := ps\<rparr>))))) (enumerate 1 (rd_lines d)) = Inr ls"
    and b1: "journal_lines b1 = journal_lines (b\<lparr>periods := ps\<rparr>) @ ls" by blast
  have "lines_of b1 (journal_id j) = lines_of b (journal_id j)"
    using journal_id_fresh [of b, OF _ j] keyed recorded_lines_journal [OF ls] b1 [simplified] by (intro lines_of_append [of ls]) auto
  then show ?thesis by (simp add: lines_of_def reverse_late(1))
next
  case (post_late k user ps v b1)
  from post_document_writes [OF post_late(2)] show ?thesis by (elim exE conjE) (simp add: lines_of_def post_late(1))
next
  case (decide k user dec v)
  from decide_writes [OF this] show ?thesis by (elim exE conjE) (simp add: lines_of_def)
next
  case (post k user v)
  from post_document_writes [OF this] show ?thesis by (elim exE conjE) (simp add: lines_of_def)
next
  case (close entity k t user run)
  from close_period_writes [OF this] show ?thesis
    by (elim exE conjE) (simp add: lines_of_def write_close_run_writes(3))
next
  case (reopen k reason user ids)
  from reopen_period_writes [OF this] show ?thesis by (elim exE conjE) (simp add: lines_of_def)
qed (simp add: lines_of_def)

theorem recorded_lines_immutable_witness: "lines_of demo_posted ''2'' = lines_of demo_created ''2''"
proof -
  have "hd (journals demo_created) \<in> set (journals demo_created)" "journal_id (hd (journals demo_created)) = ''2''"
    by (simp_all add: demo_created_def)
  with recorded_lines_immutable [OF books_step.post [OF demo_post] demo_created_ok] show ?thesis by metis
qed

end
