(* ===== verification/Receivables.thy ===== *)
theory Receivables
  imports Documents
begin

text \<open>
  Invoices to customers and the receipts that collect them. Models
  \<^verbatim>\<open>modules/accounting/billing\<close> (\<^verbatim>\<open>domain/ar-invoice.ts\<close>, \<^verbatim>\<open>services/ar-invoice-issuance.service.ts\<close>,
  \<^verbatim>\<open>ar-invoice-preparation.service.ts\<close>, \<^verbatim>\<open>ar-invoice-maintenance.service.ts\<close>, \<^verbatim>\<open>billing-events.service.ts\<close>),
  \<^verbatim>\<open>modules/accounting/receipts/services/receipts.service.ts\<close> and
  \<^verbatim>\<open>modules/accounting/business-partners/services/business-partner-role-validation.service.ts\<close>, with the tables they write
  and, for those tables, the checks, the unique indexes and the allocation trigger of
  \<^verbatim>\<open>database/sql/accounting/002_hardening_atlas_accounting.sql\<close>.

  The tables stand beside the ledger (\<^verbatim>\<open>ar_books\<close>), which the operations reach through \<^verbatim>\<open>draft_and_post\<close> of the theory
  of the accounting documents. Each operation runs in one transaction: its value is an error, and then nothing changed, or
  the tables it leaves. A request carries its amounts as the doubles of its JSON (type \<^verbatim>\<open>rat\<close>); a numeric(18,2) column
  holds whole cents, written by \<^verbatim>\<open>column_cents\<close> and read back by \<^verbatim>\<open>number_of_cents\<close>. The sum of an invoice and the balance of
  a receipt are computed in doubles, by \<^verbatim>\<open>js_plus\<close> and \<^verbatim>\<open>js_minus\<close>, as in the code.

  The branch of \<^verbatim>\<open>issueInvoice\<close> for an installation with electronic invoicing switched on is not modelled.
\<close>

section \<open>The tables\<close>

datatype invoice_state = InvDraft | InvIssued | InvPartiallyPaid | InvPaid | InvCredited | InvVoid
datatype receipt_state = RctDraft | RctRecorded | RctPosted | RctVoid

record ar_invoice_row =
  inv_id :: ident
  inv_entity :: ident
  inv_customer :: ident
  inv_contract :: "ident option"
  inv_no :: string
  inv_date :: day
  inv_due :: day
  inv_currency :: string
  inv_net :: int
  inv_tax :: int
  inv_gross :: int
  inv_status :: invoice_state
  inv_document :: "ident option"

record ar_line_row =
  arl_invoice :: ident
  arl_event :: "ident option"
  arl_revenue :: ident
  arl_tax_code :: "ident option"
  arl_description :: string
  arl_amount :: int

record receipt_row =
  rct_id :: ident
  rct_entity :: ident
  rct_payer :: ident
  rct_no :: string
  rct_date :: day
  rct_amount :: int
  rct_currency :: string
  rct_bank :: "ident option"
  rct_status :: receipt_state
  rct_document :: "ident option"

record receipt_allocation_row =
  ral_receipt :: ident
  ral_invoice :: ident
  ral_amount :: int

record partner_role_row =
  bpr_partner :: ident
  bpr_entity :: "ident option"
  bpr_code :: string
  bpr_from :: day
  bpr_to :: "day option"
  bpr_status :: string

record contract_row =
  ctr_id :: ident
  ctr_entity :: ident
  ctr_counterparty :: ident
  ctr_status :: string

record billing_event_row =
  bev_id :: ident
  bev_contract :: ident
  bev_type :: string
  bev_base :: int
  bev_status :: string

text \<open>The tables beside the books; of the fiscal documents, the invoice each belongs to.\<close>

record ar_tables =
  ar_next :: nat
  ar_invoices :: "ar_invoice_row list"
  ar_lines :: "ar_line_row list"
  receipts :: "receipt_row list"
  receipt_allocations :: "receipt_allocation_row list"
  partner_roles :: "partner_role_row list"
  contract_headers :: "contract_row list"
  billing_events :: "billing_event_row list"
  fiscal_invoices :: "ident list"
  ar_books :: books

datatype ar_error =
    LedgerError accounting_error
  | FISCAL_STATUS_NOT_CLIENT_ASSERTED
  | BUSINESS_PARTNER_NOT_FOUND | BUSINESS_PARTNER_NOT_ACTIVE | BUSINESS_PARTNER_ROLE_MISSING
  | CONTRACT_NOT_FOUND | INVOICE_CONTRACT_MISMATCH | CONTRACT_NOT_ACTIVE
  | TAX_ACCOUNT_AND_CODE_REQUIRED | TAX_ACCOUNT_WITHOUT_TAX_AMOUNT
  | AR_INVOICE_NOT_FOUND | AR_INVOICE_HAS_ACCOUNTING_TRACE "string list"
  | RECEIPT_NOT_FOUND | RECEIPT_HAS_ACCOUNTING_TRACE "string list"
  | RECEIPT_ALLOCATION_TOTAL_MISMATCH | RECEIPT_INVOICE_MISMATCH | AR_INVOICE_NOT_OPEN
  | AR_INVOICE_ALLOCATION_EXCEEDS_OPEN_BALANCE
  | DATABASE_CHECK string

definition from_ledger :: "accounting_error + 'a \<Rightarrow> ar_error + 'a" where
  "from_ledger r = (case r of Inl e \<Rightarrow> Inl (LedgerError e) | Inr a \<Rightarrow> Inr a)"

lemma from_ledger_eq [simp]: "from_ledger r = Inr a \<longleftrightarrow> r = Inr a" "from_ledger r = Inl e \<longleftrightarrow> (\<exists>x. r = Inl x \<and> e = LedgerError x)"
  by (auto simp: from_ledger_def split: sum.splits)

section \<open>Numbers and columns\<close>

text \<open>
  \<open>Number(text)\<close> of a \<open>numeric(18,2)\<close> column, and the column a number is stored in: its shortest decimal
  text, rounded to two decimals half away from zero. A text of more than three decimals is never a tie.
\<close>

definition number_of_cents :: "int \<Rightarrow> rat" where
  "number_of_cents c = fl (of_int c / 100)"

definition column_cents :: "rat \<Rightarrow> int" where
  "column_cents r =
     (case number_cents r of
        Some c \<Rightarrow> c
      | None \<Rightarrow> if reads_back 3 r then round_half_away (of_int (round_half_even (r * 1000)) / 10)
                else round_half_away (r * 100))"

text \<open>\<open>0.009\<close>.\<close>

definition tolerance :: rat where
  "tolerance = fl (9 / 1000)"

section \<open>Roles\<close>

definition assert_has_any_active_role ::
    "day \<Rightarrow> ident \<Rightarrow> string list \<Rightarrow> ident option \<Rightarrow> ar_tables \<Rightarrow> ar_error + unit" where
  "assert_has_any_active_role today partner expected entity s =
     and_then (from_option BUSINESS_PARTNER_NOT_FOUND (find_by partner_id partner (partners (ar_books s)))) (\<lambda>p.
     and_then (ensure (partner_status p = ''ACTIVE'') BUSINESS_PARTNER_NOT_ACTIVE) (\<lambda>_.
       ensure (\<exists>r \<in> set (filter (\<lambda>r. bpr_partner r = partner \<and> bpr_status r = ''ACTIVE'') (partner_roles s)).
           bpr_code r \<in> set expected \<and> (\<not> truthy entity \<or> \<not> truthy (bpr_entity r) \<or> bpr_entity r = entity)
           \<and> bpr_from r \<le> today \<and> (case bpr_to r of None \<Rightarrow> True | Some t \<Rightarrow> today \<le> t))
         BUSINESS_PARTNER_ROLE_MISSING))"

definition billing_roles :: "string list" where
  "billing_roles = [''CUSTOMER'', ''MERCHANT'', ''INTERCOMPANY'']"

section \<open>Billing events\<close>

definition create_billing_event :: "ident \<Rightarrow> string \<Rightarrow> rat \<Rightarrow> auth_user \<Rightarrow> ar_tables \<Rightarrow> ar_error + ident \<times> ar_tables" where
  "create_billing_event contract typ base user s =
     and_then (from_option CONTRACT_NOT_FOUND (find_by ctr_id contract (contract_headers s))) (\<lambda>c.
     and_then (from_ledger (assert_can_access_legal_entity user (ctr_entity c))) (\<lambda>_.
       let i = show_nat (ar_next s)
       in Inr (i, s\<lparr>ar_next := Suc (ar_next s), billing_events := billing_events s @
            [\<lparr>bev_id = i, bev_contract = contract, bev_type = typ, bev_base = column_cents base, bev_status = ''RECORDED''\<rparr>]\<rparr>)))"

section \<open>Issuing an invoice\<close>

record ar_request =
  irq_entity :: ident
  irq_customer :: ident
  irq_contract :: "ident option"
  irq_date :: day
  irq_due :: day
  irq_currency :: string
  irq_net :: rat
  irq_tax :: rat
  irq_account :: "ident option"
  irq_revenue :: ident
  irq_tax_account :: "ident option"
  irq_tax_code :: "ident option"
  irq_event :: "ident option"
  irq_description :: string
  irq_period :: "ident option"
  irq_ledger :: "ident option"
  irq_fiscal :: bool

definition assert_fiscal_status_not_client_asserted :: "ar_request \<Rightarrow> ar_error + unit" where
  "assert_fiscal_status_not_client_asserted x = ensure (\<not> irq_fiscal x) FISCAL_STATUS_NOT_CLIENT_ASSERTED"

text \<open>The resolved request: the same data with the account, the period and the ledger given.\<close>

definition resolve_invoice_defaults :: "ar_request \<Rightarrow> books \<Rightarrow> accounting_error + ar_request" where
  "resolve_invoice_defaults x b =
     and_then (resolve_ar_control_account_id b (irq_entity x) (irq_customer x) (irq_account x)) (\<lambda>account.
     and_then (resolve_open_period_id b (irq_entity x) (irq_date x) (irq_period x)) (\<lambda>period.
     and_then (resolve_ledger_id b (irq_entity x) (irq_ledger x)) (\<lambda>ledger.
     and_then (if 0 < irq_tax x
          then and_then (resolve_output_tax b (irq_date x) (irq_tax_code x) (irq_tax_account x)) (\<lambda>t. Inr (Some t))
          else Inr None) (\<lambda>tax.
       let y = x\<lparr>irq_account := Some account, irq_period := Some period, irq_ledger := Some ledger\<rparr>
       in Inr (case tax of None \<Rightarrow> y | Some (code, liability) \<Rightarrow> y\<lparr>irq_tax_code := Some code, irq_tax_account := Some liability\<rparr>)))))"

definition assert_contract_billable :: "contract_row \<Rightarrow> ident \<Rightarrow> ident \<Rightarrow> ar_error + unit" where
  "assert_contract_billable c entity customer =
     (if ctr_entity c \<noteq> entity \<or> ctr_counterparty c \<noteq> customer then Inl INVOICE_CONTRACT_MISMATCH
      else if ctr_status c \<notin> {''ACTIVE'', ''APPROVED''} then Inl CONTRACT_NOT_ACTIVE
      else Inr ())"

definition assert_tax_fields_consistent :: "ar_request \<Rightarrow> ar_error + unit" where
  "assert_tax_fields_consistent x =
     (if 0 < irq_tax x \<and> (\<not> truthy (irq_tax_account x) \<or> \<not> truthy (irq_tax_code x)) then Inl TAX_ACCOUNT_AND_CODE_REQUIRED
      else if irq_tax x = 0 \<and> truthy (irq_tax_account x) then Inl TAX_ACCOUNT_WITHOUT_TAX_AMOUNT
      else Inr ())"

definition assert_inputs_are_sap_safe :: "day \<Rightarrow> ar_request \<Rightarrow> ar_tables \<Rightarrow> ar_error + unit" where
  "assert_inputs_are_sap_safe today x s =
     and_then (assert_has_any_active_role today (irq_customer x) billing_roles (Some (irq_entity x)) s) (\<lambda>_.
     and_then (if truthy (irq_contract x)
          then and_then (from_option CONTRACT_NOT_FOUND (find_by ctr_id (the (irq_contract x)) (contract_headers s)))
            (\<lambda>c. assert_contract_billable c (irq_entity x) (irq_customer x))
          else Inr ()) (\<lambda>_.
       assert_tax_fields_consistent x))"

definition money_line ::
    "ident \<Rightarrow> rat \<Rightarrow> rat \<Rightarrow> rat \<Rightarrow> string \<Rightarrow> ident \<Rightarrow> ident option \<Rightarrow> string \<Rightarrow> ident \<Rightarrow> string \<Rightarrow> draft_line" where
  "money_line account debit_amount credit_amount local currency partner tax_code ref_type ref text =
     \<lparr>in_account = account, in_debit = JNumber (Finite debit_amount), in_credit = JNumber (Finite credit_amount),
      in_currency = currency, in_amount_lc = JNumber (Finite local), in_partner = Some partner, in_cost_center = None,
      in_profit_center = None, in_tax_code = tax_code, in_reference_type = Some ref_type, in_reference_id = Some ref,
      in_description = Some text\<rparr>"

definition build_invoice_journal_lines :: "ar_request \<Rightarrow> rat \<Rightarrow> ident \<Rightarrow> string \<Rightarrow> draft_line list" where
  "build_invoice_journal_lines x gross i no =
     [money_line (the (irq_account x)) gross 0 gross (irq_currency x) (irq_customer x) None ''AR_INVOICE'' i (''CxC factura '' @ no),
      money_line (irq_revenue x) 0 (irq_net x) (irq_net x) (irq_currency x) (irq_customer x) (irq_tax_code x) ''AR_INVOICE'' i
        (irq_description x)] @
     (if 0 < irq_tax x \<and> truthy (irq_tax_account x)
      then [money_line (the (irq_tax_account x)) 0 (irq_tax x) (irq_tax x) (irq_currency x) (irq_customer x) (irq_tax_code x)
              ''AR_INVOICE'' i (''IVA d'' @ [CHR 0xE9] @ ''bito factura '' @ no)]
      else [])"

text \<open>The constraints of the table: the check of the amounts and the unique number of the entity.\<close>

definition insert_invoice :: "ar_invoice_row \<Rightarrow> ar_tables \<Rightarrow> ar_error + ar_tables" where
  "insert_invoice v s =
     (if \<not> (0 \<le> inv_net v \<and> 0 \<le> inv_tax v \<and> inv_gross v = inv_net v + inv_tax v) then Inl (DATABASE_CHECK ''chk_ar_invoice_amounts'')
      else if \<exists>w \<in> set (ar_invoices s). inv_entity w = inv_entity v \<and> inv_no w = inv_no v then Inl (DATABASE_CHECK ''invoice_no'')
      else Inr (s\<lparr>ar_invoices := ar_invoices s @ [v]\<rparr>))"

definition invoice_draft :: "ar_request \<Rightarrow> rat \<Rightarrow> ident \<Rightarrow> string \<Rightarrow> draft_input" where
  "invoice_draft x gross i no =
     \<lparr>di_entity = irq_entity x, di_source_system = ''BILLING'', di_source_type = ''AR_INVOICE'', di_source_id = Some i,
      di_document_type = ''AR_INVOICE'', di_document_no = Some (''AR-'' @ no), di_document_date = irq_date x,
      di_posting_date = Some (irq_date x), di_period = irq_period x, di_ledger = irq_ledger x, di_currency = irq_currency x,
      di_approval_status = None, di_lines = build_invoice_journal_lines x gross i no\<rparr>"

text \<open>The draft and its posting, one after the other in the same transaction.\<close>

definition draft_and_post ::
    "(seal_input \<Rightarrow> string) \<Rightarrow> string option \<Rightarrow> draft_input \<Rightarrow> auth_user \<Rightarrow> books \<Rightarrow> accounting_error + ident \<times> books" where
  "draft_and_post digest configured input user b =
     and_then (create_draft configured SERVER_GENERATED input user b) (\<lambda>(v, b1).
     and_then (post_document digest (doc_id (fst v)) user b1) (\<lambda>(w, b2). Inr (doc_id (fst v), b2)))"

definition ar_action :: "string \<Rightarrow> auth_user \<Rightarrow> ident \<Rightarrow> nat \<Rightarrow> ar_tables \<Rightarrow> ar_tables" where
  "ar_action code user i n s =
     s\<lparr>ar_books := write_action \<lparr>action_code = code, action_actor = sub user, action_aggregate = Some i, affected_records = n\<rparr> (ar_books s)\<rparr>"

definition invoice_number :: "string \<Rightarrow> ident \<Rightarrow> day \<Rightarrow> ar_tables \<Rightarrow> string" where
  "invoice_number clock_year entity date s =
     document_number clock_year ''FAC-AR'' date None (map inv_no (filter (\<lambda>v. inv_entity v = entity) (ar_invoices s)))"

definition issued_row :: "ar_request \<Rightarrow> string \<Rightarrow> ident \<Rightarrow> ar_invoice_row" where
  "issued_row x no i =
     \<lparr>inv_id = i, inv_entity = irq_entity x, inv_customer = irq_customer x, inv_contract = irq_contract x, inv_no = no,
      inv_date = irq_date x, inv_due = irq_due x, inv_currency = irq_currency x, inv_net = column_cents (irq_net x),
      inv_tax = column_cents (irq_tax x), inv_gross = column_cents (js_plus (irq_net x) (irq_tax x)), inv_status = InvIssued,
      inv_document = None\<rparr>"

definition issued_line :: "ar_request \<Rightarrow> ident \<Rightarrow> ar_line_row" where
  "issued_line x i =
     \<lparr>arl_invoice = i, arl_event = irq_event x, arl_revenue = irq_revenue x, arl_tax_code = irq_tax_code x,
      arl_description = irq_description x, arl_amount = column_cents (irq_net x)\<rparr>"

text \<open>The writes of the emission, in the branch without electronic invoicing.\<close>

definition record_invoice ::
    "(seal_input \<Rightarrow> string) \<Rightarrow> string option \<Rightarrow> string \<Rightarrow> ar_request \<Rightarrow> auth_user \<Rightarrow> ar_tables \<Rightarrow> ar_error + ident \<times> ar_tables" where
  "record_invoice digest configured clock_year x user s =
     (let no = invoice_number clock_year (irq_entity x) (irq_date x) s;
          i = show_nat (ar_next s) in
      and_then (insert_invoice (issued_row x no i) (s\<lparr>ar_next := Suc (ar_next s)\<rparr>)) (\<lambda>s1.
      let s2 = s1\<lparr>ar_lines := ar_lines s1 @ [issued_line x i]\<rparr> in
      and_then (from_ledger (draft_and_post digest configured
          (invoice_draft x (js_plus (irq_net x) (irq_tax x)) i no) user (ar_books s2))) (\<lambda>(d, b).
        Inr (i, ar_action ''ISSUE_AR_INVOICE'' user i 3
          (s2\<lparr>ar_books := b, ar_invoices := update_by inv_id i (\<lambda>v. v\<lparr>inv_document := Some d\<rparr>) (ar_invoices s2)\<rparr>)))))"

definition issue_ar_invoice ::
    "(seal_input \<Rightarrow> string) \<Rightarrow> string option \<Rightarrow> string \<Rightarrow> day \<Rightarrow> ar_request \<Rightarrow> auth_user \<Rightarrow> ar_tables \<Rightarrow> ar_error + ident \<times> ar_tables" where
  "issue_ar_invoice digest configured clock_year today raw user s =
     and_then (assert_fiscal_status_not_client_asserted raw) (\<lambda>_.
     and_then (from_ledger (assert_can_access_legal_entity user (irq_entity raw))) (\<lambda>_.
     and_then (from_ledger (resolve_invoice_defaults raw (ar_books s))) (\<lambda>x.
     and_then (assert_inputs_are_sap_safe today x s) (\<lambda>_.
       record_invoice digest configured clock_year x user s))))"

section \<open>Editing and deleting an invoice\<close>

definition find_accessible_invoice :: "ident \<Rightarrow> auth_user \<Rightarrow> ar_tables \<Rightarrow> ar_error + ar_invoice_row" where
  "find_accessible_invoice i user s =
     and_then (from_option AR_INVOICE_NOT_FOUND (find_by inv_id i (ar_invoices s))) (\<lambda>v.
     and_then (from_ledger (assert_can_access_legal_entity user (inv_entity v))) (\<lambda>_. Inr v))"

text \<open>The editable fields that the request carries.\<close>

definition update_ar_invoice ::
    "ident \<Rightarrow> day option \<Rightarrow> day option \<Rightarrow> invoice_state option \<Rightarrow> auth_user \<Rightarrow> ar_tables \<Rightarrow> ar_error + ar_tables" where
  "update_ar_invoice i date due state user s =
     and_then (find_accessible_invoice i user s) (\<lambda>v.
       Inr (s\<lparr>ar_invoices := update_by inv_id i (\<lambda>v. v\<lparr>inv_date := case_option (inv_date v) id date,
         inv_due := case_option (inv_due v) id due, inv_status := case_option (inv_status v) id state\<rparr>) (ar_invoices s)\<rparr>))"

definition invoice_state_text :: "invoice_state \<Rightarrow> string" where
  "invoice_state_text x = (case x of InvDraft \<Rightarrow> ''DRAFT'' | InvIssued \<Rightarrow> ''ISSUED'' | InvPartiallyPaid \<Rightarrow> ''PARTIALLY_PAID''
     | InvPaid \<Rightarrow> ''PAID'' | InvCredited \<Rightarrow> ''CREDITED'' | InvVoid \<Rightarrow> ''VOID'')"

definition invoice_deletion_blockers :: "ar_invoice_row \<Rightarrow> nat \<Rightarrow> nat \<Rightarrow> string list" where
  "invoice_deletion_blockers v allocations fiscal =
     (if inv_status v \<noteq> InvDraft then [''STATUS_'' @ invoice_state_text (inv_status v)] else []) @
     (if truthy (inv_document v) then [''HAS_ACCOUNTING_DOCUMENT''] else []) @
     (if 0 < allocations then [''HAS_RECEIPT_ALLOCATIONS''] else []) @
     (if 0 < fiscal then [''HAS_FISCAL_DOCUMENT''] else [])"

definition delete_ar_invoice :: "ident \<Rightarrow> auth_user \<Rightarrow> ar_tables \<Rightarrow> ar_error + ar_tables" where
  "delete_ar_invoice i user s =
     and_then (find_accessible_invoice i user s) (\<lambda>v.
       let blockers = invoice_deletion_blockers v
             (length (filter (\<lambda>a. ral_invoice a = i) (receipt_allocations s))) (length (filter (\<lambda>f. f = i) (fiscal_invoices s)))
       in if blockers \<noteq> [] then Inl (AR_INVOICE_HAS_ACCOUNTING_TRACE blockers)
          else Inr (ar_action ''DELETE_DRAFT_AR_INVOICE'' user i 1
            (s\<lparr>ar_lines := filter (\<lambda>l. arl_invoice l \<noteq> i) (ar_lines s), ar_invoices := filter (\<lambda>v. inv_id v \<noteq> i) (ar_invoices s)\<rparr>)))"

section \<open>Recording a receipt\<close>

record receipt_request =
  rrq_entity :: ident
  rrq_payer :: ident
  rrq_date :: day
  rrq_amount :: rat
  rrq_currency :: string
  rrq_bank :: "ident option"
  rrq_bank_account :: "ident option"
  rrq_control_account :: "ident option"
  rrq_period :: "ident option"
  rrq_ledger :: "ident option"
  rrq_allocations :: "(ident \<times> rat) list"

definition resolve_receipt_defaults :: "receipt_request \<Rightarrow> books \<Rightarrow> accounting_error + receipt_request" where
  "resolve_receipt_defaults x b =
     and_then (resolve_bank_gl_account_id b (rrq_entity x) (rrq_bank x) (rrq_bank_account x)) (\<lambda>bank.
     and_then (resolve_ar_control_account_id b (rrq_entity x) (rrq_payer x) (rrq_control_account x)) (\<lambda>control.
     and_then (resolve_open_period_id b (rrq_entity x) (rrq_date x) (rrq_period x)) (\<lambda>period.
     and_then (resolve_ledger_id b (rrq_entity x) (rrq_ledger x)) (\<lambda>ledger.
       Inr (x\<lparr>rrq_bank_account := Some bank, rrq_control_account := Some control, rrq_period := Some period,
              rrq_ledger := Some ledger\<rparr>)))))"

text \<open>What the invoice was allocated, as the column shows it.\<close>

definition allocated_to :: "ident \<Rightarrow> ar_tables \<Rightarrow> int" where
  "allocated_to i s = sum_list (map ral_amount (filter (\<lambda>a. ral_invoice a = i) (receipt_allocations s)))"

definition outstanding_amount :: "ar_invoice_row \<Rightarrow> ar_tables \<Rightarrow> rat" where
  "outstanding_amount v s = js_minus (number_of_cents (inv_gross v)) (number_of_cents (allocated_to (inv_id v) s))"

definition assert_invoice_has_open_balance :: "receipt_request \<Rightarrow> ident \<times> rat \<Rightarrow> ar_tables \<Rightarrow> ar_error + unit" where
  "assert_invoice_has_open_balance x a s =
     and_then (from_option AR_INVOICE_NOT_FOUND (find_by inv_id (fst a) (ar_invoices s))) (\<lambda>v.
     if inv_entity v \<noteq> rrq_entity x \<or> inv_customer v \<noteq> rrq_payer x then Inl RECEIPT_INVOICE_MISMATCH
     else if inv_status v \<notin> {InvIssued, InvPartiallyPaid} then Inl AR_INVOICE_NOT_OPEN
     else if tolerance < js_minus (snd a) (outstanding_amount v s) then Inl AR_INVOICE_ALLOCATION_EXCEEDS_OPEN_BALANCE
     else Inr ())"

text \<open>The map of the amounts by invoice, in insertion order.\<close>

definition add_to_invoice :: "ident \<times> rat \<Rightarrow> (ident \<times> rat) list \<Rightarrow> (ident \<times> rat) list" where
  "add_to_invoice a by_invoice =
     (if fst a \<in> fst ` set by_invoice
      then map (\<lambda>p. if fst p = fst a then (fst p, js_plus (snd p) (snd a)) else p) by_invoice
      else by_invoice @ [(fst a, js_plus 0 (snd a))])"

definition allocation_sum :: "rat list \<Rightarrow> rat" where
  "allocation_sum rs = foldl js_plus 0 rs"

definition assert_receipt_can_be_recorded :: "day \<Rightarrow> receipt_request \<Rightarrow> ar_tables \<Rightarrow> ar_error + unit" where
  "assert_receipt_can_be_recorded today x s =
     and_then (assert_has_any_active_role today (rrq_payer x) billing_roles (Some (rrq_entity x)) s) (\<lambda>_.
     and_then (ensure (\<not> tolerance < \<bar>js_minus (allocation_sum (map snd (rrq_allocations x))) (rrq_amount x)\<bar>)
        RECEIPT_ALLOCATION_TOTAL_MISMATCH) (\<lambda>_.
       each (\<lambda>a. assert_invoice_has_open_balance x a s) (fold add_to_invoice (rrq_allocations x) [])))"

text \<open>
  The constraints of the tables: a positive amount, one allocation of a receipt to an invoice, and the trigger that
  compares what is allocated to the invoice with its gross amount.
\<close>

definition insert_allocation :: "receipt_allocation_row \<Rightarrow> ar_tables \<Rightarrow> ar_error + ar_tables" where
  "insert_allocation a s =
     (case find_by inv_id (ral_invoice a) (ar_invoices s) of
        None \<Rightarrow> Inl (DATABASE_CHECK ''AR_INVOICE_NOT_FOUND'')
      | Some v \<Rightarrow>
          if inv_gross v < allocated_to (ral_invoice a) s + ral_amount a then Inl (DATABASE_CHECK ''AR_INVOICE_ALLOCATION_EXCEEDS_OPEN_BALANCE'')
          else if ral_amount a \<le> 0 then Inl (DATABASE_CHECK ''allocated_amount'')
          else if \<exists>c \<in> set (receipt_allocations s). ral_receipt c = ral_receipt a \<and> ral_invoice c = ral_invoice a
          then Inl (DATABASE_CHECK ''receipt_id, ar_invoice_id'')
          else Inr (s\<lparr>receipt_allocations := receipt_allocations s @ [a]\<rparr>))"

definition insert_receipt :: "receipt_row \<Rightarrow> ar_tables \<Rightarrow> ar_error + ar_tables" where
  "insert_receipt r s =
     (if rct_amount r \<le> 0 then Inl (DATABASE_CHECK ''amount'')
      else if \<exists>q \<in> set (receipts s). rct_entity q = rct_entity r \<and> rct_no q = rct_no r then Inl (DATABASE_CHECK ''receipt_no'')
      else Inr (s\<lparr>receipts := receipts s @ [r]\<rparr>))"

definition update_invoice_status :: "ident \<Rightarrow> ar_tables \<Rightarrow> ar_tables" where
  "update_invoice_status i s =
     s\<lparr>ar_invoices := update_by inv_id i (\<lambda>v. v\<lparr>inv_status :=
       (if outstanding_amount v s \<le> tolerance then InvPaid else InvPartiallyPaid)\<rparr>) (ar_invoices s)\<rparr>"

definition update_invoice_statuses_after_allocation :: "ident list \<Rightarrow> ar_tables \<Rightarrow> ar_tables" where
  "update_invoice_statuses_after_allocation is s = fold update_invoice_status (distinct_in_order is) s"

definition receipt_draft :: "receipt_request \<Rightarrow> ident \<Rightarrow> string \<Rightarrow> draft_input" where
  "receipt_draft x i no =
     \<lparr>di_entity = rrq_entity x, di_source_system = ''TREASURY'', di_source_type = ''RECEIPT'', di_source_id = Some i,
      di_document_type = ''RECEIPT'', di_document_no = Some (''RCPT-'' @ no), di_document_date = rrq_date x,
      di_posting_date = Some (rrq_date x), di_period = rrq_period x, di_ledger = rrq_ledger x, di_currency = rrq_currency x,
      di_approval_status = None, di_lines =
        [money_line (the (rrq_bank_account x)) (rrq_amount x) 0 (rrq_amount x) (rrq_currency x) (rrq_payer x) None ''RECEIPT'' i
           (''Ingreso banco recibo '' @ no),
         money_line (the (rrq_control_account x)) 0 (rrq_amount x) (rrq_amount x) (rrq_currency x) (rrq_payer x) None ''RECEIPT'' i
           (''Cancelaci'' @ [CHR 0xF3] @ ''n CxC recibo '' @ no)]\<rparr>"

definition receipt_number :: "string \<Rightarrow> ident \<Rightarrow> day \<Rightarrow> ar_tables \<Rightarrow> string" where
  "receipt_number clock_year entity date s =
     document_number clock_year ''REC'' date None (map rct_no (filter (\<lambda>r. rct_entity r = entity) (receipts s)))"

definition recorded_row :: "receipt_request \<Rightarrow> string \<Rightarrow> ident \<Rightarrow> receipt_row" where
  "recorded_row x no i =
     \<lparr>rct_id = i, rct_entity = rrq_entity x, rct_payer = rrq_payer x, rct_no = no, rct_date = rrq_date x,
      rct_amount = column_cents (rrq_amount x), rct_currency = rrq_currency x, rct_bank = rrq_bank x, rct_status = RctRecorded,
      rct_document = None\<rparr>"

definition allocation_rows :: "receipt_request \<Rightarrow> ident \<Rightarrow> receipt_allocation_row list" where
  "allocation_rows x i =
     map (\<lambda>a. \<lparr>ral_receipt = i, ral_invoice = fst a, ral_amount = column_cents (snd a)\<rparr>) (rrq_allocations x)"

text \<open>The writes of a receipt.\<close>

definition write_receipt ::
    "(seal_input \<Rightarrow> string) \<Rightarrow> string option \<Rightarrow> string \<Rightarrow> receipt_request \<Rightarrow> auth_user \<Rightarrow> ar_tables \<Rightarrow> ar_error + ident \<times> ar_tables" where
  "write_receipt digest configured clock_year x user s =
     (let no = receipt_number clock_year (rrq_entity x) (rrq_date x) s;
          i = show_nat (ar_next s) in
      and_then (insert_receipt (recorded_row x no i) (s\<lparr>ar_next := Suc (ar_next s)\<rparr>)) (\<lambda>s1.
      and_then (fold_result insert_allocation (allocation_rows x i) s1) (\<lambda>s2.
      let s3 = update_invoice_statuses_after_allocation (map fst (rrq_allocations x)) s2 in
      and_then (from_ledger (draft_and_post digest configured (receipt_draft x i no) user (ar_books s3))) (\<lambda>(d, b).
        Inr (i, ar_action ''RECORD_RECEIPT'' user i (2 + length (rrq_allocations x))
          (s3\<lparr>ar_books := b, receipts := update_by rct_id i (\<lambda>r. r\<lparr>rct_document := Some d\<rparr>) (receipts s3)\<rparr>))))))"

definition record_receipt ::
    "(seal_input \<Rightarrow> string) \<Rightarrow> string option \<Rightarrow> string \<Rightarrow> day \<Rightarrow> receipt_request \<Rightarrow> auth_user \<Rightarrow> ar_tables \<Rightarrow> ar_error + ident \<times> ar_tables" where
  "record_receipt digest configured clock_year today raw user s =
     and_then (from_ledger (assert_can_access_legal_entity user (rrq_entity raw))) (\<lambda>_.
     and_then (from_ledger (resolve_receipt_defaults raw (ar_books s))) (\<lambda>x.
     and_then (assert_receipt_can_be_recorded today x s) (\<lambda>_.
       write_receipt digest configured clock_year x user s)))"

section \<open>Editing and deleting a receipt\<close>

definition find_accessible_receipt :: "ident \<Rightarrow> auth_user \<Rightarrow> ar_tables \<Rightarrow> ar_error + receipt_row" where
  "find_accessible_receipt i user s =
     and_then (from_option RECEIPT_NOT_FOUND (find_by rct_id i (receipts s))) (\<lambda>r.
     and_then (from_ledger (assert_can_access_legal_entity user (rct_entity r))) (\<lambda>_. Inr r))"

definition update_receipt ::
    "ident \<Rightarrow> day option \<Rightarrow> receipt_state option \<Rightarrow> ident option option \<Rightarrow> auth_user \<Rightarrow> ar_tables \<Rightarrow> ar_error + ar_tables" where
  "update_receipt i date state bank user s =
     and_then (find_accessible_receipt i user s) (\<lambda>r.
       Inr (s\<lparr>receipts := update_by rct_id i (\<lambda>r. r\<lparr>rct_date := case_option (rct_date r) id date,
         rct_status := case_option (rct_status r) id state, rct_bank := case_option (rct_bank r) id bank\<rparr>) (receipts s)\<rparr>))"

definition receipt_state_text :: "receipt_state \<Rightarrow> string" where
  "receipt_state_text x = (case x of RctDraft \<Rightarrow> ''DRAFT'' | RctRecorded \<Rightarrow> ''RECORDED'' | RctPosted \<Rightarrow> ''POSTED'' | RctVoid \<Rightarrow> ''VOID'')"

definition remove_receipt :: "ident \<Rightarrow> auth_user \<Rightarrow> ar_tables \<Rightarrow> ar_error + ar_tables" where
  "remove_receipt i user s =
     and_then (find_accessible_receipt i user s) (\<lambda>r.
       let motivos = (if rct_status r \<noteq> RctDraft then [''STATUS_'' @ receipt_state_text (rct_status r)] else []) @
             (if truthy (rct_document r) then [''HAS_ACCOUNTING_DOCUMENT''] else []) @
             (if 0 < length (filter (\<lambda>a. ral_receipt a = i) (receipt_allocations s)) then [''HAS_RECEIPT_ALLOCATIONS''] else [])
       in if motivos \<noteq> [] then Inl (RECEIPT_HAS_ACCOUNTING_TRACE motivos)
          else Inr (ar_action ''DELETE_DRAFT_RECEIPT'' user i 1 (s\<lparr>receipts := filter (\<lambda>r. rct_id r \<noteq> i) (receipts s)\<rparr>)))"

end
