(* ===== verification/ReceivablesInvariant.thy ===== *)
theory ReceivablesInvariant
  imports Receivables LedgerProperties
begin

text \<open>
  What every operation on invoices and receipts keeps: the links between an invoice or a receipt and its document in the ledger,
  the allocations of a receipt within the gross amount of the invoice, and the uniqueness of the keys. The first section shows
  what the ledger keeps of its documents, whatever runs on it; the others take one operation at a time.
\<close>

section \<open>What the books keep\<close>

text \<open>The entity and the source of a document; no step of the books changes them, nor brings a live document back.\<close>

definition source_of :: "document_row \<Rightarrow> ident \<times> string \<times> string \<times> string" where
  "source_of d = (doc_entity d, source_system d, source_type d, source_id d)"

definition stays :: "books \<Rightarrow> books \<Rightarrow> bool" where
  "stays b b' = (\<forall>d \<in> set (documents b). live d \<longrightarrow>
     (\<exists>d' \<in> set (documents b'). doc_id d' = doc_id d \<and> source_of d' = source_of d \<and> live d'))"

lemma stays_same: "documents b' = documents b \<Longrightarrow> stays b b'"
  by (auto simp: stays_def)

lemma stays_trans: "stays a b \<Longrightarrow> stays b c \<Longrightarrow> stays a c"
  unfolding stays_def by metis

lemma books_step_ledger_ok: "books_step digest configured b b' \<Longrightarrow> ledger_ok digest b \<Longrightarrow> ledger_ok digest b'"
  by (auto simp: ledger_ok_def intro: books_step_ok books_step_keys)

lemma books_step_stays:
  assumes "books_step digest configured b b'" and "ledger_ok digest b"
  shows "stays b b'"
proof -
  have "well_keyed b" using assms(2) by (simp add: ledger_ok_def books_ok_def)
  from books_step_rows [OF assms(1) this] obtain f new where
    "documents b' = map f (documents b) @ new" "\<forall>d \<in> set (documents b). row_change d (f d)"
    unfolding rows_change_def by blast
  then show ?thesis using row_change_keeps by (force simp: stays_def source_of_def)
qed

section \<open>A document drafted and posted at once\<close>

lemma draft_and_post_steps:
  assumes "draft_and_post digest configured input user b = Inr (i, b')"
  obtains v b1 w where "create_draft configured SERVER_GENERATED input user b = Inr (v, b1)" "i = doc_id (fst v)"
    "post_document digest i user b1 = Inr (w, b')"
    "books_step digest configured b b1" "books_step digest configured b1 b'"
proof -
  from assms obtain v b1 w where r: "create_draft configured SERVER_GENERATED input user b = Inr (v, b1)" "i = doc_id (fst v)"
    "post_document digest i user b1 = Inr (w, b')"
    by (auto simp: draft_and_post_def and_then_eq_Inr split: prod.splits)
  show thesis by (rule that [OF r books_step.create [OF r(1)] books_step.post [OF r(3)]])
qed

lemma draft_and_post_reachable:
  assumes "draft_and_post digest configured input user b = Inr (i, b')"
  shows "reachable digest configured b b'"
  using assms by (rule draft_and_post_steps) (auto simp: reachable_def intro: rtranclp.rtrancl_into_rtrancl)

lemma reachable_stays:
  assumes "reachable digest configured b b'" "ledger_ok digest b"
  shows "stays b b'"
  using assms(1) unfolding reachable_def
proof (induction rule: rtranclp_induct)
  case (step b1 b2)
  have "ledger_ok digest b1" using reachable_ledger_ok [OF _ assms(2)] step.hyps(1) by (simp add: reachable_def)
  with step books_step_stays stays_trans show ?case by blast
qed (simp add: stays_same)

text \<open>The new document: posted, of the given source, with lines whose debits and credits are the given amounts.\<close>

lemma draft_and_post_document:
  assumes ok: "ledger_ok digest b" and run: "draft_and_post digest configured input user b = Inr (i, b')"
    and src: "di_source_id input = Some src"
  shows "\<exists>d \<in> set (documents b'). doc_id d = i \<and> i \<noteq> [] \<and> live d \<and> status d = POSTED
      \<and> source_of d = (di_entity input, di_source_system input, di_source_type input, src)
      \<and> documents b' = documents b @ [d]"
  using run
proof (rule draft_and_post_steps)
  fix v b1 w
  assume c: "create_draft configured SERVER_GENERATED input user b = Inr (v, b1)" and i: "i = doc_id (fst v)"
    and p: "post_document digest i user b1 = Inr (w, b')"
  have ids: "ids_below (id_sequence b) (doc_id ` set (documents b))" using ok by (simp add: ledger_ok_def books_ok_def well_keyed_def)
  from create_draft_obtains [OF c ids] obtain d dec row where
    row: "row = draft_row (show_nat (id_sequence b)) d dec (find_applicable_rule_id b d) (sub user)"
    and d: "with_resolved_defaults b input (with_document_number b input) = Inr d"
    and v: "fst v = row" and b1: "documents b1 = documents b @ [row]" by (metis fst_conv)
  have f: "doc_id row = i" "i = show_nat (id_sequence b)" using row v i by (simp_all add: draft_row_def)
  from post_document_writes [OF p] have b': "documents b' = update_by doc_id i posted_row (documents b1)" by auto
  have "\<forall>x \<in> set (documents b). doc_id x \<noteq> i" using ids_below_fresh [OF ids order_refl] f(2) by (metis imageI)
  then have "documents b' = documents b @ [posted_row row]"
    by (simp add: b' b1 update_by_append update_by_single f(1) update_by_other) (metis (no_types, lifting) imageE update_by_other)
  moreover have "source_of (posted_row row) = (di_entity input, di_source_system input, di_source_type input, src)"
    using d by (auto simp: row draft_row_def posted_row_def source_of_def with_resolved_defaults_def Let_def result_simps src)
  ultimately show ?thesis using f by (simp add: live_def posted_row_def)
qed

text \<open>A live document of the given source.\<close>

definition backed :: "books \<Rightarrow> ident option \<Rightarrow> ident \<times> string \<times> string \<times> string \<Rightarrow> bool" where
  "backed b doc src = (\<exists>d \<in> set (documents b). doc = Some (doc_id d) \<and> doc_id d \<noteq> [] \<and> live d \<and> source_of d = src)"

lemma backed_stays: "backed b doc src \<Longrightarrow> stays b b' \<Longrightarrow> backed b' doc src"
  unfolding backed_def stays_def by metis

lemma backed_truthy: "backed b doc src \<Longrightarrow> truthy doc"
  by (auto simp: backed_def)

section \<open>What the module asks of the ledger\<close>

text \<open>
  The ledger as invoices and receipts see it: a document is drafted and posted at once, the ledger stays sound, the new
  document backs the row it was posted for, and nothing the ledger does later (\<open>keeps\<close>) takes a backing away.
\<close>

locale posting_ledger =
  fixes post :: "draft_input \<Rightarrow> auth_user \<Rightarrow> 'b \<Rightarrow> 'e + ident \<times> 'b"
    and sound :: "'b \<Rightarrow> bool"
    and keeps :: "'b \<Rightarrow> 'b \<Rightarrow> bool"
    and backs :: "'b \<Rightarrow> ident option \<Rightarrow> ident \<times> string \<times> string \<times> string \<Rightarrow> bool"
  assumes post_sound: "sound b \<Longrightarrow> post x u b = Inr (i, b') \<Longrightarrow> sound b'"
    and post_keeps: "sound b \<Longrightarrow> post x u b = Inr (i, b') \<Longrightarrow> keeps b b'"
    and post_backs: "sound b \<Longrightarrow> post x u b = Inr (i, b') \<Longrightarrow> di_source_id x = Some src
      \<Longrightarrow> backs b' (Some i) (di_entity x, di_source_system x, di_source_type x, src)"
    and keeps_trans: "keeps a b \<Longrightarrow> keeps b c \<Longrightarrow> keeps a c"
    and keeps_backs: "keeps a b \<Longrightarrow> backs a d s \<Longrightarrow> backs b d s"
begin

text \<open>A posting followed by anything the ledger keeps: the new row is backed, and so is every row that was.\<close>

lemma posted_then_kept:
  assumes "sound b" "post x u b = Inr (i, b')" "keeps b' c"
  shows "keeps b c" "di_source_id x = Some src \<Longrightarrow> backs c (Some i) (di_entity x, di_source_system x, di_source_type x, src)"
    "backs b d s \<Longrightarrow> backs c d s"
  using assms post_keeps post_backs keeps_trans keeps_backs by blast+

end

interpretation ledger: posting_ledger "draft_and_post digest configured" "ledger_ok digest" stays backed
proof unfold_locales
  fix x u b i b' assume run: "ledger_ok digest b" "draft_and_post digest configured x u b = Inr (i, b')"
  then show "ledger_ok digest b'" "stays b b'"
    using reachable_ledger_ok reachable_stays draft_and_post_reachable by blast+
  show "backed b' (Some i) (di_entity x, di_source_system x, di_source_type x, src)" if "di_source_id x = Some src" for src
    using draft_and_post_document [OF run that] by (auto simp: backed_def)
qed (blast intro: stays_trans backed_stays)+

section \<open>The invariant\<close>

definition ar_invoice_ok :: "ar_tables \<Rightarrow> ar_invoice_row \<Rightarrow> bool" where
  "ar_invoice_ok s v = (0 \<le> inv_net v \<and> 0 \<le> inv_tax v \<and> inv_gross v = inv_net v + inv_tax v
     \<and> allocated_to (inv_id v) s \<le> inv_gross v
     \<and> backed (ar_books s) (inv_document v) (inv_entity v, ''BILLING'', ''AR_INVOICE'', inv_id v))"

definition ar_receipt_ok :: "ar_tables \<Rightarrow> receipt_row \<Rightarrow> bool" where
  "ar_receipt_ok s r = (0 < rct_amount r
     \<and> backed (ar_books s) (rct_document r) (rct_entity r, ''TREASURY'', ''RECEIPT'', rct_id r))"

definition ar_allocation_ok :: "ar_tables \<Rightarrow> receipt_allocation_row \<Rightarrow> bool" where
  "ar_allocation_ok s a = (0 < ral_amount a \<and> (\<exists>v \<in> set (ar_invoices s). \<exists>r \<in> set (receipts s).
     inv_id v = ral_invoice a \<and> rct_id r = ral_receipt a \<and> inv_entity v = rct_entity r \<and> inv_customer v = rct_payer r))"

definition ar_ok :: "(seal_input \<Rightarrow> string) \<Rightarrow> ar_tables \<Rightarrow> bool" where
  "ar_ok digest s = (ledger_ok digest (ar_books s)
     \<and> keyed (ar_next s) inv_id (ar_invoices s) \<and> keyed (ar_next s) rct_id (receipts s)
     \<and> distinct (map (\<lambda>a. (ral_receipt a, ral_invoice a)) (receipt_allocations s))
     \<and> (\<forall>v \<in> set (ar_invoices s). ar_invoice_ok s v) \<and> (\<forall>r \<in> set (receipts s). ar_receipt_ok s r)
     \<and> (\<forall>a \<in> set (receipt_allocations s). ar_allocation_ok s a))"

text \<open>Everything the invariant of a row reads.\<close>

lemma ar_invoice_ok_cong:
  assumes "ar_invoice_ok s v" "receipt_allocations s' = receipt_allocations s" "stays (ar_books s) (ar_books s')"
    "inv_id v' = inv_id v" "inv_entity v' = inv_entity v" "inv_net v' = inv_net v" "inv_tax v' = inv_tax v" "inv_gross v' = inv_gross v"
    "inv_document v' = inv_document v"
  shows "ar_invoice_ok s' v'"
  using assms backed_stays by (auto simp: ar_invoice_ok_def allocated_to_def)

lemma ar_receipt_ok_cong:
  assumes "ar_receipt_ok s r" "stays (ar_books s) (ar_books s')"
    "rct_id r' = rct_id r" "rct_entity r' = rct_entity r" "rct_amount r' = rct_amount r" "rct_document r' = rct_document r"
  shows "ar_receipt_ok s' r'"
  using assms backed_stays by (auto simp: ar_receipt_ok_def)

lemma allocated_fresh:
  assumes "ar_ok digest s" "i \<notin> inv_id ` set (ar_invoices s)"
  shows "allocated_to i s = 0"
proof -
  have "filter (\<lambda>a. ral_invoice a = i) (receipt_allocations s) = []"
    using assms unfolding ar_ok_def ar_allocation_ok_def filter_empty_conv by (metis imageI)
  then show ?thesis by (simp add: allocated_to_def)
qed

lemma ledger_ok_action: "ledger_ok digest (write_action a b) = ledger_ok digest b"
  by (simp add: ledger_ok_def close_keys_ok_def write_action_def books_ok_def well_keyed_def sound_def sealed_def mirrored_def
      lines_of_def)

lemma stays_action: "stays b b' \<Longrightarrow> stays b (write_action a b')"
  by (simp add: stays_def write_action_def)

section \<open>Issuing an invoice keeps it\<close>

lemma record_invoice_writes:
  assumes run: "record_invoice digest configured y x user s = Inr (i, s')"
    and fresh: "show_nat (ar_next s) \<notin> inv_id ` set (ar_invoices s)"
  shows "\<exists>v d b. i = show_nat (ar_next s) \<and> v = issued_row x (invoice_number y (irq_entity x) (irq_date x) s) i
     \<and> 0 \<le> inv_net v \<and> 0 \<le> inv_tax v \<and> inv_gross v = inv_net v + inv_tax v
     \<and> draft_and_post digest configured (invoice_draft x (js_plus (irq_net x) (irq_tax x)) i (inv_no v)) user (ar_books s) = Inr (d, b)
     \<and> s' = ar_action ''ISSUE_AR_INVOICE'' user i 3 (s\<lparr>ar_next := Suc (ar_next s),
          ar_lines := ar_lines s @ [issued_line x i], ar_books := b, ar_invoices := ar_invoices s @ [v\<lparr>inv_document := Some d\<rparr>]\<rparr>)"
proof -
  let ?i = "show_nat (ar_next s)" and ?no = "invoice_number y (irq_entity x) (irq_date x) s"
  let ?v = "issued_row x ?no ?i" and ?s = "s\<lparr>ar_next := Suc (ar_next s)\<rparr>"
  have id: "inv_id ?v = ?i" "inv_no ?v = ?no" by (simp_all add: issued_row_def)
  have last: "update_by inv_id ?i f (ar_invoices s @ [?v]) = ar_invoices s @ [f ?v]" for f :: "ar_invoice_row \<Rightarrow> ar_invoice_row"
    using fresh by (simp add: update_by_append update_by_single update_by_other id)
  from run obtain s1 d b where ins: "insert_invoice ?v ?s = Inr s1"
    and p: "draft_and_post digest configured (invoice_draft x (js_plus (irq_net x) (irq_tax x)) ?i ?no) user (ar_books s1) = Inr (d, b)"
    and s': "i = ?i" "s' = ar_action ''ISSUE_AR_INVOICE'' user ?i 3 (s1\<lparr>ar_lines := ar_lines s1 @ [issued_line x ?i], ar_books := b,
       ar_invoices := update_by inv_id ?i (\<lambda>v. v\<lparr>inv_document := Some d\<rparr>) (ar_invoices s1)\<rparr>)"
    by (auto simp: record_invoice_def Let_def and_then_eq_Inr split: prod.splits)
  from ins have "s1 = ?s\<lparr>ar_invoices := ar_invoices s @ [?v]\<rparr>" "0 \<le> inv_net ?v" "0 \<le> inv_tax ?v" "inv_gross ?v = inv_net ?v + inv_tax ?v"
    by (auto simp: insert_invoice_def split: if_splits)
  with p s' show ?thesis by (intro exI [of _ ?v] exI [of _ d] exI [of _ b]) (simp add: last id)
qed

lemma issue_ar_invoice_checks:
  assumes "issue_ar_invoice digest configured y today raw user s = Inr (i, s')"
  obtains x where "resolve_invoice_defaults raw (ar_books s) = Inr x" "can_access_legal_entity user (irq_entity raw)"
    "assert_inputs_are_sap_safe today x s = Inr ()" "record_invoice digest configured y x user s = Inr (i, s')"
  using assms by (auto simp: issue_ar_invoice_def result_simps assert_can_access_iff)

lemma issue_ar_invoice_ok:
  assumes ok: "ar_ok digest s" and run: "issue_ar_invoice digest configured y today raw user s = Inr (i, s')"
  shows "ar_ok digest s'"
proof -
  have fresh: "show_nat (ar_next s) \<notin> inv_id ` set (ar_invoices s)" using ok keyed_fresh by (auto simp: ar_ok_def)
  from run obtain x where w: "record_invoice digest configured y x user s = Inr (i, s')" by (rule issue_ar_invoice_checks)
  define no where "no = invoice_number y (irq_entity x) (irq_date x) s"
  from record_invoice_writes [OF w fresh] obtain d b where i: "i = show_nat (ar_next s)"
    and pos: "0 \<le> inv_net (issued_row x no i)" "0 \<le> inv_tax (issued_row x no i)"
      "inv_gross (issued_row x no i) = inv_net (issued_row x no i) + inv_tax (issued_row x no i)"
    and p: "draft_and_post digest configured (invoice_draft x (js_plus (irq_net x) (irq_tax x)) i no) user (ar_books s) = Inr (d, b)"
    and s': "s' = ar_action ''ISSUE_AR_INVOICE'' user i 3 (s\<lparr>ar_next := Suc (ar_next s),
        ar_lines := ar_lines s @ [issued_line x i], ar_books := b, ar_invoices := ar_invoices s @ [(issued_row x no i)\<lparr>inv_document := Some d\<rparr>]\<rparr>)"
    unfolding no_def [symmetric] by (auto simp: issued_row_def)
  define v where "v = (issued_row x no i)\<lparr>inv_document := Some d\<rparr>"
  have v: "inv_id v = i" "inv_entity v = irq_entity x" "inv_document v = Some d" "0 \<le> inv_net v" "0 \<le> inv_tax v"
      "inv_gross v = inv_net v + inv_tax v" using pos by (simp_all add: v_def) (simp_all add: issued_row_def)
  note s' = s' [folded v_def, unfolded ar_action_def]
  have led: "ledger_ok digest (ar_books s)" using ok by (simp add: ar_ok_def)
  have "stays b (ar_books s')" using stays_action [OF stays_same] by (simp add: s')
  note kept = ledger.posted_then_kept [OF led p this]
  have st: "stays (ar_books s) (ar_books s')" by (rule kept)
  have "backed (ar_books s') (inv_document v) (inv_entity v, ''BILLING'', ''AR_INVOICE'', inv_id v)"
    using kept(2) [of i] by (simp add: v invoice_draft_def)
  moreover have "allocated_to i s = 0" using allocated_fresh [OF ok] fresh i by simp
  ultimately have new: "ar_invoice_ok s' v" using v by (simp add: ar_invoice_ok_def allocated_to_def s')
  have "ar_invoice_ok s' w" if "w \<in> set (ar_invoices s)" for w
  proof (rule ar_invoice_ok_cong [OF _ _ st])
    show "ar_invoice_ok s w" using ok that by (simp add: ar_ok_def)
  qed (simp_all add: s')
  moreover have "ar_receipt_ok s' r" if "r \<in> set (receipts s)" for r
  proof (rule ar_receipt_ok_cong [OF _ st])
    show "ar_receipt_ok s r" using ok that by (simp add: ar_ok_def)
  qed simp_all
  moreover have "\<forall>a \<in> set (receipt_allocations s). ar_allocation_ok s' a" using ok by (auto simp: ar_ok_def ar_allocation_ok_def s')
  moreover have "keyed (ar_next s') inv_id (ar_invoices s')" "keyed (ar_next s') rct_id (receipts s')"
    using ok keyed_append [of "ar_next s" inv_id "ar_invoices s" v] keyed_mono [of "ar_next s" rct_id "receipts s" "Suc (ar_next s)"] v(1) i
    by (simp_all add: ar_ok_def s')
  moreover have "ledger_ok digest (ar_books s')" using ledger.post_sound [OF led p] by (simp add: s' ledger_ok_action)
  moreover have "set (ar_invoices s') = insert v (set (ar_invoices s))" "receipts s' = receipts s"
    "receipt_allocations s' = receipt_allocations s" by (simp_all add: s')
  moreover have "distinct (map (\<lambda>a. (ral_receipt a, ral_invoice a)) (receipt_allocations s))" using ok by (simp add: ar_ok_def)
  ultimately show ?thesis using new by (simp add: ar_ok_def)
qed

section \<open>Recording a receipt keeps it\<close>

definition settled_status :: "ar_tables \<Rightarrow> ar_invoice_row \<Rightarrow> ar_invoice_row" where
  "settled_status s v = v\<lparr>inv_status := if outstanding_amount v s \<le> tolerance then InvPaid else InvPartiallyPaid\<rparr>"

lemma outstanding_cong [simp]:
  "outstanding_amount (v\<lparr>inv_status := x\<rparr>) (s\<lparr>ar_invoices := y\<rparr>) = outstanding_amount v s"
  "outstanding_amount v (s\<lparr>ar_invoices := y\<rparr>) = outstanding_amount v s"
  by (simp_all add: outstanding_amount_def allocated_to_def)

lemma settled_cong [simp]: "settled_status (s\<lparr>ar_invoices := y\<rparr>) = settled_status s"
  by (simp add: fun_eq_iff settled_status_def)

lemma settled_id [simp]: "inv_id (settled_status s v) = inv_id v"
  by (simp add: settled_status_def)

lemma settled_twice [simp]: "settled_status s (settled_status s v) = settled_status s v"
proof -
  have "outstanding_amount (settled_status s v) s = outstanding_amount v s"
    by (simp add: outstanding_amount_def settled_status_def)
  then show ?thesis by (simp add: settled_status_def)
qed

lemma update_statuses:
  "fold update_invoice_status is s =
     s\<lparr>ar_invoices := map (\<lambda>v. if inv_id v \<in> set is then settled_status s v else v) (ar_invoices s)\<rparr>"
proof (induction "is" arbitrary: s)
  case (Cons i rest)
  have "update_invoice_status i s = s\<lparr>ar_invoices := map (\<lambda>v. if inv_id v = i then settled_status s v else v) (ar_invoices s)\<rparr>"
    by (simp add: update_invoice_status_def update_by_def settled_status_def)
  then have "fold update_invoice_status (i # rest) s = s\<lparr>ar_invoices :=
      map (\<lambda>v. if inv_id v \<in> set rest then settled_status s v else v) (map (\<lambda>v. if inv_id v = i then settled_status s v else v) (ar_invoices s))\<rparr>"
    by (simp add: Cons.IH)
  also have "map (\<lambda>v. if inv_id v \<in> set rest then settled_status s v else v) (map (\<lambda>v. if inv_id v = i then settled_status s v else v) (ar_invoices s))
      = map (\<lambda>v. if inv_id v \<in> set (i # rest) then settled_status s v else v) (ar_invoices s)"
    unfolding map_map by (intro map_cong refl) (simp add: comp_def)
  finally show ?case .
qed simp

lemma add_to_invoice_keys: "fst ` set (fold add_to_invoice as acc) = fst ` set acc \<union> fst ` set as"
proof (induction as arbitrary: acc)
  case (Cons a as)
  have "fst ` set (add_to_invoice a acc) = insert (fst a) (fst ` set acc)"
  proof (cases "fst a \<in> fst ` set acc")
    case True
    have "map fst (add_to_invoice a acc) = map fst acc" using True by (simp add: add_to_invoice_def)
    then have "fst ` set (add_to_invoice a acc) = fst ` set acc" by (metis list.set_map)
    then show ?thesis using True by (simp add: insert_absorb)
  qed (simp add: add_to_invoice_def)
  then show ?case by (simp add: Cons.IH)
qed simp

lemma insert_allocation_writes:
  assumes "fold_result insert_allocation as s = Inr s'"
  shows "s' = s\<lparr>receipt_allocations := receipt_allocations s @ as\<rparr>"
  using assms
proof (induction as arbitrary: s)
  case (Cons a as)
  from Cons.prems obtain t where "insert_allocation a s = Inr t" and rest: "fold_result insert_allocation as t = Inr s'"
    by (auto simp: result_simps)
  then have "t = s\<lparr>receipt_allocations := receipt_allocations s @ [a]\<rparr>"
    by (auto simp: insert_allocation_def split: option.splits if_splits)
  then show ?case using Cons.IH [OF rest] by simp
qed simp

definition allocations_fit :: "ar_tables \<Rightarrow> bool" where
  "allocations_fit s = (distinct (map (\<lambda>a. (ral_receipt a, ral_invoice a)) (receipt_allocations s))
     \<and> (\<forall>v \<in> set (ar_invoices s). allocated_to (inv_id v) s \<le> inv_gross v))"

lemma insert_allocation_fits:
  assumes "distinct (map inv_id (ar_invoices s))" "allocations_fit s" "insert_allocation a s = Inr s'"
  shows "allocations_fit s' \<and> ar_invoices s' = ar_invoices s \<and> 0 < ral_amount a"
proof -
  from assms(3) obtain v where v: "find_by inv_id (ral_invoice a) (ar_invoices s) = Some v"
    and fits: "allocated_to (ral_invoice a) s + ral_amount a \<le> inv_gross v" "0 < ral_amount a"
    and new: "\<forall>c \<in> set (receipt_allocations s). \<not> (ral_receipt c = ral_receipt a \<and> ral_invoice c = ral_invoice a)"
    and s': "s' = s\<lparr>receipt_allocations := receipt_allocations s @ [a]\<rparr>"
    by (auto simp: insert_allocation_def not_less split: option.splits if_splits)
  have sum: "allocated_to i s' = (if i = ral_invoice a then allocated_to i s + ral_amount a else allocated_to i s)" for i
    by (simp add: allocated_to_def s')
  have "allocated_to (inv_id w) s' \<le> inv_gross w" if "w \<in> set (ar_invoices s)" for w
  proof (cases "inv_id w = ral_invoice a")
    case True
    then have "w = v" using find_by_Some [OF v] that assms(1) unique_row [of inv_id "ar_invoices s" w v] by simp
    then show ?thesis using fits True by (simp add: sum)
  qed (use assms(2) that in \<open>simp add: sum allocations_fit_def\<close>)
  moreover have "distinct (map (\<lambda>a. (ral_receipt a, ral_invoice a)) (receipt_allocations s'))"
    using assms(2) new by (auto simp: allocations_fit_def s')
  ultimately show ?thesis using fits by (simp add: allocations_fit_def s')
qed

lemma insert_allocations_fit:
  assumes "distinct (map inv_id (ar_invoices s))" "allocations_fit s" "fold_result insert_allocation as s = Inr s'"
  shows "allocations_fit s' \<and> ar_invoices s' = ar_invoices s \<and> (\<forall>a \<in> set as. 0 < ral_amount a)"
  using assms
proof (induction as arbitrary: s)
  case (Cons a as)
  from Cons.prems(3) obtain t where t: "insert_allocation a s = Inr t" "fold_result insert_allocation as t = Inr s'"
    by (auto simp: result_simps)
  from insert_allocation_fits [OF Cons.prems(1,2) t(1)] Cons.IH [OF _ _ t(2)] Cons.prems(1) show ?case by simp
qed simp

text \<open>The invoices a receipt may be applied to.\<close>

lemma receipt_checked:
  assumes "assert_receipt_can_be_recorded today x s = Inr ()"
  shows "\<forall>i \<in> fst ` set (rrq_allocations x). \<exists>v. find_by inv_id i (ar_invoices s) = Some v
     \<and> inv_entity v = rrq_entity x \<and> inv_customer v = rrq_payer x \<and> inv_status v \<in> {InvIssued, InvPartiallyPaid}"
proof
  fix i assume "i \<in> fst ` set (rrq_allocations x)"
  then obtain a where a: "a \<in> set (fold add_to_invoice (rrq_allocations x) [])" "fst a = i"
    using add_to_invoice_keys [of "rrq_allocations x" "[]"] by force
  from assms have "each (\<lambda>a. assert_invoice_has_open_balance x a s) (fold add_to_invoice (rrq_allocations x) []) = Inr ()"
    by (auto simp: assert_receipt_can_be_recorded_def result_simps)
  then have "assert_invoice_has_open_balance x a s = Inr ()" using a(1) by (simp add: each_eq_Inr)
  then show "\<exists>v. find_by inv_id i (ar_invoices s) = Some v
     \<and> inv_entity v = rrq_entity x \<and> inv_customer v = rrq_payer x \<and> inv_status v \<in> {InvIssued, InvPartiallyPaid}"
    using a(2) by (auto simp: assert_invoice_has_open_balance_def result_simps split: if_splits)
qed

lemma write_receipt_writes:
  assumes run: "write_receipt digest configured y x user s = Inr (i, s')"
    and fresh: "show_nat (ar_next s) \<notin> rct_id ` set (receipts s)"
  shows "\<exists>r d b s2. i = show_nat (ar_next s) \<and> r = recorded_row x (receipt_number y (rrq_entity x) (rrq_date x) s) i
     \<and> 0 < rct_amount r \<and> s2 = s\<lparr>receipt_allocations := receipt_allocations s @ allocation_rows x i\<rparr>
     \<and> fold_result insert_allocation (allocation_rows x i) (s\<lparr>ar_next := Suc (ar_next s), receipts := receipts s @ [r]\<rparr>)
         = Inr (s2\<lparr>ar_next := Suc (ar_next s), receipts := receipts s @ [r]\<rparr>)
     \<and> draft_and_post digest configured (receipt_draft x i (rct_no r)) user (ar_books s) = Inr (d, b)
     \<and> s' = ar_action ''RECORD_RECEIPT'' user i (2 + length (rrq_allocations x)) (s2\<lparr>ar_next := Suc (ar_next s),
          ar_invoices := map (\<lambda>v. if inv_id v \<in> fst ` set (rrq_allocations x) then settled_status s2 v else v) (ar_invoices s),
          ar_books := b, receipts := receipts s @ [r\<lparr>rct_document := Some d\<rparr>]\<rparr>)"
proof -
  let ?i = "show_nat (ar_next s)" and ?no = "receipt_number y (rrq_entity x) (rrq_date x) s"
  let ?r = "recorded_row x ?no ?i"
  let ?s = "s\<lparr>ar_next := Suc (ar_next s), receipts := receipts s @ [?r]\<rparr>"
  have id: "rct_id ?r = ?i" "rct_no ?r = ?no" by (simp_all add: recorded_row_def)
  have last: "update_by rct_id ?i f (receipts s @ [?r]) = receipts s @ [f ?r]" for f :: "receipt_row \<Rightarrow> receipt_row"
    using fresh by (simp add: update_by_append update_by_single update_by_other id)
  from run obtain s1 s2 d b where ins: "insert_receipt ?r (s\<lparr>ar_next := Suc (ar_next s)\<rparr>) = Inr s1"
    and al: "fold_result insert_allocation (allocation_rows x ?i) s1 = Inr s2"
    and p: "draft_and_post digest configured (receipt_draft x ?i ?no) user
        (ar_books (update_invoice_statuses_after_allocation (map fst (rrq_allocations x)) s2)) = Inr (d, b)"
    and s': "i = ?i" "s' = ar_action ''RECORD_RECEIPT'' user ?i (2 + length (rrq_allocations x))
       (update_invoice_statuses_after_allocation (map fst (rrq_allocations x)) s2\<lparr>ar_books := b,
          receipts := update_by rct_id ?i (\<lambda>r. r\<lparr>rct_document := Some d\<rparr>)
            (receipts (update_invoice_statuses_after_allocation (map fst (rrq_allocations x)) s2))\<rparr>)"
    by (auto simp: write_receipt_def Let_def and_then_eq_Inr split: prod.splits)
  from ins have s1: "s1 = ?s" and pos: "0 < rct_amount ?r" by (auto simp: insert_receipt_def split: if_splits)
  define t where "t = s\<lparr>receipt_allocations := receipt_allocations s @ allocation_rows x ?i\<rparr>"
  from insert_allocation_writes [OF al] have s2: "s2 = t\<lparr>ar_next := Suc (ar_next s), receipts := receipts s @ [?r]\<rparr>"
    by (simp add: s1 t_def)
  have "settled_status s2 = settled_status t" by (simp add: fun_eq_iff settled_status_def outstanding_amount_def allocated_to_def s2)
  then have st: "update_invoice_statuses_after_allocation (map fst (rrq_allocations x)) s2 =
      s2\<lparr>ar_invoices := map (\<lambda>v. if inv_id v \<in> fst ` set (rrq_allocations x) then settled_status t v else v) (ar_invoices s)\<rparr>"
    by (simp add: update_invoice_statuses_after_allocation_def update_statuses) (simp add: s2 t_def)
  have t: "receipts t = receipts s" "ar_invoices t = ar_invoices s" "ar_books t = ar_books s" by (simp_all add: t_def)
  have "s' = ar_action ''RECORD_RECEIPT'' user ?i (2 + length (rrq_allocations x)) (t\<lparr>ar_next := Suc (ar_next s),
          ar_invoices := map (\<lambda>v. if inv_id v \<in> fst ` set (rrq_allocations x) then settled_status t v else v) (ar_invoices s),
          ar_books := b, receipts := receipts s @ [?r\<lparr>rct_document := Some d\<rparr>]\<rparr>)"
    unfolding s'(2) st by (simp add: s2 last)
  moreover have "draft_and_post digest configured (receipt_draft x ?i (rct_no ?r)) user (ar_books s) = Inr (d, b)"
    using p unfolding st by (simp add: s2 t id)
  moreover have "fold_result insert_allocation (allocation_rows x ?i) ?s = Inr (t\<lparr>ar_next := Suc (ar_next s), receipts := receipts s @ [?r]\<rparr>)"
    using al by (simp only: s1 s2)
  ultimately show ?thesis
    using s'(1) pos t_def by (intro exI [of _ ?r] exI [of _ d] exI [of _ b] exI [of _ t]) (simp only: simp_thms)
qed

lemma ar_ok_fits: "ar_ok digest s \<Longrightarrow> allocations_fit s"
  by (auto simp: ar_ok_def allocations_fit_def ar_invoice_ok_def)

lemma record_receipt_checks:
  assumes "record_receipt digest configured y today raw user s = Inr (i, s')"
  obtains x where "resolve_receipt_defaults raw (ar_books s) = Inr x" "can_access_legal_entity user (rrq_entity raw)"
    "assert_receipt_can_be_recorded today x s = Inr ()" "write_receipt digest configured y x user s = Inr (i, s')"
  using assms by (auto simp: record_receipt_def result_simps assert_can_access_iff)

lemma settled_fields [simp]:
  "inv_entity (settled_status s v) = inv_entity v" "inv_customer (settled_status s v) = inv_customer v"
  "inv_net (settled_status s v) = inv_net v" "inv_tax (settled_status s v) = inv_tax v"
  "inv_gross (settled_status s v) = inv_gross v" "inv_document (settled_status s v) = inv_document v"
  by (simp_all add: settled_status_def)

text \<open>A state whose invoices keep everything but their status and dates, under more allocations that fit.\<close>

lemma ar_invoices_kept:
  assumes ok: "ar_ok digest s" and st: "stays (ar_books s) (ar_books s')" and fit: "allocations_fit s'"
    and inv: "ar_invoices s' = map f (ar_invoices s)"
    and f: "\<And>v. inv_id (f v) = inv_id v \<and> inv_entity (f v) = inv_entity v \<and> inv_customer (f v) = inv_customer v
      \<and> inv_net (f v) = inv_net v \<and> inv_tax (f v) = inv_tax v \<and> inv_gross (f v) = inv_gross v \<and> inv_document (f v) = inv_document v"
  shows "\<forall>v \<in> set (ar_invoices s'). ar_invoice_ok s' v" "keyed k inv_id (ar_invoices s') = keyed k inv_id (ar_invoices s)"
proof -
  show "keyed k inv_id (ar_invoices s') = keyed k inv_id (ar_invoices s)" by (simp add: inv f)
  show "\<forall>v \<in> set (ar_invoices s'). ar_invoice_ok s' v"
  proof
    fix w assume w: "w \<in> set (ar_invoices s')"
    then obtain v where v: "v \<in> set (ar_invoices s)" "w = f v" by (auto simp: inv)
    have "ar_invoice_ok s v" using ok v(1) by (simp add: ar_ok_def)
    moreover have "allocated_to (inv_id w) s' \<le> inv_gross w" using fit w by (simp add: allocations_fit_def)
    ultimately show "ar_invoice_ok s' w" using backed_stays [OF _ st] by (simp add: ar_invoice_ok_def v(2) f)
  qed
qed

lemma ar_allocations_kept:
  assumes "ar_allocation_ok s a" and "ar_invoices s' = map f (ar_invoices s)"
    and "\<And>v. inv_id (f v) = inv_id v \<and> inv_entity (f v) = inv_entity v \<and> inv_customer (f v) = inv_customer v"
    and "set (receipts s) \<subseteq> set (receipts s')"
  shows "ar_allocation_ok s' a"
  using assms by (auto simp: ar_allocation_ok_def)

lemma record_receipt_ok:
  assumes ok: "ar_ok digest s" and run: "record_receipt digest configured y today raw user s = Inr (i, s')"
  shows "ar_ok digest s'"
proof -
  have fresh: "show_nat (ar_next s) \<notin> rct_id ` set (receipts s)" using ok keyed_fresh by (auto simp: ar_ok_def)
  from run obtain x where chk: "assert_receipt_can_be_recorded today x s = Inr ()"
    and w: "write_receipt digest configured y x user s = Inr (i, s')" by (rule record_receipt_checks)
  define n where "n = Suc (ar_next s)"
  from write_receipt_writes [OF w fresh] obtain r d b s2 where i: "i = show_nat (ar_next s)"
    and r: "r = recorded_row x (receipt_number y (rrq_entity x) (rrq_date x) s) i" and pos: "0 < rct_amount r"
    and s2: "s2 = s\<lparr>receipt_allocations := receipt_allocations s @ allocation_rows x i\<rparr>"
    and al: "fold_result insert_allocation (allocation_rows x i) (s\<lparr>ar_next := n, receipts := receipts s @ [r]\<rparr>)
         = Inr (s2\<lparr>ar_next := n, receipts := receipts s @ [r]\<rparr>)"
    and p: "draft_and_post digest configured (receipt_draft x i (rct_no r)) user (ar_books s) = Inr (d, b)"
    and s': "s' = ar_action ''RECORD_RECEIPT'' user i (2 + length (rrq_allocations x)) (s2\<lparr>ar_next := n,
          ar_invoices := map (\<lambda>v. if inv_id v \<in> fst ` set (rrq_allocations x) then settled_status s2 v else v) (ar_invoices s),
          ar_books := b, receipts := receipts s @ [r\<lparr>rct_document := Some d\<rparr>]\<rparr>)"
    unfolding n_def by blast
  define r' where "r' = r\<lparr>rct_document := Some d\<rparr>"
  have r': "rct_id r' = i" "rct_entity r' = rrq_entity x" "rct_payer r' = rrq_payer x" "rct_document r' = Some d" "0 < rct_amount r'"
    using pos by (simp_all add: r'_def) (simp_all add: r recorded_row_def)
  define f where "f = (\<lambda>v. if inv_id v \<in> fst ` set (rrq_allocations x) then settled_status s2 v else v)"
  have s'f: "ar_invoices s' = map f (ar_invoices s)" "receipts s' = receipts s @ [r']" "ar_next s' = n"
    "receipt_allocations s' = receipt_allocations s @ allocation_rows x i" "\<exists>a. ar_books s' = write_action a b"
    by (auto simp: s' ar_action_def f_def r'_def s2)
  have led: "ledger_ok digest (ar_books s)" using ok by (simp add: ar_ok_def)
  obtain a where a: "ar_books s' = write_action a b" using s'f(5) by blast
  have "stays b (ar_books s')" using stays_action [OF stays_same] by (simp add: a)
  note posted = ledger.posted_then_kept [OF led p this]
  have st: "stays (ar_books s) (ar_books s')" by (rule posted)
  have ids: "distinct (map inv_id (ar_invoices s))" using ok by (simp add: ar_ok_def keyed_def)
  have same: "allocations_fit (t\<lparr>ar_next := n, receipts := q\<rparr>) = allocations_fit t" for t :: ar_tables and q
    by (simp add: allocations_fit_def allocated_to_def)
  from insert_allocations_fit [OF _ _ al] ar_ok_fits [OF ok] ids
  have fit2: "allocations_fit s2" and posa: "\<forall>a \<in> set (allocation_rows x i). 0 < ral_amount a" by (simp_all add: same)
  have fit: "allocations_fit s'"
    using fit2 by (auto simp: allocations_fit_def allocated_to_def s'f(1,4) f_def s2)
  note kept = ar_invoices_kept [OF ok st fit s'f(1)]
  have ff: "inv_id (f v) = inv_id v \<and> inv_entity (f v) = inv_entity v \<and> inv_customer (f v) = inv_customer v
      \<and> inv_net (f v) = inv_net v \<and> inv_tax (f v) = inv_tax v \<and> inv_gross (f v) = inv_gross v \<and> inv_document (f v) = inv_document v" for v
    by (simp add: f_def)
  have new: "ar_receipt_ok s' r'" using posted(2) [of i] by (simp add: ar_receipt_ok_def r' receipt_draft_def)
  have old: "\<forall>r \<in> set (receipts s). ar_receipt_ok s' r"
  proof
    fix q assume "q \<in> set (receipts s)"
    then have "ar_receipt_ok s q" using ok by (simp add: ar_ok_def)
    then show "ar_receipt_ok s' q" using st by (rule ar_receipt_ok_cong) simp_all
  qed
  have "ar_allocation_ok s' c" if "c \<in> set (receipt_allocations s)" for c
  proof -
    have "ar_allocation_ok s c" using ok that by (simp add: ar_ok_def)
    then show ?thesis using ff s'f(1,2) by (intro ar_allocations_kept [of s c s' f]) auto
  qed
  moreover have "ar_allocation_ok s' c" if c: "c \<in> set (allocation_rows x i)" for c
  proof -
    from c have "ral_receipt c = i" "ral_invoice c \<in> fst ` set (rrq_allocations x)" by (auto simp: allocation_rows_def rev_image_eqI)
    moreover from receipt_checked [OF chk] this(2) obtain v where v: "find_by inv_id (ral_invoice c) (ar_invoices s) = Some v"
      "inv_entity v = rrq_entity x" "inv_customer v = rrq_payer x" by blast
    ultimately show ?thesis using posa c find_by_Some [OF v(1)] v(2,3) r' ff by (auto simp: ar_allocation_ok_def s'f(1,2))
  qed
  ultimately have allocs: "\<forall>c \<in> set (receipt_allocations s'). ar_allocation_ok s' c" by (auto simp: s'f(4))
  have "keyed n rct_id (receipts s')" using ok r'(1) i keyed_append [of "ar_next s" rct_id "receipts s" r']
    by (simp add: ar_ok_def s'f(2) n_def)
  moreover have "keyed n inv_id (ar_invoices s')" using ok kept(2) [OF ff] keyed_mono [of "ar_next s" inv_id "ar_invoices s" n]
    by (simp add: ar_ok_def n_def)
  moreover have "ledger_ok digest (ar_books s')" using ledger.post_sound [OF led p] by (simp add: a ledger_ok_action)
  moreover have "distinct (map (\<lambda>a. (ral_receipt a, ral_invoice a)) (receipt_allocations s'))" using fit by (simp add: allocations_fit_def)
  ultimately show ?thesis using kept(1) [OF ff] allocs new old by (simp add: ar_ok_def s'f(2,3))
qed

section \<open>Editing and deleting\<close>

lemma update_ar_invoice_ok:
  assumes ok: "ar_ok digest s" and run: "update_ar_invoice i date due state user s = Inr s'"
  shows "ar_ok digest s'"
proof -
  define g where "g = (\<lambda>v :: ar_invoice_row. v\<lparr>inv_date := case_option (inv_date v) id date, inv_due := case_option (inv_due v) id due,
      inv_status := case_option (inv_status v) id state\<rparr>)"
  define f where "f = (\<lambda>v. if inv_id v = i then g v else v)"
  from run have s': "s' = s\<lparr>ar_invoices := map f (ar_invoices s)\<rparr>"
    by (auto simp: update_ar_invoice_def result_simps update_by_def f_def g_def)
  have ff: "inv_id (f v) = inv_id v \<and> inv_entity (f v) = inv_entity v \<and> inv_customer (f v) = inv_customer v
      \<and> inv_net (f v) = inv_net v \<and> inv_tax (f v) = inv_tax v \<and> inv_gross (f v) = inv_gross v \<and> inv_document (f v) = inv_document v" for v
    by (simp add: f_def g_def)
  have fit: "allocations_fit s'" using ar_ok_fits [OF ok] ff by (simp add: allocations_fit_def allocated_to_def s')
  have st: "stays (ar_books s) (ar_books s')" by (rule stays_same) (simp add: s')
  have inv: "ar_invoices s' = map f (ar_invoices s)" by (simp add: s')
  note kept = ar_invoices_kept [OF ok st fit inv ff]
  have "ar_allocation_ok s' c" if "c \<in> set (receipt_allocations s)" for c
    using ok that ff by (intro ar_allocations_kept [OF _ inv]) (auto simp: ar_ok_def s')
  moreover have "ar_receipt_ok s' = ar_receipt_ok s" by (simp add: fun_eq_iff ar_receipt_ok_def s')
  ultimately show ?thesis using ok kept by (simp add: ar_ok_def s')
qed

lemma update_receipt_ok:
  assumes ok: "ar_ok digest s" and run: "update_receipt i date state bank user s = Inr s'"
  shows "ar_ok digest s'"
proof -
  define f where "f = (\<lambda>r :: receipt_row. if rct_id r = i then r\<lparr>rct_date := case_option (rct_date r) id date,
      rct_status := case_option (rct_status r) id state, rct_bank := case_option (rct_bank r) id bank\<rparr> else r)"
  from run have s': "s' = s\<lparr>receipts := map f (receipts s)\<rparr>"
    by (auto simp: update_receipt_def result_simps update_by_def f_def)
  have ff: "rct_id (f r) = rct_id r" "rct_entity (f r) = rct_entity r" "rct_payer (f r) = rct_payer r"
    "rct_amount (f r) = rct_amount r" "rct_document (f r) = rct_document r" for r by (simp_all add: f_def)
  have "ar_invoice_ok s' = ar_invoice_ok s" by (simp add: fun_eq_iff ar_invoice_ok_def allocated_to_def s')
  moreover have "ar_receipt_ok s' (f r) = ar_receipt_ok s r" for r by (simp add: ar_receipt_ok_def s' ff)
  moreover have "ar_allocation_ok s' = ar_allocation_ok s" by (simp add: fun_eq_iff ar_allocation_ok_def s' ff)
  ultimately show ?thesis using ok by (simp add: ar_ok_def s' ff)
qed

text \<open>An invoice or a receipt these operations recorded has its ledger document, so deleting it is refused.\<close>

lemma delete_ar_invoice_refused: "ar_ok digest s \<Longrightarrow> delete_ar_invoice i user s \<noteq> Inr s'"
  by (auto simp: delete_ar_invoice_def find_accessible_invoice_def result_simps Let_def invoice_deletion_blockers_def ar_ok_def
      ar_invoice_ok_def dest!: find_by_Some backed_truthy split: if_splits)

lemma remove_receipt_refused: "ar_ok digest s \<Longrightarrow> remove_receipt i user s \<noteq> Inr s'"
  by (auto simp: remove_receipt_def find_accessible_receipt_def result_simps Let_def ar_ok_def
      ar_receipt_ok_def dest!: find_by_Some backed_truthy split: if_splits)

end
