(* ===== verification/ReceivablesProperties.thy ===== *)
theory ReceivablesProperties
  imports ReceivablesInvariant
begin

text \<open>
  The properties of invoices and receipts: the reachable states of the tables beside the ledger, what issuing and collecting do, and
  what computing with doubles costs. Amounts below \<open>2 ^ 33\<close> show their cents and a sum of at most 256 of them is within the
  tolerance of the code exactly when it is right to the cent; beyond, the spacing of doubles may reach the cent.
\<close>

section \<open>Reachable states\<close>

text \<open>
  One step of the module: one of its operations, any step of the ledger beside it, or a change of the master data
  (roles, contracts) or of the fiscal documents by another module.
\<close>

inductive ar_step :: "(seal_input \<Rightarrow> string) \<Rightarrow> string option \<Rightarrow> ar_tables \<Rightarrow> ar_tables \<Rightarrow> bool"
  for digest :: "seal_input \<Rightarrow> string" and configured :: "string option" where
  issue: "issue_ar_invoice digest configured y today x user s = Inr (i, s') \<Longrightarrow> ar_step digest configured s s'"
| receipt: "record_receipt digest configured y today q user s = Inr (i, s') \<Longrightarrow> ar_step digest configured s s'"
| edit_invoice: "update_ar_invoice i date due state user s = Inr s' \<Longrightarrow> ar_step digest configured s s'"
| delete_invoice: "delete_ar_invoice i user s = Inr s' \<Longrightarrow> ar_step digest configured s s'"
| edit_receipt: "update_receipt i date phase bank user s = Inr s' \<Longrightarrow> ar_step digest configured s s'"
| delete_receipt: "remove_receipt i user s = Inr s' \<Longrightarrow> ar_step digest configured s s'"
| event: "create_billing_event contract typ base user s = Inr (i, s') \<Longrightarrow> ar_step digest configured s s'"
| ledger: "books_step digest configured (ar_books s) b \<Longrightarrow> ar_step digest configured s (s\<lparr>ar_books := b\<rparr>)"
| master: "ar_step digest configured s (s\<lparr>partner_roles := r, contract_headers := c, fiscal_invoices := f\<rparr>)"

inductive ar_reachable :: "(seal_input \<Rightarrow> string) \<Rightarrow> string option \<Rightarrow> ar_tables \<Rightarrow> bool"
  for digest :: "seal_input \<Rightarrow> string" and configured :: "string option" where
  start: "ledger_ok digest (ar_books s) \<Longrightarrow> ar_invoices s = [] \<Longrightarrow> receipts s = [] \<Longrightarrow> receipt_allocations s = []
    \<Longrightarrow> ar_reachable digest configured s"
| step: "ar_reachable digest configured s \<Longrightarrow> ar_step digest configured s s' \<Longrightarrow> ar_reachable digest configured s'"

lemma ar_ok_ledger:
  assumes ok: "ar_ok digest s" and "ledger_ok digest b" "stays (ar_books s) b"
  shows "ar_ok digest (s\<lparr>ar_books := b\<rparr>)"
proof -
  let ?s = "s\<lparr>ar_books := b\<rparr>"
  have st: "stays (ar_books s) (ar_books ?s)" using assms(3) by simp
  have "ar_invoice_ok ?s v" if "v \<in> set (ar_invoices s)" for v
  proof (rule ar_invoice_ok_cong [OF _ _ st])
    show "ar_invoice_ok s v" using ok that by (simp add: ar_ok_def)
  qed simp_all
  moreover have "ar_receipt_ok ?s r" if "r \<in> set (receipts s)" for r
  proof (rule ar_receipt_ok_cong [OF _ st])
    show "ar_receipt_ok s r" using ok that by (simp add: ar_ok_def)
  qed simp_all
  moreover have "ar_allocation_ok ?s = ar_allocation_ok s" by (simp add: fun_eq_iff ar_allocation_ok_def)
  ultimately show ?thesis using ok assms(2) by (simp add: ar_ok_def)
qed

lemma ar_ok_same:
  assumes "ar_ok digest s" "ar_invoices s' = ar_invoices s" "receipts s' = receipts s" "receipt_allocations s' = receipt_allocations s"
    "ar_books s' = ar_books s" "ar_next s \<le> ar_next s'"
  shows "ar_ok digest s'"
proof -
  have "ar_invoice_ok s' = ar_invoice_ok s" "ar_receipt_ok s' = ar_receipt_ok s" "ar_allocation_ok s' = ar_allocation_ok s"
    using assms by (simp_all add: fun_eq_iff ar_invoice_ok_def ar_receipt_ok_def ar_allocation_ok_def allocated_to_def)
  then show ?thesis
    using assms keyed_mono [of "ar_next s" inv_id "ar_invoices s" "ar_next s'"] keyed_mono [of "ar_next s" rct_id "receipts s" "ar_next s'"]
    by (simp add: ar_ok_def)
qed

lemma ar_step_ok: "ar_step digest configured s s' \<Longrightarrow> ar_ok digest s \<Longrightarrow> ar_ok digest s'"
proof (induction rule: ar_step.induct)
  case (ledger s b)
  then show ?case using ar_ok_ledger books_step_ledger_ok books_step_stays by (metis ar_ok_def)
next
  case (event contract t base user s i s')
  then show ?case by (auto simp: create_billing_event_def result_simps Let_def intro!: ar_ok_same [of digest s])
next
  case (master s r c f)
  then show ?case by (auto intro: ar_ok_same [of digest s])
qed (auto simp: delete_ar_invoice_refused remove_receipt_refused
    intro: issue_ar_invoice_ok record_receipt_ok update_ar_invoice_ok update_receipt_ok)

lemma ar_reachable_ok: "ar_reachable digest configured s \<Longrightarrow> ar_ok digest s"
proof (induction rule: ar_reachable.induct)
  case (start s)
  then show ?case by (simp add: ar_ok_def keyed_def)
qed (rule ar_step_ok)

text \<open>C16: in every reachable state each invoice and each receipt has, in the ledger, its own document, posted or reversed, of
  its entity and with it as its source; so neither an invoice nor a receipt can be deleted, and the ledger stays sound
  whatever the module does to it.\<close>

theorem receivables_backed_by_ledger:
  assumes "ar_reachable digest configured s"
  shows "ledger_ok digest (ar_books s)
    \<and> (\<forall>v \<in> set (ar_invoices s). \<exists>d \<in> set (documents (ar_books s)). inv_document v = Some (doc_id d) \<and> live d
        \<and> doc_entity d = inv_entity v \<and> source_type d = ''AR_INVOICE'' \<and> source_id d = inv_id v)
    \<and> (\<forall>r \<in> set (receipts s). \<exists>d \<in> set (documents (ar_books s)). rct_document r = Some (doc_id d) \<and> live d
        \<and> doc_entity d = rct_entity r \<and> source_type d = ''RECEIPT'' \<and> source_id d = rct_id r)
    \<and> (\<nexists>i user s'. delete_ar_invoice i user s = Inr s' \<or> remove_receipt i user s = Inr s')"
proof -
  note ok = ar_reachable_ok [OF assms]
  then show ?thesis using delete_ar_invoice_refused [OF ok] remove_receipt_refused [OF ok]
    unfolding ar_ok_def ar_invoice_ok_def ar_receipt_ok_def backed_def source_of_def by fastforce
qed

text \<open>C17: in every reachable state the gross amount of an invoice is its net amount plus its tax, what its receipts allocated to
  it lies between nothing and that gross amount, and an allocation is of a positive amount, between an invoice and a receipt
  of the same entity and the same partner, at most one for each pair.\<close>

theorem allocations_never_exceed:
  assumes "ar_reachable digest configured s"
  shows "(\<forall>v \<in> set (ar_invoices s). inv_gross v = inv_net v + inv_tax v
        \<and> 0 \<le> allocated_to (inv_id v) s \<and> allocated_to (inv_id v) s \<le> inv_gross v)
    \<and> (\<forall>a \<in> set (receipt_allocations s). 0 < ral_amount a
        \<and> (\<exists>v \<in> set (ar_invoices s). \<exists>r \<in> set (receipts s). inv_id v = ral_invoice a \<and> rct_id r = ral_receipt a
             \<and> inv_entity v = rct_entity r \<and> inv_customer v = rct_payer r))
    \<and> distinct (map (\<lambda>a. (ral_receipt a, ral_invoice a)) (receipt_allocations s))"
proof -
  have ok: "ar_ok digest s" using ar_reachable_ok [OF assms] .
  then have "0 \<le> allocated_to i s" for i
    unfolding allocated_to_def ar_ok_def ar_allocation_ok_def by (intro sum_list_nonneg) fastforce
  with ok show ?thesis by (auto simp: ar_ok_def ar_invoice_ok_def ar_allocation_ok_def)
qed

section \<open>Comparing doubles decides on cents\<close>

text \<open>Amounts below \<open>2 ^ 33\<close>: a double is within \<open>2 ^ -20\<close> of the cents it shows, and so is the result of an operation.\<close>

lemma fl_near: "\<bar>x\<bar> < 2 ^ 34 \<Longrightarrow> \<bar>fl x - x\<bar> \<le> 1 / 2 ^ 20"
  using fl_error_below [of x 34] by (simp add: pow2_def)

definition shows_cents :: "rat \<Rightarrow> int \<Rightarrow> bool" where
  "shows_cents r c = (number_cents r = Some c \<and> r < 2 ^ 33)"

lemma shows_cents_near:
  assumes "shows_cents r c"
  shows "\<bar>r - of_int c / 100\<bar> \<le> 1 / 2 ^ 20" "0 \<le> r" "column_cents r = c"
proof -
  have n: "number_cents r = Some c" and up: "r < 2 ^ 33" using assms by (simp_all add: shows_cents_def)
  then show r: "0 \<le> r" and "column_cents r = c" by (simp_all add: number_cents_def column_cents_def split: if_splits)
  have near: "\<bar>r - z\<bar> \<le> 1 / 2 ^ 20" if "reads_back d r" "z = of_int (round_half_even (r * 10 ^ d)) / 10 ^ d" for d z
  proof -
    have "\<bar>z - r\<bar> \<le> 1 / 256" using reads_back_error [OF that(1) r] up that(2) by simp
    then have "\<bar>z\<bar> < 2 ^ 34" using r up unfolding abs_le_iff abs_less_iff by simp
    moreover have "fl z = r" using that by (simp add: reads_back_def)
    ultimately show ?thesis using fl_near [of z] by simp
  qed
  from n r consider "reads_back 0 r" "c = round_half_even r * 100" | "reads_back 1 r" "c = round_half_even (r * 10) * 10"
    | "reads_back 2 r" "c = round_half_even (r * 100)" by (auto simp: number_cents_def split: if_splits)
  then show "\<bar>r - of_int c / 100\<bar> \<le> 1 / 2 ^ 20"
  proof cases
    case 1
    then show ?thesis using near [of 0] by simp
  next
    case 2
    then show ?thesis using near [of 1] by simp
  next
    case 3
    then show ?thesis using near [of 2] by simp
  qed
qed

lemma shows_cents_bound:
  assumes "shows_cents r c"
  shows "0 \<le> c \<and> c \<le> 2 ^ 33 * 100"
proof -
  have "0 \<le> c" using assms number_cents_nonneg by (auto simp: shows_cents_def)
  moreover have "(of_int c :: rat) < of_int (2 ^ 33 * 100 + 1)"
    using shows_cents_near(1) [OF assms] assms unfolding shows_cents_def abs_le_iff by (simp add: field_simps)
  ultimately show ?thesis by (simp only: of_int_less_iff) simp
qed

lemma number_of_cents_near:
  assumes "0 \<le> c" "c < 2 ^ 33 * 100"
  shows "\<bar>number_of_cents c - of_int c / 100\<bar> \<le> 1 / 2 ^ 20"
proof -
  have "(of_int c :: rat) < of_int (2 ^ 33 * 100)" using assms(2) by (simp only: of_int_less_iff)
  then have "\<bar>of_int c / 100\<bar> < (2 :: rat) ^ 34" using assms(1) by simp
  then show ?thesis unfolding number_of_cents_def by (rule fl_near)
qed

lemma tolerance_near: "\<bar>tolerance - 9 / 1000\<bar> \<le> 1 / 2 ^ 20"
  unfolding tolerance_def by (rule fl_near) simp

lemma difference_near:
  assumes "\<bar>x - of_int a / 100\<bar> \<le> e" "\<bar>y - of_int b / 100\<bar> \<le> 1 / 2 ^ 20" "e \<le> 1 / 2 ^ 11" "0 \<le> a" "a \<le> 2 ^ 33 * 100" "0 \<le> b" "b \<le> 2 ^ 33 * 100"
  shows "\<bar>js_minus x y - of_int (a - b) / 100\<bar> \<le> e + 2 / 2 ^ 20"
proof -
  have "(of_int a :: rat) \<le> of_int (2 ^ 33 * 100)" "(of_int b :: rat) \<le> of_int (2 ^ 33 * 100)"
    using assms(5,7) by (simp_all only: of_int_le_iff)
  moreover have "(0 :: rat) \<le> of_int a" "(0 :: rat) \<le> of_int b" using assms(4,6) by simp_all
  ultimately have "\<bar>x - y\<bar> < 2 ^ 34" using assms(1-3) unfolding abs_le_iff abs_less_iff by (simp add: field_simps)
  from fl_near [OF this] have "\<bar>js_minus x y - (x - y)\<bar> \<le> 1 / 2 ^ 20" by (simp add: js_minus_def)
  then show ?thesis using assms(1,2) unfolding abs_le_iff by (simp add: field_simps)
qed

text \<open>The comparison of a difference with \<open>0.009\<close>.\<close>

lemma within_tolerance:
  assumes "\<bar>z - of_int d / 100\<bar> \<le> 1 / 2 ^ 11 + 2 / 2 ^ 20"
  shows "z \<le> tolerance \<longleftrightarrow> d \<le> 0" "\<bar>z\<bar> \<le> tolerance \<longleftrightarrow> d = 0"
proof -
  have pos: "1 \<le> (of_int d :: rat)" if "1 \<le> d" using that by (metis of_int_1 of_int_le_iff)
  have neg: "(of_int d :: rat) \<le> - 1" if "d \<le> - 1" using that by (metis of_int_1 of_int_le_iff of_int_minus)
  have zero: "(of_int d :: rat) \<le> 0" if "d \<le> 0" using that by simp
  note near = assms tolerance_near
  show "z \<le> tolerance \<longleftrightarrow> d \<le> 0"
  proof (cases "d \<le> 0")
    case True
    then show ?thesis using zero near unfolding abs_le_iff by (simp add: field_simps)
  next
    case False
    then show ?thesis using pos near unfolding abs_le_iff by (simp add: field_simps)
  qed
  show "\<bar>z\<bar> \<le> tolerance \<longleftrightarrow> d = 0"
  proof (cases "d = 0")
    case True
    then show ?thesis using near unfolding abs_le_iff by (simp add: field_simps)
  next
    case False
    then consider "1 \<le> d" | "d \<le> - 1" by linarith
    then show ?thesis using False pos neg near unfolding abs_le_iff by cases (simp_all add: field_simps)
  qed
qed

lemma outstanding_exact:
  assumes "0 \<le> allocated_to (inv_id v) s" "allocated_to (inv_id v) s \<le> inv_gross v" "inv_gross v < 2 ^ 33 * 100"
  shows "outstanding_amount v s \<le> tolerance \<longleftrightarrow> allocated_to (inv_id v) s = inv_gross v"
proof -
  have "\<bar>outstanding_amount v s - of_int (inv_gross v - allocated_to (inv_id v) s) / 100\<bar> \<le> 1 / 2 ^ 20 + 2 / 2 ^ 20"
    unfolding outstanding_amount_def using assms by (intro difference_near number_of_cents_near) simp_all
  then have "\<bar>outstanding_amount v s - of_int (inv_gross v - allocated_to (inv_id v) s) / 100\<bar> \<le> 1 / 2 ^ 11 + 2 / 2 ^ 20"
    by (rule order_trans) simp
  from within_tolerance(1) [OF this] assms(2) show ?thesis by auto
qed

section \<open>The sum of the allocations\<close>

lemma allocation_sum_near:
  assumes "\<forall>r \<in> set rs. 0 \<le> r" "sum_list rs < 2 ^ 33" "length rs \<le> 256"
  shows "\<bar>allocation_sum rs - sum_list rs\<bar> \<le> of_nat (length rs) / 2 ^ 20"
  using assms
proof (induction rs rule: rev_induct)
  case (snoc r rs)
  have "0 \<le> r" "\<forall>r \<in> set rs. 0 \<le> r" "sum_list rs < 2 ^ 33" "length rs \<le> 256" using snoc.prems by auto
  moreover have "0 \<le> sum_list rs" using calculation(2) by (simp add: sum_list_nonneg)
  moreover note IH = snoc.IH [OF calculation(2-4)]
  moreover have "of_nat (length rs) \<le> (256 :: rat)" using calculation(4) by (metis of_nat_le_iff of_nat_numeral)
  ultimately have "\<bar>allocation_sum rs + r\<bar> < 2 ^ 34" using snoc.prems(2) unfolding abs_le_iff abs_less_iff by (simp add: field_simps)
  from fl_near [OF this] have "\<bar>allocation_sum (rs @ [r]) - (allocation_sum rs + r)\<bar> \<le> 1 / 2 ^ 20"
    by (simp add: allocation_sum_def js_plus_def)
  with IH show ?case unfolding abs_le_iff by (simp add: field_simps)
qed (simp add: allocation_sum_def)

lemma sum_near:
  assumes "list_all2 shows_cents rs cs"
  shows "\<bar>sum_list rs - of_int (sum_list cs) / 100\<bar> \<le> of_nat (length rs) / 2 ^ 20"
  using assms
proof (induction rule: list_all2_induct)
  case (Cons r rs c cs)
  with shows_cents_near(1) [OF Cons.hyps(1)] show ?case unfolding abs_le_iff by (simp add: field_simps)
qed simp

lemma total_exact:
  assumes "list_all2 shows_cents rs cs" "shows_cents amount c" "sum_list rs < 2 ^ 33" "length rs \<le> 256"
  shows "tolerance < \<bar>js_minus (allocation_sum rs) amount\<bar> \<longleftrightarrow> sum_list cs \<noteq> c"
proof -
  have pos: "\<forall>r \<in> set rs. 0 \<le> r" using assms(1) by (induction rule: list_all2_induct) (auto dest: shows_cents_near(2))
  have "of_nat (length rs) \<le> (256 :: rat)" using assms(4) by (metis of_nat_le_iff of_nat_numeral)
  then have near: "\<bar>allocation_sum rs - of_int (sum_list cs) / 100\<bar> \<le> 1 / 2 ^ 11"
    using allocation_sum_near [OF pos assms(3,4)] sum_near [OF assms(1)] unfolding abs_le_iff by (simp add: field_simps)
  have cents: "0 \<le> c \<and> c \<le> 2 ^ 33 * 100" using shows_cents_bound [OF assms(2)] .
  have "0 \<le> sum_list cs" using assms(1) by (induction rule: list_all2_induct) (auto dest: shows_cents_bound)
  moreover have "(of_int (sum_list cs) :: rat) < of_int (2 ^ 33 * 100 + 1)"
    using sum_near [OF assms(1)] assms(3) \<open>of_nat (length rs) \<le> 256\<close> unfolding abs_le_iff by (simp add: field_simps)
  ultimately have total: "0 \<le> sum_list cs \<and> sum_list cs \<le> 2 ^ 33 * 100" by (simp only: of_int_less_iff) simp
  have "\<bar>js_minus (allocation_sum rs) amount - of_int (sum_list cs - c) / 100\<bar> \<le> 1 / 2 ^ 11 + 2 / 2 ^ 20"
    using near shows_cents_near(1) [OF assms(2)] cents total by (intro difference_near) simp_all
  from within_tolerance(2) [OF this] show ?thesis by (auto simp: not_le)
qed

text \<open>The lines of the document, once posted.\<close>

lemma draft_and_post_lines:
  assumes ok: "ledger_ok digest b" and run: "draft_and_post digest configured input user b = Inr (i, b')"
    and stable: "\<forall>l \<in> set (di_lines input). cents_stable (in_debit l) \<and> cents_stable (in_credit l)"
  shows "\<exists>j \<in> set (journals b'). journal_document j = i \<and> posting_status j = POSTED
    \<and> map gl_account (lines_of b' (journal_id j)) = map in_account (di_lines input)
    \<and> list_all2 valid_line (line_amounts (di_lines input))
        (map (\<lambda>l. (minor_value (debit l), minor_value (credit l))) (lines_of b' (journal_id j)))"
  using run
proof (rule draft_and_post_steps)
  fix v b1 w
  assume c: "create_draft configured SERVER_GENERATED input user b = Inr (v, b1)" and i: "i = doc_id (fst v)"
    and p: "post_document digest i user b1 = Inr (w, b')"
  from create_draft_journal [OF ok c stable] obtain j ls as where
    load: "load_journal_with_lines b1 (doc_id (fst v)) = (Some j, ls)" and jd: "journal_document j = doc_id (fst v)"
    and at: "lines_of b1 (journal_id j) = ls" and as: "list_all2 valid_line (line_amounts (di_lines input)) as"
      "list_all2 valid_line (stored_amounts ls) as" and acc: "map gl_account ls = map in_account (di_lines input)" .
  from post_document_writes [OF p] obtain k h where k: "find_by journal_document i (journals b1) = Some k"
    and b': "journals b' = update_by journal_id (journal_id k) (posted_journal (clock b1) (sub user) h) (journals b1)"
      "journal_lines b' = journal_lines b1" by auto
  have "k = j" using load k i by (simp add: load_journal_with_lines_def split: option.splits)
  then have "posted_journal (clock b1) (sub user) h j \<in> set (journals b')"
    using find_by_Some [OF k] by (auto simp: b'(1) set_update_by)
  moreover have "lines_of b' (journal_id j) = ls" using at by (simp add: lines_of_def b'(2))
  ultimately show ?thesis
    using as(1) acc stored_valid_amounts [OF as(2)] jd i by (intro bexI [of _ "posted_journal (clock b1) (sub user) h j"]) (simp_all add: posted_journal_def)
qed

section \<open>What a receipt does\<close>

text \<open>
  A receipt the comparison decides to the cent: amounts that show cents, at most 256 allocations, adding up to less than
  \<open>2 ^ 33\<close>. Beyond it the spacing of doubles and the number of roundings may reach the cent.
\<close>

definition ordinary_receipt :: "receipt_request \<Rightarrow> bool" where
  "ordinary_receipt x = (let rs = map snd (rrq_allocations x) in
     (\<forall>r \<in> set (rrq_amount x # rs). number_cents r \<noteq> None \<and> r < 2 ^ 33) \<and> sum_list rs < 2 ^ 33 \<and> length rs \<le> 256)"

lemma ordinary_cents:
  assumes "ordinary_receipt x"
  obtains c cs where "shows_cents (rrq_amount x) c" "list_all2 shows_cents (map snd (rrq_allocations x)) cs"
    "column_cents (rrq_amount x) = c" "map (column_cents \<circ> snd) (rrq_allocations x) = cs"
proof -
  let ?rs = "map snd (rrq_allocations x)"
  have show1: "shows_cents r (column_cents r)" if "number_cents r \<noteq> None" "r < 2 ^ 33" for r
    using that by (auto simp: shows_cents_def column_cents_def)
  have "list_all2 shows_cents ?rs (map column_cents ?rs)"
    using assms show1 by (auto simp: ordinary_receipt_def Let_def list_all2_conv_all_nth)
  moreover have "shows_cents (rrq_amount x) (column_cents (rrq_amount x))"
    using assms show1 by (simp add: ordinary_receipt_def Let_def)
  ultimately show thesis using that by (simp add: comp_def)
qed

lemma resolved_receipt:
  assumes "resolve_receipt_defaults raw b = Inr x"
  shows "rrq_entity x = rrq_entity raw" "rrq_payer x = rrq_payer raw" "rrq_amount x = rrq_amount raw" "rrq_date x = rrq_date raw"
    "rrq_allocations x = rrq_allocations raw"
  using assms by (auto simp: resolve_receipt_defaults_def result_simps)

lemma receipt_total:
  assumes "ordinary_receipt x" "assert_receipt_can_be_recorded today x s = Inr ()"
  shows "column_cents (rrq_amount x) = sum_list (map (column_cents \<circ> snd) (rrq_allocations x))"
proof -
  from ordinary_cents [OF assms(1)] obtain c cs where c: "shows_cents (rrq_amount x) c"
      "list_all2 shows_cents (map snd (rrq_allocations x)) cs" "column_cents (rrq_amount x) = c"
      "map (column_cents \<circ> snd) (rrq_allocations x) = cs" .
  have "sum_list (map snd (rrq_allocations x)) < 2 ^ 33" "length (map snd (rrq_allocations x)) \<le> 256"
    using assms(1) by (simp_all add: ordinary_receipt_def Let_def)
  from total_exact [OF c(2,1) this] assms(2) show ?thesis
    by (auto simp: assert_receipt_can_be_recorded_def result_simps c(3,4))
qed

text \<open>C18: a recorded receipt is of the amount its allocations add up to, to the cent, under the next number of its entity; they
  were of issued or partly paid invoices of the payer, at most one for each; an invoice they touch becomes paid exactly when
  nothing of it is left, and partly paid otherwise; no other invoice changes; and the ledger gains one document, posted.\<close>

theorem receipt_contract:
  assumes "ar_reachable digest configured s" and run: "record_receipt digest configured y today raw user s = Inr (i, s')"
    and ord: "ordinary_receipt raw" and small: "\<forall>v \<in> set (ar_invoices s). inv_gross v < 2 ^ 33 * 100"
  shows "\<exists>r as d. receipts s' = receipts s @ [r] \<and> rct_id r = i \<and> rct_entity r = rrq_entity raw \<and> rct_payer r = rrq_payer raw
      \<and> rct_no r = receipt_number y (rrq_entity raw) (rrq_date raw) s \<and> rct_amount r = sum_list (map ral_amount as) \<and> 0 < rct_amount r
      \<and> receipt_allocations s' = receipt_allocations s @ as \<and> (\<forall>a \<in> set as. ral_receipt a = i)
      \<and> map ral_invoice as = map fst (rrq_allocations raw) \<and> distinct (map ral_invoice as)
      \<and> (\<forall>v \<in> set (ar_invoices s). inv_id v \<in> fst ` set (rrq_allocations raw) \<longrightarrow>
           inv_status v \<in> {InvIssued, InvPartiallyPaid} \<and> inv_entity v = rrq_entity raw \<and> inv_customer v = rrq_payer raw)
      \<and> ar_invoices s' = map (\<lambda>v. if inv_id v \<in> fst ` set (rrq_allocations raw)
           then v\<lparr>inv_status := if allocated_to (inv_id v) s' = inv_gross v then InvPaid else InvPartiallyPaid\<rparr> else v) (ar_invoices s)
      \<and> documents (ar_books s') = documents (ar_books s) @ [d] \<and> rct_document r = Some (doc_id d) \<and> status d = POSTED"
proof -
  have ok: "ar_ok digest s" using ar_reachable_ok [OF assms(1)] .
  have ok': "ar_ok digest s'" using record_receipt_ok [OF ok run] .
  have fresh: "show_nat (ar_next s) \<notin> rct_id ` set (receipts s)" using ok keyed_fresh by (auto simp: ar_ok_def)
  from run obtain x where x: "resolve_receipt_defaults raw (ar_books s) = Inr x"
    and chk: "assert_receipt_can_be_recorded today x s = Inr ()"
    and w: "write_receipt digest configured y x user s = Inr (i, s')" by (rule record_receipt_checks)
  note same = resolved_receipt [OF x]
  have ordx: "ordinary_receipt x" using ord by (simp add: ordinary_receipt_def same)
  from write_receipt_writes [OF w fresh] obtain r d b s2 where i: "i = show_nat (ar_next s)"
    and r: "r = recorded_row x (receipt_number y (rrq_entity x) (rrq_date x) s) i" and pos: "0 < rct_amount r"
    and s2: "s2 = s\<lparr>receipt_allocations := receipt_allocations s @ allocation_rows x i\<rparr>"
    and p: "draft_and_post digest configured (receipt_draft x i (rct_no r)) user (ar_books s) = Inr (d, b)"
    and s': "s' = ar_action ''RECORD_RECEIPT'' user i (2 + length (rrq_allocations x)) (s2\<lparr>ar_next := Suc (ar_next s),
          ar_invoices := map (\<lambda>v. if inv_id v \<in> fst ` set (rrq_allocations x) then settled_status s2 v else v) (ar_invoices s),
          ar_books := b, receipts := receipts s @ [r\<lparr>rct_document := Some d\<rparr>]\<rparr>)"
    by blast
  let ?as = "allocation_rows x i"
  have as: "\<forall>a \<in> set ?as. ral_receipt a = i" "map ral_invoice ?as = map fst (rrq_allocations raw)"
    "map ral_amount ?as = map (column_cents \<circ> snd) (rrq_allocations x)"
    by (auto simp: allocation_rows_def same(5))
  have tables: "receipts s' = receipts s @ [r\<lparr>rct_document := Some d\<rparr>]" "receipt_allocations s' = receipt_allocations s @ ?as"
    "documents (ar_books s') = documents b"
    "ar_invoices s' = map (\<lambda>v. if inv_id v \<in> fst ` set (rrq_allocations raw) then settled_status s2 v else v) (ar_invoices s)"
    by (simp_all add: s' ar_action_def s2 write_action_def same)
  have allocated: "allocated_to k s2 = allocated_to k s'" for k by (simp add: allocated_to_def tables(2) s2)
  have "distinct (map (\<lambda>a. (ral_receipt a, ral_invoice a)) ?as)" using ok' by (simp add: ar_ok_def tables(2))
  then have dist: "distinct (map ral_invoice ?as)"
    using as(1) by (auto simp: distinct_map inj_on_def)
  have status: "settled_status s2 v = v\<lparr>inv_status := if allocated_to (inv_id v) s' = inv_gross v then InvPaid else InvPartiallyPaid\<rparr>"
    if v: "v \<in> set (ar_invoices s)" for v
  proof -
    define w where "w = (if inv_id v \<in> fst ` set (rrq_allocations raw) then settled_status s2 v else v)"
    have "w \<in> set (ar_invoices s')" using v by (auto simp: tables(4) w_def)
    moreover have "inv_id w = inv_id v" "inv_gross w = inv_gross v" by (simp_all add: w_def)
    ultimately have fits: "allocated_to (inv_id v) s2 \<le> inv_gross v"
      using ar_ok_fits [OF ok'] unfolding allocations_fit_def allocated by metis
    have "0 \<le> allocated_to (inv_id v) s2"
      using ok' unfolding allocated unfolding allocated_to_def ar_ok_def ar_allocation_ok_def by (intro sum_list_nonneg) fastforce
    from outstanding_exact [OF this fits] small v show ?thesis by (simp add: settled_status_def allocated)
  qed
  have checked: "\<forall>v \<in> set (ar_invoices s). inv_id v \<in> fst ` set (rrq_allocations raw) \<longrightarrow>
           inv_status v \<in> {InvIssued, InvPartiallyPaid} \<and> inv_entity v = rrq_entity raw \<and> inv_customer v = rrq_payer raw"
  proof (intro ballI impI)
    fix v assume v: "v \<in> set (ar_invoices s)" "inv_id v \<in> fst ` set (rrq_allocations raw)"
    have "find_by inv_id (inv_id v) (ar_invoices s) = Some v" using ok v(1) by (simp add: ar_ok_def keyed_def find_by_unique)
    then show "inv_status v \<in> {InvIssued, InvPartiallyPaid} \<and> inv_entity v = rrq_entity raw \<and> inv_customer v = rrq_payer raw"
      using receipt_checked [OF chk] v(2) unfolding same by fastforce
  qed
  have invoices: "ar_invoices s' = map (\<lambda>v. if inv_id v \<in> fst ` set (rrq_allocations raw)
           then v\<lparr>inv_status := if allocated_to (inv_id v) s' = inv_gross v then InvPaid else InvPartiallyPaid\<rparr> else v) (ar_invoices s)"
    unfolding tables(4) using status by (intro map_cong) auto
  have led: "ledger_ok digest (ar_books s)" using ok by (simp add: ar_ok_def)
  from draft_and_post_document [OF led p, of i] obtain e where e: "doc_id e = d" "status e = POSTED"
      "documents (ar_books s') = documents (ar_books s) @ [e]" by (auto simp: receipt_draft_def tables(3))
  have row: "rct_id r = i" "rct_entity r = rrq_entity raw" "rct_payer r = rrq_payer raw"
    "rct_no r = receipt_number y (rrq_entity raw) (rrq_date raw) s" "rct_amount r = sum_list (map ral_amount ?as)"
    using receipt_total [OF ordx chk] by (simp_all add: r recorded_row_def same as(3))
  show ?thesis
    by (rule exI [of _ "r\<lparr>rct_document := Some d\<rparr>"], rule exI [of _ ?as], rule exI [of _ e])
      (use tables(1,2) as(1,2) dist checked invoices e row pos in simp)
qed

section \<open>What issuing an invoice does\<close>

lemma resolved_invoice:
  assumes "resolve_invoice_defaults raw b = Inr x"
  shows "irq_entity x = irq_entity raw" "irq_customer x = irq_customer raw" "irq_net x = irq_net raw" "irq_tax x = irq_tax raw"
    "irq_date x = irq_date raw" "irq_revenue x = irq_revenue raw"
  using assms by (auto simp: resolve_invoice_defaults_def Let_def result_simps split: option.splits if_splits prod.splits)

lemma valid_number_line:
  "valid_line (JNumber (Finite d), JNumber (Finite c)) a \<Longrightarrow> number_cents d = Some (fst a) \<and> number_cents c = Some (snd a)"
  by (auto simp: valid_line_def cents_of_def split: if_splits option.splits)

lemma number_cents_0: "number_cents 0 = Some 0"
  by (simp add: number_cents_def reads_back_def round_half_even_def)

text \<open>C19: an issued invoice is of what was asked, under the next number of its entity; its gross amount is its net amount plus
  its tax; and the ledger gains its document, posted, which debits the receivable account with the gross amount and credits
  the revenue account with the net amount and the tax account, when there is tax, with the tax.\<close>

theorem issue_contract:
  assumes "ar_reachable digest configured s" and run: "issue_ar_invoice digest configured y today raw user s = Inr (i, s')"
    and small: "irq_net raw < 2 ^ 45" "irq_tax raw < 2 ^ 45" "js_plus (irq_net raw) (irq_tax raw) < 2 ^ 45"
    and pos: "0 \<le> irq_tax raw"
  shows "\<exists>v. \<exists>j \<in> set (journals (ar_books s')). ar_invoices s' = ar_invoices s @ [v] \<and> inv_id v = i
      \<and> inv_entity v = irq_entity raw \<and> inv_customer v = irq_customer raw \<and> inv_status v = InvIssued
      \<and> inv_no v = invoice_number y (irq_entity raw) (irq_date raw) s
      \<and> number_cents (irq_net raw) = Some (inv_net v) \<and> number_cents (irq_tax raw) = Some (inv_tax v)
      \<and> inv_gross v = inv_net v + inv_tax v
      \<and> inv_document v = Some (journal_document j) \<and> posting_status j = POSTED
      \<and> map (\<lambda>l. (minor_value (debit l), minor_value (credit l))) (lines_of (ar_books s') (journal_id j))
          = [(inv_gross v, 0), (0, inv_net v)] @ (if 0 < irq_tax raw then [(0, inv_tax v)] else [])
      \<and> gl_account (lines_of (ar_books s') (journal_id j) ! 1) = irq_revenue raw"
proof -
  have ok: "ar_ok digest s" using ar_reachable_ok [OF assms(1)] .
  have fresh: "show_nat (ar_next s) \<notin> inv_id ` set (ar_invoices s)" using ok keyed_fresh by (auto simp: ar_ok_def)
  from run obtain x where x: "resolve_invoice_defaults raw (ar_books s) = Inr x" and safe: "assert_inputs_are_sap_safe today x s = Inr ()"
    and w: "record_invoice digest configured y x user s = Inr (i, s')" by (rule issue_ar_invoice_checks)
  note same = resolved_invoice [OF x]
  define no where "no = invoice_number y (irq_entity x) (irq_date x) s"
  define gross where "gross = js_plus (irq_net x) (irq_tax x)"
  from record_invoice_writes [OF w fresh] obtain d b where i: "i = show_nat (ar_next s)"
    and sum: "inv_gross (issued_row x no i) = inv_net (issued_row x no i) + inv_tax (issued_row x no i)"
    and p: "draft_and_post digest configured (invoice_draft x gross i no) user (ar_books s) = Inr (d, b)"
    and s': "s' = ar_action ''ISSUE_AR_INVOICE'' user i 3 (s\<lparr>ar_next := Suc (ar_next s),
        ar_lines := ar_lines s @ [issued_line x i], ar_books := b, ar_invoices := ar_invoices s @ [(issued_row x no i)\<lparr>inv_document := Some d\<rparr>]\<rparr>)"
    unfolding no_def [symmetric] gross_def by (auto simp: issued_row_def)
  have taxed: "0 < irq_tax x \<Longrightarrow> truthy (irq_tax_account x)"
    using safe by (auto simp: assert_inputs_are_sap_safe_def result_simps assert_tax_fields_consistent_def split: if_splits)
  then have lines: "di_lines (invoice_draft x gross i no) =
      [money_line (the (irq_account x)) gross 0 gross (irq_currency x) (irq_customer x) None ''AR_INVOICE'' i (''CxC factura '' @ no),
       money_line (irq_revenue x) 0 (irq_net x) (irq_net x) (irq_currency x) (irq_customer x) (irq_tax_code x) ''AR_INVOICE'' i (irq_description x)]
      @ (if 0 < irq_tax x then [money_line (the (irq_tax_account x)) 0 (irq_tax x) (irq_tax x) (irq_currency x) (irq_customer x)
          (irq_tax_code x) ''AR_INVOICE'' i (''IVA d'' @ [CHR 0xE9] @ ''bito factura '' @ no)] else [])"
    by (simp add: invoice_draft_def build_invoice_journal_lines_def)
  have stable: "\<forall>l \<in> set (di_lines (invoice_draft x gross i no)). cents_stable (in_debit l) \<and> cents_stable (in_credit l)"
    using small unfolding lines by (simp add: money_line_def cents_stable_def same gross_def)
  have led: "ledger_ok digest (ar_books s)" using ok by (simp add: ar_ok_def)
  from draft_and_post_lines [OF led p stable] obtain j where j: "j \<in> set (journals b)" "journal_document j = d" "posting_status j = POSTED"
    and acc: "map gl_account (lines_of b (journal_id j)) = map in_account (di_lines (invoice_draft x gross i no))"
    and val: "list_all2 valid_line (line_amounts (di_lines (invoice_draft x gross i no)))
        (map (\<lambda>l. (minor_value (debit l), minor_value (credit l))) (lines_of b (journal_id j)))" by blast
  let ?am = "map (\<lambda>l. (minor_value (debit l), minor_value (credit l))) (lines_of b (journal_id j))"
  let ?v = "(issued_row x no i)\<lparr>inv_document := Some d\<rparr>"
  from val have "list_all2 valid_line ([(JNumber (Finite gross), JNumber (Finite 0)), (JNumber (Finite 0), JNumber (Finite (irq_net x)))]
      @ (if 0 < irq_tax x then [(JNumber (Finite 0), JNumber (Finite (irq_tax x)))] else [])) ?am"
    unfolding lines by (simp add: line_amounts_def money_line_def split: if_splits)
  then obtain a1 a2 as where am: "?am = a1 # a2 # as" and a1: "valid_line (JNumber (Finite gross), JNumber (Finite 0)) a1"
    and a2: "valid_line (JNumber (Finite 0), JNumber (Finite (irq_net x))) a2"
    and as: "list_all2 valid_line (if 0 < irq_tax x then [(JNumber (Finite 0), JNumber (Finite (irq_tax x)))] else []) as"
    by (auto simp: list_all2_Cons1)
  have tax: "as = (if 0 < irq_tax x then [(0, column_cents (irq_tax x))] else []) \<and> number_cents (irq_tax x) = Some (column_cents (irq_tax x))"
  proof (cases "0 < irq_tax x")
    case True
    then obtain a where "as = [a]" "valid_line (JNumber (Finite 0), JNumber (Finite (irq_tax x))) a" using as by (auto simp: list_all2_Cons1)
    with valid_number_line [of 0 "irq_tax x" a] True show ?thesis by (cases a) (auto simp: number_cents_0 column_cents_def)
  next
    case False
    then have "irq_tax x = 0" using pos by (simp add: same)
    then show ?thesis using as by (simp add: number_cents_0 column_cents_def)
  qed
  have amounts: "a1 = (column_cents gross, 0)" "a2 = (0, column_cents (irq_net x))" "number_cents (irq_net x) = Some (column_cents (irq_net x))"
    using valid_number_line [OF a1] valid_number_line [OF a2] by (cases a1; cases a2; simp add: number_cents_0 column_cents_def)+
  have tables: "ar_invoices s' = ar_invoices s @ [?v]" "journals (ar_books s') = journals b" "lines_of (ar_books s') = lines_of b"
    by (simp_all add: s' ar_action_def write_action_def lines_of_def fun_eq_iff)
  have v: "inv_id ?v = i" "inv_entity ?v = irq_entity x" "inv_customer ?v = irq_customer x" "inv_status ?v = InvIssued"
    "inv_no ?v = no" "inv_net ?v = column_cents (irq_net x)" "inv_tax ?v = column_cents (irq_tax x)" "inv_gross ?v = column_cents gross"
    "inv_document ?v = Some d" by (simp_all add: issued_row_def gross_def)
  have "inv_gross ?v = inv_net ?v + inv_tax ?v" using sum by simp
  moreover have "gl_account (lines_of b (journal_id j) ! 1) = irq_revenue x"
    using arg_cong [OF acc, of "\<lambda>xs. xs ! 1"] arg_cong [OF acc, of length] by (simp add: lines money_line_def)
  moreover have "?am = [(inv_gross ?v, 0), (0, inv_net ?v)] @ (if 0 < irq_tax x then [(0, inv_tax ?v)] else [])"
    using am tax amounts v by simp
  ultimately show ?thesis
    using tax amounts(3) v j tables
    by (intro exI [of _ ?v] bexI [of _ j]) (simp_all only: tables v j same no_def simp_thms)
qed

text \<open>C20: an invoice whose net amount and tax add up, as doubles, to a number that does not show at most two decimals is refused:
  its receivable line is not an amount in cents for the double entry check.\<close>

theorem gross_must_show_cents:
  assumes "number_cents (js_plus (irq_net raw) (irq_tax raw)) = None"
  shows "\<exists>e. issue_ar_invoice digest configured y today raw user s = Inl e"
proof (cases "issue_ar_invoice digest configured y today raw user s")
  case (Inr r)
  obtain i s' where r: "r = (i, s')" by (cases r)
  from Inr r obtain x where x: "resolve_invoice_defaults raw (ar_books s) = Inr x"
    and w: "record_invoice digest configured y x user s = Inr (i, s')" using issue_ar_invoice_checks by metis
  let ?g = "js_plus (irq_net x) (irq_tax x)"
  from w obtain k no b c where "draft_and_post digest configured (invoice_draft x ?g k no) user b = Inr c"
    by (auto simp: record_invoice_def Let_def result_simps)
  then obtain v where "create_draft configured SERVER_GENERATED (invoice_draft x ?g k no) user b = Inr v"
    by (auto simp: draft_and_post_def result_simps)
  then obtain d where d: "with_resolved_defaults b (invoice_draft x ?g k no) (with_document_number b (invoice_draft x ?g k no)) = Inr d"
      "validate_lines (line_amounts (rd_lines d)) = Inr ()"
    by (cases v) (auto simp: create_draft_eq_Inr)
  then obtain as where "list_all2 valid_line (line_amounts (di_lines (invoice_draft x ?g k no))) as"
    using with_resolved_defaults_entity [OF d(1)] by (auto simp: validate_lines_eq_Inr)
  then obtain a where "valid_line (JNumber (Finite ?g), JNumber (Finite 0)) a"
    by (auto simp: line_amounts_def invoice_draft_def build_invoice_journal_lines_def money_line_def list_all2_Cons1)
  from valid_number_line [OF this] assms show ?thesis by (simp add: resolved_invoice [OF x])
qed auto

lemma binade_upper:
  assumes "x \<noteq> 0"
  shows "\<bar>x\<bar> < pow2 (binade x + 1)"
proof -
  obtain n d where q: "quotient_of \<bar>x\<bar> = (n, d)" by (cases "quotient_of \<bar>x\<bar>")
  have d: "0 < d" using quotient_of_denom_pos [OF q] .
  have "\<bar>x\<bar> = of_int n / of_int d" using quotient_of_div [OF q] .
  then have "0 < of_int n / (of_int d :: rat)" using assms by (metis zero_less_abs_iff)
  then have "0 < n" using d by (simp add: zero_less_divide_iff)
  then obtain n' d' where nd: "n = int n'" "d = int d'" "0 < n'" "0 < d'"
    using d by (metis of_nat_0_less_iff zero_less_imp_eq_int)
  have x: "\<bar>x\<bar> = of_nat n' / of_nat d'" using \<open>\<bar>x\<bar> = of_int n / of_int d\<close> by (simp add: nd)
  define p where "p = floorlog 2 n'"
  define m where "m = floorlog 2 d'"
  have e: "binade x = (if pow2 (int p - int m) \<le> \<bar>x\<bar> then int p - int m else int p - int m - 1)"
    by (simp add: binade_def q Let_def p_def m_def nd)
  show ?thesis
  proof (cases "pow2 (int p - int m) \<le> \<bar>x\<bar>")
    case True
    have "of_nat n' < (of_nat (2 ^ p) :: rat)" "of_nat (2 ^ (m - 1)) \<le> (of_nat d' :: rat)" "0 < m"
      using floorlog_two_bounds [of n'] floorlog_two_bounds [of d'] nd by (simp_all only: p_def m_def of_nat_le_iff of_nat_less_iff)
    then have b: "of_nat n' < pow2 (int p)" "pow2 (int m - 1) \<le> of_nat d'"
      using pow2_nat [of "m - 1"] by (simp_all add: pow2_nat of_nat_diff)
    have "pow2 (int p) = pow2 (int p - int m + 1) * pow2 (int m - 1)" by (simp add: pow2_add [symmetric])
    also have "\<dots> \<le> pow2 (int p - int m + 1) * of_nat d'" using b(2) by (intro mult_left_mono) (simp_all add: less_imp_le)
    finally show ?thesis using True b(1) nd(4) by (simp add: e x divide_less_eq)
  qed (simp add: e)
qed

text \<open>The double of a positive rational whose binade is known.\<close>

lemma fl_in_binade:
  assumes "pow2 e \<le> x" "x < pow2 (e + 1)" "- 1022 \<le> e"
  shows "fl x = of_int (round_half_even (x / pow2 (e - 52))) * pow2 (e - 52)"
proof -
  have x: "0 < x" using assms(1) less_le_trans [OF pow2_pos] by blast
  then have "pow2 (binade x) \<le> x" "x < pow2 (binade x + 1)" using binade_lower [of x] binade_upper [of x] by simp_all
  then have "pow2 (binade x) < pow2 (e + 1)" "pow2 e < pow2 (binade x + 1)" using assms(1,2) by linarith+
  then have "binade x < e + 1" "e < binade x + 1" by (simp_all only: pow2_less_iff)
  then have "binade x = e" by simp
  with x assms(3) show ?thesis by (simp add: fl_def Let_def)
qed

lemma round_half_even_near:
  assumes "2 * \<bar>x - of_int k\<bar> < 1"
  shows "round_half_even x = k"
proof -
  have "\<bar>of_int (round_half_even x) - of_int k\<bar> < (1 :: rat)"
    using assms round_half_even_error [of x] unfolding abs_le_iff abs_less_iff by (auto simp: abs_if split: if_splits)
  then have "\<bar>round_half_even x - k\<bar> < 1" by (metis of_int_1 of_int_abs of_int_diff of_int_less_iff)
  then show ?thesis by simp
qed

lemma fl_value:
  assumes "pow2 e \<le> x" "x < pow2 (e + 1)" "- 1022 \<le> e" "2 * \<bar>x / pow2 (e - 52) - of_int k\<bar> < 1"
  shows "fl x = of_int k * pow2 (e - 52)"
  using fl_in_binade [OF assms(1-3)] round_half_even_near [OF assms(4)] by simp

lemma fl_nonneg: "0 \<le> x \<Longrightarrow> 0 \<le> fl x"
proof -
  assume "0 \<le> x"
  then have "0 \<le> round_half_even (x / u)" if "0 < u" for u using that by (auto simp: round_half_even_def Let_def)
  then have "0 \<le> of_int (round_half_even (x / pow2 e)) * pow2 e" for e by (simp add: less_imp_le)
  then show ?thesis by (simp add: fl_def Let_def)
qed

text \<open>The number of a column shows its cents.\<close>

lemma number_of_cents_shows:
  assumes "0 \<le> c" "c < 2 ^ 33 * 100 - 1"
  shows "number_cents (number_of_cents c) = Some c"
proof -
  let ?r = "number_of_cents c"
  have near: "\<bar>?r - of_int c / 100\<bar> \<le> 1 / 2 ^ 20" using assms by (intro number_of_cents_near) simp_all
  have "0 \<le> ?r" using assms(1) by (simp add: number_of_cents_def fl_nonneg)
  have "(of_int c :: rat) < of_int (2 ^ 33 * 100 - 1)" using assms(2) by (simp only: of_int_less_iff)
  then have up: "?r < 2 ^ 33" using near unfolding abs_le_iff by (simp add: field_simps)
  have "2 * \<bar>?r * 100 - of_int c\<bar> < 1" using near by (auto simp: abs_le_iff abs_if field_simps)
  then have "round_half_even (?r * 100) = c" by (rule round_half_even_near)
  then have two: "reads_back 2 ?r" by (simp add: reads_back_def number_of_cents_def)
  then have "number_cents ?r \<noteq> None" using \<open>0 \<le> ?r\<close> by (simp add: number_cents_def)
  then obtain x where x: "number_cents ?r = Some x" by blast
  then have "shows_cents ?r x" using up by (simp add: shows_cents_def)
  from shows_cents_near(1) [OF this] near have "\<bar>of_int x - of_int c\<bar> < (1 :: rat)"
    unfolding abs_le_iff abs_less_iff by (simp add: field_simps)
  then have "\<bar>x - c\<bar> < 1" by (metis of_int_1 of_int_abs of_int_diff of_int_less_iff)
  then show ?thesis using x by simp
qed

lemma gross_of_260: "js_plus (number_of_cents 230) (number_of_cents 30) = 5854679515581644 * pow2 (- 51)"
proof -
  have "number_of_cents 230 = 5179139571476070 * pow2 (- 51)" "number_of_cents 30 = 5404319552844595 * pow2 (- 54)"
    using fl_value [of 1 "23 / 10" 5179139571476070] fl_value [of "- 2" "3 / 10" 5404319552844595]
    by (simp_all add: number_of_cents_def pow2_def)
  moreover have "fl (5179139571476070 * pow2 (- 51) + 5404319552844595 * pow2 (- 54)) = 5854679515581644 * pow2 (- 51)"
    using fl_value [of 1 "5179139571476070 * pow2 (- 51) + 5404319552844595 * pow2 (- 54)" 5854679515581644] by (simp add: pow2_def)
  ultimately show ?thesis by (simp only: js_plus_def)
qed

lemma gross_not_shown: "number_cents (js_plus (number_of_cents 230) (number_of_cents 30)) = None"
proof -
  let ?g = "5854679515581644 * pow2 (- 51)"
  have "round_half_even ?g = 3" "round_half_even (?g * 10) = 26" "round_half_even (?g * 100) = 260"
    by (rule round_half_even_near, simp add: pow2_def)+
  moreover have "fl 3 = 3" "fl (13 / 5) = 5854679515581645 * pow2 (- 51)"
    using fl_value [of 1 3 "3 * 2 ^ 51"] fl_value [of 1 "13 / 5" 5854679515581645] by (simp_all add: pow2_def)
  ultimately show ?thesis unfolding gross_of_260 by (simp add: number_cents_def reads_back_def pow2_def)
qed

section \<open>A concrete sale\<close>

definition demo_ar :: ar_tables where
  "demo_ar = \<lparr>ar_next = 0, ar_invoices = [], ar_lines = [], receipts = [], receipt_allocations = [],
     partner_roles = [\<lparr>bpr_partner = ''C'', bpr_entity = None, bpr_code = ''CUSTOMER'', bpr_from = ''2026-01-01'', bpr_to = None,
       bpr_status = ''ACTIVE''\<rparr>],
     contract_headers = [], billing_events = [], fiscal_invoices = [],
     ar_books = demo_books\<lparr>partners := [\<lparr>partner_id = ''C'', partner_status = ''ACTIVE''\<rparr>],
       tax_codes := [\<lparr>tax_id = ''T'', tax_status = ''ACTIVE'', tax_type = ''IVA'', output_gl_account = Some ''2'', tax_from = ''2026-01-01'', tax_to = None\<rparr>]\<rparr>\<rparr>"

text \<open>A net amount of 2.30, and the tax in cents.\<close>

definition demo_invoice_request :: "rat \<Rightarrow> ar_request" where
  "demo_invoice_request t = \<lparr>irq_entity = ''E'', irq_customer = ''C'', irq_contract = None, irq_date = ''2026-01-10'',
     irq_due = ''2026-02-10'', irq_currency = ''BOB'', irq_net = 2, irq_tax = t,
     irq_account = Some ''1'', irq_revenue = ''2'', irq_tax_account = Some ''2'', irq_tax_code = Some ''T'', irq_event = None,
     irq_description = ''service'', irq_period = None, irq_ledger = None, irq_fiscal = False\<rparr>"

definition demo_receipt_request :: receipt_request where
  "demo_receipt_request = \<lparr>rrq_entity = ''E'', rrq_payer = ''C'', rrq_date = ''2026-01-12'', rrq_amount = 1,
     rrq_currency = ''BOB'', rrq_bank = None, rrq_bank_account = Some ''2'', rrq_control_account = Some ''1'', rrq_period = Some ''P'',
     rrq_ledger = Some ''L'', rrq_allocations = [(''0'', 1)]\<rparr>"







definition demo_resolved :: ar_request where
  "demo_resolved = (demo_invoice_request 1)\<lparr>irq_period := Some ''P'', irq_ledger := Some ''L''\<rparr>"

definition demo_action :: "string \<Rightarrow> ident \<Rightarrow> action_row" where
  "demo_action code i = \<lparr>action_code = code, action_actor = ''u'', action_aggregate = Some i, affected_records = 3\<rparr>"

lemma demo_parts:
  "resolve_invoice_defaults (demo_invoice_request 1) (ar_books demo_ar) = Inr demo_resolved"
  "assert_inputs_are_sap_safe ''2026-01-10'' demo_resolved demo_ar = Inr ()"
  "invoice_number ''2026'' ''E'' ''2026-01-10'' demo_ar = ''FAC-AR-2026-000001''"
  "document_number ''2026'' ''REC'' ''2026-01-12'' None [] = ''REC-2026-000001''"
  "js_plus 2 1 = 3" "column_cents 2 = 200" "column_cents 1 = 100" "column_cents 3 = 300" "number_of_cents 300 = 3" "number_of_cents 100 = 1"
  "number_of_cents 0 = 0" "js_minus 3 0 = 3" "js_minus 1 3 = - 2" "js_minus 3 1 = 2" "js_minus 1 1 = 0" "js_plus 0 1 = 1"
  "can_access_legal_entity demo_user ''E''" "show_nat 0 = ''0''" "show_nat (Suc 0) = ''1''"
  by code_simp+

lemma demo_tolerance: "0 \<le> tolerance" "tolerance < 2"
  using tolerance_near unfolding abs_le_iff by simp_all

lemma demo_documents:
  "\<exists>d b e c. draft_and_post demo_digest None (invoice_draft demo_resolved 3 ''0'' ''FAC-AR-2026-000001'') demo_user (ar_books demo_ar) = Inr (d, b)
     \<and> partners b = [\<lparr>partner_id = ''C'', partner_status = ''ACTIVE''\<rparr>]
     \<and> draft_and_post demo_digest None (receipt_draft demo_receipt_request ''1'' ''REC-2026-000001'') demo_user
         (write_action (demo_action ''ISSUE_AR_INVOICE'' ''0'') b) = Inr (e, c)"
proof -
  have "returns (and_then (draft_and_post demo_digest None (invoice_draft demo_resolved 3 ''0'' ''FAC-AR-2026-000001'') demo_user (ar_books demo_ar)) (\<lambda>(d, b).
      and_then (draft_and_post demo_digest None (receipt_draft demo_receipt_request ''1'' ''REC-2026-000001'') demo_user
         (write_action (demo_action ''ISSUE_AR_INVOICE'' ''0'') b)) (\<lambda>(e, c). Inr (partners b = [\<lparr>partner_id = ''C'', partner_status = ''ACTIVE''\<rparr>])))) (\<lambda>x. x)"
    by code_simp
  then show ?thesis by (auto simp: returns_def and_then_def split: sum.splits)
qed

lemma demo_tables:
  "ar_next demo_ar = 0" "ar_invoices demo_ar = []" "ar_lines demo_ar = []" "receipts demo_ar = []" "receipt_allocations demo_ar = []"
  "partner_roles demo_ar = [\<lparr>bpr_partner = ''C'', bpr_entity = None, bpr_code = ''CUSTOMER'', bpr_from = ''2026-01-01'', bpr_to = None,
       bpr_status = ''ACTIVE''\<rparr>]" "sub demo_user = ''u''"
  by (simp_all add: demo_ar_def demo_user_def)

lemma demo_request_fields:
  "irq_entity (demo_invoice_request t) = ''E''" "irq_fiscal (demo_invoice_request t) = False"
  "irq_entity demo_resolved = ''E''" "irq_date demo_resolved = ''2026-01-10''" "irq_net demo_resolved = 2" "irq_tax demo_resolved = 1"
  "irq_customer demo_resolved = ''C''" "irq_contract demo_resolved = None"
  by (simp_all add: demo_resolved_def demo_invoice_request_def)

lemma demo_access: "assert_can_access_legal_entity demo_user ''E'' = Inr ()"
  using demo_parts(17) by (simp add: assert_can_access_iff)

definition demo_row_of :: "ident \<Rightarrow> ar_invoice_row" where
  "demo_row_of d = (issued_row demo_resolved ''FAC-AR-2026-000001'' ''0'')\<lparr>inv_document := Some d\<rparr>"

lemma demo_row_fields:
  "inv_id (demo_row_of d) = ''0''" "inv_entity (demo_row_of d) = ''E''" "inv_customer (demo_row_of d) = ''C''"
  "inv_gross (demo_row_of d) = 300" "inv_status (demo_row_of d) = InvIssued"
  by (simp_all add: demo_row_of_def issued_row_def demo_request_fields demo_parts)

definition demo_issued :: "ident \<Rightarrow> books \<Rightarrow> ar_tables" where
  "demo_issued d b = demo_ar\<lparr>ar_next := 1, ar_lines := [issued_line demo_resolved ''0''],
     ar_books := write_action (demo_action ''ISSUE_AR_INVOICE'' ''0'') b, ar_invoices := [demo_row_of d]\<rparr>"

lemma from_ledger_Inr [simp]: "from_ledger (Inr a) = Inr a"
  by (simp add: from_ledger_def)

lemma demo_ar_issue:
  assumes "draft_and_post demo_digest None (invoice_draft demo_resolved 3 ''0'' ''FAC-AR-2026-000001'') demo_user (ar_books demo_ar) = Inr (d, b)"
  shows "issue_ar_invoice demo_digest None ''2026'' ''2026-01-10'' (demo_invoice_request 1) demo_user demo_ar = Inr (''0'', demo_issued d b)"
proof -
  let ?v = "issued_row demo_resolved ''FAC-AR-2026-000001'' ''0''"
  have v: "0 \<le> inv_net ?v" "0 \<le> inv_tax ?v" "inv_gross ?v = inv_net ?v + inv_tax ?v"
    by (simp_all add: issued_row_def demo_request_fields demo_parts)
  have "record_invoice demo_digest None ''2026'' demo_resolved demo_user demo_ar = Inr (''0'', demo_issued d b)"
    using assms v by (simp add: record_invoice_def Let_def demo_request_fields demo_tables demo_parts insert_invoice_def ar_action_def
        update_by_def demo_issued_def demo_action_def demo_row_of_def) (simp add: issued_row_def)
  then show ?thesis
    by (simp add: issue_ar_invoice_def assert_fiscal_status_not_client_asserted_def demo_request_fields demo_access demo_parts)
qed

lemma update_invoice_status_books: "ar_books (update_invoice_status i s) = ar_books s"
  by (simp add: update_invoice_status_def)

lemma demo_receive:
  assumes "partners b = [\<lparr>partner_id = ''C'', partner_status = ''ACTIVE''\<rparr>]"
    and "draft_and_post demo_digest None (receipt_draft demo_receipt_request ''1'' ''REC-2026-000001'') demo_user
         (write_action (demo_action ''ISSUE_AR_INVOICE'' ''0'') b) = Inr (e, c)"
  shows "\<exists>s2. record_receipt demo_digest None ''2026'' ''2026-01-12'' demo_receipt_request demo_user (demo_issued d b) = Inr (''1'', s2)"
proof -
  let ?s = "demo_issued d b" and ?x = demo_receipt_request
  have x: "rrq_entity ?x = ''E''" "rrq_payer ?x = ''C''" "rrq_amount ?x = 1" "rrq_date ?x = ''2026-01-12''" "rrq_allocations ?x = [(''0'', 1)]"
    by (simp_all add: demo_receipt_request_def)
  have s: "ar_invoices ?s = [demo_row_of d]" "receipts ?s = []" "receipt_allocations ?s = []" "ar_next ?s = 1"
    "partner_roles ?s = partner_roles demo_ar" "ar_books ?s = write_action (demo_action ''ISSUE_AR_INVOICE'' ''0'') b"
    by (simp_all add: demo_issued_def demo_tables)
  have res: "resolve_receipt_defaults ?x (ar_books ?s) = Inr ?x"
    by (simp add: resolve_receipt_defaults_def demo_receipt_request_def resolve_bank_gl_account_id_def resolve_ar_control_account_id_def
        resolve_partner_account_id_def resolve_open_period_id_def resolve_ledger_id_def given_def)
  have role: "assert_has_any_active_role ''2026-01-12'' ''C'' billing_roles (Some ''E'') ?s = Inr ()"
    using assms(1) by (simp add: assert_has_any_active_role_def s write_action_def demo_tables billing_roles_def)
  have bal: "assert_invoice_has_open_balance ?x (''0'', 1) ?s = Inr ()"
    using demo_tolerance by (simp add: assert_invoice_has_open_balance_def s demo_row_fields x outstanding_amount_def allocated_to_def demo_parts)
  have chk: "assert_receipt_can_be_recorded ''2026-01-12'' ?x ?s = Inr ()"
    using role bal demo_tolerance by (simp add: assert_receipt_can_be_recorded_def x allocation_sum_def demo_parts add_to_invoice_def)
  have "\<exists>s2. write_receipt demo_digest None ''2026'' ?x demo_user ?s = Inr (''1'', s2)"
    using assms(2) by (simp add: write_receipt_def Let_def receipt_number_def s x demo_parts insert_receipt_def recorded_row_def
        allocation_rows_def insert_allocation_def demo_row_fields allocated_to_def update_invoice_statuses_after_allocation_def update_invoice_status_books)
  then show ?thesis using res chk by (simp add: record_receipt_def x demo_access)
qed

section \<open>The properties on it\<close>

lemma demo_ar_reachable: "ar_reachable demo_digest None demo_ar"
  by (rule ar_reachable.start)
    (simp_all add: ledger_ok_def books_ok_def well_keyed_def close_keys_ok_def demo_books_def demo_ar_def)

text \<open>The invoice is issued and then paid in part.\<close>

lemma demo_ar_sale:
  obtains d b s2 where
    "issue_ar_invoice demo_digest None ''2026'' ''2026-01-10'' (demo_invoice_request 1) demo_user demo_ar = Inr (''0'', demo_issued d b)"
    "record_receipt demo_digest None ''2026'' ''2026-01-12'' demo_receipt_request demo_user (demo_issued d b) = Inr (''1'', s2)"
    "ar_reachable demo_digest None (demo_issued d b)" "ar_reachable demo_digest None s2"
proof -
  obtain d b e c where p: "draft_and_post demo_digest None (invoice_draft demo_resolved 3 ''0'' ''FAC-AR-2026-000001'') demo_user (ar_books demo_ar) = Inr (d, b)"
    "partners b = [\<lparr>partner_id = ''C'', partner_status = ''ACTIVE''\<rparr>]"
    "draft_and_post demo_digest None (receipt_draft demo_receipt_request ''1'' ''REC-2026-000001'') demo_user
         (write_action (demo_action ''ISSUE_AR_INVOICE'' ''0'') b) = Inr (e, c)" using demo_documents by blast
  note i = demo_ar_issue [OF p(1)]
  obtain s2 where r: "record_receipt demo_digest None ''2026'' ''2026-01-12'' demo_receipt_request demo_user (demo_issued d b) = Inr (''1'', s2)"
    using demo_receive [OF p(2,3)] by blast
  have one: "ar_reachable demo_digest None (demo_issued d b)" using ar_reachable.step [OF demo_ar_reachable ar_step.issue [OF i]] .
  from that [OF i r one ar_reachable.step [OF one ar_step.receipt [OF r]]] show thesis .
qed

theorem receivables_backed_by_ledger_witness:
  "\<exists>s. (\<exists>d b. s = demo_issued d b) \<and> (\<exists>v \<in> set (ar_invoices s). \<exists>d \<in> set (documents (ar_books s)). inv_document v = Some (doc_id d) \<and> live d)"
proof -
  obtain d b s2 where "ar_reachable demo_digest None (demo_issued d b)" by (rule demo_ar_sale)
  from receivables_backed_by_ledger [OF this] show ?thesis by (fastforce simp: demo_issued_def)
qed

theorem allocations_never_exceed_witness:
  "\<exists>s. receipt_allocations s = [\<lparr>ral_receipt = ''1'', ral_invoice = ''0'', ral_amount = 100\<rparr>]
     \<and> (\<forall>v \<in> set (ar_invoices s). allocated_to (inv_id v) s \<le> inv_gross v)"
proof -
  obtain d b s2 where r: "record_receipt demo_digest None ''2026'' ''2026-01-12'' demo_receipt_request demo_user (demo_issued d b) = Inr (''1'', s2)"
    and re: "ar_reachable demo_digest None s2" by (rule demo_ar_sale)
  have "receipt_allocations s2 = [\<lparr>ral_receipt = ''1'', ral_invoice = ''0'', ral_amount = 100\<rparr>]"
    using r by (rule record_receipt_checks) (drule write_receipt_writes,
      auto simp: demo_issued_def demo_tables ar_action_def allocation_rows_def demo_receipt_request_def demo_parts dest!: resolved_receipt(5))
  with allocations_never_exceed [OF re] show ?thesis by blast
qed

lemma demo_ordinary: "ordinary_receipt demo_receipt_request"
proof -
  have "number_cents 1 = Some 100" by code_simp
  then show ?thesis by (simp add: ordinary_receipt_def demo_receipt_request_def)
qed

theorem receipt_contract_witness:
  "\<exists>d b s2. record_receipt demo_digest None ''2026'' ''2026-01-12'' demo_receipt_request demo_user (demo_issued d b) = Inr (''1'', s2)
     \<and> (\<exists>r. receipts s2 = [r] \<and> rct_no r = ''REC-2026-000001'' \<and> 0 < rct_amount r)"
proof -
  obtain d b s2 where one: "ar_reachable demo_digest None (demo_issued d b)"
    and r: "record_receipt demo_digest None ''2026'' ''2026-01-12'' demo_receipt_request demo_user (demo_issued d b) = Inr (''1'', s2)"
    by (rule demo_ar_sale)
  have small: "\<forall>v \<in> set (ar_invoices (demo_issued d b)). inv_gross v < 2 ^ 33 * 100" by (simp add: demo_issued_def demo_row_fields)
  have "receipts (demo_issued d b) = []" "receipt_number ''2026'' (rrq_entity demo_receipt_request) (rrq_date demo_receipt_request) (demo_issued d b) = ''REC-2026-000001''"
    by (simp_all add: demo_issued_def demo_tables receipt_number_def demo_receipt_request_def demo_parts)
  with receipt_contract [OF one r demo_ordinary small] r show ?thesis by fastforce
qed

theorem issue_contract_witness:
  "\<exists>s' v. issue_ar_invoice demo_digest None ''2026'' ''2026-01-10'' (demo_invoice_request 1) demo_user demo_ar = Inr (''0'', s')
     \<and> ar_invoices s' = [v] \<and> inv_gross v = inv_net v + inv_tax v \<and> number_cents 2 = Some (inv_net v)"
proof -
  obtain d b s2 where r: "issue_ar_invoice demo_digest None ''2026'' ''2026-01-10'' (demo_invoice_request 1) demo_user demo_ar = Inr (''0'', demo_issued d b)"
    by (rule demo_ar_sale)
  have "irq_net (demo_invoice_request 1) = 2" "irq_tax (demo_invoice_request 1) = 1" by (simp_all add: demo_invoice_request_def)
  with issue_contract [OF demo_ar_reachable r] r show ?thesis by (fastforce simp: demo_parts demo_tables)
qed

theorem gross_must_show_cents_witness:
  "number_cents (number_of_cents 230) = Some 230 \<and> number_cents (number_of_cents 30) = Some 30
     \<and> (\<exists>e. issue_ar_invoice demo_digest None ''2026'' ''2026-01-10''
          ((demo_invoice_request 1)\<lparr>irq_net := number_of_cents 230, irq_tax := number_of_cents 30\<rparr>) demo_user demo_ar = Inl e)"
  using gross_must_show_cents [of "(demo_invoice_request 1)\<lparr>irq_net := number_of_cents 230, irq_tax := number_of_cents 30\<rparr>"]
  by (simp add: gross_not_shown number_of_cents_shows)

end
