(* ===== verification/Outbox.thy ===== *)
theory Outbox
  imports Prelude JsText
begin

text \<open>
  The transactional outbox: the rows of \<open>event_outbox\<close>, the relay of
  \<open>workers/outbox/outbox-relay.ts\<close> (reserve with a lease, send, mark), the classification of the
  receiver's answers in \<open>workers/outbox/http-event-publisher.ts\<close>, the operator's view and the replay
  of \<open>workers/outbox/outbox-operations.ts\<close>, and the system of concurrent workers that may die at any
  point. Times are milliseconds. The text of the last error is not modelled.
\<close>

section \<open>Rows\<close>

datatype outbox_status = PENDING | PUBLISHED | DEAD | LEGACY_LOG_ONLY

record outbox_row =
  ev_id :: nat
  ev_topic :: string
  ev_type :: string
  ev_aggregate :: string
  ev_version :: nat
  ev_schema :: nat
  ev_key :: string
  ev_payload :: "(string \<times> string) list"
  ev_created :: nat
  ev_status :: outbox_status
  ev_attempts :: nat
  next_attempt_at :: nat
  lease_owner :: "string option"
  lease_expires_at :: "nat option"
  last_attempt_at :: "nat option"
  last_http_status :: "nat option"
  ev_published_at :: "nat option"
  dead_at :: "nat option"
  replay_count :: nat

record relay_config =
  batch_size :: nat
  lease_ms :: nat
  max_attempts :: nat
  retry_base_ms :: nat
  retry_max_ms :: nat

text \<open>The base delay doubled per attempt, with a cap; from exponent 31 on the cap applies outright.\<close>

definition compute_backoff_ms :: "nat \<Rightarrow> nat \<Rightarrow> nat \<Rightarrow> nat" where
  "compute_backoff_ms attempt base_ms max_ms =
     (let exponent = attempt - 1
      in if 31 \<le> exponent then max_ms else min max_ms (base_ms * 2 ^ exponent))"

section \<open>Reserving\<close>

definition same_aggregate :: "outbox_row \<Rightarrow> outbox_row \<Rightarrow> bool" where
  "same_aggregate p e = (ev_type p = ev_type e \<and> ev_aggregate p = ev_aggregate e)"

definition head_of_aggregate :: "outbox_row list \<Rightarrow> outbox_row \<Rightarrow> bool" where
  "head_of_aggregate rows e =
     (\<not> (\<exists>p \<in> set rows. same_aggregate p e \<and> ev_version p < ev_version e
           \<and> (ev_status p = PENDING \<or> ev_status p = DEAD)))"

definition lease_free :: "nat \<Rightarrow> outbox_row \<Rightarrow> bool" where
  "lease_free now e = (case lease_expires_at e of None \<Rightarrow> True | Some t \<Rightarrow> t < now)"

definition claimable :: "nat \<Rightarrow> outbox_row list \<Rightarrow> outbox_row \<Rightarrow> bool" where
  "claimable now rows e =
     (ev_status e = PENDING \<and> next_attempt_at e \<le> now \<and> lease_free now e \<and> head_of_aggregate rows e)"

text \<open>
  \<open>ORDER BY next_attempt_at, id LIMIT n FOR UPDATE SKIP LOCKED\<close>: the rows that another statement holds
  locked at that instant (\<open>locked\<close>) are passed over.
\<close>

definition candidates :: "nat \<Rightarrow> nat \<Rightarrow> (nat \<Rightarrow> bool) \<Rightarrow> outbox_row list \<Rightarrow> outbox_row list" where
  "candidates n now locked rows =
     take n (sort_key next_attempt_at (sort_key ev_id
       (filter (\<lambda>e. claimable now rows e \<and> \<not> locked (ev_id e)) rows)))"

definition lease :: "relay_config \<Rightarrow> string \<Rightarrow> nat \<Rightarrow> outbox_row \<Rightarrow> outbox_row" where
  "lease cfg worker now e =
     e\<lparr>lease_owner := Some worker, lease_expires_at := Some (now + lease_ms cfg),
       ev_attempts := ev_attempts e + 1, last_attempt_at := Some now\<rparr>"

definition claim_batch ::
    "relay_config \<Rightarrow> string \<Rightarrow> (nat \<Rightarrow> bool) \<Rightarrow> nat \<Rightarrow> outbox_row list \<Rightarrow> outbox_row list \<times> outbox_row list" where
  "claim_batch cfg worker locked now rows =
     (let ids = map ev_id (candidates (batch_size cfg) now locked rows);
          rows' = map (\<lambda>e. if ev_id e \<in> set ids then lease cfg worker now e else e) rows
      in (sort_key ev_id (filter (\<lambda>e. ev_id e \<in> set ids) rows'), rows'))"

section \<open>Delivering\<close>

record envelope =
  env_spec :: string
  env_event_key :: string
  env_topic :: string
  env_schema_version :: nat
  env_aggregate :: "string \<times> string \<times> nat"
  env_occurred_at :: nat
  env_producer :: string
  env_payload :: "(string \<times> string) list"

definition outbox_envelope_spec :: string where
  "outbox_envelope_spec = ''atlas.erp.outbox/1''"

definition to_envelope :: "outbox_row \<Rightarrow> envelope" where
  "to_envelope e =
     \<lparr>env_spec = outbox_envelope_spec, env_event_key = ev_key e, env_topic = ev_topic e,
      env_schema_version = ev_schema e, env_aggregate = (ev_type e, ev_aggregate e, ev_version e),
      env_occurred_at = ev_created e, env_producer = ''atlas-erp'', env_payload = ev_payload e\<rparr>"

datatype publish_result = ACK "nat option" | RETRY "nat option" | REJECTED "nat option"

datatype delivery_outcome = Published | Retry | Dead | LeaseLost

text \<open>The status of a response, or no response at all.\<close>

datatype http_answer = Response nat | NetworkError

definition rejected_statuses :: "nat list" where
  "rejected_statuses = [400, 410, 413, 415, 422]"

definition classify_response :: "http_answer \<Rightarrow> publish_result" where
  "classify_response a =
     (case a of
        NetworkError \<Rightarrow> RETRY None
      | Response s \<Rightarrow>
          if 200 \<le> s \<and> s < 300 then ACK (Some s)
          else if s \<in> set rejected_statuses then REJECTED (Some s)
          else RETRY (Some s))"

definition published_row :: "nat option \<Rightarrow> nat \<Rightarrow> outbox_row \<Rightarrow> outbox_row" where
  "published_row http now r =
     r\<lparr>ev_status := PUBLISHED, ev_published_at := Some now, dead_at := None,
       last_http_status := http, lease_owner := None, lease_expires_at := None\<rparr>"

definition mark_published :: "outbox_row \<Rightarrow> nat option \<Rightarrow> nat \<Rightarrow> outbox_row list \<Rightarrow> delivery_outcome \<times> outbox_row list" where
  "mark_published event http now rows =
     (let matches = (\<lambda>r. ev_id r = ev_id event \<and> (ev_status r = PENDING \<or> ev_status r = DEAD));
          rows' = map (\<lambda>r. if matches r then published_row http now r else r) rows
      in if filter matches rows = [] then (LeaseLost, rows) else (Published, rows'))"

definition failed_row :: "relay_config \<Rightarrow> bool \<Rightarrow> nat \<Rightarrow> nat option \<Rightarrow> nat \<Rightarrow> outbox_row \<Rightarrow> outbox_row" where
  "failed_row cfg definitive attempts http now r =
     (let dead = (definitive \<or> max_attempts cfg \<le> ev_attempts r)
      in r\<lparr>ev_status := (if dead then DEAD else PENDING), dead_at := (if dead then Some now else None),
           next_attempt_at := now + compute_backoff_ms attempts (retry_base_ms cfg) (retry_max_ms cfg),
           last_http_status := http, lease_owner := None, lease_expires_at := None\<rparr>)"

definition mark_failed ::
    "relay_config \<Rightarrow> string \<Rightarrow> outbox_row \<Rightarrow> bool \<Rightarrow> nat option \<Rightarrow> nat \<Rightarrow> outbox_row list \<Rightarrow> delivery_outcome \<times> outbox_row list" where
  "mark_failed cfg worker event definitive http now rows =
     (let matches = (\<lambda>r. ev_id r = ev_id event \<and> ev_status r = PENDING \<and> lease_owner r = Some worker);
          f = failed_row cfg definitive (ev_attempts event) http now
      in case filter matches rows of
           [] \<Rightarrow> (LeaseLost, rows)
         | r # _ \<Rightarrow> (if ev_status (f r) = DEAD then Dead else Retry,
                     map (\<lambda>r. if matches r then f r else r) rows))"

text \<open>The third step, with the answer the second one got.\<close>

definition settle ::
    "relay_config \<Rightarrow> string \<Rightarrow> outbox_row \<Rightarrow> publish_result \<Rightarrow> nat \<Rightarrow> outbox_row list \<Rightarrow> delivery_outcome \<times> outbox_row list" where
  "settle cfg worker event result now rows =
     (case result of
        ACK http \<Rightarrow> mark_published event http now rows
      | RETRY http \<Rightarrow> mark_failed cfg worker event False http now rows
      | REJECTED http \<Rightarrow> mark_failed cfg worker event True http now rows)"

definition sends :: "relay_config \<Rightarrow> outbox_row \<Rightarrow> bool" where
  "sends cfg event = (ev_attempts event \<le> max_attempts cfg)"

definition deliver ::
    "relay_config \<Rightarrow> string \<Rightarrow> (envelope \<Rightarrow> nat \<Rightarrow> http_answer) \<Rightarrow> outbox_row \<Rightarrow> nat \<Rightarrow> outbox_row list \<Rightarrow>
     delivery_outcome \<times> outbox_row list" where
  "deliver cfg worker fetch event now rows =
     (if \<not> sends cfg event then settle cfg worker event (REJECTED None) now rows
      else settle cfg worker event (classify_response (fetch (to_envelope event) (ev_attempts event))) now rows)"

fun deliver_all ::
    "relay_config \<Rightarrow> string \<Rightarrow> (envelope \<Rightarrow> nat \<Rightarrow> http_answer) \<Rightarrow> outbox_row list \<Rightarrow> nat \<Rightarrow> outbox_row list \<Rightarrow>
     delivery_outcome list \<times> outbox_row list" where
  "deliver_all cfg worker fetch [] now rows = ([], rows)"
| "deliver_all cfg worker fetch (e # es) now rows =
     (let (out, rows') = deliver cfg worker fetch e now rows;
          (outs, rows'') = deliver_all cfg worker fetch es now rows'
      in (out # outs, rows''))"

text \<open>One cycle; without a transport nothing is reserved or marked. No other process runs in between.\<close>

definition run_once ::
    "relay_config \<Rightarrow> string \<Rightarrow> (envelope \<Rightarrow> nat \<Rightarrow> http_answer) option \<Rightarrow> nat \<Rightarrow> outbox_row list \<Rightarrow>
     delivery_outcome list \<times> outbox_row list" where
  "run_once cfg worker transport now rows =
     (case transport of
        None \<Rightarrow> ([], rows)
      | Some fetch \<Rightarrow>
          let (claimed, rows') = claim_batch cfg worker (\<lambda>_. False) now rows
          in deliver_all cfg worker fetch claimed now rows')"

section \<open>Operating\<close>

datatype replay_result =
  Replayed outbox_status nat nat
  | NotFound
  | NotReplayable outbox_status

definition replayed_row :: "nat \<Rightarrow> outbox_row \<Rightarrow> outbox_row" where
  "replayed_row now r =
     r\<lparr>ev_status := PENDING, ev_published_at := None, dead_at := None, ev_attempts := 0,
       next_attempt_at := now, lease_owner := None, lease_expires_at := None,
       replay_count := replay_count r + 1\<rparr>"

definition replay_event :: "string \<Rightarrow> nat \<Rightarrow> outbox_row list \<Rightarrow> replay_result \<times> outbox_row list" where
  "replay_event k now rows =
     (case find (\<lambda>r. ev_key r = k) rows of
        None \<Rightarrow> (NotFound, rows)
      | Some r \<Rightarrow>
          if ev_status r \<noteq> DEAD \<and> ev_status r \<noteq> LEGACY_LOG_ONLY then (NotReplayable (ev_status r), rows)
          else (Replayed (ev_status r) (ev_attempts r) (replay_count r + 1),
                map (\<lambda>r. if ev_key r = k then replayed_row now r else r) rows))"

definition with_status :: "outbox_status \<Rightarrow> outbox_row list \<Rightarrow> outbox_row list" where
  "with_status s rows = filter (\<lambda>r. ev_status r = s) rows"

definition oldest_age_seconds :: "nat \<Rightarrow> outbox_row list \<Rightarrow> int option" where
  "oldest_age_seconds now rows =
     (case map ev_created rows of
        [] \<Rightarrow> None
      | c # cs \<Rightarrow> Some ((int now - int (foldr min cs c)) div 1000))"

definition max_attempts_of :: "outbox_row list \<Rightarrow> nat" where
  "max_attempts_of rows = foldr max (map ev_attempts rows) 0"

text \<open>What the worker reports after each cycle, and what the operations monitor reads.\<close>

record outbox_backlog =
  backlog_pending :: nat
  backlog_dead :: nat
  backlog_oldest :: "int option"
  backlog_max_attempts :: nat

definition backlog :: "nat \<Rightarrow> outbox_row list \<Rightarrow> outbox_backlog" where
  "backlog now rows =
     \<lparr>backlog_pending = length (with_status PENDING rows), backlog_dead = length (with_status DEAD rows),
      backlog_oldest = oldest_age_seconds now (with_status PENDING rows),
      backlog_max_attempts = max_attempts_of (with_status PENDING rows)\<rparr>"

record outbox_report =
  rep_pending :: nat
  rep_published :: nat
  rep_dead :: nat
  rep_legacy :: nat
  rep_in_flight :: nat
  rep_oldest :: "int option"
  rep_max_pending_attempts :: nat

definition read_outbox_status :: "nat \<Rightarrow> outbox_row list \<Rightarrow> outbox_report" where
  "read_outbox_status now rows =
     \<lparr>rep_pending = length (with_status PENDING rows), rep_published = length (with_status PUBLISHED rows),
      rep_dead = length (with_status DEAD rows), rep_legacy = length (with_status LEGACY_LOG_ONLY rows),
      rep_in_flight = length (filter (\<lambda>r. case lease_expires_at r of None \<Rightarrow> False | Some t \<Rightarrow> now < t)
        (with_status PENDING rows)),
      rep_oldest = oldest_age_seconds now (with_status PENDING rows),
      rep_max_pending_attempts = max_attempts_of (with_status PENDING rows)\<rparr>"

text \<open>\<open>ORDER BY dead_at ASC NULLS LAST, id ASC LIMIT n\<close>.\<close>

definition list_dead_events :: "nat \<Rightarrow> outbox_row list \<Rightarrow> outbox_row list" where
  "list_dead_events n rows =
     (let dead = sort_key ev_id (with_status DEAD rows)
      in take n (sort_key (\<lambda>r. the (dead_at r)) (filter (\<lambda>r. dead_at r \<noteq> None) dead)
           @ filter (\<lambda>r. dead_at r = None) dead))"

section \<open>The system of workers\<close>

text \<open>
  A worker that reserved an event holds it in hand until it marks it or dies: first without an
  answer, then with the answer of the receiver. \<open>sent\<close> is the history of what went to the receiver
  and whether it acknowledged. Every step is one statement of the database or one network call;
  anything may happen between two of them.
\<close>

type_synonym in_hand = "string \<times> outbox_row \<times> publish_result option"

record relay =
  outbox :: "outbox_row list"
  relay_now :: nat
  in_hand :: "in_hand list"
  sent :: "(string \<times> bool) list"

definition is_ack :: "publish_result \<Rightarrow> bool" where
  "is_ack r = (case r of ACK _ \<Rightarrow> True | _ \<Rightarrow> False)"

definition same_event :: "outbox_row \<Rightarrow> outbox_row \<Rightarrow> bool" where
  "same_event r s = (ev_id r = ev_id s \<and> ev_key r = ev_key s \<and> ev_type r = ev_type s
     \<and> ev_aggregate r = ev_aggregate s \<and> ev_version r = ev_version s)"

definition next_version :: "outbox_row list \<Rightarrow> outbox_row \<Rightarrow> nat" where
  "next_version rows e = foldr max (map ev_version (filter (\<lambda>p. same_aggregate p e) rows)) 0 + 1"

text \<open>The trigger that numbers the events of an aggregate, and the unique keys of the table.\<close>

definition new_event :: "outbox_row list \<Rightarrow> outbox_row \<Rightarrow> bool" where
  "new_event rows e = (ev_id e \<notin> ev_id ` set rows \<and> ev_key e \<notin> ev_key ` set rows
     \<and> ev_version e = next_version rows e
     \<and> ev_status e = PENDING \<and> ev_attempts e = 0 \<and> replay_count e = 0 \<and> lease_owner e = None
     \<and> lease_expires_at e = None \<and> ev_published_at e = None)"

inductive relay_step :: "relay_config \<Rightarrow> relay \<Rightarrow> relay \<Rightarrow> bool" for cfg :: relay_config where
  claim: "claim_batch cfg w locked (relay_now s) (outbox s) = (claimed, rows) \<Longrightarrow>
    relay_step cfg s (s\<lparr>outbox := rows, in_hand := in_hand s @ map (\<lambda>e. (w, e, None)) claimed\<rparr>)"
| send: "\<lbrakk>in_hand s = xs @ (w, e, None) # ys; sends cfg e; r = classify_response answer\<rbrakk> \<Longrightarrow>
    relay_step cfg s (s\<lparr>in_hand := xs @ (w, e, Some r) # ys, sent := sent s @ [(ev_key e, is_ack r)]\<rparr>)"
| exhausted: "\<lbrakk>in_hand s = xs @ (w, e, None) # ys; \<not> sends cfg e\<rbrakk> \<Longrightarrow>
    relay_step cfg s (s\<lparr>in_hand := xs @ (w, e, Some (REJECTED None)) # ys\<rparr>)"
| mark: "\<lbrakk>in_hand s = xs @ (w, e, Some r) # ys; settle cfg w e r (relay_now s) (outbox s) = (out, rows)\<rbrakk> \<Longrightarrow>
    relay_step cfg s (s\<lparr>in_hand := xs @ ys, outbox := rows\<rparr>)"
| die: "in_hand s = xs @ h # ys \<Longrightarrow> relay_step cfg s (s\<lparr>in_hand := xs @ ys\<rparr>)"
| emit: "new_event (outbox s) e \<Longrightarrow> relay_step cfg s (s\<lparr>outbox := outbox s @ [e]\<rparr>)"
| replay: "replay_event k (relay_now s) (outbox s) = (res, rows) \<Longrightarrow> relay_step cfg s (s\<lparr>outbox := rows\<rparr>)"
| tick: "relay_now s \<le> t \<Longrightarrow> relay_step cfg s (s\<lparr>relay_now := t\<rparr>)"

inductive_cases relay_step_cases: "relay_step cfg s s'"

definition relay_reachable :: "relay_config \<Rightarrow> relay \<Rightarrow> relay \<Rightarrow> bool" where
  "relay_reachable cfg = (relay_step cfg)\<^sup>*\<^sup>*"

end
