(* ===== verification/OutboxInvariant.thy ===== *)
theory OutboxInvariant
  imports Outbox
begin

text \<open>
  What holds in every reachable state of the outbox, whatever the workers do: only acknowledged
  events are published, an event is started only when its predecessors are published, and the
  number of sends of an event stays within its budget.
\<close>

section \<open>The invariant of the outbox\<close>

definition started :: "outbox_row \<Rightarrow> bool" where
  "started r = (0 < ev_attempts r \<or> 0 < replay_count r \<or> ev_status r \<noteq> PENDING)"

definition earlier :: "outbox_row \<Rightarrow> outbox_row \<Rightarrow> bool" where
  "earlier p r = (same_aggregate p r \<and> ev_version p < ev_version r)"

definition rows_ok :: "outbox_row list \<Rightarrow> (string \<times> bool) list \<Rightarrow> bool" where
  "rows_ok rows log =
     (distinct (map ev_id rows) \<and> distinct (map ev_key rows)
      \<and> (\<forall>r \<in> set rows. ev_status r \<noteq> LEGACY_LOG_ONLY)
      \<and> (\<forall>r \<in> set rows. ev_status r = PUBLISHED \<longrightarrow> (ev_key r, True) \<in> set log)
      \<and> (\<forall>r \<in> set rows. started r \<longrightarrow> (\<forall>p \<in> set rows. earlier p r \<longrightarrow> ev_status p = PUBLISHED)))"

definition hand_ok :: "outbox_row list \<Rightarrow> (string \<times> bool) list \<Rightarrow> in_hand \<Rightarrow> bool" where
  "hand_ok rows log h = (case h of (w, e, x) \<Rightarrow>
     (\<exists>r \<in> set rows. same_event r e \<and> started r) \<and> (\<forall>a. x = Some (ACK a) \<longrightarrow> (ev_key e, True) \<in> set log))"

definition log_ordered :: "outbox_row list \<Rightarrow> (string \<times> bool) list \<Rightarrow> bool" where
  "log_ordered rows log =
     (fst ` set log \<subseteq> ev_key ` set rows
      \<and> (\<forall>xs k a ys. log = xs @ (k, a) # ys \<longrightarrow>
           (\<forall>r \<in> set rows. \<forall>p \<in> set rows. ev_key r = k \<and> earlier p r \<longrightarrow> (ev_key p, True) \<in> set xs)))"

definition relay_ok :: "relay \<Rightarrow> bool" where
  "relay_ok s = (rows_ok (outbox s) (sent s) \<and> (\<forall>h \<in> set (in_hand s). hand_ok (outbox s) (sent s) h)
     \<and> log_ordered (outbox s) (sent s))"

text \<open>An update of the rows that keeps their identity and never takes back a publication.\<close>

definition gentle_row :: "outbox_row list \<Rightarrow> (string \<times> bool) list \<Rightarrow> outbox_row \<Rightarrow> outbox_row \<Rightarrow> bool" where
  "gentle_row rows log r r' = (same_event r' r \<and> ev_status r' \<noteq> LEGACY_LOG_ONLY
     \<and> (ev_status r = PUBLISHED \<longrightarrow> ev_status r' = PUBLISHED)
     \<and> (ev_status r' = PUBLISHED \<longrightarrow> (ev_key r, True) \<in> set log)
     \<and> (started r \<longrightarrow> started r')
     \<and> (started r' \<longrightarrow> started r \<or> (\<forall>p \<in> set rows. earlier p r \<longrightarrow> ev_status p = PUBLISHED)))"

definition gentle :: "outbox_row list \<Rightarrow> (string \<times> bool) list \<Rightarrow> (outbox_row \<Rightarrow> outbox_row) \<Rightarrow> bool" where
  "gentle rows log f = (\<forall>r \<in> set rows. gentle_row rows log r (f r))"

lemma gentle_row_refl: "rows_ok rows log \<Longrightarrow> r \<in> set rows \<Longrightarrow> gentle_row rows log r r"
  by (simp add: gentle_row_def same_event_def rows_ok_def)

lemma earlier_same: "same_event p p' \<Longrightarrow> same_event r r' \<Longrightarrow> earlier p r = earlier p' r'"
  by (simp add: same_event_def earlier_def same_aggregate_def)

lemma map_same_keys:
  assumes "\<forall>r \<in> set rows. same_event (f r) r"
  shows "map ev_id (map f rows) = map ev_id rows" "map ev_key (map f rows) = map ev_key rows"
  using assms by (auto simp: same_event_def)

lemma gentle_rows_ok:
  assumes "rows_ok rows log" "gentle rows log f"
  shows "rows_ok (map f rows) log"
proof -
  have g: "same_event (f r) r" "ev_status (f r) \<noteq> LEGACY_LOG_ONLY"
    "ev_status r = PUBLISHED \<Longrightarrow> ev_status (f r) = PUBLISHED"
    "ev_status (f r) = PUBLISHED \<Longrightarrow> (ev_key r, True) \<in> set log"
    "started (f r) \<Longrightarrow> started r \<or> (\<forall>p \<in> set rows. earlier p r \<longrightarrow> ev_status p = PUBLISHED)"
    if "r \<in> set rows" for r
    using assms(2) that by (auto simp: gentle_def gentle_row_def)
  have keys: "map ev_id (map f rows) = map ev_id rows" "map ev_key (map f rows) = map ev_key rows"
    using g(1) by (intro map_same_keys ballI; simp)+
  have "ev_status (f p) = PUBLISHED" if "r \<in> set rows" "p \<in> set rows" "started (f r)" "earlier (f p) (f r)" for r p
  proof -
    have "earlier p r" using that earlier_same [OF g(1) g(1)] by blast
    then have "ev_status p = PUBLISHED"
      using assms(1) g(5) [OF that(1,3)] that(1,2) by (auto simp: rows_ok_def)
    then show ?thesis using g(3) that(2) by blast
  qed
  moreover have "(ev_key (f r), True) \<in> set log" if "r \<in> set rows" "ev_status (f r) = PUBLISHED" for r
    using g(1,4) that by (auto simp: same_event_def)
  ultimately show ?thesis
    using assms(1) g(2) unfolding rows_ok_def keys by auto
qed

lemma gentle_relay_ok:
  assumes ok: "relay_ok s" and f: "gentle (outbox s) (sent s) f"
  shows "relay_ok (s\<lparr>outbox := map f (outbox s)\<rparr>)"
proof -
  have same: "same_event (f r) r" and st: "started r \<Longrightarrow> started (f r)" if "r \<in> set (outbox s)" for r
    using f that by (auto simp: gentle_def gentle_row_def)
  have "rows_ok (map f (outbox s)) (sent s)"
    using ok f by (auto simp: relay_ok_def intro: gentle_rows_ok)
  moreover have "hand_ok (map f (outbox s)) (sent s) h" if "h \<in> set (in_hand s)" for h
  proof -
    obtain w e x where h: "h = (w, e, x)" by (cases h) auto
    with ok that obtain r where "r \<in> set (outbox s)" "same_event r e" "started r"
        "\<forall>a. x = Some (ACK a) \<longrightarrow> (ev_key e, True) \<in> set (sent s)"
      by (force simp: relay_ok_def hand_ok_def)
    with same st show ?thesis by (force simp: h hand_ok_def same_event_def)
  qed
  moreover have "log_ordered (map f (outbox s)) (sent s)"
  proof -
    have k: "ev_key (f r) = ev_key r" if "r \<in> set (outbox s)" for r using same [OF that] by (simp add: same_event_def)
    then have keys: "ev_key ` set (map f (outbox s)) = ev_key ` set (outbox s)" by (auto simp: image_iff)
    have "(ev_key (f p), True) \<in> set xs"
      if "sent s = xs @ (key, a) # ys" "r \<in> set (outbox s)" "p \<in> set (outbox s)" "ev_key (f r) = key" "earlier (f p) (f r)"
      for xs key a ys r p
    proof -
      have "earlier p r" using that earlier_same [OF same same] by blast
      then show ?thesis using ok that k by (auto simp: relay_ok_def log_ordered_def)
    qed
    then show ?thesis using ok keys by (auto simp: relay_ok_def log_ordered_def)
  qed
  ultimately show ?thesis by (simp add: relay_ok_def)
qed

lemma relay_ok_drop:
  "relay_ok s \<Longrightarrow> set hs \<subseteq> set (in_hand s) \<Longrightarrow> relay_ok (s\<lparr>in_hand := hs\<rparr>)"
  by (auto simp: relay_ok_def)

section \<open>Every step keeps the invariant\<close>

lemma candidates_claimable:
  "e \<in> set (candidates n t locked rows) \<Longrightarrow> e \<in> set rows \<and> claimable t rows e \<and> \<not> locked (ev_id e)"
  unfolding candidates_def by (drule in_set_takeD) simp

lemma claimable_head:
  assumes "rows_ok rows log" "claimable t rows r" "p \<in> set rows" "earlier p r"
  shows "ev_status p = PUBLISHED"
proof -
  have "ev_status p \<noteq> PENDING" "ev_status p \<noteq> DEAD" "ev_status p \<noteq> LEGACY_LOG_ONLY"
    using assms by (auto simp: claimable_def head_of_aggregate_def earlier_def rows_ok_def)
  then show ?thesis by (cases "ev_status p") auto
qed

lemma unique_id:
  "rows_ok rows log \<Longrightarrow> r \<in> set rows \<Longrightarrow> p \<in> set rows \<Longrightarrow> ev_id r = ev_id p \<Longrightarrow> r = p"
  by (auto simp: rows_ok_def distinct_map dest: inj_onD)

lemma unique_key:
  "rows_ok rows log \<Longrightarrow> r \<in> set rows \<Longrightarrow> p \<in> set rows \<Longrightarrow> ev_key r = ev_key p \<Longrightarrow> r = p"
  by (auto simp: rows_ok_def distinct_map dest: inj_onD)

lemma claim_ok:
  assumes ok: "relay_ok s" and c: "claim_batch cfg w locked t (outbox s) = (claimed, rows)"
  shows "relay_ok (s\<lparr>outbox := rows, in_hand := in_hand s @ map (\<lambda>e. (w, e, None)) claimed\<rparr>)"
proof -
  define ids where "ids = ev_id ` set (candidates (batch_size cfg) t locked (outbox s))"
  define f where "f = (\<lambda>e. if ev_id e \<in> ids then lease cfg w t e else e)"
  have "claim_batch cfg w locked t (outbox s) =
      (sort_key ev_id (filter (\<lambda>e. ev_id e \<in> ids) (map f (outbox s))), map f (outbox s))"
    by (simp add: claim_batch_def Let_def ids_def f_def)
  with c have rows: "rows = map f (outbox s)" and claimed: "set claimed = {e \<in> set rows. ev_id e \<in> ids}" by auto
  have r_ok: "rows_ok (outbox s) (sent s)" using ok by (simp add: relay_ok_def)
  have claim: "claimable t (outbox s) r" if "r \<in> set (outbox s)" "ev_id r \<in> ids" for r
  proof -
    from that(2) obtain x where x: "x \<in> set (candidates (batch_size cfg) t locked (outbox s))" "ev_id r = ev_id x"
      by (auto simp: ids_def)
    note c = candidates_claimable [OF x(1)]
    with unique_id [OF r_ok that(1) _ x(2)] have "r = x" by blast
    with c show ?thesis by simp
  qed
  have "gentle_row (outbox s) (sent s) r (f r)" if r: "r \<in> set (outbox s)" for r
  proof (cases "ev_id r \<in> ids")
    case True
    from claim [OF r True] have c: "ev_status r = PENDING" by (simp add: claimable_def)
    have "\<forall>p \<in> set (outbox s). earlier p r \<longrightarrow> ev_status p = PUBLISHED"
      using claimable_head [OF r_ok claim [OF r True]] by blast
    with True c show ?thesis by (simp add: gentle_row_def f_def lease_def same_event_def started_def)
  qed (simp add: f_def gentle_row_refl [OF r_ok r])
  then have "gentle (outbox s) (sent s) f" by (simp add: gentle_def)
  from gentle_relay_ok [OF ok this] have "relay_ok (s\<lparr>outbox := rows\<rparr>)" by (simp add: rows)
  moreover have "hand_ok rows (sent s) (w, e, None)" if "e \<in> set claimed" for e
  proof -
    from that obtain r where "r \<in> set (outbox s)" "e = f r" "ev_id e \<in> ids" "e \<in> set rows"
      unfolding claimed by (auto simp: rows)
    then have "started e" by (auto simp: f_def lease_def started_def split: if_splits)
    with \<open>e \<in> set rows\<close> show ?thesis by (auto simp: hand_ok_def same_event_def)
  qed
  ultimately show ?thesis by (auto simp: relay_ok_def)
qed

lemma in_hand_row:
  assumes "relay_ok s" "(w, e, x) \<in> set (in_hand s)" "r \<in> set (outbox s)" "ev_id r = ev_id e"
  shows "same_event r e \<and> started r"
proof -
  from assms(1,2) obtain r' where r': "r' \<in> set (outbox s)" "same_event r' e" "started r'"
    by (force simp: relay_ok_def hand_ok_def)
  then have "r = r'" using unique_id [of "outbox s" "sent s" r r'] assms by (auto simp: relay_ok_def same_event_def)
  with r' show ?thesis by simp
qed

text \<open>What marking may do to a row: nothing, or change the delivery columns of the event in hand.\<close>

definition marked :: "outbox_row \<Rightarrow> publish_result \<Rightarrow> outbox_row \<Rightarrow> outbox_row \<Rightarrow> bool" where
  "marked e a r r' = (r' = r \<or> ev_id r = ev_id e \<and> same_event r' r \<and> ev_attempts r' = ev_attempts r
     \<and> replay_count r' = replay_count r \<and> (ev_status r = PENDING \<or> ev_status r = DEAD)
     \<and> (ev_status r' = PUBLISHED \<and> is_ack a \<or> ev_status r' = DEAD \<or> ev_status r' = PENDING \<and> ev_status r = PENDING))"

lemma mark_published_rows:
  assumes "mark_published e http t rows = (out, rows')"
  shows "\<exists>f. rows' = map f rows \<and> (\<forall>r. marked e (ACK http) r (f r))"
proof (cases "filter (\<lambda>r. ev_id r = ev_id e \<and> (ev_status r = PENDING \<or> ev_status r = DEAD)) rows = []")
  case True
  with assms have "rows' = map (\<lambda>r. r) rows" by (simp add: mark_published_def Let_def)
  then show ?thesis by (intro exI [of _ "\<lambda>r. r"]) (simp add: marked_def)
next
  case False
  define f where "f = (\<lambda>r :: outbox_row. if ev_id r = ev_id e \<and> (ev_status r = PENDING \<or> ev_status r = DEAD)
      then published_row http t r else r)"
  from False assms have "rows' = map f rows" by (simp add: mark_published_def Let_def f_def)
  then show ?thesis by (intro exI [of _ f]) (simp add: marked_def f_def same_event_def is_ack_def published_row_def)
qed

lemma mark_failed_rows:
  assumes "mark_failed cfg w e definitive http t rows = (out, rows')"
  shows "\<exists>f. rows' = map f rows \<and> (\<forall>r. marked e a r (f r))"
proof (cases "filter (\<lambda>r. ev_id r = ev_id e \<and> ev_status r = PENDING \<and> lease_owner r = Some w) rows")
  case Nil
  with assms have "rows' = map (\<lambda>r. r) rows" by (simp add: mark_failed_def Let_def)
  then show ?thesis by (intro exI [of _ "\<lambda>r. r"]) (simp add: marked_def)
next
  case (Cons x xs)
  define f where "f = (\<lambda>r. if ev_id r = ev_id e \<and> ev_status r = PENDING \<and> lease_owner r = Some w
      then failed_row cfg definitive (ev_attempts e) http t r else r)"
  from Cons assms have "rows' = map f rows" by (simp add: mark_failed_def Let_def f_def)
  then show ?thesis
    by (intro exI [of _ f]) (simp add: marked_def f_def same_event_def failed_row_def Let_def)
qed

lemma settle_rows:
  "settle cfg w e a t rows = (out, rows') \<Longrightarrow> \<exists>f. rows' = map f rows \<and> (\<forall>r. marked e a r (f r))"
  using mark_published_rows mark_failed_rows by (cases a) (auto simp: settle_def)

lemma settle_ok:
  assumes ok: "relay_ok s" and h: "(w, e, Some a) \<in> set (in_hand s)"
    and settle: "settle cfg w e a t (outbox s) = (out, rows)"
  shows "relay_ok (s\<lparr>outbox := rows\<rparr>)"
proof -
  have r_ok: "rows_ok (outbox s) (sent s)" using ok by (simp add: relay_ok_def)
  note row = in_hand_row [OF ok h]
  have ackd: "is_ack a \<Longrightarrow> (ev_key e, True) \<in> set (sent s)"
    using ok h by (force simp: relay_ok_def hand_ok_def is_ack_def split: publish_result.splits)
  from settle_rows [OF settle] obtain f where f: "rows = map f (outbox s)" "\<forall>r. marked e a r (f r)" by blast
  have "same_event (f r) r \<and> ev_status (f r) \<noteq> LEGACY_LOG_ONLY
     \<and> (ev_status r = PUBLISHED \<longrightarrow> ev_status (f r) = PUBLISHED)
     \<and> (ev_status (f r) = PUBLISHED \<longrightarrow> (ev_key r, True) \<in> set (sent s))
     \<and> (started r \<longrightarrow> started (f r)) \<and> (started (f r) \<longrightarrow> started r)" if r: "r \<in> set (outbox s)" for r
  proof (cases "f r = r")
    case True
    then show ?thesis using r_ok r by (auto simp: same_event_def rows_ok_def)
  next
    case False
    with f(2) have m: "marked e a r (f r)" "ev_id r = ev_id e" by (auto simp: marked_def)
    from row [OF r m(2)] have "same_event r e" "started r" by auto
    with m False ackd show ?thesis by (auto simp: marked_def same_event_def started_def)
  qed
  then have "gentle (outbox s) (sent s) f" by (simp add: gentle_def gentle_row_def)
  then show ?thesis using gentle_relay_ok [OF ok] by (simp add: f(1))
qed

lemma replay_ok:
  assumes ok: "relay_ok s" and r: "replay_event k t (outbox s) = (res, rows)"
  shows "relay_ok (s\<lparr>outbox := rows\<rparr>)"
proof (cases "rows = outbox s")
  case False
  define f where "f = (\<lambda>r. if ev_key r = k then replayed_row t r else r)"
  from r False obtain x where x: "find (\<lambda>r. ev_key r = k) (outbox s) = Some x"
    by (cases "find (\<lambda>r. ev_key r = k) (outbox s)") (simp_all add: replay_event_def)
  with r False have st: "ev_status x = DEAD \<or> ev_status x = LEGACY_LOG_ONLY"
    by (cases "ev_status x") (simp_all add: replay_event_def)
  then have "snd (replay_event k t (outbox s)) = map f (outbox s)"
    by (auto simp: replay_event_def f_def x)
  with r have rows: "rows = map f (outbox s)" by simp
  have r_ok: "rows_ok (outbox s) (sent s)" using ok by (simp add: relay_ok_def)
  have mem: "x \<in> set (outbox s)" "ev_key x = k" using x by (auto simp: find_Some_iff)
  have "y = x" if "y \<in> set (outbox s)" "ev_key y = k" for y
    using unique_key [OF r_ok that(1) mem(1)] that mem by simp
  then have "gentle_row (outbox s) (sent s) y (f y)" if "y \<in> set (outbox s)" for y
    using st that gentle_row_refl [OF r_ok that]
    by (cases "ev_key y = k") (auto simp: gentle_row_def f_def replayed_row_def same_event_def started_def)
  then have "gentle (outbox s) (sent s) f" by (simp add: gentle_def)
  then show ?thesis using gentle_relay_ok [OF ok] by (simp add: rows)
qed (use ok in simp)

lemma emit_ok:
  assumes ok: "relay_ok s" and e: "new_event (outbox s) e"
  shows "relay_ok (s\<lparr>outbox := outbox s @ [e]\<rparr>)"
proof -
  have later: "\<not> earlier e r" if "r \<in> set (outbox s)" for r
  proof
    assume "earlier e r"
    then have "ev_version r \<in> set (map ev_version (filter (\<lambda>p. same_aggregate p e) (outbox s)))"
      and lt: "ev_version e < ev_version r" using that by (auto simp: earlier_def same_aggregate_def)
    then have "ev_version r < next_version (outbox s) e"
      unfolding next_version_def less_Suc_eq_le Suc_eq_plus1 [symmetric] by (intro member_le_foldr_max)
    with e lt show False by (simp add: new_event_def)
  qed
  have self: "\<not> earlier e e" "\<not> started e" "ev_status e = PENDING" using e by (auto simp: earlier_def started_def new_event_def)
  have "rows_ok (outbox s @ [e]) (sent s)"
    using ok e later self by (auto simp: relay_ok_def rows_ok_def new_event_def)
  moreover have "\<forall>h \<in> set (in_hand s). hand_ok (outbox s @ [e]) (sent s) h"
    using ok by (force simp: relay_ok_def hand_ok_def)
  moreover have "log_ordered (outbox s @ [e]) (sent s)"
  proof -
    have "k \<noteq> ev_key e" if "sent s = xs @ (k, a) # ys" for xs k a ys
      using ok e that by (force simp: relay_ok_def log_ordered_def new_event_def)
    then show ?thesis using ok later self by (auto simp: relay_ok_def log_ordered_def)
  qed
  ultimately show ?thesis by (simp add: relay_ok_def)
qed

lemma log_ordered_snoc:
  assumes "log_ordered rows log" "k \<in> ev_key ` set rows"
    and new: "\<And>y p. y \<in> set rows \<Longrightarrow> p \<in> set rows \<Longrightarrow> ev_key y = k \<Longrightarrow> earlier p y \<Longrightarrow> (ev_key p, True) \<in> set log"
  shows "log_ordered rows (log @ [(k, a)])"
proof -
  have "(ev_key p, True) \<in> set xs"
    if eq: "log @ [(k, a)] = xs @ (k', a') # ys" and m: "r \<in> set rows" "p \<in> set rows" "ev_key r = k'" "earlier p r"
    for xs k' a' ys r p
  proof (cases ys rule: rev_cases)
    case Nil
    with eq new m show ?thesis by auto
  next
    case (snoc ys' z)
    with eq have "log = xs @ (k', a') # ys'" by simp
    with assms(1) m show ?thesis by (auto simp: log_ordered_def)
  qed
  with assms(1,2) show ?thesis by (auto simp: log_ordered_def)
qed

lemma send_ok:
  assumes ok: "relay_ok s" and h: "in_hand s = xs @ (w, e, None) # ys"
  shows "relay_ok (s\<lparr>in_hand := xs @ (w, e, Some r) # ys, sent := sent s @ [(ev_key e, is_ack r)]\<rparr>)"
proof -
  have "hand_ok (outbox s) (sent s) (w, e, None)" using ok h by (auto simp: relay_ok_def)
  then obtain x where x: "x \<in> set (outbox s)" "same_event x e" "started x" by (auto simp: hand_ok_def)
  have r_ok: "rows_ok (outbox s) (sent s)" using ok by (simp add: relay_ok_def)
  have mono: "hand_ok (outbox s) (sent s @ l) g" if "hand_ok (outbox s) (sent s) g" for g l
    using that by (auto simp: hand_ok_def)
  have "hand_ok (outbox s) (sent s @ [(ev_key e, is_ack r)]) (w, e, Some r)"
    using x by (auto simp: hand_ok_def is_ack_def)
  moreover have "log_ordered (outbox s) (sent s @ [(ev_key e, is_ack r)])"
  proof -
    have new: "(ev_key p, True) \<in> set (sent s)" if "y \<in> set (outbox s)" "p \<in> set (outbox s)" "ev_key y = ev_key e" "earlier p y" for y p
    proof -
      have "y = x" using unique_key [OF r_ok that(1) x(1)] x(2) that(3) by (simp add: same_event_def)
      with r_ok x that show ?thesis by (auto simp: rows_ok_def)
    qed
    have keys: "ev_key e \<in> ev_key ` set (outbox s)" using x by (auto simp: same_event_def intro: rev_image_eqI)
    show ?thesis by (rule log_ordered_snoc) (use ok new keys in \<open>auto simp: relay_ok_def\<close>)
  qed
  ultimately show ?thesis
    using ok h mono by (auto simp: relay_ok_def rows_ok_def)
qed

lemma relay_step_ok:
  assumes "relay_step cfg s s'" "relay_ok s"
  shows "relay_ok s'"
  using assms
proof (cases rule: relay_step.cases)
  case (claim w locked claimed rows)
  then show ?thesis using claim_ok assms(2) by blast
next
  case (send xs w e ys r answer)
  then show ?thesis using send_ok assms(2) by blast
next
  case (exhausted xs w e ys)
  then show ?thesis using assms(2) by (auto simp: relay_ok_def hand_ok_def)
next
  case (mark xs w e r ys out rows)
  have "relay_ok (s\<lparr>outbox := rows\<rparr>)" by (rule settle_ok [OF assms(2) _ mark(3)]) (simp add: mark(2))
  from relay_ok_drop [OF this, of "xs @ ys"] mark(1,2) show ?thesis by (auto simp: relay_ok_def)
next
  case (die xs h ys)
  then show ?thesis using relay_ok_drop [OF assms(2), of "xs @ ys"] by auto
next
  case (emit e)
  then show ?thesis using emit_ok assms(2) by blast
next
  case (replay k res rows)
  then show ?thesis using replay_ok assms(2) by blast
next
  case (tick t)
  then show ?thesis using assms(2) by (simp add: relay_ok_def)
qed

lemma relay_reachable_ok:
  "relay_reachable cfg s s' \<Longrightarrow> relay_ok s \<Longrightarrow> relay_ok s'"
  unfolding relay_reachable_def by (induction rule: rtranclp_induct) (auto intro: relay_step_ok)

section \<open>How often an event is sent\<close>

definition about_to_send :: "relay_config \<Rightarrow> string \<Rightarrow> in_hand \<Rightarrow> bool" where
  "about_to_send cfg k h = (case h of (w, e, x) \<Rightarrow> ev_key e = k \<and> x = None \<and> sends cfg e)"

definition send_count :: "relay_config \<Rightarrow> string \<Rightarrow> relay \<Rightarrow> nat" where
  "send_count cfg k s = length (filter (\<lambda>x. fst x = k) (sent s)) + length (filter (about_to_send cfg k) (in_hand s))"

definition send_budget :: "relay_config \<Rightarrow> outbox_row \<Rightarrow> nat" where
  "send_budget cfg r = max_attempts cfg * replay_count r + min (ev_attempts r) (max_attempts cfg)"

definition within_budget :: "relay_config \<Rightarrow> relay \<Rightarrow> bool" where
  "within_budget cfg s = (\<forall>r \<in> set (outbox s). send_count cfg (ev_key r) s \<le> send_budget cfg r)"

lemma claim_within:
  assumes ok: "relay_ok s" and b: "within_budget cfg s"
    and c: "claim_batch cfg w locked t (outbox s) = (claimed, rows)"
  shows "within_budget cfg (s\<lparr>outbox := rows, in_hand := in_hand s @ map (\<lambda>e. (w, e, None)) claimed\<rparr>)"
proof -
  define ids where "ids = ev_id ` set (candidates (batch_size cfg) t locked (outbox s))"
  define f where "f = (\<lambda>e. if ev_id e \<in> ids then lease cfg w t e else e)"
  have "claim_batch cfg w locked t (outbox s) =
      (sort_key ev_id (filter (\<lambda>e. ev_id e \<in> ids) (map f (outbox s))), map f (outbox s))"
    by (simp add: claim_batch_def Let_def ids_def f_def)
  with c have rows: "rows = map f (outbox s)"
    and claimed: "claimed = sort_key ev_id (filter (\<lambda>e. ev_id e \<in> ids) (map f (outbox s)))" by auto
  have r_ok: "rows_ok (outbox s) (sent s)" using ok by (simp add: relay_ok_def)
  have ident: "ev_key (f r) = ev_key r" "ev_id (f r) = ev_id r" "replay_count (f r) = replay_count r" for r
    by (simp_all add: f_def lease_def)
  have "map ev_key (map f (outbox s)) = map ev_key (outbox s)" using ident by simp
  then have "distinct (map ev_key (map f (outbox s)))" using r_ok by (simp add: rows_ok_def del: map_map)
  then have dist: "distinct (map ev_key claimed)" by (simp only: claimed distinct_map_sort_filter)
  have "send_count cfg (ev_key x) (s\<lparr>outbox := rows, in_hand := in_hand s @ map (\<lambda>e. (w, e, None)) claimed\<rparr>) \<le> send_budget cfg x"
    if x: "x \<in> set rows" for x
  proof -
    from x obtain r where r: "r \<in> set (outbox s)" "x = f r" by (auto simp: rows)
    define extra where "extra = length (filter (\<lambda>e. ev_key e = ev_key r \<and> sends cfg e) claimed)"
    have count: "send_count cfg (ev_key x) (s\<lparr>outbox := rows, in_hand := in_hand s @ map (\<lambda>e. (w, e, None)) claimed\<rparr>)
        = send_count cfg (ev_key r) s + extra"
      by (simp add: send_count_def extra_def filter_map comp_def about_to_send_def r(2) ident)
    have old: "send_count cfg (ev_key r) s \<le> send_budget cfg r" using b r(1) by (simp add: within_budget_def)
    have le1: "extra \<le> 1" unfolding extra_def by (rule length_filter_distinct_le [OF dist])
    show ?thesis
    proof (cases "extra = 0")
      case True
      have "send_budget cfg r \<le> send_budget cfg x" by (auto simp: send_budget_def r(2) f_def lease_def)
      with count old True show ?thesis by simp
    next
      case False
      then have "filter (\<lambda>e. ev_key e = ev_key r \<and> sends cfg e) claimed \<noteq> []" by (auto simp: extra_def)
      then obtain e where "e \<in> set claimed" "ev_key e = ev_key r" "sends cfg e" by (auto simp: filter_empty_conv)
      then obtain y where y: "y \<in> set (outbox s)" "e = f y" "ev_key y = ev_key r" "ev_id y \<in> ids" "sends cfg (f y)"
        using ident by (auto simp: claimed)
      have "y = r" using unique_key [OF r_ok y(1) r(1) y(3)] .
      with y have "ev_attempts r + 1 \<le> max_attempts cfg" "ev_attempts x = ev_attempts r + 1" "replay_count x = replay_count r"
        by (simp_all add: sends_def f_def lease_def r(2))
      with count old le1 show ?thesis by (simp add: send_budget_def)
    qed
  qed
  then show ?thesis by (simp add: within_budget_def)
qed

lemma budget_mono:
  assumes "within_budget cfg s" "\<And>r. r \<in> set (outbox s) \<Longrightarrow> ev_key (f r) = ev_key r \<and> send_budget cfg r \<le> send_budget cfg (f r)"
    and "\<And>k. send_count cfg k s' \<le> send_count cfg k s" "outbox s' = map f (outbox s)"
  shows "within_budget cfg s'"
proof -
  have "send_count cfg (ev_key (f r)) s' \<le> send_budget cfg (f r)" if r: "r \<in> set (outbox s)" for r
  proof -
    have "send_count cfg (ev_key (f r)) s' \<le> send_count cfg (ev_key r) s" using assms(2,3) r by metis
    also have "\<dots> \<le> send_budget cfg r" using assms(1) r by (simp add: within_budget_def)
    also have "\<dots> \<le> send_budget cfg (f r)" using assms(2) r by blast
    finally show ?thesis .
  qed
  then show ?thesis by (simp add: within_budget_def assms(4))
qed

lemma relay_step_within:
  assumes "relay_step cfg s s'" and ok: "relay_ok s" and b: "within_budget cfg s"
  shows "within_budget cfg s'"
  using assms(1)
proof (cases rule: relay_step.cases)
  case (claim w locked claimed rows)
  then show ?thesis using claim_within [OF ok b claim(2)] by simp
next
  case (send xs w e ys r answer)
  have "send_count cfg k s' \<le> send_count cfg k s" for k
    by (simp add: send send_count_def about_to_send_def)
  then show ?thesis using budget_mono [OF b, of "\<lambda>r. r" s'] send(1) by simp
next
  case (exhausted xs w e ys)
  have "send_count cfg k s' \<le> send_count cfg k s" for k
    by (simp add: exhausted send_count_def about_to_send_def)
  then show ?thesis using budget_mono [OF b, of "\<lambda>r. r" s'] exhausted(1) by simp
next
  case (mark xs w e r ys out rows)
  from settle_rows [OF mark(3)] obtain f where f: "rows = map f (outbox s)" "\<forall>x. marked e r x (f x)" by blast
  have "ev_key (f x) = ev_key x \<and> send_budget cfg x \<le> send_budget cfg (f x)" for x
    using f(2) [rule_format, of x] by (auto simp: marked_def same_event_def send_budget_def)
  moreover have "send_count cfg k s' \<le> send_count cfg k s" for k
    by (simp add: mark(1,2) send_count_def)
  ultimately show ?thesis using budget_mono [OF b, of f s'] by (simp add: mark(1) f(1))
next
  case (die xs h ys)
  have "send_count cfg k s' \<le> send_count cfg k s" for k by (simp add: die send_count_def)
  then show ?thesis using budget_mono [OF b, of "\<lambda>r. r" s'] die(1) by simp
next
  case (emit e)
  have fresh: "ev_key e \<notin> ev_key ` set (outbox s)" using emit(2) by (simp add: new_event_def)
  have "filter (\<lambda>x. fst x = ev_key e) (sent s) = []"
    using ok fresh by (auto simp: relay_ok_def log_ordered_def filter_empty_conv)
  moreover have "\<not> about_to_send cfg (ev_key e) h" if "h \<in> set (in_hand s)" for h
  proof -
    obtain w x r where h: "h = (w, x, r)" by (cases h)
    with ok that have "hand_ok (outbox s) (sent s) (w, x, r)" by (simp add: relay_ok_def)
    then obtain y where "y \<in> set (outbox s)" "same_event y x" by (auto simp: hand_ok_def)
    then have "ev_key x \<in> ev_key ` set (outbox s)" by (auto simp: same_event_def intro: rev_image_eqI)
    then have "ev_key x \<noteq> ev_key e" using fresh by metis
    then show ?thesis by (simp add: h about_to_send_def)
  qed
  then have "filter (about_to_send cfg (ev_key e)) (in_hand s) = []" by (simp add: filter_empty_conv)
  ultimately have "send_count cfg (ev_key e) s = 0" by (simp add: send_count_def)
  moreover have "send_count cfg k s' = send_count cfg k s" for k by (simp add: emit(1) send_count_def)
  ultimately show ?thesis using b by (simp add: within_budget_def emit(1) send_count_def)
next
  case (replay k res rows)
  define f where "f = (\<lambda>r. if ev_key r = k then replayed_row (relay_now s) r else r)"
  have "rows = map f (outbox s) \<or> rows = outbox s"
    using replay(2) by (auto simp: replay_event_def f_def split: option.splits if_splits)
  moreover have "ev_key (f x) = ev_key x \<and> send_budget cfg x \<le> send_budget cfg (f x)" for x
    by (simp add: f_def replayed_row_def send_budget_def)
  moreover have "send_count cfg k s' \<le> send_count cfg k s" for k by (simp add: replay(1) send_count_def)
  ultimately show ?thesis
    using budget_mono [OF b, of f s'] budget_mono [OF b, of "\<lambda>r. r" s'] by (auto simp: replay(1))
next
  case (tick t)
  have "send_count cfg k s' \<le> send_count cfg k s" for k by (simp add: tick send_count_def)
  then show ?thesis using budget_mono [OF b, of "\<lambda>r. r" s'] tick(1) by simp
qed

definition relay_start :: "nat \<Rightarrow> relay" where
  "relay_start t = \<lparr>outbox = [], relay_now = t, in_hand = [], sent = []\<rparr>"

lemma relay_start_ok: "relay_ok (relay_start t)" "within_budget cfg (relay_start t)"
  by (simp_all add: relay_start_def relay_ok_def rows_ok_def log_ordered_def within_budget_def)

lemma relay_reachable_within:
  assumes "relay_reachable cfg (relay_start t) s"
  shows "relay_ok s \<and> within_budget cfg s"
  using assms unfolding relay_reachable_def
  by (induction rule: rtranclp_induct) (auto intro: relay_step_ok relay_step_within relay_start_ok)

end
