(* ===== verification/OutboxProperties.thy ===== *)
theory OutboxProperties
  imports OutboxInvariant
begin

text \<open>
  The properties of the outbox relay: exclusive claims, order per aggregate, bounded deliveries,
  progress of a cycle and the treatment of failures, each with a concrete run that meets its
  hypotheses.
\<close>

section \<open>What the relay promises\<close>

lemma claim_batch_eq:
  assumes "claim_batch cfg w locked t rows = (claimed, rows')"
  defines "ids \<equiv> ev_id ` set (candidates (batch_size cfg) t locked rows)"
  defines "f \<equiv> \<lambda>e. if ev_id e \<in> ids then lease cfg w t e else e"
  shows "rows' = map f rows" "set claimed = {e \<in> f ` set rows. ev_id e \<in> ids}"
    "ev_id (f e) = ev_id e" "ev_status (f e) = ev_status e" "ev_type (f e) = ev_type e"
    "ev_aggregate (f e) = ev_aggregate e" "ev_version (f e) = ev_version e"
  using assms by (auto simp: claim_batch_def Let_def lease_def)

lemma claimed_rows:
  assumes "claim_batch cfg w locked t rows = (claimed, rows')" "distinct (map ev_id rows)" "e \<in> set claimed"
  shows "\<exists>r \<in> set rows. claimable t rows r \<and> \<not> locked (ev_id r) \<and> e = lease cfg w t r \<and> e \<in> set rows'"
proof -
  note eq = claim_batch_eq [OF assms(1)]
  from assms(3) obtain r where r: "r \<in> set rows" "e = lease cfg w t r" "e \<in> set rows'"
      "ev_id r \<in> ev_id ` set (candidates (batch_size cfg) t locked rows)"
    unfolding eq(1,2) by (auto simp: lease_def split: if_splits)
  then obtain c where c: "c \<in> set (candidates (batch_size cfg) t locked rows)" "ev_id r = ev_id c" by auto
  note m = candidates_claimable [OF c(1)]
  have "r = c" using assms(2) r(1) m c(2) by (auto simp: distinct_map dest: inj_onD)
  with m r show ?thesis by auto
qed

lemma claimed_unclaimable:
  assumes c: "claim_batch cfg w locked t rows = (claimed, rows')" and d: "distinct (map ev_id rows)"
    and e: "e \<in> set claimed" and x: "x \<in> set rows'" "ev_id x = ev_id e" "t' \<le> t + lease_ms cfg"
  shows "\<not> claimable t' rows' x"
proof -
  note eq = claim_batch_eq [OF c]
  from claimed_rows [OF c d e] obtain r where r: "r \<in> set rows" "e = lease cfg w t r" "e \<in> set rows'" by blast
  have "map ev_id rows' = map ev_id rows" unfolding eq(1) using eq(3) by simp
  then have "x = e" using d x r(3) by (metis distinct_map inj_onD)
  with r(2) x(3) show ?thesis by (simp add: claimable_def lease_free_def lease_def)
qed

text \<open>C27: two claims never hold the same event, nor two events of the same aggregate: whatever another
  worker claims before the lease of the first claim expires belongs to other aggregates.\<close>

theorem claims_are_disjoint:
  assumes ids: "distinct (map ev_id rows)"
    and versions: "distinct (map (\<lambda>r. (ev_type r, ev_aggregate r, ev_version r)) rows)"
    and first: "claim_batch cfg w locked t rows = (claimed, rows')"
    and second: "claim_batch cfg' w' locked' t' rows' = (claimed', rows'')" "t' \<le> t + lease_ms cfg"
    and e: "e \<in> set claimed" "e' \<in> set claimed'"
  shows "\<not> same_aggregate e e'"
proof
  assume same: "same_aggregate e e'"
  note eq = claim_batch_eq [OF first]
  from claimed_rows [OF first ids e(1)] obtain r where r: "r \<in> set rows" "claimable t rows r" "e = lease cfg w t r" "e \<in> set rows'"
    by blast
  have "map ev_id rows' = map ev_id rows" unfolding eq(1) using eq(3) by simp
  then have ids': "distinct (map ev_id rows')" using ids by simp
  from claimed_rows [OF second(1) ids' e(2)] obtain x where x: "x \<in> set rows'" "claimable t' rows' x" "e' = lease cfg' w' t' x"
    by blast
  from x(1) obtain y where y: "y \<in> set rows" "ev_status x = ev_status y" "ev_type x = ev_type y"
      "ev_aggregate x = ev_aggregate y" "ev_version x = ev_version y" "ev_id x = ev_id y"
    unfolding eq(1) by (auto simp: lease_def)
  have agg: "ev_type r = ev_type y" "ev_aggregate r = ev_aggregate y"
    using same r(3) x(3) y(3,4) by (auto simp: same_aggregate_def lease_def)
  have pend: "ev_status r = PENDING" "ev_status y = PENDING"
    using r(2) x(2) y(2) by (simp_all add: claimable_def)
  have "\<not> ev_version r < ev_version y"
  proof
    assume "ev_version r < ev_version y"
    then have "\<not> head_of_aggregate rows' x"
      using r(3,4) agg pend(1) y by (auto simp: head_of_aggregate_def same_aggregate_def lease_def intro!: bexI [of _ e])
    then show False using x(2) by (simp add: claimable_def)
  qed
  moreover have "\<not> ev_version y < ev_version r"
    using r(2) y(1) agg pend(2) by (auto simp: claimable_def head_of_aggregate_def same_aggregate_def)
  ultimately have "(ev_type r, ev_aggregate r, ev_version r) = (ev_type y, ev_aggregate y, ev_version y)"
    using agg by simp
  then have "r = y" using versions r(1) y(1) by (auto simp: distinct_map dest: inj_onD)
  then have "ev_id x = ev_id e" using y(6) r(3) by (simp add: lease_def)
  from claimed_unclaimable [OF first ids e(1) x(1) this second(2)] x(2) show False by simp
qed

text \<open>C28: in every history of the relay, with any number of workers that may die at any point, an event
  is sent only after every earlier event of its aggregate was sent and acknowledged.\<close>

theorem deliveries_in_order:
  assumes "relay_reachable cfg (relay_start t) s" "sent s = before @ (k, acked) # after"
    and "r \<in> set (outbox s)" "ev_key r = k" "p \<in> set (outbox s)" "same_aggregate p r" "ev_version p < ev_version r"
  shows "(ev_key p, True) \<in> set before"
  using relay_reachable_within [OF assms(1)] assms(2-) by (auto simp: relay_ok_def log_ordered_def earlier_def)

text \<open>An event is marked as published only if the receiver acknowledged it, and however often its
  workers die, it is sent at most the configured number of times, plus as many for each replay.\<close>

theorem deliveries_bounded:
  assumes "relay_reachable cfg (relay_start t) s" "r \<in> set (outbox s)"
  shows "(ev_status r = PUBLISHED \<longrightarrow> (ev_key r, True) \<in> set (sent s))
    \<and> length (filter (\<lambda>x. fst x = ev_key r) (sent s)) \<le> max_attempts cfg * (replay_count r + 1)"
proof -
  from relay_reachable_within [OF assms(1)] have ok: "relay_ok s" "within_budget cfg s" by simp_all
  have "length (filter (\<lambda>x. fst x = ev_key r) (sent s)) \<le> send_count cfg (ev_key r) s"
    by (simp add: send_count_def)
  also have "\<dots> \<le> send_budget cfg r" using ok(2) assms(2) by (simp add: within_budget_def)
  also have "\<dots> \<le> max_attempts cfg * (replay_count r + 1)" by (simp add: send_budget_def)
  finally show ?thesis using ok(1) assms(2) by (auto simp: relay_ok_def rows_ok_def)
qed

section \<open>A small outbox\<close>

definition demo_config :: relay_config where
  "demo_config = \<lparr>batch_size = 1, lease_ms = 1000, max_attempts = 3, retry_base_ms = 100, retry_max_ms = 1000\<rparr>"

definition demo_event :: "nat \<Rightarrow> string \<Rightarrow> nat \<Rightarrow> string \<Rightarrow> outbox_row" where
  "demo_event n a v k =
     \<lparr>ev_id = n, ev_topic = ''journal.posted'', ev_type = ''Journal'', ev_aggregate = a, ev_version = v,
      ev_schema = 1, ev_key = k, ev_payload = [], ev_created = 0, ev_status = PENDING, ev_attempts = 0,
      next_attempt_at = 0, lease_owner = None, lease_expires_at = None, last_attempt_at = None,
      last_http_status = None, ev_published_at = None, dead_at = None, replay_count = 0\<rparr>"

definition demo_outbox :: "outbox_row list" where
  "demo_outbox = [demo_event 1 ''7'' 1 ''a'', demo_event 2 ''7'' 2 ''b'', demo_event 3 ''8'' 1 ''c'']"

definition demo_claim :: "nat \<Rightarrow> outbox_row list \<Rightarrow> outbox_row list \<times> outbox_row list" where
  "demo_claim t rows = claim_batch demo_config ''w'' (\<lambda>_. False) t rows"

definition demo_first :: "outbox_row list" where "demo_first = snd (demo_claim 5 demo_outbox)"

definition demo_published :: "outbox_row list" where
  "demo_published = snd (settle demo_config ''w'' (hd (fst (demo_claim 5 demo_outbox))) (ACK (Some 200)) 5 demo_first)"

definition demo_second :: "outbox_row list" where "demo_second = snd (demo_claim 5 demo_published)"

definition demo_relay :: relay where
  "demo_relay = \<lparr>outbox = demo_second, relay_now = 5,
     in_hand = map (\<lambda>e. (''w'', e, Some (ACK (Some 200)))) (fst (demo_claim 5 demo_published)),
     sent = [(''a'', True), (''b'', True)]\<rparr>"

lemma demo_claims:
  "claim_batch demo_config ''w'' (\<lambda>_. False) 5 demo_outbox = ([lease demo_config ''w'' 5 (demo_event 1 ''7'' 1 ''a'')], demo_first)"
  "claim_batch demo_config ''w'' (\<lambda>_. False) 5 demo_published
     = ([lease demo_config ''w'' 5 (demo_event 2 ''7'' 2 ''b'')], demo_second)"
  "settle demo_config ''w'' (lease demo_config ''w'' 5 (demo_event 1 ''7'' 1 ''a'')) (ACK (Some 200)) 5 demo_first
     = (Published, demo_published)"
  "new_event [] (demo_event 1 ''7'' 1 ''a'')" "new_event [demo_event 1 ''7'' 1 ''a''] (demo_event 2 ''7'' 2 ''b'')"
  "new_event [demo_event 1 ''7'' 1 ''a'', demo_event 2 ''7'' 2 ''b''] (demo_event 3 ''8'' 1 ''c'')"
  "classify_response (Response 200) = ACK (Some 200)"
  by code_simp+

lemma demo_relay_reachable: "relay_reachable demo_config (relay_start 5) demo_relay"
proof -
  let ?e1 = "lease demo_config ''w'' 5 (demo_event 1 ''7'' 1 ''a'')" and ?e2 = "lease demo_config ''w'' 5 (demo_event 2 ''7'' 2 ''b'')"
  let ?st = "\<lambda>rows h l. \<lparr>outbox = rows, relay_now = 5, in_hand = h, sent = l\<rparr>"
  let ?a = "ACK (Some 200)"
  have send: "sends demo_config ?e1" "sends demo_config ?e2" "ev_key ?e1 = ''a''" "ev_key ?e2 = ''b''" "is_ack ?a"
    by code_simp+
  note step = rtranclp.rtrancl_into_rtrancl
  have "relay_reachable demo_config (relay_start 5) (?st [demo_event 1 ''7'' 1 ''a''] [] [])"
    unfolding relay_reachable_def
    using relay_step.emit [of "relay_start 5" "demo_event 1 ''7'' 1 ''a''" demo_config] demo_claims(4)
    by (intro r_into_rtranclp) (simp add: relay_start_def)
  then have "relay_reachable demo_config (relay_start 5) (?st [demo_event 1 ''7'' 1 ''a'', demo_event 2 ''7'' 2 ''b''] [] [])"
    unfolding relay_reachable_def
    using relay_step.emit [of "?st [demo_event 1 ''7'' 1 ''a''] [] []" "demo_event 2 ''7'' 2 ''b''" demo_config] demo_claims(5)
    by (elim step) simp
  then have "relay_reachable demo_config (relay_start 5) (?st demo_outbox [] [])"
    unfolding relay_reachable_def
    using relay_step.emit [of "?st [demo_event 1 ''7'' 1 ''a'', demo_event 2 ''7'' 2 ''b''] [] []" "demo_event 3 ''8'' 1 ''c''" demo_config] demo_claims(6)
    by (elim step) (simp add: demo_outbox_def)
  then have "relay_reachable demo_config (relay_start 5) (?st demo_first [(''w'', ?e1, None)] [])"
    unfolding relay_reachable_def
    using relay_step.claim [of demo_config "''w''" "\<lambda>_. False" "?st demo_outbox [] []"] demo_claims(1)
    by (elim step) simp
  then have "relay_reachable demo_config (relay_start 5) (?st demo_first [(''w'', ?e1, Some ?a)] [(''a'', True)])"
    unfolding relay_reachable_def
    using relay_step.send [of "?st demo_first [(''w'', ?e1, None)] []" "[]" "''w''" ?e1 "[]" demo_config ?a "Response 200"] demo_claims(7) send
    by (elim step) simp
  then have "relay_reachable demo_config (relay_start 5) (?st demo_published [] [(''a'', True)])"
    unfolding relay_reachable_def
    using relay_step.mark [of "?st demo_first [(''w'', ?e1, Some ?a)] [(''a'', True)]" "[]" "''w''" ?e1 ?a "[]" demo_config] demo_claims(3)
    by (elim step) simp
  then have "relay_reachable demo_config (relay_start 5) (?st demo_second [(''w'', ?e2, None)] [(''a'', True)])"
    unfolding relay_reachable_def
    using relay_step.claim [of demo_config "''w''" "\<lambda>_. False" "?st demo_published [] [(''a'', True)]"] demo_claims(2)
    by (elim step) simp
  then have "relay_reachable demo_config (relay_start 5) (?st demo_second [(''w'', ?e2, Some ?a)] [(''a'', True), (''b'', True)])"
    unfolding relay_reachable_def
    using relay_step.send [of "?st demo_second [(''w'', ?e2, None)] [(''a'', True)]" "[]" "''w''" ?e2 "[]" demo_config ?a "Response 200"] demo_claims(7) send
    by (elim step) simp
  then show ?thesis by (simp add: demo_relay_def demo_claim_def demo_claims)
qed

theorem claims_are_disjoint_witness:
  "\<exists>e e'. claim_batch demo_config ''w'' (\<lambda>_. False) 5 demo_outbox = ([e], demo_first)
    \<and> fst (claim_batch demo_config ''v'' (\<lambda>_. False) 9 demo_first) = [e'] \<and> \<not> same_aggregate e e'"
proof -
  let ?e = "lease demo_config ''w'' 5 (demo_event 1 ''7'' 1 ''a'')" and ?e' = "lease demo_config ''v'' 9 (demo_event 3 ''8'' 1 ''c'')"
  let ?second = "claim_batch demo_config ''v'' (\<lambda>_. False) 9 demo_first"
  have "distinct (map ev_id demo_outbox)" "distinct (map (\<lambda>r. (ev_type r, ev_aggregate r, ev_version r)) demo_outbox)"
    "fst ?second = [?e']" "(9 :: nat) \<le> 5 + lease_ms demo_config"
    by code_simp+
  then show ?thesis
    using claims_are_disjoint [OF _ _ demo_claims(1), of demo_config "''v''" "\<lambda>_. False" 9 "[?e']" "snd ?second" ?e ?e'] demo_claims(1)
    by (simp add: prod_eq_iff)
qed

theorem deliveries_in_order_witness:
  "\<exists>p r. outbox demo_relay = p # r # tl (tl (outbox demo_relay)) \<and> (ev_key p, True) \<in> set [(''a'', True)]"
proof -
  have s: "sent demo_relay = [(''a'', True)] @ (''b'', True) # []" by (simp add: demo_relay_def)
  have "map (\<lambda>r. (ev_key r, ev_type r, ev_aggregate r, ev_version r)) (take 2 (outbox demo_relay))
      = [(''a'', ''Journal'', ''7'', 1), (''b'', ''Journal'', ''7'', 2)]" "length (outbox demo_relay) = 3" by code_simp+
  then obtain p r x where rows: "outbox demo_relay = [p, r, x]" "ev_key r = ''b''" "same_aggregate p r" "ev_version p < ev_version r"
    by (auto simp: length_Suc_conv numeral_3_eq_3 same_aggregate_def)
  have "(ev_key p, True) \<in> set [(''a'', True)]"
    by (rule deliveries_in_order [OF demo_relay_reachable s, of r]) (simp_all add: rows)
  then show ?thesis using rows(1) by simp
qed

theorem deliveries_bounded_witness:
  "\<exists>r \<in> set (outbox demo_relay). ev_status r = PUBLISHED \<and> length (filter (\<lambda>x. fst x = ev_key r) (sent demo_relay)) \<le> 3"
proof -
  have r: "hd (outbox demo_relay) \<in> set (outbox demo_relay)" "ev_status (hd (outbox demo_relay)) = PUBLISHED"
    "replay_count (hd (outbox demo_relay)) = 0" by code_simp+
  then show ?thesis using deliveries_bounded [OF demo_relay_reachable r(1)] by (intro bexI [OF _ r(1)]) (simp add: demo_config_def)
qed

lemma mark_published_map:
  "snd (mark_published e http t rows)
     = map (\<lambda>r. if ev_id r = ev_id e \<and> (ev_status r = PENDING \<or> ev_status r = DEAD) then published_row http t r else r) rows"
  unfolding mark_published_def Let_def
  by (auto simp: filter_empty_conv intro!: map_idI [symmetric])

text \<open>What a worker that is always acknowledged makes of an event it holds: sent and published, or dead when no attempt is left.\<close>

definition settled_row :: "relay_config \<Rightarrow> nat \<Rightarrow> nat \<Rightarrow> outbox_row \<Rightarrow> outbox_row" where
  "settled_row cfg s t e =
     (if sends cfg e then published_row (Some s) t e else failed_row cfg True (ev_attempts e) None t e)"

lemma settled_row_id [simp]: "ev_id (settled_row cfg s t e) = ev_id e"
  by (simp add: settled_row_def published_row_def failed_row_def Let_def)

lemma settled_row_status: "ev_status (settled_row cfg s t e) = (if sends cfg e then PUBLISHED else DEAD)"
  by (simp add: settled_row_def published_row_def failed_row_def Let_def)

lemma deliver_acked:
  assumes ids: "distinct (map ev_id rows)" and e: "e \<in> set rows" "ev_status e = PENDING" "lease_owner e = Some w"
    and s: "200 \<le> s" "s < 300"
  shows "snd (deliver cfg w (\<lambda>_ _. Response s) e t rows) = map (\<lambda>r. if ev_id r = ev_id e then settled_row cfg s t r else r) rows"
proof -
  have same: "r \<in> set rows \<Longrightarrow> ev_id r = ev_id e \<Longrightarrow> r = e" for r using unique_row [OF ids _ e(1)] by metis
  show ?thesis
  proof (cases "sends cfg e")
    case True
    then have "deliver cfg w (\<lambda>_ _. Response s) e t rows = mark_published e (Some s) t rows"
      using s by (simp add: deliver_def settle_def classify_response_def)
    then show ?thesis using same e(2) True by (auto simp: mark_published_map settled_row_def)
  next
    case False
    let ?m = "\<lambda>r. ev_id r = ev_id e \<and> ev_status r = PENDING \<and> lease_owner r = Some w"
    have m: "?m r \<longleftrightarrow> ev_id r = ev_id e" if "r \<in> set rows" for r using same [OF that] e by auto
    have "e \<in> set (filter ?m rows)" using e by simp
    then obtain x xs where x: "filter ?m rows = x # xs" by (cases "filter ?m rows") auto
    have "deliver cfg w (\<lambda>_ _. Response s) e t rows = mark_failed cfg w e True None t rows"
      using False by (simp add: deliver_def settle_def)
    then have "snd (deliver cfg w (\<lambda>_ _. Response s) e t rows)
        = map (\<lambda>r. if ?m r then failed_row cfg True (ev_attempts e) None t r else r) rows"
      by (simp only: mark_failed_def Let_def x list.case snd_conv)
    also have "\<dots> = map (\<lambda>r. if ev_id r = ev_id e then settled_row cfg s t r else r) rows"
      using m same False by (intro map_cong refl) (auto simp: settled_row_def)
    finally show ?thesis .
  qed
qed

lemma deliver_all_acked:
  assumes "distinct (map ev_id rows)" "distinct (map ev_id es)" "set es \<subseteq> set rows"
    and "\<forall>e \<in> set es. ev_status e = PENDING \<and> lease_owner e = Some w" "200 \<le> s" "s < 300"
  shows "snd (deliver_all cfg w (\<lambda>_ _. Response s) es t rows) = map (\<lambda>r. if r \<in> set es then settled_row cfg s t r else r) rows"
  using assms
proof (induction es arbitrary: rows)
  case (Cons e es)
  let ?f = "\<lambda>r. if ev_id r = ev_id e then settled_row cfg s t r else r"
  have first: "snd (deliver cfg w (\<lambda>_ _. Response s) e t rows) = map ?f rows"
    using Cons.prems by (intro deliver_acked) auto
  have same: "r \<in> set rows \<Longrightarrow> ev_id r = ev_id e \<longleftrightarrow> r = e" for r using unique_row [OF Cons.prems(1)] Cons.prems(3) by auto
  have other: "x \<in> set es \<Longrightarrow> ev_id x \<noteq> ev_id e" for x using Cons.prems(2) by (auto simp: image_iff)
  have "ev_id (?f r) = ev_id r" for r by simp
  then have "map ev_id (map ?f rows) = map ev_id rows" by simp
  moreover have "set es \<subseteq> set (map ?f rows)"
  proof
    fix x assume "x \<in> set es"
    with Cons.prems(3) other [of x] show "x \<in> set (map ?f rows)" by (auto intro!: image_eqI [of _ _ x])
  qed
  ultimately have "snd (deliver_all cfg w (\<lambda>_ _. Response s) es t (map ?f rows))
      = map (\<lambda>r. if r \<in> set es then settled_row cfg s t r else r) (map ?f rows)"
    using Cons.prems(1,2,4-) by (intro Cons.IH) (simp_all only: distinct.simps list.map list.set ball_simps, blast)
  also have "\<dots> = map (\<lambda>r. if r \<in> set (e # es) then settled_row cfg s t r else r) rows"
  proof -
    have "(if ?f r \<in> set es then settled_row cfg s t (?f r) else ?f r) = (if r \<in> set (e # es) then settled_row cfg s t r else r)"
      if "r \<in> set rows" for r
      using same [OF that] other [of "?f r"] by auto
    then show ?thesis by simp
  qed
  finally show ?case using first by (simp add: split_beta)
qed simp

lemma candidates_distinct:
  assumes "distinct (map ev_id rows)" shows "distinct (candidates n t locked rows)"
proof -
  have "distinct rows" using assms by (rule distinct_mapI)
  then show ?thesis by (simp add: candidates_def)
qed

lemma candidates_nonempty:
  "r \<in> set rows \<Longrightarrow> claimable t rows r \<Longrightarrow> 0 < n \<Longrightarrow> candidates n t (\<lambda>_. False) rows \<noteq> []"
  by (auto simp: candidates_def filter_empty_conv dest: arg_cong [of _ _ set])

text \<open>C29: with a receiver that acknowledges everything, one cycle settles every event that is due, up to the size of the
  batch: it publishes those with an attempt left and marks the exhausted ones DEAD without sending them. It touches nothing
  else, and so makes progress whenever an event is due.\<close>

theorem cycle_makes_progress:
  assumes ids: "distinct (map ev_id rows)" and s: "200 \<le> s" "s < 300"
    and run: "run_once cfg w (Some (\<lambda>_ _. Response s)) t rows = (outs, rows')"
  defines "due \<equiv> candidates (batch_size cfg) t (\<lambda>_. False) rows"
  shows "rows' = map (\<lambda>r. if r \<in> set due
        then if ev_attempts r < max_attempts cfg then published_row (Some s) t (lease cfg w t r)
             else failed_row cfg True (ev_attempts r + 1) None t (lease cfg w t r)
        else r) rows
    \<and> (\<forall>r \<in> set due. ev_attempts r < max_attempts cfg \<longrightarrow> (\<exists>p \<in> set rows'. ev_id p = ev_id r \<and> ev_status p = PUBLISHED))
    \<and> (\<forall>r \<in> set due. max_attempts cfg \<le> ev_attempts r \<longrightarrow> (\<exists>p \<in> set rows'. ev_id p = ev_id r \<and> ev_status p = DEAD))
    \<and> length (with_status PENDING rows') + length due = length (with_status PENDING rows)
    \<and> (0 < batch_size cfg \<longrightarrow> (\<exists>r \<in> set rows. claimable t rows r) \<longrightarrow> due \<noteq> [])"
proof -
  obtain claimed rows1 where c: "claim_batch cfg w (\<lambda>_. False) t rows = (claimed, rows1)" by fastforce
  note eq = claim_batch_eq [OF c]
  let ?l = "\<lambda>r. if ev_id r \<in> ev_id ` set due then lease cfg w t r else r"
  have due: "r \<in> set rows \<and> ev_status r = PENDING" if "r \<in> set due" for r
    using candidates_claimable that unfolding due_def claimable_def by blast
  have member: "ev_id r \<in> ev_id ` set due \<longleftrightarrow> r \<in> set due" if "r \<in> set rows" for r
  proof
    assume "ev_id r \<in> ev_id ` set due"
    then obtain x where "x \<in> set due" "ev_id r = ev_id x" by auto
    with unique_row [OF ids that, of x] due show "r \<in> set due" by metis
  qed simp
  have rows1: "rows1 = map ?l rows" and claimed: "set claimed = {e \<in> set rows1. ev_id e \<in> ev_id ` set due}"
    using eq(1,2) by (simp_all add: due_def)
  have ids1: "map ev_id rows1 = map ev_id rows" unfolding rows1 by (simp add: lease_def)
  have dc: "distinct (map ev_id claimed)"
  proof -
    from c have "claimed = sort_key ev_id (filter (\<lambda>e. ev_id e \<in> ev_id ` set due) rows1)"
      unfolding claim_batch_def due_def by (auto simp: Let_def)
    then show ?thesis
      using ids1 ids by (simp only: distinct_map_sort_filter)
  qed
  have held: "\<forall>e \<in> set claimed. ev_status e = PENDING \<and> lease_owner e = Some w"
    using claimed_rows [OF c ids] by (fastforce simp: lease_def claimable_def)
  have "rows' = map (\<lambda>r. if r \<in> set claimed then settled_row cfg s t r else r) rows1"
    using deliver_all_acked [of rows1 claimed w s cfg t] ids ids1 dc claimed held s run by (auto simp: run_once_def c)
  then have rows'_eq: "rows' = map (\<lambda>r. if r \<in> set due then settled_row cfg s t (lease cfg w t r) else r) rows"
  proof -
    have "(if ?l r \<in> set claimed then settled_row cfg s t (?l r) else ?l r)
      = (if r \<in> set due then settled_row cfg s t (lease cfg w t r) else r)" if "r \<in> set rows" for r
    proof -
      have "?l r \<in> set rows1" unfolding rows1 set_map using that by (rule imageI)
      moreover have "ev_id (?l r) = ev_id r" by (simp add: lease_def)
      ultimately show ?thesis using member [OF that] unfolding claimed by auto
    qed
    then show "rows' = map (\<lambda>r. if r \<in> set due then settled_row cfg s t (lease cfg w t r) else r) rows"
      if "rows' = map (\<lambda>r. if r \<in> set claimed then settled_row cfg s t r else r) rows1"
      using that unfolding rows1 by simp
  qed
  have sends: "sends cfg (lease cfg w t r) \<longleftrightarrow> ev_attempts r < max_attempts cfg" for r by (auto simp: sends_def lease_def)
  have final: "settled_row cfg s t (lease cfg w t r) = (if ev_attempts r < max_attempts cfg then published_row (Some s) t (lease cfg w t r)
             else failed_row cfg True (ev_attempts r + 1) None t (lease cfg w t r))" for r
    unfolding settled_row_def sends by (simp add: lease_def)
  have fate: "\<exists>p \<in> set rows'. ev_id p = ev_id r \<and> ev_status p = (if ev_attempts r < max_attempts cfg then PUBLISHED else DEAD)"
    if "r \<in> set due" for r
  proof (rule bexI [of _ "settled_row cfg s t (lease cfg w t r)"])
    show "settled_row cfg s t (lease cfg w t r) \<in> set rows'"
      unfolding rows'_eq using that due [OF that] by (auto intro!: image_eqI [of _ _ r])
  qed (simp add: settled_row_status sends, simp add: lease_def)
  have "with_status PENDING rows' = filter (\<lambda>r. ev_status r = PENDING \<and> r \<notin> set due) rows"
    unfolding rows'_eq with_status_def by (induction rows) (auto simp: settled_row_status)
  moreover have "length due = length (filter (\<lambda>r. ev_status r = PENDING \<and> r \<in> set due) rows)"
  proof -
    have "filter (\<lambda>r. ev_status r = PENDING \<and> r \<in> set due) rows = filter (\<lambda>r. r \<in> set due) rows"
      using due by (intro filter_cong) auto
    then show ?thesis
      using length_filter_mem [OF distinct_mapI [OF ids], of due] due candidates_distinct [OF ids, folded due_def]
      by (metis due_def subsetI)
  qed
  ultimately have "length (with_status PENDING rows') + length due = length (with_status PENDING rows)"
    using sum_length_filter_compl [of "\<lambda>r. r \<in> set due" "with_status PENDING rows"]
    by (simp add: with_status_def conj_commute)
  moreover have "0 < batch_size cfg \<longrightarrow> (\<exists>r \<in> set rows. claimable t rows r) \<longrightarrow> due \<noteq> []"
    using candidates_nonempty unfolding due_def by blast
  moreover have "\<forall>r \<in> set due. ev_attempts r < max_attempts cfg \<longrightarrow> (\<exists>p \<in> set rows'. ev_id p = ev_id r \<and> ev_status p = PUBLISHED)"
    "\<forall>r \<in> set due. max_attempts cfg \<le> ev_attempts r \<longrightarrow> (\<exists>p \<in> set rows'. ev_id p = ev_id r \<and> ev_status p = DEAD)"
    using fate by (metis not_le)+
  ultimately show ?thesis using rows'_eq unfolding final by blast
qed

text \<open>A batch of two due events, one of them exhausted: one is published, the other dies.\<close>

definition demo_tired :: "outbox_row list" where
  "demo_tired = [demo_event 1 ''7'' 1 ''a'', demo_event 2 ''7'' 2 ''b'', (demo_event 3 ''8'' 1 ''c'')\<lparr>ev_attempts := 3\<rparr>]"

theorem cycle_makes_progress_witness:
  "\<exists>outs rows. run_once (demo_config\<lparr>batch_size := 2\<rparr>) ''w'' (Some (\<lambda>_ _. Response 204)) 5 demo_tired = (outs, rows)
    \<and> length (with_status PENDING rows) + 2 = 3
    \<and> (\<exists>p \<in> set rows. ev_id p = 1 \<and> ev_status p = PUBLISHED) \<and> (\<exists>p \<in> set rows. ev_id p = 3 \<and> ev_status p = DEAD)"
proof -
  let ?cfg = "demo_config\<lparr>batch_size := 2\<rparr>"
  have d: "distinct (map ev_id demo_tired)"
    "candidates (batch_size ?cfg) 5 (\<lambda>_. False) demo_tired = [demo_tired ! 0, demo_tired ! 2]" "length (with_status PENDING demo_tired) = 3"
    "ev_id (demo_tired ! 0) = 1" "ev_id (demo_tired ! 2) = 3" "ev_attempts (demo_tired ! 0) < max_attempts ?cfg"
    "max_attempts ?cfg \<le> ev_attempts (demo_tired ! 2)"
    by code_simp+
  obtain outs rows where run: "run_once ?cfg ''w'' (Some (\<lambda>_ _. Response 204)) 5 demo_tired = (outs, rows)" by fastforce
  have s: "(200 :: nat) \<le> 204" "(204 :: nat) < 300" by simp_all
  note h = cycle_makes_progress [OF d(1) s run, unfolded d(2), THEN conjunct2]
  have "\<exists>p \<in> set rows. ev_id p = 1 \<and> ev_status p = PUBLISHED" "\<exists>p \<in> set rows. ev_id p = 3 \<and> ev_status p = DEAD"
    "length (with_status PENDING rows) + 2 = 3"
    using h d(3-) by auto
  with run show ?thesis by blast
qed

text \<open>A failed attempt changes only the event its worker still leases: it becomes DEAD exactly when
  the receiver refused it or its attempts are exhausted, and otherwise stays pending, free of the
  lease and due again after a delay between the base and the cap.\<close>

theorem failed_delivery:
  assumes ids: "distinct (map ev_id rows)" and r: "r \<in> set rows" "ev_id r = ev_id e"
    and a: "a = RETRY http \<or> a = REJECTED http"
    and run: "settle cfg w e a t rows = (out, rows')"
    and base: "0 < retry_base_ms cfg"
  shows "(if ev_status r = PENDING \<and> lease_owner r = Some w
     then \<exists>r'. rows' = map (\<lambda>x. if x = r then r' else x) rows \<and> lease_owner r' = None \<and> lease_expires_at r' = None
        \<and> ev_status r' = (if a = REJECTED http \<or> max_attempts cfg \<le> ev_attempts r then DEAD else PENDING)
        \<and> out = (if ev_status r' = DEAD then Dead else Retry)
        \<and> min (retry_max_ms cfg) (retry_base_ms cfg) \<le> next_attempt_at r' - t
        \<and> next_attempt_at r' - t \<le> retry_max_ms cfg
     else out = LeaseLost \<and> rows' = rows)"
proof -
  have unique: "x \<in> set rows \<Longrightarrow> ev_id x = ev_id e \<longleftrightarrow> x = r" for x
    using unique_row [OF ids _ r(1)] r(2) by metis
  define d where "d = (a = REJECTED http)"
  have fail: "settle cfg w e a t rows = mark_failed cfg w e d http t rows"
    using a by (auto simp: settle_def d_def)
  define f where "f = failed_row cfg d (ev_attempts e) http t"
  let ?m = "\<lambda>x. ev_id x = ev_id e \<and> ev_status x = PENDING \<and> lease_owner x = Some w"
  have delay: "min (retry_max_ms cfg) (retry_base_ms cfg) \<le> compute_backoff_ms (ev_attempts e) (retry_base_ms cfg) (retry_max_ms cfg)"
    "compute_backoff_ms (ev_attempts e) (retry_base_ms cfg) (retry_max_ms cfg) \<le> retry_max_ms cfg"
    by (auto simp: compute_backoff_ms_def Let_def min_def intro: order_trans)
  show ?thesis
  proof (cases "ev_status r = PENDING \<and> lease_owner r = Some w")
    case True
    have "filter ?m rows = filter (\<lambda>x. x = r) rows" using unique True by (intro filter_cong) auto
    moreover have "\<exists>l. filter (\<lambda>x. x = r) rows = r # l"
      using r(1) by (induction rows) auto
    ultimately obtain l where l: "filter ?m rows = r # l" by auto
    have "(out, rows') = (if ev_status (f r) = DEAD then Dead else Retry, map (\<lambda>x. if ?m x then f x else x) rows)"
      unfolding run [symmetric] by (simp only: fail mark_failed_def f_def Let_def l list.case)
    then have "rows' = map (\<lambda>x. if ?m x then f x else x) rows" "out = (if ev_status (f r) = DEAD then Dead else Retry)"
      by (simp_all only: prod.inject)
    moreover have "map (\<lambda>x. if ?m x then f x else x) rows = map (\<lambda>x. if x = r then f r else x) rows"
    proof (rule map_cong [OF refl])
      fix x assume "x \<in> set rows"
      with unique True have "?m x \<longleftrightarrow> x = r" by metis
      then show "(if ?m x then f x else x) = (if x = r then f r else x)" by simp
    qed
    moreover have "ev_status (f r) = (if a = REJECTED http \<or> max_attempts cfg \<le> ev_attempts r then DEAD else PENDING)"
      "lease_owner (f r) = None" "lease_expires_at (f r) = None"
      "next_attempt_at (f r) = t + compute_backoff_ms (ev_attempts e) (retry_base_ms cfg) (retry_max_ms cfg)"
      by (simp_all add: f_def failed_row_def d_def Let_def)
    ultimately show ?thesis
      unfolding if_P [OF True] using delay by (intro exI [of _ "f r"]) simp
  next
    case False
    then have "filter ?m rows = []" using unique by (auto simp: filter_empty_conv)
    then have "out = LeaseLost" "rows' = rows" using run by (auto simp: fail mark_failed_def Let_def)
    then show ?thesis by (simp add: if_not_P [OF False])
  qed
qed

theorem failed_delivery_witness:
  "fst (settle demo_config ''w'' (lease demo_config ''w'' 5 (demo_event 1 ''7'' 1 ''a'')) (RETRY None) 6 demo_first) = Retry"
proof -
  let ?e = "lease demo_config ''w'' 5 (demo_event 1 ''7'' 1 ''a'')"
  have m: "distinct (map ev_id demo_first)" "hd demo_first \<in> set demo_first" "ev_id (hd demo_first) = ev_id ?e"
    "0 < retry_base_ms demo_config" "ev_status (hd demo_first) = PENDING \<and> lease_owner (hd demo_first) = Some ''w''"
    "\<not> max_attempts demo_config \<le> ev_attempts (hd demo_first)"
    by code_simp+
  show ?thesis
    using failed_delivery [OF m(1-3) disjI1 [OF refl], of demo_config "''w''" None 6 _ "snd (settle demo_config ''w'' ?e (RETRY None) 6 demo_first)"] m(4-)
    by (auto simp: prod_eq_iff)
qed

end
