(* ===== verification/Inbox.thy ===== *)
theory Inbox
  imports Prelude
begin

text \<open>
  The consumer's inbox of \<open>common/events/event-inbox.ts\<close> and the transaction wrapper of
  \<open>common/events/queryable.ts\<close>: registering an event and its effect in one transaction, dropping
  duplicates and stale versions, and the contract of an idempotent receiver as an interface that
  both orderings of the inbox meet. Transactions of one consumer are serial: the unique key makes
  the second of two simultaneous deliveries wait for the first.
\<close>

section \<open>First occurrences\<close>

fun firsts :: "('a \<Rightarrow> 'k) \<Rightarrow> 'k set \<Rightarrow> 'a list \<Rightarrow> 'a list" where
  "firsts key seen [] = []"
| "firsts key seen (x # xs) =
     (if key x \<in> seen then firsts key seen xs else x # firsts key (insert (key x) seen) xs)"

lemma set_firsts: "key ` set (firsts key seen xs) = key ` set xs - seen"
  by (induction xs arbitrary: seen) auto

lemma firsts_subset: "set (firsts key seen xs) \<subseteq> set xs"
  by (induction xs arbitrary: seen) auto

lemma distinct_firsts: "distinct (map key (firsts key seen xs))"
proof (induction xs arbitrary: seen)
  case (Cons x xs)
  have "key x \<notin> key ` set (firsts key (insert (key x) seen) xs)" by (simp add: set_firsts)
  with Cons show ?case by simp
qed simp

text \<open>What comes before a first occurrence has its own first occurrence before it.\<close>

lemma firsts_order:
  assumes "firsts key seen xs = us @ y # vs"
  shows "\<exists>ps qs. xs = ps @ y # qs \<and> key ` set us = key ` set ps - seen \<and> key y \<notin> key ` set ps \<union> seen"
  using assms
proof (induction xs arbitrary: seen us)
  case (Cons x xs)
  show ?case
  proof (cases "key x \<in> seen")
    case True
    with Cons.prems have "firsts key seen xs = us @ y # vs" by simp
    from Cons.IH [OF this] obtain ps qs where "xs = ps @ y # qs" "key ` set us = key ` set ps - seen"
        "key y \<notin> key ` set ps \<union> seen" by blast
    with True show ?thesis by (intro exI [of _ "x # ps"] exI [of _ qs]) auto
  next
    case False
    show ?thesis
    proof (cases us)
      case Nil
      with Cons.prems False show ?thesis by (intro exI [of _ "[]"] exI [of _ xs]) auto
    next
      case (Cons u us')
      with Cons.prems False have "firsts key (insert (key x) seen) xs = us' @ y # vs" "u = x" by auto
      from Cons.IH [OF this(1)] obtain ps qs where "xs = ps @ y # qs" "key ` set us' = key ` set ps - insert (key x) seen"
          "key y \<notin> key ` set ps \<union> insert (key x) seen" by blast
      with False Cons \<open>u = x\<close> show ?thesis by (intro exI [of _ "x # ps"] exI [of _ qs]) auto
    qed
  qed
qed simp

section \<open>The interface of an idempotent receiver\<close>

text \<open>
  A receiver keeps the set of the keys it has handled. Its contract: a message is handled afterwards,
  takes effect if its key is new, and changes nothing else. From that alone, deliveries that repeat
  in any pattern have the effect of the first occurrences, in their order.
\<close>

locale idempotent_receiver =
  fixes accept :: "'m \<Rightarrow> 's \<Rightarrow> 's" and key :: "'m \<Rightarrow> 'k" and handled :: "'s \<Rightarrow> 'k set"
    and view :: "'s \<Rightarrow> 'd" and effect :: "'m \<Rightarrow> 'd \<Rightarrow> 'd"
  assumes handled_accept: "handled (accept m s) = insert (key m) (handled s)"
    and repeated: "key m \<in> handled s \<Longrightarrow> view (accept m s) = view s"
    and fresh: "key m \<notin> handled s \<Longrightarrow> view (accept m s) = effect m (view s)"
begin

lemma handled_fold: "handled (fold accept ms s) = handled s \<union> key ` set ms"
  by (induction ms arbitrary: s) (auto simp: handled_accept)

theorem exactly_once: "view (fold accept ms s) = fold effect (firsts key (handled s) ms) (view s)"
  by (induction ms arbitrary: s) (auto simp: handled_accept repeated fresh insert_absorb)

lemma redelivery:
  assumes "key ` set ns \<subseteq> handled s \<union> key ` set ms"
  shows "view (fold accept (ms @ ns) s) = view (fold accept ms s)"
proof -
  have "firsts key (handled (fold accept ms s)) ns = []"
  proof -
    have "key ` set (firsts key (handled (fold accept ms s)) ns) = {}"
      using assms unfolding set_firsts handled_fold by blast
    then show ?thesis by simp
  qed
  then show ?thesis using exactly_once [of ns "fold accept ms s"] by simp
qed

lemma redelivery_noop: "key m \<in> handled s \<Longrightarrow> handled (accept m s) = handled s \<and> view (accept m s) = view s"
  by (simp add: handled_accept repeated insert_absorb)

end

section \<open>The inbox\<close>

datatype inbox_ordering = EveryEvent | LatestState

datatype inbox_outcome = APPLIED | STALE

record inbox_event =
  in_key :: string
  in_topic :: string
  in_schema :: "nat option"
  in_aggregate :: "(string \<times> string \<times> int) option"

record inbox_row =
  row_consumer :: string
  row_key :: string
  row_topic :: string
  row_aggregate :: "(string \<times> string \<times> int) option"
  row_schema :: nat
  row_outcome :: inbox_outcome

record 'd inbox_db =
  inbox_rows :: "inbox_row list"
  last_versions :: "string \<times> string \<times> string \<Rightarrow> int option"
  business :: 'd

datatype 'v inbox_result = Applied 'v | Duplicate | Stale int

datatype 'e inbox_error = MissingAggregate | EffectFailed 'e

definition registered :: "string \<Rightarrow> 'd inbox_db \<Rightarrow> string \<Rightarrow> bool" where
  "registered consumer db k = (\<exists>r \<in> set (inbox_rows db). row_consumer r = consumer \<and> row_key r = k)"

definition inbox_row_of :: "string \<Rightarrow> inbox_event \<Rightarrow> inbox_row" where
  "inbox_row_of consumer e =
     \<lparr>row_consumer = consumer, row_key = in_key e, row_topic = in_topic e, row_aggregate = in_aggregate e,
      row_schema = (case in_schema e of None \<Rightarrow> 1 | Some n \<Rightarrow> n), row_outcome = APPLIED\<rparr>"

definition register :: "string \<Rightarrow> inbox_event \<Rightarrow> 'd inbox_db \<Rightarrow> 'd inbox_db" where
  "register consumer e db = db\<lparr>inbox_rows := inbox_rows db @ [inbox_row_of consumer e]\<rparr>"

definition mark_stale :: "string \<Rightarrow> string \<Rightarrow> 'd inbox_db \<Rightarrow> 'd inbox_db" where
  "mark_stale consumer k db = db\<lparr>inbox_rows := map (\<lambda>r. if row_consumer r = consumer \<and> row_key r = k
     then r\<lparr>row_outcome := STALE\<rparr> else r) (inbox_rows db)\<rparr>"

text \<open>The conditional upsert: the recorded version only grows.\<close>

definition advances :: "'d inbox_db \<Rightarrow> string \<times> string \<times> string \<Rightarrow> int \<Rightarrow> bool" where
  "advances db k version = (case last_versions db k of None \<Rightarrow> True | Some current \<Rightarrow> current < version)"

definition run_effect :: "('d \<Rightarrow> 'e + 'v \<times> 'd) \<Rightarrow> 'd inbox_db \<Rightarrow> 'e inbox_error + 'v inbox_result \<times> 'd inbox_db" where
  "run_effect effect db =
     (case effect (business db) of
        Inl e \<Rightarrow> Inl (EffectFailed e)
      | Inr (v, d) \<Rightarrow> Inr (Applied v, db\<lparr>business := d\<rparr>))"

definition consume_once ::
    "string \<Rightarrow> inbox_ordering \<Rightarrow> inbox_event \<Rightarrow> ('d \<Rightarrow> 'e + 'v \<times> 'd) \<Rightarrow> 'd inbox_db \<Rightarrow>
     'e inbox_error + 'v inbox_result \<times> 'd inbox_db" where
  "consume_once consumer mode e effect db =
     (if mode = LatestState \<and> in_aggregate e = None then Inl MissingAggregate
      else if registered consumer db (in_key e) then Inr (Duplicate, db)
      else
        (let db1 = register consumer e db in
         case (mode, in_aggregate e) of
           (LatestState, Some (type, aid, version)) \<Rightarrow>
             (let k = (consumer, type, aid) in
              if advances db1 k version
              then run_effect effect (db1\<lparr>last_versions := (last_versions db1)(k \<mapsto> version)\<rparr>)
              else Inr (Stale (case last_versions db1 k of None \<Rightarrow> 0 | Some v \<Rightarrow> v), mark_stale consumer (in_key e) db1))
         | _ \<Rightarrow> run_effect effect db1))"

text \<open>\<open>BEGIN\<close>, the work, and \<open>COMMIT\<close>; or \<open>ROLLBACK\<close> when the work throws.\<close>

definition in_pg_transaction :: "('s \<Rightarrow> 'e + 'a \<times> 's) \<Rightarrow> 's \<Rightarrow> ('e + 'a) \<times> 's" where
  "in_pg_transaction work s = (case work s of Inl e \<Rightarrow> (Inl e, s) | Inr (a, s') \<Rightarrow> (Inr a, s'))"

text \<open>
  A delivery, as the usage rule of the module prescribes: the transaction around \<open>consumeOnce\<close>. The
  effect of a delivery may fail this time and succeed the next (\<open>commits\<close> says which).
\<close>

definition delivery_effect :: "('m \<Rightarrow> 'd \<Rightarrow> 'd) \<Rightarrow> 'm \<Rightarrow> bool \<Rightarrow> 'd \<Rightarrow> unit + unit \<times> 'd" where
  "delivery_effect act e commits d = (if commits then Inr ((), act e d) else Inl ())"

definition receive ::
    "string \<Rightarrow> inbox_ordering \<Rightarrow> (inbox_event \<Rightarrow> 'd \<Rightarrow> 'd) \<Rightarrow> inbox_event \<times> bool \<Rightarrow> 'd inbox_db \<Rightarrow> 'd inbox_db" where
  "receive consumer mode act m db =
     snd (in_pg_transaction (consume_once consumer mode (fst m) (delivery_effect act (fst m) (snd m))) db)"

section \<open>The inbox is an idempotent receiver\<close>

definition inbox_keys :: "string \<Rightarrow> 'd inbox_db \<Rightarrow> string set" where
  "inbox_keys consumer db = {k. registered consumer db k}"

lemma in_inbox_keys [simp]: "k \<in> inbox_keys consumer db \<longleftrightarrow> registered consumer db k"
  by (simp add: inbox_keys_def)

lemma registered_simps [simp]:
  "registered c (register d e db) k \<longleftrightarrow> registered c db k \<or> (c = d \<and> k = in_key e)"
  "registered c (db\<lparr>business := b\<rparr>) k \<longleftrightarrow> registered c db k"
  "registered c (db\<lparr>last_versions := v\<rparr>) k \<longleftrightarrow> registered c db k"
  by (auto simp: registered_def register_def inbox_row_of_def)

lemma registered_mark_stale [simp]: "registered c (mark_stale d x db) k \<longleftrightarrow> registered c db k"
proof -
  have same: "(\<exists>r \<in> set (map f rows). P r) \<longleftrightarrow> (\<exists>r \<in> set rows. P r)" if "\<And>r. P (f r) = P r"
    for f :: "inbox_row \<Rightarrow> inbox_row" and P rows
    using that by simp
  have "inbox_rows (mark_stale d x db) = map (\<lambda>r. if row_consumer r = d \<and> row_key r = x
     then r\<lparr>row_outcome := STALE\<rparr> else r) (inbox_rows db)" by (simp add: mark_stale_def)
  then show ?thesis unfolding registered_def by (simp only:) (rule same, simp)
qed

lemma writes_simps [simp]:
  "business (register c e db) = business db" "last_versions (register c e db) = last_versions db"
  "business (mark_stale c k db) = business db" "last_versions (mark_stale c k db) = last_versions db"
  by (simp_all add: register_def mark_stale_def)

text \<open>A delivery whose effect throws leaves no trace, not even its key.\<close>

lemma consume_once_failed:
  "consume_once c mode e (delivery_effect act e False) db = Inr (v, db') \<Longrightarrow> \<not> registered c db (in_key e) \<Longrightarrow>
    (\<exists>n. v = Stale n) \<and> mode = LatestState"
  by (auto simp: consume_once_def run_effect_def delivery_effect_def Let_def split: option.splits inbox_ordering.splits if_splits)

lemma receive_every:
  "receive c EveryEvent act (e, commits) db =
     (if registered c db (in_key e) \<or> \<not> commits then db
      else (register c e db)\<lparr>business := act e (business db)\<rparr>)"
  by (auto simp: receive_def in_pg_transaction_def consume_once_def run_effect_def delivery_effect_def Let_def)

interpretation every: idempotent_receiver
  "\<lambda>e. receive c EveryEvent act (e, True)" in_key "inbox_keys c" business act for c act
  by unfold_locales (auto simp: receive_every)

text \<open>An event with the version of its aggregate, as \<open>latest-state\<close> requires.\<close>

record versioned =
  event_key :: string
  event_topic :: string
  event_type :: string
  event_id :: string
  event_version :: int

definition event_aggregate :: "versioned \<Rightarrow> string \<times> string" where
  "event_aggregate m = (event_type m, event_id m)"

definition versioned_event :: "versioned \<Rightarrow> inbox_event" where
  "versioned_event m =
     \<lparr>in_key = event_key m, in_topic = event_topic m, in_schema = None,
      in_aggregate = Some (event_type m, event_id m, event_version m)\<rparr>"

lemma in_key_versioned_event [simp]: "in_key (versioned_event m) = event_key m"
  by (simp add: versioned_event_def)

type_synonym 'd versions_and_data = "(string \<times> string \<times> string \<Rightarrow> int option) \<times> 'd"

definition newer :: "string \<Rightarrow> versioned \<Rightarrow> (string \<times> string \<times> string \<Rightarrow> int option) \<Rightarrow> bool" where
  "newer c m versions = (case versions (c, event_aggregate m) of None \<Rightarrow> True | Some current \<Rightarrow> current < event_version m)"

definition latest_effect :: "string \<Rightarrow> (inbox_event \<Rightarrow> 'd \<Rightarrow> 'd) \<Rightarrow> versioned \<Rightarrow> 'd versions_and_data \<Rightarrow> 'd versions_and_data" where
  "latest_effect c act m s =
     (if newer c m (fst s) then ((fst s)((c, event_aggregate m) \<mapsto> event_version m), act (versioned_event m) (snd s)) else s)"

definition inbox_view :: "'d inbox_db \<Rightarrow> 'd versions_and_data" where
  "inbox_view db = (last_versions db, business db)"

lemma receive_latest:
  "receive c LatestState act (versioned_event m, commits) db =
     (if registered c db (event_key m) then db
      else if newer c m (last_versions db)
      then (if commits then (register c (versioned_event m) db)\<lparr>last_versions := (last_versions db)((c, event_aggregate m) \<mapsto> event_version m),
              business := act (versioned_event m) (business db)\<rparr> else db)
      else mark_stale c (event_key m) (register c (versioned_event m) db))"
  by (auto simp: versioned_event_def event_aggregate_def receive_def in_pg_transaction_def consume_once_def run_effect_def delivery_effect_def
      advances_def newer_def Let_def split: option.splits)

interpretation latest: idempotent_receiver
  "\<lambda>m. receive c LatestState act (versioned_event m, True)" event_key "inbox_keys c" inbox_view "latest_effect c act" for c act
proof
  fix m :: versioned and s :: "'a inbox_db"
  show "inbox_keys c (receive c LatestState act (versioned_event m, True) s) = insert (event_key m) (inbox_keys c s)"
    by (auto simp: receive_latest)
  show "inbox_view (receive c LatestState act (versioned_event m, True) s) = inbox_view s" if "event_key m \<in> inbox_keys c s"
    using that by (simp add: receive_latest)
  show "inbox_view (receive c LatestState act (versioned_event m, True) s) = latest_effect c act m (inbox_view s)"
    if "event_key m \<notin> inbox_keys c s"
    using that by (simp add: receive_latest inbox_view_def latest_effect_def)
qed

section \<open>What an idempotent consumer gets\<close>

definition committed :: "('m \<times> bool) list \<Rightarrow> 'm list" where
  "committed ds = map fst (filter snd ds)"

lemma receive_committed:
  "fold (receive c EveryEvent act) ds db = fold (\<lambda>e. receive c EveryEvent act (e, True)) (committed ds) db"
proof (induction ds arbitrary: db)
  case (Cons d ds)
  have "receive c EveryEvent act (e, False) db = db" for e by (simp add: receive_every)
  with Cons show ?case by (cases d) (auto simp: committed_def)
qed (simp add: committed_def)

text \<open>C30: however often an event is delivered, in whatever order and with whatever failed attempts in
  between, its effect happens exactly once: the data is that of the first committed delivery of
  each event, in order.\<close>

theorem inbox_exactly_once:
  "business (fold (receive c EveryEvent act) ds db)
     = fold act (firsts in_key (inbox_keys c db) (committed ds)) (business db)"
  unfolding receive_committed by (rule every.exactly_once)

fun advancing :: "string \<Rightarrow> (string \<times> string \<times> string \<Rightarrow> int option) \<Rightarrow> versioned list \<Rightarrow> versioned list" where
  "advancing c vs [] = []"
| "advancing c vs (m # ms) =
     (if newer c m vs then m # advancing c (vs((c, event_aggregate m) \<mapsto> event_version m)) ms else advancing c vs ms)"

lemma fold_latest_effect:
  "snd (fold (latest_effect c act) ms s) = fold (\<lambda>m. act (versioned_event m)) (advancing c (fst s) ms) (snd s)"
  by (induction ms arbitrary: s) (auto simp: latest_effect_def)

lemma advancing_subset: "set (advancing c vs ms) \<subseteq> set ms"
  by (induction ms arbitrary: vs) (auto split: if_splits)

lemma advancing_newer: "x \<in> set (advancing c vs ms) \<Longrightarrow> newer c x vs"
  by (induction ms arbitrary: vs) (force simp: newer_def split: if_splits option.splits)+

lemma advancing_increasing:
  "sorted_wrt (\<lambda>x y. event_aggregate x = event_aggregate y \<longrightarrow> event_version x < event_version y) (advancing c vs ms)"
proof (induction ms arbitrary: vs)
  case (Cons m ms)
  have "event_version m < event_version y"
    if "y \<in> set (advancing c (vs((c, event_aggregate m) \<mapsto> event_version m)) ms)" "event_aggregate m = event_aggregate y" for y
    using advancing_newer [OF that(1)] that(2) by (simp add: newer_def)
  with Cons show ?case by auto
qed simp

lemma advancing_covers:
  "m \<in> set ms \<Longrightarrow> newer c m vs \<Longrightarrow>
    \<exists>x \<in> set (advancing c vs ms). event_aggregate x = event_aggregate m \<and> event_version m \<le> event_version x"
proof (induction ms arbitrary: vs)
  case (Cons y ys)
  show ?case
  proof (cases "newer c y vs")
    case False
    then show ?thesis using Cons by auto
  next
    case True
    let ?vs = "vs((c, event_aggregate y) \<mapsto> event_version y)"
    show ?thesis
    proof (cases "m = y \<or> event_aggregate y = event_aggregate m \<and> event_version m \<le> event_version y")
      case True
      then show ?thesis using \<open>newer c y vs\<close> by auto
    next
      case False
      then have "m \<in> set ys" "newer c m ?vs" using Cons.prems by (auto simp: newer_def)
      from Cons.IH [OF this] show ?thesis using True by (auto simp del: fun_upd_apply)
    qed
  qed
qed simp

text \<open>With \<open>latest-state\<close> the versions of an aggregate only grow: the applied events of an aggregate
  have strictly increasing versions, each delivered event is applied or overtaken by a version at
  least as new, so late and repeated deliveries never bring an old state back.\<close>

theorem inbox_latest_state:
  assumes "inbox_rows db = []" "last_versions db = (\<lambda>_. None)"
  shows "\<exists>applied. business (fold (\<lambda>m. receive c LatestState act (versioned_event m, True)) ms db)
        = fold (\<lambda>m. act (versioned_event m)) applied (business db)
     \<and> distinct (map event_key applied) \<and> set applied \<subseteq> set ms
     \<and> sorted_wrt (\<lambda>x y. event_aggregate x = event_aggregate y \<longrightarrow> event_version x < event_version y) applied
     \<and> (\<forall>m \<in> set (firsts event_key {} ms). \<exists>x \<in> set applied. event_aggregate x = event_aggregate m
          \<and> event_version m \<le> event_version x)"
proof -
  let ?applied = "advancing c (\<lambda>_. None) (firsts event_key {} ms)"
  have keys: "inbox_keys c db = {}" using assms(1) by (auto simp: inbox_keys_def registered_def)
  from latest.exactly_once [of c act ms db] have "inbox_view (fold (\<lambda>m. receive c LatestState act (versioned_event m, True)) ms db)
      = fold (latest_effect c act) (firsts event_key {} ms) (inbox_view db)" by (simp add: keys)
  from arg_cong [OF this, of snd] have "business (fold (\<lambda>m. receive c LatestState act (versioned_event m, True)) ms db)
      = fold (\<lambda>m. act (versioned_event m)) ?applied (business db)"
    by (simp add: fold_latest_effect) (simp add: inbox_view_def assms(2))
  moreover have "distinct (map event_key (advancing c vs xs))" if "distinct (map event_key xs)" for vs xs
    using that
  proof (induction xs arbitrary: vs)
    case (Cons x xs)
    then show ?case using advancing_subset [of c _ xs] by (auto simp: image_iff)
  qed simp
  then have "distinct (map event_key ?applied)" using distinct_firsts by blast
  moreover have "set ?applied \<subseteq> set ms" using advancing_subset firsts_subset by fastforce
  moreover have "\<forall>m \<in> set (firsts event_key {} ms). \<exists>x \<in> set ?applied. event_aggregate x = event_aggregate m
          \<and> event_version m \<le> event_version x"
    using advancing_covers by (fastforce simp: newer_def)
  ultimately show ?thesis using advancing_increasing by blast
qed

end
