(* ===== verification/EventDelivery.thy ===== *)
theory EventDelivery
  imports OutboxProperties Inbox
begin

text \<open>
  The outbox and the inbox together: what a consumer observes of the relay's history, and that its
  effects happen exactly once and in the order of each aggregate.
\<close>

section \<open>From the outbox to the inbox\<close>

lemma committed_split:
  assumes "committed ds = ps @ e # qs"
  shows "\<exists>xs ys. ds = xs @ (e, True) # ys \<and> committed xs = ps"
  using assms
proof (induction ds arbitrary: ps)
  case (Cons d ds)
  show ?case
  proof (cases "snd d \<and> ps = []")
    case True
    with Cons.prems have "d # ds = [] @ (e, True) # ds" by (cases d) (simp add: committed_def)
    with True show ?thesis by (intro exI [of _ "[]"] exI [of _ ds]) (simp add: committed_def)
  next
    case False
    define ps' where "ps' = (if snd d then tl ps else ps)"
    have "committed ds = ps' @ e # qs" using Cons.prems False by (cases ps) (auto simp: committed_def ps'_def split: if_splits)
    from Cons.IH [OF this] obtain xs ys where "ds = xs @ (e, True) # ys" "committed xs = ps'" by blast
    moreover have "committed (d # xs) = ps" if "committed xs = ps'" for xs
      using that Cons.prems False by (cases ps) (auto simp: committed_def ps'_def split: if_splits)
    ultimately show ?thesis by (intro exI [of _ "d # xs"] exI [of _ ys]) simp
  qed
qed (simp add: committed_def)

text \<open>
  What a receiver sees of the relay's history: each send, with whether its transaction committed. It
  answers with a success only after the commit; it may also commit and the answer get lost.
\<close>

definition deliveries :: "(string \<Rightarrow> inbox_event) \<Rightarrow> (string \<times> bool) list \<Rightarrow> bool list \<Rightarrow> (inbox_event \<times> bool) list" where
  "deliveries event log commits = map2 (\<lambda>x b. (event (fst x), b)) log commits"

definition honest :: "(string \<times> bool) list \<Rightarrow> bool list \<Rightarrow> bool" where
  "honest log commits = list_all2 (\<lambda>x b. snd x \<longrightarrow> b) log commits"

lemma deliveries_Cons [simp]:
  "deliveries event (x # log) (b # commits) = (event (fst x), b) # deliveries event log commits"
  by (simp add: deliveries_def)

lemma acknowledged_committed:
  assumes "honest log commits" "(k, True) \<in> set log"
  shows "event k \<in> set (committed (deliveries event log commits))"
  using assms unfolding honest_def
  by (induction rule: list_all2_induct) (auto simp: deliveries_def committed_def)

lemma deliveries_split:
  assumes "deliveries event log commits = xs @ (e, b) # ys" "honest log commits"
  shows "\<exists>log1 k a log2 commits1. log = log1 @ (k, a) # log2 \<and> e = event k \<and> xs = deliveries event log1 commits1
    \<and> honest log1 commits1"
proof -
  have len: "length log = length commits" using assms(2) by (simp add: honest_def list_all2_lengthD)
  let ?n = "length xs"
  have n: "?n < length log"
    using arg_cong [OF assms(1), of length] len by (simp add: deliveries_def)
  have "log = take ?n log @ (log ! ?n) # drop (Suc ?n) log" using n by (simp add: id_take_nth_drop)
  moreover have "e = event (fst (log ! ?n))"
    using arg_cong [OF assms(1), of "\<lambda>l. l ! ?n"] n len by (simp add: deliveries_def)
  moreover have "xs = deliveries event (take ?n log) (take ?n commits)"
    using arg_cong [OF assms(1), of "take ?n"] by (simp add: deliveries_def take_map take_zip)
  moreover have "honest (take ?n log) (take ?n commits)"
    using assms(2) by (simp add: honest_def list_all2_takeI)
  ultimately show ?thesis by (metis prod.collapse)
qed

text \<open>C8: from end to end, exactly once and in order: whatever workers, failures, lost answers, deaths
  and replays there were, a consumer that uses the inbox applies each event at most once, has
  applied every event marked as published, and applied every event after its predecessors of the
  aggregate.\<close>

theorem events_exactly_once_in_order:
  assumes reach: "relay_reachable cfg (relay_start t) s" and honest: "honest (sent s) commits"
    and keys: "\<forall>k. in_key (event k) = k" and empty: "inbox_rows db = []"
  shows "\<exists>applied. business (fold (receive c EveryEvent act) (deliveries event (sent s) commits) db) = fold act applied (business db)
    \<and> distinct (map in_key applied)
    \<and> (\<forall>r \<in> set (outbox s). ev_status r = PUBLISHED \<longrightarrow> ev_key r \<in> in_key ` set applied)
    \<and> (\<forall>us e vs r p. applied = us @ e # vs \<longrightarrow> r \<in> set (outbox s) \<longrightarrow> p \<in> set (outbox s) \<longrightarrow> ev_key r = in_key e
          \<longrightarrow> earlier p r \<longrightarrow> ev_key p \<in> in_key ` set us)"
proof (intro exI conjI allI impI ballI)
  let ?ds = "deliveries event (sent s) commits"
  let ?applied = "firsts in_key {} (committed ?ds)"
  have ok: "relay_ok s" using relay_reachable_within [OF reach] by simp
  have "inbox_keys c db = {}" using empty by (auto simp: inbox_keys_def registered_def)
  then show "business (fold (receive c EveryEvent act) ?ds db) = fold act ?applied (business db)"
    using every.exactly_once [of c act "committed ?ds" db] by (simp add: receive_committed)
  show "distinct (map in_key ?applied)" by (rule distinct_firsts)
  show "ev_key r \<in> in_key ` set ?applied" if "r \<in> set (outbox s)" "ev_status r = PUBLISHED" for r
  proof -
    have "(ev_key r, True) \<in> set (sent s)" using ok that by (auto simp: relay_ok_def rows_ok_def)
    from acknowledged_committed [OF honest this, of event] keys show ?thesis
      by (auto simp: set_firsts intro: rev_image_eqI)
  qed
  show "ev_key p \<in> in_key ` set us"
    if split: "?applied = us @ e # vs" and m: "r \<in> set (outbox s)" "p \<in> set (outbox s)" "ev_key r = in_key e" "earlier p r"
    for us e vs r p
  proof -
    from firsts_order [OF split] obtain ps qs where ps: "committed ?ds = ps @ e # qs" "in_key ` set us = in_key ` set ps" by auto
    from committed_split [OF ps(1)] obtain xs ys where xs: "?ds = xs @ (e, True) # ys" "committed xs = ps" by blast
    from deliveries_split [OF xs(1) honest] obtain log1 k a log2 commits1 where
      l: "sent s = log1 @ (k, a) # log2" "e = event k" "xs = deliveries event log1 commits1" "honest log1 commits1" by blast
    have "(ev_key p, True) \<in> set log1" using ok l(1,2) m keys by (auto simp: relay_ok_def log_ordered_def)
    from acknowledged_committed [OF l(4) this, of event] have "event (ev_key p) \<in> set ps" using l(3) xs(2) by simp
    then show ?thesis using keys ps(2) by (auto intro: rev_image_eqI)
  qed
qed

definition demo_inbox_event :: "string \<Rightarrow> inbox_event" where
  "demo_inbox_event k = \<lparr>in_key = k, in_topic = ''journal.posted'', in_schema = Some 1, in_aggregate = None\<rparr>"

definition demo_inbox :: "string list inbox_db" where
  "demo_inbox = \<lparr>inbox_rows = [], last_versions = (\<lambda>_. None), business = []\<rparr>"

theorem events_exactly_once_in_order_witness:
  "\<exists>applied. business (fold (receive ''c'' EveryEvent (\<lambda>e l. l @ [in_key e]))
      (deliveries demo_inbox_event (sent demo_relay) [True, True]) demo_inbox) = fold (\<lambda>(e :: inbox_event) l. l @ [in_key e]) applied []
    \<and> distinct (map in_key applied) \<and> ''a'' \<in> in_key ` set applied"
proof -
  have h: "honest (sent demo_relay) [True, True]" "\<forall>k. in_key (demo_inbox_event k) = k" "inbox_rows demo_inbox = []"
    "business demo_inbox = []"
    by (simp_all add: demo_relay_def demo_inbox_def demo_inbox_event_def honest_def)
  have p: "hd (outbox demo_relay) \<in> set (outbox demo_relay)" "ev_status (hd (outbox demo_relay)) = PUBLISHED"
    "ev_key (hd (outbox demo_relay)) = ''a''" by code_simp+
  from events_exactly_once_in_order [OF demo_relay_reachable h(1-3), of "''c''" "\<lambda>e l. l @ [in_key e]"] p
  show ?thesis unfolding h(4)
  proof (elim exE conjE, goal_cases)
    case (1 applied)
    from 1(6) [rule_format, OF p(1,2)] 1(4,5) p(3) show ?case by - (rule exI [of _ applied], simp)
  qed
qed

definition demo_version :: "int \<Rightarrow> versioned" where
  "demo_version v = \<lparr>event_key = (if v = 1 then ''a'' else ''b''), event_topic = ''t'', event_type = ''A'', event_id = ''1'', event_version = v\<rparr>"

theorem inbox_latest_state_witness:
  "\<exists>applied. business (fold (\<lambda>m. receive ''c'' LatestState (\<lambda>e l. l @ [in_key e]) (versioned_event m, True))
      [demo_version 2, demo_version 1, demo_version 2] demo_inbox) = fold (\<lambda>m l. l @ [in_key (versioned_event m)]) applied []
    \<and> distinct (map event_key applied)"
proof -
  have e: "inbox_rows demo_inbox = []" "last_versions demo_inbox = (\<lambda>_. None)" "business demo_inbox = []"
    by (simp_all add: demo_inbox_def)
  from inbox_latest_state [OF e(1,2), of "''c''" "\<lambda>e l. l @ [in_key e]" "[demo_version 2, demo_version 1, demo_version 2]"]
  show ?thesis unfolding e(3) by (elim exE conjE) (rule exI, rule conjI)
qed

end
