(* ===== verification/CoverageTypes.thy ===== *)
theory CoverageTypes
  imports Rows Inbox
begin

text \<open>
  Coverage of overdue installments (\<open>modules/b2b-sales-crm\<close>): the rows of
  \<open>models/coverage.models.ts\<close> and of the billing models it reads, the errors its services raise, and the
  decision of \<open>domain/coverage-eligibility.ts\<close> on whether the company may pay the merchant for an
  installment. Amounts are whole cents (the columns are \<open>numeric(18,2)\<close>), days are counted, instants are
  milliseconds; identifiers come from one sequence where the code draws uuids. Free texts (reasons, notes) are left out. The status
  \<open>InstallmentCancelled\<close> is not in the enumeration of the code, which tests for it all the same.
\<close>

section \<open>Errors\<close>

datatype coverage_error =
  INSTALLMENT_NOT_FOUND | PURCHASE_NOT_FOUND | PAYABLE_NOT_FOUND | RECOVERY_NOT_FOUND | MOVEMENT_NOT_FOUND
  | REVIEW_ITEM_NOT_FOUND
  | ALREADY_COVERED | ALREADY_PAID | CANCELLED | NOT_DUE | STATUS_NOT_ELIGIBLE
  | PAYABLE_ALREADY_PAID | SETTLEMENT_IN_PROGRESS | SETTLEMENT_ALREADY_REGISTERED | PAYABLE_CANCELLED
  | DUPLICATE_REFERENCE | SETTLEMENT_MISMATCH "settlement_problem list"
  | NO_SETTLEMENT | FOUR_EYES_REQUIRED | PAYABLE_NOT_PAYABLE | SETTLEMENT_AMOUNT_MISMATCH | NO_PENDING_SETTLEMENT
  | CURRENCY_MISMATCH | RECOVERY_WRITTEN_OFF | RECOVERY_OVERPAYMENT | ALREADY_REVERSED | RECOVERY_NEGATIVE
  | REVIEW_ITEM_ALREADY_RESOLVED | REVIEW_ACTION_NOT_ALLOWED | COVERAGE_IN_PLACE | NO_PENDING_NOTICE
  | NOTICE_NOT_PENDING | NOTICE_ID_REQUIRED
and settlement_problem = AmountDiffers | CurrencyDiffers | BeneficiaryDiffers | PaidInFuture | EvidenceNotActive

section \<open>Rows\<close>

datatype installment_status =
  InstallmentScheduled | InstallmentPaidToMerchant | InstallmentOverdue | InstallmentCovered | InstallmentCancelled

datatype purchase_status = PurchasePending | PurchaseConfirmed | PurchaseCancelled

datatype notice_status = NoticeReported | NoticeConfirmed | NoticeRejected

datatype payable_status = PayableScheduled | PayableDue | PayablePaid | PayableCancelled | PayableDisputed

datatype settlement_status = SettlementPending | SettlementConfirmed | SettlementRejected

datatype recovery_status = RecoveryOpen | InCollection | PartiallyRecovered | Recovered | WrittenOff

datatype movement_type = Payment | Reversal

datatype review_reason = PaymentNoticeUnresolved | CoverageWithPendingNotice | ContractNotActive | LatePaymentWithCoverage

datatype review_resolution = CoverageScheduled | ResolvedNoticeConfirmed | ResolvedNoticeRejected | Dismissed

record installment_row =
  inst_id :: ident
  inst_purchase :: ident
  inst_due_date :: day
  inst_amount :: int
  inst_status :: installment_status
  paid_to_merchant_at :: "nat option"

record purchase_row =
  purchase_id :: ident
  purchase_merchant :: ident
  purchase_consumer :: ident
  purchase_version :: ident
  purchase_status :: purchase_status

text \<open>A version with the contract it belongs to (identifier and status), when there is one.\<close>

record contract_version_row =
  version_id :: ident
  version_number :: nat
  version_contract :: "(ident \<times> string) option"

record notice_row =
  notice_id :: ident
  notice_purchase :: ident
  notice_installment :: "ident option"
  notice_amount :: int
  notice_paid_at :: nat
  notice_status :: notice_status
  notice_claim :: "(string \<times> string) option"
  notice_created :: nat
  notice_decided_by :: "ident option"
  notice_decided_at :: "nat option"

record coverage_evidence =
  ev_business_date :: day
  ev_due_date :: day
  ev_installment_status :: installment_status
  ev_installment_amount :: int
  ev_confirmed_paid :: int
  ev_eligible_amount :: int
  ev_confirmed_notices :: "ident list"
  ev_pending_notices :: "ident list"
  ev_rejected_notices :: "ident list"
  ev_contract :: "(ident \<times> string \<times> ident \<times> nat) option"

record payable_row =
  payable_id :: ident
  payable_account :: ident
  payable_purchase :: ident
  payable_installment :: ident
  payable_amount :: int
  payable_currency :: string
  payable_scheduled_for :: day
  payable_status :: payable_status
  payable_paid_at :: "nat option"
  payable_requested_by :: ident
  payable_evidence :: coverage_evidence
  payable_cancelled_by :: "ident option"

record settlement_row =
  settlement_id :: ident
  settlement_payable :: ident
  settlement_reference :: string
  settlement_amount :: int
  settlement_currency :: string
  settlement_beneficiary :: ident
  settlement_paid_at :: nat
  settlement_evidence :: ident
  settlement_status :: settlement_status
  registered_by :: ident
  settlement_decided_by :: "ident option"
  settlement_decided_at :: "nat option"

record recovery_row =
  recovery_id :: ident
  recovery_consumer :: ident
  recovery_purchase :: ident
  recovery_installment :: ident
  recovery_payable :: ident
  amount_covered :: int
  amount_recovered :: int
  recovery_status :: recovery_status
  recovery_currency :: string

record movement_row =
  movement_id :: ident
  movement_recovery :: ident
  movement_installment :: ident
  movement_type :: movement_type
  payment_reference :: string
  movement_amount :: int
  movement_currency :: string
  reverses_movement :: "ident option"
  recorded_by :: "ident option"

record review_row =
  review_id :: ident
  review_installment :: ident
  review_reason :: review_reason
  review_open :: bool
  review_opened_by :: "ident option"
  review_resolution :: "review_resolution option"
  review_resolved_by :: "ident option"

record coverage_event =
  cov_topic :: string
  cov_aggregate :: ident
  cov_key :: string

record coverage_action =
  cov_action :: string
  cov_actor :: ident
  cov_payable :: ident
  cov_settlement :: ident

text \<open>The link of an installment with Core: tenant, installment and loan of Core.\<close>

record core_link =
  link_purchase :: ident
  link_installment :: ident
  link_tenant :: string
  link_core_installment :: string
  link_loan :: string

record coverage_book =
  installments :: "installment_row list"
  purchases :: "purchase_row list"
  contract_versions :: "contract_version_row list"
  notices :: "notice_row list"
  payables :: "payable_row list"
  settlements :: "settlement_row list"
  recoveries :: "recovery_row list"
  movements :: "movement_row list"
  reviews :: "review_row list"
  evidence_files :: "(ident \<times> string) list"
  core_links :: "core_link list"
  core_exceptions :: "(string \<times> string) list"
  coverage_events :: "coverage_event list"
  coverage_actions :: "coverage_action list"
  coverage_sequence :: nat

definition fresh_id :: "coverage_book \<Rightarrow> ident" where
  "fresh_id b = show_nat (coverage_sequence b)"

definition take_id :: "coverage_book \<Rightarrow> coverage_book" where
  "take_id b = b\<lparr>coverage_sequence := Suc (coverage_sequence b)\<rparr>"

text \<open>\<open>ON CONFLICT (event_key) DO NOTHING\<close>.\<close>

definition write_coverage_event :: "coverage_event \<Rightarrow> coverage_book \<Rightarrow> coverage_book" where
  "write_coverage_event e b =
     (if cov_key e \<in> cov_key ` set (coverage_events b) then b
      else b\<lparr>coverage_events := coverage_events b @ [e]\<rparr>)"

definition record_settlement_action :: "string \<Rightarrow> ident \<Rightarrow> ident \<Rightarrow> ident \<Rightarrow> coverage_book \<Rightarrow> coverage_book" where
  "record_settlement_action code payable settlement actor b =
     b\<lparr>coverage_actions := coverage_actions b @
        [\<lparr>cov_action = code, cov_actor = actor, cov_payable = payable, cov_settlement = settlement\<rparr>]\<rparr>"

section \<open>Eligibility\<close>

definition is_past_due :: "day \<Rightarrow> day \<Rightarrow> bool" where
  "is_past_due due_date today = (due_date < today)"

record eligibility_input =
  el_installment :: installment_row
  el_purchase_status :: purchase_status
  el_contract :: "(ident \<times> string \<times> ident \<times> nat) option"
  el_notices :: "notice_row list"
  el_has_live_payable :: bool
  el_business_date :: day

datatype eligibility_outcome =
  Eligible int coverage_evidence
  | Rejected coverage_error
  | Review review_reason coverage_evidence

definition confirmed_total :: "notice_row list \<Rightarrow> int" where
  "confirmed_total ns = sum_list (map notice_amount (filter (\<lambda>n. notice_status n = NoticeConfirmed) ns))"

definition notices_with :: "notice_status \<Rightarrow> notice_row list \<Rightarrow> notice_row list" where
  "notices_with s ns = filter (\<lambda>n. notice_status n = s) ns"

definition coverage_evidence_of :: "eligibility_input \<Rightarrow> coverage_evidence" where
  "coverage_evidence_of x =
     \<lparr>ev_business_date = el_business_date x, ev_due_date = inst_due_date (el_installment x),
      ev_installment_status = inst_status (el_installment x),
      ev_installment_amount = inst_amount (el_installment x), ev_confirmed_paid = confirmed_total (el_notices x),
      ev_eligible_amount = inst_amount (el_installment x) - confirmed_total (el_notices x),
      ev_confirmed_notices = map notice_id (notices_with NoticeConfirmed (el_notices x)),
      ev_pending_notices = map notice_id (notices_with NoticeReported (el_notices x)),
      ev_rejected_notices = map notice_id (notices_with NoticeRejected (el_notices x)),
      ev_contract = el_contract x\<rparr>"

definition evaluate_coverage_eligibility :: "eligibility_input \<Rightarrow> eligibility_outcome" where
  "evaluate_coverage_eligibility x =
     (let st = inst_status (el_installment x);
          balance = inst_amount (el_installment x) - confirmed_total (el_notices x);
          evidence = coverage_evidence_of x
      in if el_has_live_payable x \<or> st = InstallmentCovered then Rejected ALREADY_COVERED
         else if st = InstallmentPaidToMerchant then Rejected ALREADY_PAID
         else if st = InstallmentCancelled \<or> el_purchase_status x = PurchaseCancelled then Rejected CANCELLED
         else if st \<notin> {InstallmentScheduled, InstallmentOverdue} then Rejected STATUS_NOT_ELIGIBLE
         else if el_purchase_status x \<noteq> PurchaseConfirmed then Rejected STATUS_NOT_ELIGIBLE
         else if \<not> is_past_due (inst_due_date (el_installment x)) (el_business_date x) then Rejected NOT_DUE
         else if balance \<le> 0 then Rejected ALREADY_PAID
         else if notices_with NoticeReported (el_notices x) \<noteq> [] then Review CoverageWithPendingNotice evidence
         else (case el_contract x of
             None \<Rightarrow> Review ContractNotActive evidence
           | Some (contract, contract_status, version, number) \<Rightarrow>
               if contract_status \<noteq> ''ACTIVE'' then Review ContractNotActive evidence
               else Eligible balance evidence))"

end
