(* ===== verification/Coverage.thy ===== *)
theory Coverage
  imports CoverageTypes
begin

text \<open>
  The operations on coverages, each on the whole book: scheduling and cancelling
  (\<open>services/coverage-scheduling.service.ts\<close>), registering, approving and rejecting the settlement of a payable
  (\<open>payable-settlement.service.ts\<close>, \<open>payable-settlement-decision.service.ts\<close>), collecting from the consumer and
  reversing a collection (\<open>consumer-recovery.service.ts\<close>), the review queue (\<open>coverage-review.service.ts\<close>,
  \<open>notice-decision.support.ts\<close>), the overdue sweep (\<open>b2b-overdue-sweep.service.ts\<close>) and the payment events of
  Core (\<open>integration/core-payment-events.service.ts\<close>). A failed operation leaves the book as it was: every
  service runs in one transaction, with the row it decides on locked.
\<close>

section \<open>Scheduling a coverage\<close>

definition live_payable :: "coverage_book \<Rightarrow> ident \<Rightarrow> payable_row option" where
  "live_payable b i = find (\<lambda>p. payable_installment p = i \<and> payable_status p \<noteq> PayableCancelled) (payables b)"

definition notices_of :: "coverage_book \<Rightarrow> ident \<Rightarrow> notice_row list" where
  "notices_of b i = filter (\<lambda>n. notice_installment n = Some i) (notices b)"

definition contract_of_version :: "coverage_book \<Rightarrow> ident \<Rightarrow> (ident \<times> string \<times> ident \<times> nat) option" where
  "contract_of_version b v =
     (case find_by version_id v (contract_versions b) of
        None \<Rightarrow> None
      | Some row \<Rightarrow> map_option (\<lambda>(i, s). (i, s, version_id row, version_number row)) (version_contract row))"

definition update_installment :: "ident \<Rightarrow> (installment_row \<Rightarrow> installment_row) \<Rightarrow> coverage_book \<Rightarrow> coverage_book" where
  "update_installment i f b = b\<lparr>installments := update_by inst_id i f (installments b)\<rparr>"

definition open_review_item ::
    "ident \<Rightarrow> review_reason \<Rightarrow> ident option \<Rightarrow> coverage_book \<Rightarrow> review_row \<times> coverage_book" where
  "open_review_item i reason user b =
     (case find (\<lambda>r. review_installment r = i \<and> review_reason r = reason \<and> review_open r) (reviews b) of
        Some r \<Rightarrow> (r, b)
      | None \<Rightarrow>
          (let r = \<lparr>review_id = fresh_id b, review_installment = i, review_reason = reason, review_open = True,
                    review_opened_by = user, review_resolution = None, review_resolved_by = None\<rparr>
           in (r, take_id (b\<lparr>reviews := reviews b @ [r]\<rparr>))))"

definition resolve_item :: "review_resolution \<Rightarrow> ident \<Rightarrow> review_row \<Rightarrow> review_row" where
  "resolve_item resolution user r =
     r\<lparr>review_open := False, review_resolution := Some resolution, review_resolved_by := Some user\<rparr>"

datatype schedule_outcome = ScheduledCoverage payable_row | ReviewRequired review_reason review_row

definition eligibility_of :: "coverage_book \<Rightarrow> installment_row \<Rightarrow> purchase_row \<Rightarrow> day \<Rightarrow> eligibility_input" where
  "eligibility_of b inst purchase today =
     \<lparr>el_installment = inst, el_purchase_status = purchase_status purchase,
      el_contract = contract_of_version b (purchase_version purchase),
      el_notices = notices_of b (inst_id inst), el_has_live_payable = (live_payable b (inst_id inst) \<noteq> None),
      el_business_date = today\<rparr>"

definition new_payable ::
    "ident \<Rightarrow> installment_row \<Rightarrow> purchase_row \<Rightarrow> int \<Rightarrow> coverage_evidence \<Rightarrow> day \<Rightarrow> ident \<Rightarrow> payable_row" where
  "new_payable i inst purchase amount evidence date actor =
     \<lparr>payable_id = i, payable_account = purchase_merchant purchase, payable_purchase = purchase_id purchase,
      payable_installment = inst_id inst, payable_amount = amount, payable_currency = ''BOB'',
      payable_scheduled_for = date, payable_status = PayableScheduled, payable_paid_at = None,
      payable_requested_by = actor, payable_evidence = evidence, payable_cancelled_by = None\<rparr>"

definition schedule_coverage ::
    "ident \<Rightarrow> day \<Rightarrow> ident \<Rightarrow> day \<Rightarrow> coverage_book \<Rightarrow> coverage_error + schedule_outcome \<times> coverage_book" where
  "schedule_coverage i date actor today b =
     and_then (from_option INSTALLMENT_NOT_FOUND (find_by inst_id i (installments b))) (\<lambda>inst.
     and_then (from_option PURCHASE_NOT_FOUND (find_by purchase_id (inst_purchase inst) (purchases b))) (\<lambda>purchase.
     (case evaluate_coverage_eligibility (eligibility_of b inst purchase today) of
        Rejected e \<Rightarrow> Inl e
      | Review reason evidence \<Rightarrow>
          (let (r, b1) = open_review_item (inst_id inst) reason (Some actor) b
           in Inr (ReviewRequired reason r, b1))
      | Eligible amount evidence \<Rightarrow>
          (let b1 = (if inst_status inst = InstallmentScheduled
                     then update_installment (inst_id inst) (\<lambda>r. r\<lparr>inst_status := InstallmentOverdue\<rparr>) b else b);
               p = new_payable (fresh_id b1) inst purchase amount evidence date actor;
               b2 = take_id (b1\<lparr>payables := payables b1 @ [p]\<rparr>);
               b3 = b2\<lparr>reviews := map (\<lambda>r. if review_installment r = inst_id inst \<and> review_open r
                      then resolve_item CoverageScheduled actor r else r) (reviews b2)\<rparr>
           in Inr (ScheduledCoverage p, b3)))))"

section \<open>Cancelling and settling\<close>

definition lock_payable :: "coverage_book \<Rightarrow> ident \<Rightarrow> coverage_error + payable_row" where
  "lock_payable b i = from_option PAYABLE_NOT_FOUND (find_by payable_id i (payables b))"

definition find_live_settlement :: "coverage_book \<Rightarrow> ident \<Rightarrow> settlement_row option" where
  "find_live_settlement b i =
     find (\<lambda>s. settlement_payable s = i \<and> settlement_status s \<noteq> SettlementRejected) (settlements b)"

definition update_payable :: "ident \<Rightarrow> (payable_row \<Rightarrow> payable_row) \<Rightarrow> coverage_book \<Rightarrow> coverage_book" where
  "update_payable i f b = b\<lparr>payables := update_by payable_id i f (payables b)\<rparr>"

definition update_settlement :: "ident \<Rightarrow> (settlement_row \<Rightarrow> settlement_row) \<Rightarrow> coverage_book \<Rightarrow> coverage_book" where
  "update_settlement i f b = b\<lparr>settlements := update_by settlement_id i f (settlements b)\<rparr>"

text \<open>The flag says whether the request repeats what was already done.\<close>

definition cancel_payable :: "ident \<Rightarrow> ident \<Rightarrow> coverage_book \<Rightarrow> coverage_error + bool \<times> coverage_book" where
  "cancel_payable i actor b =
     and_then (lock_payable b i) (\<lambda>p.
     if payable_status p = PayableCancelled then Inr (True, b)
     else if payable_status p = PayablePaid then Inl PAYABLE_ALREADY_PAID
     else if find_live_settlement b (payable_id p) \<noteq> None then Inl SETTLEMENT_IN_PROGRESS
     else Inr (False, update_payable (payable_id p)
            (\<lambda>r. r\<lparr>payable_status := PayableCancelled, payable_cancelled_by := Some actor\<rparr>) b))"

record declared_settlement =
  declared_reference :: string
  declared_amount :: int
  declared_currency :: string
  declared_beneficiary :: ident
  declared_paid_at :: nat
  declared_evidence :: ident

definition is_same_settlement :: "settlement_row \<Rightarrow> declared_settlement \<Rightarrow> bool" where
  "is_same_settlement s d =
     (settlement_reference s = declared_reference d \<and> settlement_amount s = declared_amount d
      \<and> settlement_currency s = declared_currency d \<and> settlement_beneficiary s = declared_beneficiary d
      \<and> settlement_paid_at s = declared_paid_at d \<and> settlement_evidence s = declared_evidence d)"

definition clock_skew_ms :: nat where
  "clock_skew_ms = 5 * 60 * 1000"

definition settlement_mismatches :: "payable_row \<Rightarrow> declared_settlement \<Rightarrow> nat \<Rightarrow> string option \<Rightarrow> settlement_problem list" where
  "settlement_mismatches p d now evidence =
     (if declared_amount d \<noteq> payable_amount p then [AmountDiffers] else []) @
     (if declared_currency d \<noteq> payable_currency p then [CurrencyDiffers] else []) @
     (if declared_beneficiary d \<noteq> payable_account p then [BeneficiaryDiffers] else []) @
     (if now + clock_skew_ms < declared_paid_at d then [PaidInFuture] else []) @
     (if evidence \<noteq> Some ''ACTIVE'' then [EvidenceNotActive] else [])"

definition find_evidence_file_status :: "coverage_book \<Rightarrow> ident \<Rightarrow> string option" where
  "find_evidence_file_status b i = map_option snd (find (\<lambda>f. fst f = i) (evidence_files b))"

record settlement_result =
  sr_replayed :: bool
  sr_payable :: payable_row
  sr_settlement :: settlement_row
  sr_recovery :: "recovery_row option"

text \<open>The rows as they are after the writes of the operation.\<close>

definition settlement_result_of :: "coverage_book \<Rightarrow> payable_row \<Rightarrow> settlement_row \<Rightarrow> bool \<Rightarrow> settlement_result" where
  "settlement_result_of b p s replayed =
     \<lparr>sr_replayed = replayed, sr_payable = p, sr_settlement = s,
      sr_recovery = (if settlement_status s = SettlementConfirmed
        then find (\<lambda>r. recovery_payable r = payable_id p) (recoveries b) else None)\<rparr>"

definition mark_payable_paid ::
    "ident \<Rightarrow> declared_settlement \<Rightarrow> ident \<Rightarrow> nat \<Rightarrow> coverage_book \<Rightarrow> coverage_error + settlement_result \<times> coverage_book" where
  "mark_payable_paid i d actor now b =
     and_then (lock_payable b i) (\<lambda>p.
     (case find_live_settlement b (payable_id p) of
        Some live \<Rightarrow>
          if is_same_settlement live d then Inr (settlement_result_of b p live True, b)
          else Inl SETTLEMENT_ALREADY_REGISTERED
      | None \<Rightarrow>
          if payable_status p = PayableCancelled then Inl PAYABLE_CANCELLED
          else if payable_status p = PayablePaid then Inl PAYABLE_ALREADY_PAID
          else if (\<exists>s \<in> set (settlements b). settlement_reference s = declared_reference d
                     \<and> settlement_status s \<noteq> SettlementRejected) then Inl DUPLICATE_REFERENCE
          else
            (let problems = settlement_mismatches p d now (find_evidence_file_status b (declared_evidence d))
             in if problems \<noteq> [] then Inl (SETTLEMENT_MISMATCH problems)
                else
                  (let s = \<lparr>settlement_id = fresh_id b, settlement_payable = payable_id p,
                            settlement_reference = declared_reference d, settlement_amount = declared_amount d,
                            settlement_currency = declared_currency d, settlement_beneficiary = declared_beneficiary d,
                            settlement_paid_at = declared_paid_at d, settlement_evidence = declared_evidence d,
                            settlement_status = SettlementPending, registered_by = actor,
                            settlement_decided_by = None, settlement_decided_at = None\<rparr>;
                       b1 = take_id (b\<lparr>settlements := settlements b @ [s]\<rparr>);
                       b2 = record_settlement_action ''REGISTER_PAYABLE_SETTLEMENT'' (payable_id p) (settlement_id s) actor b1
                   in Inr (settlement_result_of b2 p s False, b2)))))"

definition decided_settlement :: "settlement_status \<Rightarrow> ident \<Rightarrow> nat \<Rightarrow> settlement_row \<Rightarrow> settlement_row" where
  "decided_settlement st actor now s =
     s\<lparr>settlement_status := st, settlement_decided_by := Some actor, settlement_decided_at := Some now\<rparr>"

definition paid_payable :: "settlement_row \<Rightarrow> payable_row \<Rightarrow> payable_row" where
  "paid_payable s p = p\<lparr>payable_status := PayablePaid, payable_paid_at := Some (settlement_paid_at s)\<rparr>"

definition new_recovery :: "ident \<Rightarrow> purchase_row \<Rightarrow> installment_row \<Rightarrow> payable_row \<Rightarrow> settlement_row \<Rightarrow> recovery_row" where
  "new_recovery i purchase inst p s =
     \<lparr>recovery_id = i, recovery_consumer = purchase_consumer purchase, recovery_purchase = purchase_id purchase,
      recovery_installment = inst_id inst, recovery_payable = payable_id p, amount_covered = settlement_amount s,
      amount_recovered = 0, recovery_status = RecoveryOpen, recovery_currency = settlement_currency s\<rparr>"

definition approve_payable_settlement ::
    "ident \<Rightarrow> ident \<Rightarrow> nat \<Rightarrow> coverage_book \<Rightarrow> coverage_error + settlement_result \<times> coverage_book" where
  "approve_payable_settlement i actor now b =
     and_then (lock_payable b i) (\<lambda>p.
     and_then (from_option NO_SETTLEMENT (find_live_settlement b (payable_id p))) (\<lambda>s.
     if settlement_status s = SettlementConfirmed then Inr (settlement_result_of b p s True, b)
     else if registered_by s = actor then Inl FOUR_EYES_REQUIRED
     else if payable_status p \<noteq> PayableScheduled \<and> payable_status p \<noteq> PayableDue then Inl PAYABLE_NOT_PAYABLE
     else if settlement_amount s \<noteq> payable_amount p then Inl SETTLEMENT_AMOUNT_MISMATCH
     else
       and_then (from_option INSTALLMENT_NOT_FOUND (find_by inst_id (payable_installment p) (installments b))) (\<lambda>inst.
       and_then (from_option PURCHASE_NOT_FOUND (find_by purchase_id (payable_purchase p) (purchases b))) (\<lambda>purchase.
         let s' = decided_settlement SettlementConfirmed actor now s;
             p' = paid_payable s p;
             b1 = update_settlement (settlement_id s) (decided_settlement SettlementConfirmed actor now) b;
             b2 = update_payable (payable_id p) (paid_payable s) b1;
             b3 = update_installment (inst_id inst) (\<lambda>r. r\<lparr>inst_status := InstallmentCovered\<rparr>) b2;
             r = new_recovery (fresh_id b3) purchase inst p s;
             b4 = take_id (b3\<lparr>recoveries := recoveries b3 @ [r]\<rparr>);
             b5 = write_coverage_event \<lparr>cov_topic = ''b2b.coverage.settled'', cov_aggregate = payable_id p,
                    cov_key = ''coverage-settled-'' @ payable_id p\<rparr> b4;
             b6 = record_settlement_action ''APPROVE_PAYABLE_SETTLEMENT'' (payable_id p) (settlement_id s) actor b5
         in Inr (\<lparr>sr_replayed = False, sr_payable = p', sr_settlement = s', sr_recovery = Some r\<rparr>, b6)))))"

definition reject_payable_settlement ::
    "ident \<Rightarrow> ident \<Rightarrow> nat \<Rightarrow> coverage_book \<Rightarrow> coverage_error + settlement_result \<times> coverage_book" where
  "reject_payable_settlement i actor now b =
     and_then (lock_payable b i) (\<lambda>p.
     (case find_live_settlement b (payable_id p) of
        None \<Rightarrow> Inl NO_PENDING_SETTLEMENT
      | Some s \<Rightarrow>
          if settlement_status s \<noteq> SettlementPending then Inl NO_PENDING_SETTLEMENT
          else if registered_by s = actor then Inl FOUR_EYES_REQUIRED
          else
            (let s' = decided_settlement SettlementRejected actor now s;
                 b1 = update_settlement (settlement_id s) (decided_settlement SettlementRejected actor now) b;
                 b2 = record_settlement_action ''REJECT_PAYABLE_SETTLEMENT'' (payable_id p) (settlement_id s) actor b1
             in Inr (settlement_result_of b2 p s' False, b2))))"

section \<open>Recovering from the consumer\<close>

definition recovery_status_for :: "int \<Rightarrow> int \<Rightarrow> recovery_status" where
  "recovery_status_for recovered covered =
     (if recovered = 0 then RecoveryOpen else if recovered = covered then Recovered else PartiallyRecovered)"

definition lock_recovery :: "coverage_book \<Rightarrow> ident \<Rightarrow> coverage_error + recovery_row" where
  "lock_recovery b i = from_option RECOVERY_NOT_FOUND (find_by recovery_id i (recoveries b))"

definition is_same_recovery_payment :: "movement_row \<Rightarrow> ident \<Rightarrow> int \<Rightarrow> string \<Rightarrow> bool" where
  "is_same_recovery_payment m recovery amount currency =
     (movement_recovery m = recovery \<and> movement_type m = Payment \<and> movement_amount m = amount
      \<and> movement_currency m = currency)"

definition recovered_to :: "int \<Rightarrow> recovery_row \<Rightarrow> recovery_row" where
  "recovered_to next_amount r = r\<lparr>amount_recovered := next_amount, recovery_status := recovery_status_for next_amount (amount_covered r)\<rparr>"

definition update_recovered_amount :: "ident \<Rightarrow> int \<Rightarrow> coverage_book \<Rightarrow> coverage_book" where
  "update_recovered_amount i next_amount b = b\<lparr>recoveries := update_by recovery_id i (recovered_to next_amount) (recoveries b)\<rparr>"

definition movement_event :: "string \<Rightarrow> movement_row \<Rightarrow> coverage_event" where
  "movement_event topic m =
     \<lparr>cov_topic = topic, cov_aggregate = movement_recovery m, cov_key = ''recovery-movement-'' @ movement_id m\<rparr>"

definition insert_movement :: "movement_row \<Rightarrow> coverage_book \<Rightarrow> coverage_book" where
  "insert_movement m b = take_id (b\<lparr>movements := movements b @ [m]\<rparr>)"

definition with_reference :: "coverage_book \<Rightarrow> string \<Rightarrow> movement_row option" where
  "with_reference b ref = find (\<lambda>m. payment_reference m = ref) (movements b)"

definition apply_recovery_payment ::
    "ident \<Rightarrow> string \<Rightarrow> int \<Rightarrow> string \<Rightarrow> ident option \<Rightarrow> coverage_book \<Rightarrow>
     coverage_error + (recovery_row \<times> movement_row \<times> bool) \<times> coverage_book" where
  "apply_recovery_payment i ref amount currency actor b =
     and_then (lock_recovery b i) (\<lambda>r.
     (case with_reference b ref of
        Some m \<Rightarrow>
          if is_same_recovery_payment m (recovery_id r) amount currency then Inr ((r, m, True), b)
          else Inl DUPLICATE_REFERENCE
      | None \<Rightarrow>
          if currency \<noteq> recovery_currency r then Inl CURRENCY_MISMATCH
          else if recovery_status r = WrittenOff then Inl RECOVERY_WRITTEN_OFF
          else if amount_covered r < amount_recovered r + amount then Inl RECOVERY_OVERPAYMENT
          else
            (let m = \<lparr>movement_id = fresh_id b, movement_recovery = recovery_id r,
                      movement_installment = recovery_installment r, movement_type = Payment,
                      payment_reference = ref, movement_amount = amount, movement_currency = currency,
                      reverses_movement = None, recorded_by = actor\<rparr>;
                 b1 = insert_movement m b;
                 b2 = update_recovered_amount (recovery_id r) (amount_recovered r + amount) b1;
                 b3 = write_coverage_event (movement_event ''b2b.recovery.payment_applied'' m) b2
             in Inr ((recovered_to (amount_recovered r + amount) r, m, False), b3))))"

definition reverse_recovery_movement ::
    "ident \<Rightarrow> ident \<Rightarrow> string \<Rightarrow> ident \<Rightarrow> coverage_book \<Rightarrow>
     coverage_error + (recovery_row \<times> movement_row \<times> bool) \<times> coverage_book" where
  "reverse_recovery_movement i j ref actor b =
     and_then (lock_recovery b i) (\<lambda>r.
     (case find (\<lambda>m. movement_id m = j \<and> movement_recovery m = recovery_id r) (movements b) of
        None \<Rightarrow> Inl MOVEMENT_NOT_FOUND
      | Some original \<Rightarrow>
          if movement_type original \<noteq> Payment then Inl MOVEMENT_NOT_FOUND
          else
            (case find (\<lambda>m. reverses_movement m = Some (movement_id original)) (movements b) of
               Some previous \<Rightarrow>
                 if payment_reference previous = ref then Inr ((r, previous, True), b) else Inl ALREADY_REVERSED
             | None \<Rightarrow>
                 if with_reference b ref \<noteq> None then Inl DUPLICATE_REFERENCE
                 else if amount_recovered r - movement_amount original < 0 then Inl RECOVERY_NEGATIVE
                 else
                   (let m = \<lparr>movement_id = fresh_id b, movement_recovery = recovery_id r,
                             movement_installment = recovery_installment r, movement_type = Reversal,
                             payment_reference = ref, movement_amount = movement_amount original,
                             movement_currency = movement_currency original,
                             reverses_movement = Some (movement_id original), recorded_by = Some actor\<rparr>;
                        b1 = insert_movement m b;
                        b2 = update_recovered_amount (recovery_id r) (amount_recovered r - movement_amount original) b1;
                        b3 = write_coverage_event (movement_event ''b2b.recovery.payment_reversed'' m) b2
                    in Inr ((recovered_to (amount_recovered r - movement_amount original) r, m, False), b3)))))"

section \<open>Payment notices\<close>

definition has_live_coverage :: "coverage_book \<Rightarrow> installment_row \<Rightarrow> bool" where
  "has_live_coverage b inst = (inst_status inst = InstallmentCovered \<or> live_payable b (inst_id inst) \<noteq> None)"

definition confirmed_minor_of :: "coverage_book \<Rightarrow> ident \<Rightarrow> int" where
  "confirmed_minor_of b i = confirmed_total (notices_of b i)"

definition pending_notices :: "coverage_book \<Rightarrow> ident \<Rightarrow> notice_row list" where
  "pending_notices b i = notices_with NoticeReported (notices_of b i)"

definition decided_notice :: "bool \<Rightarrow> ident option \<Rightarrow> nat \<Rightarrow> notice_row \<Rightarrow> notice_row" where
  "decided_notice confirming user now n =
     n\<lparr>notice_status := (if confirming then NoticeConfirmed else NoticeRejected),
       notice_decided_by := user, notice_decided_at := Some now\<rparr>"

text \<open>\<open>pending\<close> counts the reported notices before the decision; \<open>today\<close> is the business day of \<open>now\<close>.\<close>

definition apply_notice_decision ::
    "installment_row \<Rightarrow> notice_row \<Rightarrow> int \<Rightarrow> bool \<Rightarrow> ident option \<Rightarrow> nat \<Rightarrow> day \<Rightarrow> coverage_book \<Rightarrow>
     (int \<times> int) \<times> coverage_book" where
  "apply_notice_decision inst n pending confirming user now today b =
     (let b1 = b\<lparr>notices := update_by notice_id (notice_id n) (decided_notice confirming user now) (notices b)\<rparr>;
          confirmed = confirmed_minor_of b1 (inst_id inst);
          still = pending - 1;
          b2 = (if confirming \<and> inst_amount inst \<le> confirmed
                then update_installment (inst_id inst) (\<lambda>r. r\<lparr>inst_status := InstallmentPaidToMerchant,
                       paid_to_merchant_at := Some (notice_paid_at n)\<rparr>) b1
                else if \<not> confirming \<and> still = 0 \<and> inst_status inst = InstallmentScheduled
                        \<and> is_past_due (inst_due_date inst) today
                then update_installment (inst_id inst) (\<lambda>r. r\<lparr>inst_status := InstallmentOverdue\<rparr>) b1
                else b1)
      in ((confirmed, still), b2))"

section \<open>The review queue\<close>

datatype review_action = ConfirmNotice | RejectNotice | Dismiss

definition notice_reasons :: "review_reason list" where
  "notice_reasons = [PaymentNoticeUnresolved, CoverageWithPendingNotice, LatePaymentWithCoverage]"

definition allowed_actions :: "review_reason \<Rightarrow> nat \<Rightarrow> review_action list" where
  "allowed_actions reason pending =
     (if reason = ContractNotActive then [Dismiss]
      else if reason \<in> set notice_reasons then (if 0 < pending then [ConfirmNotice, RejectNotice] else [Dismiss])
      else [])"

definition pick_notice :: "notice_row list \<Rightarrow> ident option \<Rightarrow> coverage_error + notice_row" where
  "pick_notice pending chosen =
     (case pending of
        [] \<Rightarrow> Inl NO_PENDING_NOTICE
      | n # rest \<Rightarrow>
          (case chosen of
             Some i \<Rightarrow> from_option NOTICE_NOT_PENDING (find (\<lambda>n. notice_id n = i) pending)
           | None \<Rightarrow> if rest \<noteq> [] then Inl NOTICE_ID_REQUIRED else Inr n))"

definition close_items :: "(review_row \<Rightarrow> bool) \<Rightarrow> review_resolution \<Rightarrow> ident \<Rightarrow> coverage_book \<Rightarrow> coverage_book" where
  "close_items which resolution user b =
     b\<lparr>reviews := map (\<lambda>r. if which r then resolve_item resolution user r else r) (reviews b)\<rparr>"

definition dismiss :: "review_row \<Rightarrow> nat \<Rightarrow> ident \<Rightarrow> coverage_book \<Rightarrow> coverage_error + review_resolution \<times> coverage_book" where
  "dismiss item pending user b =
     (if Dismiss \<notin> set (allowed_actions (review_reason item) pending) then Inl REVIEW_ACTION_NOT_ALLOWED
      else Inr (Dismissed, close_items (\<lambda>r. review_id r = review_id item) Dismissed user b))"

definition decide_notice ::
    "review_row \<Rightarrow> installment_row \<Rightarrow> notice_row list \<Rightarrow> bool \<Rightarrow> ident option \<Rightarrow> ident \<Rightarrow> nat \<Rightarrow> day \<Rightarrow> coverage_book \<Rightarrow>
     coverage_error + review_resolution \<times> coverage_book" where
  "decide_notice item inst pending confirming chosen user now today b =
     (if review_reason item \<notin> set notice_reasons then Inl REVIEW_ACTION_NOT_ALLOWED
      else
        and_then (pick_notice pending chosen) (\<lambda>n.
        if confirming \<and> has_live_coverage b inst then Inl COVERAGE_IN_PLACE
        else
          (let ((_, still), b1) =
                 apply_notice_decision inst n (int (length pending)) confirming (Some user) now today b;
               resolution = (if confirming then ResolvedNoticeConfirmed else ResolvedNoticeRejected)
           in Inr (resolution,
                if still = 0
                then close_items (\<lambda>r. review_installment r = inst_id inst \<and> review_open r
                       \<and> review_reason r \<in> set notice_reasons) resolution user b1
                else b1))))"

definition resolve_review_item ::
    "ident \<Rightarrow> review_action \<Rightarrow> ident option \<Rightarrow> ident \<Rightarrow> nat \<Rightarrow> day \<Rightarrow> coverage_book \<Rightarrow>
     coverage_error + review_resolution \<times> coverage_book" where
  "resolve_review_item i action chosen user now today b =
     and_then (from_option REVIEW_ITEM_NOT_FOUND (find_by review_id i (reviews b))) (\<lambda>item.
     and_then (from_option INSTALLMENT_NOT_FOUND (find_by inst_id (review_installment item) (installments b))) (\<lambda>inst.
     if \<not> review_open item then Inl REVIEW_ITEM_ALREADY_RESOLVED
     else if review_opened_by item = Some user then Inl FOUR_EYES_REQUIRED
     else
       (let pending = pending_notices b (inst_id inst)
        in if action = Dismiss then dismiss item (length pending) user b
           else decide_notice item inst pending (action = ConfirmNotice) chosen user now today b)))"

section \<open>The overdue sweep\<close>

record sweep_result =
  sw_reviewed :: nat
  sw_marked :: nat
  sw_paid :: nat
  sw_waiting :: nat
  sw_in_review :: nat

text \<open>The review of an installment whose notices nobody verified in time.\<close>

definition open_unresolved :: "ident \<Rightarrow> coverage_book \<Rightarrow> bool \<times> coverage_book" where
  "open_unresolved i b =
     (if \<exists>r \<in> set (reviews b). review_installment r = i \<and> review_reason r = PaymentNoticeUnresolved \<and> review_open r
      then (False, b)
      else (True, snd (open_review_item i PaymentNoticeUnresolved None b)))"

definition expired_notices :: "notice_row list \<Rightarrow> nat \<Rightarrow> nat \<Rightarrow> notice_row list" where
  "expired_notices ns hours now =
     filter (\<lambda>n. int (notice_created n) \<le> int now - int hours * 3600000) (notices_with NoticeReported ns)"

text \<open>One installment: what it adds to the counters, whether it is to be marked, and the review queue.\<close>

definition sweep_one ::
    "nat \<Rightarrow> nat \<Rightarrow> installment_row \<Rightarrow> sweep_result \<times> ident list \<times> coverage_book \<Rightarrow> sweep_result \<times> ident list \<times> coverage_book" where
  "sweep_one hours now inst acc =
     (case acc of (res, marks, b) \<Rightarrow>
      (let ns = notices_of b (inst_id inst);
           scheduled = (inst_status inst = InstallmentScheduled);
           res1 = (if scheduled then res\<lparr>sw_reviewed := sw_reviewed res + 1\<rparr> else res);
           mark = (\<lambda>r b. (r, if scheduled then marks @ [inst_id inst] else marks, b))
       in if inst_amount inst \<le> confirmed_total ns
          then ((if scheduled then res1\<lparr>sw_paid := sw_paid res1 + 1\<rparr> else res1), marks, b)
          else if expired_notices ns hours now \<noteq> []
          then (let (opened, b1) = open_unresolved (inst_id inst) b
                in mark (if opened then res1\<lparr>sw_in_review := sw_in_review res1 + 1\<rparr> else res1) b1)
          else if notices_with NoticeReported ns \<noteq> []
          then ((if scheduled then res1\<lparr>sw_waiting := sw_waiting res1 + 1\<rparr> else res1), marks, b)
          else mark res1 b))"

definition sweep :: "day \<Rightarrow> nat \<Rightarrow> nat \<Rightarrow> coverage_book \<Rightarrow> sweep_result \<times> coverage_book" where
  "sweep corte hours now b =
     (let due = filter (\<lambda>r. (inst_status r = InstallmentScheduled \<or> inst_status r = InstallmentOverdue)
                   \<and> inst_due_date r < corte) (installments b);
          (res, marks, b1) = fold (sweep_one hours now) due
            (\<lparr>sw_reviewed = 0, sw_marked = 0, sw_paid = 0, sw_waiting = 0, sw_in_review = 0\<rparr>, [], b)
      in (res\<lparr>sw_marked := length marks\<rparr>,
          b1\<lparr>installments := map (\<lambda>r. if inst_id r \<in> set marks then r\<lparr>inst_status := InstallmentOverdue\<rparr> else r)
               (installments b1)\<rparr>))"

section \<open>Payment events of Core\<close>

datatype core_topic = PaymentReported | PaymentConfirmed | PaymentRejected

record core_claim =
  cc_topic :: core_topic
  cc_event_key :: string
  cc_tenant :: string
  cc_claim :: string
  cc_loan :: string
  cc_installment :: string
  cc_amount :: int
  cc_currency :: string
  cc_occurred :: nat
  cc_decided :: nat

datatype core_outcome =
  NoticeReportedOutcome | NoticeConfirmedOutcome | NoticeRejectedOutcome | LatePaymentReview | NoChange | ExceptionOutcome

definition find_link :: "coverage_book \<Rightarrow> string \<Rightarrow> string \<Rightarrow> core_link option" where
  "find_link b tenant i = find (\<lambda>l. link_tenant l = tenant \<and> link_core_installment l = i) (core_links b)"

definition core_exception :: "core_claim \<Rightarrow> string \<Rightarrow> coverage_book \<Rightarrow> core_outcome \<times> coverage_book" where
  "core_exception e reason b =
     (ExceptionOutcome,
      if cc_event_key e \<in> fst ` set (core_exceptions b) then b
      else b\<lparr>core_exceptions := core_exceptions b @ [(cc_event_key e, reason)]\<rparr>)"

definition existing_notice :: "coverage_book \<Rightarrow> core_claim \<Rightarrow> notice_row option" where
  "existing_notice b e = find (\<lambda>n. notice_claim n = Some (cc_tenant e, cc_claim e)) (notices b)"

definition create_notice :: "core_link \<Rightarrow> installment_row \<Rightarrow> core_claim \<Rightarrow> nat \<Rightarrow> coverage_book \<Rightarrow> notice_row \<times> coverage_book" where
  "create_notice l inst e now b =
     (let n = \<lparr>notice_id = fresh_id b, notice_purchase = link_purchase l, notice_installment = Some (inst_id inst),
               notice_amount = cc_amount e, notice_paid_at = cc_occurred e, notice_status = NoticeReported,
               notice_claim = Some (cc_tenant e, cc_claim e), notice_created = now,
               notice_decided_by = None, notice_decided_at = None\<rparr>
      in (n, take_id (b\<lparr>notices := notices b @ [n]\<rparr>)))"

definition decide_claim :: "core_claim \<Rightarrow> installment_row \<Rightarrow> notice_row \<Rightarrow> day \<Rightarrow> coverage_book \<Rightarrow> core_outcome \<times> coverage_book" where
  "decide_claim e inst n today b =
     (let confirming = (cc_topic e = PaymentConfirmed)
      in if confirming \<and> has_live_coverage b inst
         then (LatePaymentReview, snd (open_review_item (inst_id inst) LatePaymentWithCoverage None b))
         else (if confirming then NoticeConfirmedOutcome else NoticeRejectedOutcome,
               snd (apply_notice_decision inst n (int (length (pending_notices b (inst_id inst)))) confirming None
                 (cc_decided e) today b)))"

definition apply_core_event :: "core_claim \<Rightarrow> nat \<Rightarrow> day \<Rightarrow> coverage_book \<Rightarrow> core_outcome \<times> coverage_book" where
  "apply_core_event e now today b =
     (case find_link b (cc_tenant e) (cc_installment e) of
        None \<Rightarrow> core_exception e ''UNLINKED_INSTALLMENT'' b
      | Some l \<Rightarrow>
          if link_loan l \<noteq> cc_loan e then core_exception e ''UNLINKED_INSTALLMENT'' b
          else if cc_currency e \<noteq> ''BOB'' then core_exception e ''CURRENCY_MISMATCH'' b
          else (case find_by inst_id (link_installment l) (installments b) of
             None \<Rightarrow> core_exception e ''UNLINKED_INSTALLMENT'' b
           | Some inst \<Rightarrow>
               (case existing_notice b e of
                  Some n \<Rightarrow>
                    if cc_topic e = PaymentReported then (NoChange, b)
                    else if notice_status n = (if cc_topic e = PaymentConfirmed then NoticeConfirmed else NoticeRejected)
                    then (NoChange, b)
                    else if notice_status n \<noteq> NoticeReported then core_exception e ''CONFLICTING_DECISION'' b
                    else decide_claim e inst n today b
                | None \<Rightarrow>
                    (let (n, b1) = create_notice l inst e now b
                     in if cc_topic e = PaymentReported then (NoticeReportedOutcome, b1)
                        else decide_claim e inst n today b1))))"

definition core_payments_consumer :: string where
  "core_payments_consumer = ''core-payments''"

text \<open>The consumer: the effect and the key of the event in one transaction of the inbox.\<close>

definition receive_core_event ::
    "inbox_event \<Rightarrow> core_claim \<Rightarrow> nat \<Rightarrow> day \<Rightarrow> coverage_book inbox_db \<Rightarrow>
     (unit inbox_error + core_outcome inbox_result) \<times> coverage_book inbox_db" where
  "receive_core_event ev e now today db =
     in_pg_transaction (consume_once core_payments_consumer EveryEvent ev
       (\<lambda>b. Inr (apply_core_event e now today b))) db"

end
