(* ===== verification/CoverageInvariant.thy ===== *)
theory CoverageInvariant
  imports Coverage
begin

text \<open>
  The invariant of the coverage book and its frame lemmas, and that scheduling and cancelling keep it: keys are
  unique and below the sequence; a live payable is the only one of its installment and fits in what the consumer has
  not paid; a standing settlement carries the payable's amount; a recovery stands for one paid payable and its balance
  is the sum of the payments nobody reversed.
\<close>

section \<open>The invariant\<close>

definition live :: "payable_row \<Rightarrow> bool" where
  "live p = (payable_status p \<noteq> PayableCancelled)"

definition standing :: "settlement_row \<Rightarrow> bool" where
  "standing s = (settlement_status s \<noteq> SettlementRejected)"

definition confirmed_for :: "notice_row list \<Rightarrow> ident \<Rightarrow> int" where
  "confirmed_for ns i = confirmed_total (filter (\<lambda>n. notice_installment n = Some i) ns)"

text \<open>
  A live payable is positive and the only one of its installment. Together with the payments the merchant confirmed it
  never exceeds the installment in histories that are \<open>strict\<close>: there a claim of Core always decides a notice of the installment
  it names, which the code does not check.
\<close>

definition payable_ok :: "bool \<Rightarrow> installment_row list \<Rightarrow> notice_row list \<Rightarrow> payable_row list \<Rightarrow> payable_row \<Rightarrow> bool" where
  "payable_ok strict insts ns ps p =
     ((payable_status p = PayableScheduled \<or> payable_status p = PayablePaid) \<and> 0 < payable_amount p
      \<and> (\<exists>inst \<in> set insts. inst_id inst = payable_installment p
           \<and> (strict \<longrightarrow> confirmed_for ns (inst_id inst) + payable_amount p \<le> inst_amount inst)
           \<and> (payable_status p = PayablePaid \<longrightarrow> inst_status inst = InstallmentCovered))
      \<and> (\<forall>q \<in> set ps. live q \<longrightarrow> payable_installment q = payable_installment p \<longrightarrow> payable_id q = payable_id p))"

definition covered_ok :: "payable_row list \<Rightarrow> installment_row \<Rightarrow> bool" where
  "covered_ok ps inst = (inst_status inst = InstallmentCovered \<longrightarrow>
     (\<exists>p \<in> set ps. payable_installment p = inst_id inst \<and> payable_status p = PayablePaid))"

definition settlement_ok :: "payable_row list \<Rightarrow> settlement_row list \<Rightarrow> settlement_row \<Rightarrow> bool" where
  "settlement_ok ps ss s =
     ((standing s \<longrightarrow> (\<exists>p \<in> set ps. payable_id p = settlement_payable s \<and> live p
         \<and> settlement_amount s = payable_amount p
         \<and> (payable_status p = PayablePaid \<longleftrightarrow> settlement_status s = SettlementConfirmed))
       \<and> (\<forall>t \<in> set ss. standing t \<longrightarrow> settlement_payable t = settlement_payable s \<longrightarrow> settlement_id t = settlement_id s))
      \<and> (settlement_status s \<noteq> SettlementPending \<longrightarrow> (\<exists>u. settlement_decided_by s = Some u \<and> u \<noteq> registered_by s)))"

definition paid_ok :: "settlement_row list \<Rightarrow> recovery_row list \<Rightarrow> payable_row \<Rightarrow> bool" where
  "paid_ok ss rs p = (payable_status p = PayablePaid \<longrightarrow>
     (\<exists>s \<in> set ss. settlement_payable s = payable_id p \<and> settlement_status s = SettlementConfirmed)
     \<and> (\<exists>r \<in> set rs. recovery_payable r = payable_id p))"

definition recovery_ok :: "payable_row list \<Rightarrow> recovery_row list \<Rightarrow> recovery_row \<Rightarrow> bool" where
  "recovery_ok ps rs r =
     ((\<exists>p \<in> set ps. payable_id p = recovery_payable r \<and> payable_status p = PayablePaid
         \<and> amount_covered r = payable_amount p)
      \<and> (\<forall>q \<in> set rs. recovery_payable q = recovery_payable r \<longrightarrow> recovery_id q = recovery_id r))"

text \<open>What was collected: the payments that no movement reverses.\<close>

definition reversed :: "movement_row list \<Rightarrow> ident \<Rightarrow> bool" where
  "reversed ms i = (\<exists>m \<in> set ms. reverses_movement m = Some i)"

definition collected :: "movement_row list \<Rightarrow> ident \<Rightarrow> int" where
  "collected ms i = sum_list (map movement_amount (filter (\<lambda>m. movement_recovery m = i \<and> movement_type m = Payment
     \<and> \<not> reversed ms (movement_id m)) ms))"

definition balance_ok :: "movement_row list \<Rightarrow> recovery_row \<Rightarrow> bool" where
  "balance_ok ms r = (amount_recovered r = collected ms (recovery_id r) \<and> amount_recovered r \<le> amount_covered r
     \<and> recovery_status r = recovery_status_for (amount_recovered r) (amount_covered r))"

definition movement_ok :: "nat \<Rightarrow> movement_row \<Rightarrow> bool" where
  "movement_ok k m = (0 < movement_amount m \<and> (\<exists>n < k. movement_recovery m = show_nat n)
     \<and> (\<forall>j. reverses_movement m = Some j \<longrightarrow> (\<exists>n < k. j = show_nat n)))"

definition notice_ok :: "ident set \<Rightarrow> notice_row \<Rightarrow> bool" where
  "notice_ok ids n = (0 < notice_amount n \<and> (\<forall>i. notice_installment n = Some i \<longrightarrow> i \<in> ids))"

definition keys_ok :: "coverage_book \<Rightarrow> bool" where
  "keys_ok b =
     (keyed (coverage_sequence b) inst_id (installments b) \<and> keyed (coverage_sequence b) notice_id (notices b)
      \<and> keyed (coverage_sequence b) payable_id (payables b) \<and> keyed (coverage_sequence b) settlement_id (settlements b)
      \<and> keyed (coverage_sequence b) recovery_id (recoveries b) \<and> keyed (coverage_sequence b) movement_id (movements b)
      \<and> keyed (coverage_sequence b) review_id (reviews b)
      \<and> (\<forall>m \<in> set (movements b). movement_ok (coverage_sequence b) m))"

definition coverage_ok :: "bool \<Rightarrow> coverage_book \<Rightarrow> bool" where
  "coverage_ok strict b =
     (keys_ok b
      \<and> (\<forall>n \<in> set (notices b). notice_ok (inst_id ` set (installments b)) n)
      \<and> (\<forall>p \<in> set (payables b). live p \<longrightarrow> payable_ok strict (installments b) (notices b) (payables b) p)
      \<and> (\<forall>i \<in> set (installments b). covered_ok (payables b) i)
      \<and> (\<forall>s \<in> set (settlements b). settlement_ok (payables b) (settlements b) s)
      \<and> (\<forall>p \<in> set (payables b). paid_ok (settlements b) (recoveries b) p)
      \<and> (\<forall>r \<in> set (recoveries b). recovery_ok (payables b) (recoveries b) r)
      \<and> (\<forall>r \<in> set (recoveries b). balance_ok (movements b) r)
      \<and> distinct (map payment_reference (movements b)))"

lemma coverage_okI:
  assumes "keys_ok b" "\<And>n. n \<in> set (notices b) \<Longrightarrow> notice_ok (inst_id ` set (installments b)) n"
    "\<And>p. p \<in> set (payables b) \<Longrightarrow> live p \<Longrightarrow> payable_ok strict (installments b) (notices b) (payables b) p"
    "\<And>i. i \<in> set (installments b) \<Longrightarrow> covered_ok (payables b) i"
    "\<And>s. s \<in> set (settlements b) \<Longrightarrow> settlement_ok (payables b) (settlements b) s"
    "\<And>p. p \<in> set (payables b) \<Longrightarrow> paid_ok (settlements b) (recoveries b) p"
    "\<And>r. r \<in> set (recoveries b) \<Longrightarrow> recovery_ok (payables b) (recoveries b) r"
    "\<And>r. r \<in> set (recoveries b) \<Longrightarrow> balance_ok (movements b) r"
    "distinct (map payment_reference (movements b))"
  shows "coverage_ok strict b"
  using assms by (simp add: coverage_ok_def)

lemma coverage_okD:
  assumes "coverage_ok strict b"
  shows "keys_ok b" "n \<in> set (notices b) \<Longrightarrow> notice_ok (inst_id ` set (installments b)) n"
    "p \<in> set (payables b) \<Longrightarrow> live p \<Longrightarrow> payable_ok strict (installments b) (notices b) (payables b) p"
    "i \<in> set (installments b) \<Longrightarrow> covered_ok (payables b) i"
    "s \<in> set (settlements b) \<Longrightarrow> settlement_ok (payables b) (settlements b) s"
    "p \<in> set (payables b) \<Longrightarrow> paid_ok (settlements b) (recoveries b) p"
    "r \<in> set (recoveries b) \<Longrightarrow> recovery_ok (payables b) (recoveries b) r"
    "r \<in> set (recoveries b) \<Longrightarrow> balance_ok (movements b) r"
    "distinct (map payment_reference (movements b))"
  using assms by (simp_all add: coverage_ok_def)

lemma coverage_ok_keyed:
  assumes "coverage_ok strict b"
  shows "keyed (coverage_sequence b) inst_id (installments b)" "keyed (coverage_sequence b) notice_id (notices b)"
    "keyed (coverage_sequence b) payable_id (payables b)" "keyed (coverage_sequence b) settlement_id (settlements b)"
    "keyed (coverage_sequence b) recovery_id (recoveries b)" "keyed (coverage_sequence b) movement_id (movements b)"
    "keyed (coverage_sequence b) review_id (reviews b)" "m \<in> set (movements b) \<Longrightarrow> movement_ok (coverage_sequence b) m"
  using assms by (simp_all add: coverage_ok_def keys_ok_def)

section \<open>Frame lemmas\<close>

lemma payable_ok_installments:
  assumes "\<And>r. r \<in> set insts \<Longrightarrow> inst_id (f r) = inst_id r \<and> inst_amount (f r) = inst_amount r
      \<and> (inst_status r = InstallmentCovered \<longrightarrow> inst_status (f r) = InstallmentCovered)"
    and "payable_ok strict insts ns ps p"
  shows "payable_ok strict (map f insts) ns ps p"
  using assms(2) unfolding payable_ok_def using assms(1) by force

lemma payable_ok_append:
  "payable_ok strict insts ns ps r \<Longrightarrow> payable_installment p \<noteq> payable_installment r \<Longrightarrow> payable_ok strict insts ns (ps @ [p]) r"
  unfolding payable_ok_def by auto

lemma payable_ok_payables:
  assumes "payable_ok strict insts ns ps r"
    and "\<And>q. q \<in> set ps \<Longrightarrow> payable_id (f q) = payable_id q \<and> payable_installment (f q) = payable_installment q \<and> (live (f q) \<longrightarrow> live q)"
  shows "payable_ok strict insts ns (map f ps) r"
proof -
  have "payable_id q = payable_id r" if "q \<in> set (map f ps)" "live q" "payable_installment q = payable_installment r" for q
    using assms(1) that assms(2) unfolding payable_ok_def by auto
  then show ?thesis using assms(1) unfolding payable_ok_def by blast
qed

lemma payable_ok_notices:
  "payable_ok strict insts ns ps p \<Longrightarrow> (strict \<Longrightarrow> confirmed_for ns' (payable_installment p) \<le> confirmed_for ns (payable_installment p)) \<Longrightarrow>
    payable_ok strict insts ns' ps p"
  unfolding payable_ok_def by force

lemma confirmed_for_update:
  assumes "keyed k notice_id ns" "n \<in> set ns" "\<And>r. notice_installment (f r) = notice_installment r \<and> notice_amount (f r) = notice_amount r"
    and "notice_status n \<noteq> NoticeConfirmed"
  shows "notice_installment n \<noteq> Some i \<or> notice_status (f n) \<noteq> NoticeConfirmed \<Longrightarrow>
    confirmed_for (update_by notice_id (notice_id n) f ns) i = confirmed_for ns i"
proof -
  assume h: "notice_installment n \<noteq> Some i \<or> notice_status (f n) \<noteq> NoticeConfirmed"
  have same: "notice_id r = notice_id n \<Longrightarrow> r \<in> set ns \<Longrightarrow> r = n" for r using keyed_unique [OF assms(1) _ assms(2)] by blast
  let ?g = "\<lambda>r. if notice_id r = notice_id n then f r else r"
  have "filter (\<lambda>r. notice_status r = NoticeConfirmed \<and> notice_installment r = Some i) (map ?g ns)
      = map ?g (filter (\<lambda>r. notice_status (?g r) = NoticeConfirmed \<and> notice_installment (?g r) = Some i) ns)"
    by (simp add: filter_map comp_def)
  also have "filter (\<lambda>r. notice_status (?g r) = NoticeConfirmed \<and> notice_installment (?g r) = Some i) ns
      = filter (\<lambda>r. notice_status r = NoticeConfirmed \<and> notice_installment r = Some i) ns"
    using same h assms(3,4) by (intro filter_cong) auto
  finally have "map notice_amount (filter (\<lambda>r. notice_status r = NoticeConfirmed \<and> notice_installment r = Some i) (map ?g ns))
      = map notice_amount (filter (\<lambda>r. notice_status r = NoticeConfirmed \<and> notice_installment r = Some i) ns)"
    using assms(3) by (simp add: comp_def if_distrib cong: if_cong)
  then show ?thesis
    by (simp add: confirmed_for_def confirmed_total_def update_by_def filter_filter conj_commute)
qed

lemma movement_ok_mono: "movement_ok k m \<Longrightarrow> k \<le> k' \<Longrightarrow> movement_ok k' m"
  unfolding movement_ok_def by (meson order_less_le_trans)

text \<open>Payables change their state, never their identity; only a cancellation takes one out of the live ones.\<close>

lemma settlement_ok_append: "settlement_ok ps ss s \<Longrightarrow> settlement_ok (ps @ [p]) ss s"
  unfolding settlement_ok_def by force

lemma recovery_ok_append: "recovery_ok ps rs r \<Longrightarrow> recovery_ok (ps @ [p]) rs r"
  unfolding recovery_ok_def by force

lemma covered_ok_append: "covered_ok ps i \<Longrightarrow> covered_ok (ps @ [p]) i"
  unfolding covered_ok_def by auto

lemma settlement_ok_payables:
  assumes "settlement_ok ps ss s" "\<And>q. q \<in> set ps \<Longrightarrow> payable_id q = settlement_payable s \<Longrightarrow> standing s \<Longrightarrow> f q = q"
  shows "settlement_ok (map f ps) ss s"
  using assms unfolding settlement_ok_def by (metis image_eqI list.set_map)

lemma settlement_ok_settlements:
  assumes "settlement_ok ps ss s"
    and "\<And>t. t \<in> set ss \<Longrightarrow> settlement_id (g t) = settlement_id t \<and> settlement_payable (g t) = settlement_payable t
      \<and> (standing (g t) \<longrightarrow> standing t)"
  shows "settlement_ok ps (map g ss) s"
  using assms unfolding settlement_ok_def by auto

lemma covered_ok_payables:
  assumes "covered_ok ps i" "\<And>q. q \<in> set ps \<Longrightarrow> payable_status q = PayablePaid \<Longrightarrow> f q = q"
  shows "covered_ok (map f ps) i"
  using assms unfolding covered_ok_def by (metis image_eqI list.set_map)

lemma recovery_ok_payables:
  assumes "recovery_ok ps rs r" "\<And>q. q \<in> set ps \<Longrightarrow> payable_status q = PayablePaid \<Longrightarrow> f q = q"
  shows "recovery_ok (map f ps) rs r"
  using assms unfolding recovery_ok_def by (metis image_eqI list.set_map)

lemma recovery_ok_new:
  "recovery_ok ps rs r \<Longrightarrow> recovery_payable x \<noteq> recovery_payable r \<Longrightarrow> recovery_ok ps (rs @ [x]) r"
  unfolding recovery_ok_def by auto

lemma paid_ok_append: "paid_ok ss rs p \<Longrightarrow> paid_ok (ss @ ss') (rs @ rs') p"
  unfolding paid_ok_def by auto

lemma paid_ok_settlements:
  assumes "paid_ok ss rs p"
    and "\<And>t. t \<in> set ss \<Longrightarrow> settlement_status t = SettlementConfirmed \<Longrightarrow> g t = t"
  shows "paid_ok (map g ss) rs p"
  using assms unfolding paid_ok_def by (metis image_eqI list.set_map)

lemma live_payable_None: "live_payable b i = None \<longleftrightarrow> (\<forall>p \<in> set (payables b). live p \<longrightarrow> payable_installment p \<noteq> i)"
  by (auto simp: live_payable_def find_None_iff live_def)

lemma find_live_settlement_None:
  "find_live_settlement b i = None \<longleftrightarrow> (\<forall>s \<in> set (settlements b). standing s \<longrightarrow> settlement_payable s \<noteq> i)"
  by (auto simp: find_live_settlement_def find_None_iff standing_def)

lemma find_live_settlement_Some:
  "find_live_settlement b i = Some s \<Longrightarrow> s \<in> set (settlements b) \<and> settlement_payable s = i \<and> standing s"
  unfolding find_live_settlement_def standing_def by (auto simp: find_Some_iff)

lemma notices_of_total: "confirmed_total (notices_of b i) = confirmed_for (notices b) i"
  by (simp add: confirmed_for_def notices_of_def)

lemma open_review_item_frame:
  "open_review_item i reason user b = (r, b') \<Longrightarrow>
    installments b' = installments b \<and> notices b' = notices b \<and> payables b' = payables b
    \<and> settlements b' = settlements b \<and> recoveries b' = recoveries b \<and> movements b' = movements b
    \<and> coverage_sequence b \<le> coverage_sequence b' \<and> purchases b' = purchases b \<and> core_links b' = core_links b
    \<and> (keyed (coverage_sequence b) review_id (reviews b) \<longrightarrow> keyed (coverage_sequence b') review_id (reviews b'))"
  by (auto simp: open_review_item_def Let_def take_id_def fresh_id_def keyed_append split: option.splits)

lemma coverage_ok_frame:
  assumes "coverage_ok strict b" "installments b' = installments b" "notices b' = notices b" "payables b' = payables b"
    "settlements b' = settlements b" "recoveries b' = recoveries b" "movements b' = movements b"
    "coverage_sequence b \<le> coverage_sequence b'" "keyed (coverage_sequence b') review_id (reviews b')"
  shows "coverage_ok strict b'"
proof -
  have m: "movement_ok (coverage_sequence b) m \<Longrightarrow> movement_ok (coverage_sequence b') m" for m
    using assms(8) unfolding movement_ok_def by (meson order_less_le_trans)
  show ?thesis
    using assms(1-7,9) m unfolding coverage_ok_def keys_ok_def by (auto intro: keyed_mono [OF _ assms(8)])
qed

section \<open>Every operation keeps the invariant\<close>

lemma eligible_conditions:
  "evaluate_coverage_eligibility x = Eligible a ev \<longleftrightarrow>
     \<not> el_has_live_payable x \<and> inst_status (el_installment x) \<in> {InstallmentScheduled, InstallmentOverdue}
     \<and> el_purchase_status x = PurchaseConfirmed
     \<and> is_past_due (inst_due_date (el_installment x)) (el_business_date x)
     \<and> a = inst_amount (el_installment x) - confirmed_total (el_notices x) \<and> 0 < a
     \<and> notices_with NoticeReported (el_notices x) = []
     \<and> (\<exists>i v k. el_contract x = Some (i, ''ACTIVE'', v, k)) \<and> ev = coverage_evidence_of x"
  unfolding evaluate_coverage_eligibility_def Let_def by (auto split: option.splits)

lemma schedule_cases:
  assumes "schedule_coverage i date actor today b = Inr (v, b')"
  obtains (review) reason r where "v = ReviewRequired reason r" "open_review_item i reason (Some actor) b = (r, b')"
  | (scheduled) inst purchase amount evidence b1 p where
      "find_by inst_id i (installments b) = Some inst" "find_by purchase_id (inst_purchase inst) (purchases b) = Some purchase"
      "evaluate_coverage_eligibility (eligibility_of b inst purchase today) = Eligible amount evidence"
      "b1 = (if inst_status inst = InstallmentScheduled
             then update_installment i (\<lambda>r. r\<lparr>inst_status := InstallmentOverdue\<rparr>) b else b)"
      "p = new_payable (fresh_id b) inst purchase amount evidence date actor" "v = ScheduledCoverage p"
      "installments b' = installments b1" "notices b' = notices b" "payables b' = payables b @ [p]"
      "settlements b' = settlements b" "recoveries b' = recoveries b" "movements b' = movements b"
      "coverage_sequence b' = Suc (coverage_sequence b)"
      "reviews b' = map (\<lambda>r. if review_installment r = i \<and> review_open r then resolve_item CoverageScheduled actor r else r) (reviews b)"
proof -
  from assms obtain inst purchase where f: "find_by inst_id i (installments b) = Some inst"
      "find_by purchase_id (inst_purchase inst) (purchases b) = Some purchase"
    by (auto simp: schedule_coverage_def and_then_eq_Inr)
  have i: "inst_id inst = i" using find_by_Some [OF f(1)] by simp
  show thesis
  proof (cases "evaluate_coverage_eligibility (eligibility_of b inst purchase today)")
    case (Eligible amount evidence)
    let ?b1 = "if inst_status inst = InstallmentScheduled
      then update_installment i (\<lambda>r. r\<lparr>inst_status := InstallmentOverdue\<rparr>) b else b"
    have same: "fresh_id ?b1 = fresh_id b" "coverage_sequence ?b1 = coverage_sequence b" "notices ?b1 = notices b"
      "payables ?b1 = payables b" "settlements ?b1 = settlements b" "recoveries ?b1 = recoveries b"
      "movements ?b1 = movements b" "reviews ?b1 = reviews b"
      by (simp_all add: update_installment_def fresh_id_def)
    show ?thesis
      using assms f Eligible i same
      by (intro scheduled [OF f Eligible refl refl]) (auto simp: schedule_coverage_def Let_def take_id_def)
  next
    case (Rejected e)
    with assms f show ?thesis by (auto simp: schedule_coverage_def)
  next
    case (Review reason evidence)
    with assms f i show ?thesis by (intro review [of reason]) (auto simp: schedule_coverage_def split_beta)
  qed
qed

lemma schedule_ok:
  assumes ok: "coverage_ok strict b" and run: "schedule_coverage i date actor today b = Inr (v, b')"
  shows "coverage_ok strict b'"
  using run
proof (cases rule: schedule_cases)
  case (review reason r)
  from open_review_item_frame [OF review(2)] show ?thesis
    using coverage_ok_frame [OF ok] coverage_ok_keyed(7) [OF ok] by simp
next
  case (scheduled inst purchase amount evidence b1 p)
  note keys = coverage_ok_keyed [OF ok]
  from find_by_Some [OF scheduled(1)] have inst: "inst \<in> set (installments b)" "inst_id inst = i" by auto
  from scheduled(3) have el: "\<forall>q \<in> set (payables b). live q \<longrightarrow> payable_installment q \<noteq> i"
      "inst_status inst \<in> {InstallmentScheduled, InstallmentOverdue}"
      "amount = inst_amount inst - confirmed_for (notices b) i" "0 < amount"
    by (auto simp: eligible_conditions eligibility_of_def live_payable_None inst(2) notices_of_total)
  define f where "f = (\<lambda>r :: installment_row. if inst_id r = i \<and> inst_status inst = InstallmentScheduled then r\<lparr>inst_status := InstallmentOverdue\<rparr> else r)"
  have insts: "installments b' = map f (installments b)"
    by (simp add: scheduled(4,7) update_installment_def update_by_def f_def)
  have f: "inst_id (f r) = inst_id r" "inst_amount (f r) = inst_amount r" for r by (simp_all add: f_def)
  have status: "inst_status (f r) = InstallmentCovered \<longleftrightarrow> inst_status r = InstallmentCovered" if "r \<in> set (installments b)" for r
    using keyed_unique [OF keys(1) that inst(1)] inst(2) el(2) by (auto simp: f_def)
  have p: "payable_id p = show_nat (coverage_sequence b)" "payable_installment p = i" "payable_amount p = amount"
      "payable_status p = PayableScheduled" "live p"
    by (simp_all add: scheduled(5) new_payable_def fresh_id_def inst(2) live_def)
  have old: "payable_ok strict (map f (installments b)) (notices b) (payables b @ [p]) q" if "q \<in> set (payables b)" "live q" for q
  proof -
    have "payable_ok strict (installments b) (notices b) (payables b) q" using ok that by (simp add: coverage_ok_def)
    then have "payable_ok strict (map f (installments b)) (notices b) (payables b) q"
      by (rule payable_ok_installments [rotated]) (use f status in auto)
    then show ?thesis using el(1) that p(2) by (intro payable_ok_append) auto
  qed
  have new: "payable_ok strict (map f (installments b)) (notices b) (payables b @ [p]) p"
  proof -
    have "f inst \<in> set (map f (installments b))" using inst(1) by simp
    then have "\<exists>r \<in> set (map f (installments b)). inst_id r = i \<and> confirmed_for (notices b) (inst_id r) + amount \<le> inst_amount r"
      using el(3) f [of inst] inst(2) by (intro bexI [of _ "f inst"]) simp_all
    moreover have "\<forall>q \<in> set (payables b @ [p]). live q \<longrightarrow> payable_installment q = i \<longrightarrow> payable_id q = payable_id p"
      using el(1) by auto
    ultimately show ?thesis unfolding payable_ok_def p(2,3,4) using el(4) by auto
  qed
  show ?thesis
  proof (rule coverage_okI, unfold scheduled(8-12) insts)
    show "keys_ok b'"
      using keys coverage_ok_keyed(8) [OF ok] p(1)
      by (auto simp: keys_ok_def scheduled(8-14) insts f resolve_item_def intro: keyed_append keyed_mono movement_ok_mono [OF _ le_SucI [OF order_refl]])
    show "covered_ok (payables b @ [p]) r" if r: "r \<in> set (map f (installments b))" for r
    proof -
      from r obtain x where x: "x \<in> set (installments b)" "r = f x" by auto
      then show ?thesis using covered_ok_append [OF coverage_okD(4) [OF ok x(1)]] status [OF x(1)] f(1) by (simp add: covered_ok_def)
    qed
    show "paid_ok (settlements b) (recoveries b) q" if "q \<in> set (payables b @ [p])" for q
      using that coverage_okD(6) [OF ok] p(4) by (auto simp: paid_ok_def)
    show "payable_ok strict (map f (installments b)) (notices b) (payables b @ [p]) q" if "q \<in> set (payables b @ [p])" "live q" for q
      using that old new by auto
  qed (use coverage_okD [OF ok] f in \<open>auto intro: settlement_ok_append recovery_ok_append simp: image_image\<close>)
qed

lemma cancel_ok:
  assumes ok: "coverage_ok strict b" and run: "cancel_payable i actor b = Inr (v, b')"
  shows "coverage_ok strict b'"
proof (cases v)
  case True
  with run ok show ?thesis by (auto simp: cancel_payable_def and_then_eq_Inr split: if_splits)
next
  case False
  from run obtain p where f: "find_by payable_id i (payables b) = Some p"
    by (auto simp: cancel_payable_def and_then_eq_Inr lock_payable_def)
  from find_by_Some [OF f] have mem: "p \<in> set (payables b)" "payable_id p = i" by auto
  from run False f mem(2) have p: "payable_status p \<noteq> PayablePaid" "find_live_settlement b i = None"
      and b': "b' = update_payable i (\<lambda>r. r\<lparr>payable_status := PayableCancelled, payable_cancelled_by := Some actor\<rparr>) b"
    by (auto simp: cancel_payable_def lock_payable_def split: if_splits)
  from p(2) have unsettled: "\<forall>s \<in> set (settlements b). standing s \<longrightarrow> settlement_payable s \<noteq> i"
    by (simp add: find_live_settlement_None)
  define f where "f = (\<lambda>r :: payable_row. if payable_id r = i then r\<lparr>payable_status := PayableCancelled, payable_cancelled_by := Some actor\<rparr> else r)"
  have ps: "payables b' = map f (payables b)" by (simp add: b' update_payable_def update_by_def f_def)
  have rest: "installments b' = installments b" "notices b' = notices b" "settlements b' = settlements b"
    "recoveries b' = recoveries b" "movements b' = movements b" "reviews b' = reviews b"
    "coverage_sequence b' = coverage_sequence b" by (simp_all add: b' update_payable_def)
  note keys = coverage_ok_keyed [OF ok]
  have same: "r = p" if "r \<in> set (payables b)" "payable_id r = i" for r
    using keyed_unique [OF keys(3) that(1) mem(1)] that mem by simp
  have id: "payable_id (f r) = payable_id r" "payable_installment (f r) = payable_installment r"
    "payable_amount (f r) = payable_amount r" for r by (simp_all add: f_def)
  have keep: "f r = r" if "payable_id r \<noteq> i" for r using that by (simp add: f_def)
  have dead: "\<not> live (f r)" if "payable_id r = i" for r using that by (simp add: f_def live_def)
  have paid: "payable_status r = PayablePaid \<Longrightarrow> r \<in> set (payables b) \<Longrightarrow> f r = r" for r
    using same p(1) keep by blast
  have "payable_ok strict (installments b) (notices b) (map f (payables b)) (f r)" if r: "r \<in> set (payables b)" "live (f r)" for r
  proof -
    have "payable_id r \<noteq> i" using dead r(2) by blast
    then have "payable_ok strict (installments b) (notices b) (payables b) r" "f r = r"
      using ok r keep by (auto simp: coverage_ok_def)
    then show ?thesis using id dead keep by (metis payable_ok_payables)
  qed
  moreover have "covered_ok (map f (payables b)) r" if "r \<in> set (installments b)" for r
    using coverage_okD(4) [OF ok that] paid by (intro covered_ok_payables)
  moreover have "settlement_ok (map f (payables b)) (settlements b) s" if "s \<in> set (settlements b)" for s
    using coverage_okD(5) [OF ok that] unsettled that keep by (intro settlement_ok_payables) auto
  moreover have "recovery_ok (map f (payables b)) (recoveries b) r" if "r \<in> set (recoveries b)" for r
    using coverage_okD(7) [OF ok that] paid by (intro recovery_ok_payables)
  moreover have "paid_ok (settlements b) (recoveries b) (f r)" if "r \<in> set (payables b)" for r
  proof (cases "payable_id r = i")
    case True
    then show ?thesis by (simp add: f_def paid_ok_def)
  next
    case False
    then show ?thesis using coverage_okD(6) [OF ok that] keep by simp
  qed
  moreover have "keys_ok b'" using keys coverage_ok_keyed(8) [OF ok] id by (simp add: keys_ok_def ps rest)
  ultimately show ?thesis
    using coverage_okD [OF ok] by (intro coverage_okI) (auto simp: ps rest)
qed

end
