(* ===== verification/CoverageSettlement.thy ===== *)
theory CoverageSettlement
  imports CoverageInvariant
begin

text \<open>
  Settling a payable and collecting from the consumer keep the invariant of the coverage book. Each operation has
  a case lemma that lists its branches with what each changes; the preservation lemmas rest on them.
\<close>

lemma register_cases:
  assumes "mark_payable_paid i d actor now b = Inr (v, b')"
  obtains (replay) p live where "find_by payable_id i (payables b) = Some p" "find_live_settlement b i = Some live"
      "is_same_settlement live d" "v = settlement_result_of b p live True" "b' = b"
  | (registered) p s where "find_by payable_id i (payables b) = Some p" "live p" "payable_status p \<noteq> PayablePaid"
      "find_live_settlement b i = None"
      "\<forall>s \<in> set (settlements b). standing s \<longrightarrow> settlement_reference s \<noteq> declared_reference d"
      "settlement_mismatches p d now (find_evidence_file_status b (declared_evidence d)) = []"
      "s = \<lparr>settlement_id = fresh_id b, settlement_payable = i,
            settlement_reference = declared_reference d, settlement_amount = declared_amount d,
            settlement_currency = declared_currency d, settlement_beneficiary = declared_beneficiary d,
            settlement_paid_at = declared_paid_at d, settlement_evidence = declared_evidence d,
            settlement_status = SettlementPending, registered_by = actor,
            settlement_decided_by = None, settlement_decided_at = None\<rparr>"
      "b' = record_settlement_action ''REGISTER_PAYABLE_SETTLEMENT'' i (settlement_id s) actor
              (take_id (b\<lparr>settlements := settlements b @ [s]\<rparr>))"
      "v = settlement_result_of b' p s False"
proof -
  from assms obtain p where f: "find_by payable_id i (payables b) = Some p"
    by (auto simp: mark_payable_paid_def and_then_eq_Inr lock_payable_def)
  then have i: "payable_id p = i" by (simp add: find_by_Some)
  show thesis
  proof (cases "find_live_settlement b i")
    case (Some live)
    with assms f i show ?thesis
      by (intro replay [OF f Some]) (auto simp: mark_payable_paid_def lock_payable_def split: if_splits)
  next
    case None
    note r = assms [unfolded mark_payable_paid_def lock_payable_def f from_option_simps and_then_Inr i None option.case Let_def]
    from r have c: "payable_status p \<noteq> PayableCancelled" "payable_status p \<noteq> PayablePaid"
        "\<not> (\<exists>s \<in> set (settlements b). settlement_reference s = declared_reference d \<and> settlement_status s \<noteq> SettlementRejected)"
        "settlement_mismatches p d now (find_evidence_file_status b (declared_evidence d)) = []"
      by (auto split: if_splits)
    show ?thesis
      using r c f None by (intro registered [OF f _ c(2) None _ c(4) refl]) (auto simp: live_def standing_def)
  qed
qed

lemma settlement_ok_fresh:
  assumes "settlement_ok ps ss s" "settlement_payable t \<noteq> settlement_payable s \<or> \<not> standing s"
  shows "settlement_ok ps (ss @ [t]) s"
  using assms unfolding settlement_ok_def by auto

lemma register_ok:
  assumes ok: "coverage_ok strict b" and run: "mark_payable_paid i d actor now b = Inr (v, b')"
  shows "coverage_ok strict b'"
  using run
proof (cases rule: register_cases)
  case (replay p live)
  with ok show ?thesis by simp
next
  case (registered p s)
  note keys = coverage_ok_keyed [OF ok]
  from find_by_Some [OF registered(1)] have p: "p \<in> set (payables b)" "payable_id p = i" by auto
  have amount: "declared_amount d = payable_amount p"
    using registered(6) by (auto simp: settlement_mismatches_def split: if_splits)
  have rest: "installments b' = installments b" "notices b' = notices b" "payables b' = payables b"
    "settlements b' = settlements b @ [s]" "recoveries b' = recoveries b" "movements b' = movements b" "reviews b' = reviews b"
    "coverage_sequence b' = Suc (coverage_sequence b)"
    by (simp_all add: registered(8) take_id_def record_settlement_action_def)
  have s: "settlement_id s = show_nat (coverage_sequence b)" "settlement_payable s = i" "settlement_amount s = payable_amount p"
    "settlement_status s = SettlementPending" by (simp_all add: registered(7) fresh_id_def amount)
  have free: "t \<in> set (settlements b) \<Longrightarrow> standing t \<Longrightarrow> settlement_payable t \<noteq> i" for t
    using registered(4) by (simp add: find_live_settlement_None)
  show ?thesis
  proof (rule coverage_okI, unfold rest)
    show "keys_ok b'"
      using keys s(1) by (auto simp: keys_ok_def rest intro: keyed_append keyed_mono movement_ok_mono [OF _ le_SucI [OF order_refl]])
    show "settlement_ok (payables b) (settlements b @ [s]) t" if t: "t \<in> set (settlements b @ [s])" for t
    proof (cases "t = s")
      case True
      then show ?thesis using p registered(2,3) s free by (auto simp: settlement_ok_def)
    next
      case False
      with t have "t \<in> set (settlements b)" by auto
      then show ?thesis using coverage_okD(5) [OF ok, of t] free [of t] s(2) by (intro settlement_ok_fresh) auto
    qed
    show "paid_ok (settlements b @ [s]) (recoveries b) q" if "q \<in> set (payables b)" for q
      using paid_ok_append [OF coverage_okD(6) [OF ok that], of "[s]" "[]"] by simp
  qed (use coverage_okD [OF ok] in auto)
qed

lemma approve_cases:
  assumes "approve_payable_settlement i actor now b = Inr (v, b')"
  obtains (replay) p s where "find_by payable_id i (payables b) = Some p" "find_live_settlement b i = Some s"
      "settlement_status s = SettlementConfirmed" "v = settlement_result_of b p s True" "b' = b"
  | (approved) p s inst purchase r where "find_by payable_id i (payables b) = Some p" "find_live_settlement b i = Some s"
      "settlement_status s \<noteq> SettlementConfirmed" "registered_by s \<noteq> actor"
      "payable_status p = PayableScheduled \<or> payable_status p = PayableDue" "settlement_amount s = payable_amount p"
      "find_by inst_id (payable_installment p) (installments b) = Some inst"
      "find_by purchase_id (payable_purchase p) (purchases b) = Some purchase"
      "r = new_recovery (fresh_id b) purchase inst p s"
      "settlements b' = update_by settlement_id (settlement_id s) (decided_settlement SettlementConfirmed actor now) (settlements b)"
      "payables b' = update_by payable_id i (paid_payable s) (payables b)"
      "installments b' = update_by inst_id (payable_installment p) (\<lambda>r. r\<lparr>inst_status := InstallmentCovered\<rparr>) (installments b)"
      "recoveries b' = recoveries b @ [r]" "notices b' = notices b" "movements b' = movements b" "reviews b' = reviews b"
      "coverage_sequence b' = Suc (coverage_sequence b)"
      "v = \<lparr>sr_replayed = False, sr_payable = paid_payable s p, sr_settlement = decided_settlement SettlementConfirmed actor now s,
            sr_recovery = Some r\<rparr>"
proof -
  from assms obtain p where f: "find_by payable_id i (payables b) = Some p"
    by (auto simp: approve_payable_settlement_def and_then_eq_Inr lock_payable_def)
  then have i: "payable_id p = i" by (simp add: find_by_Some)
  note r1 = assms [unfolded approve_payable_settlement_def lock_payable_def f from_option_simps and_then_Inr i]
  then obtain s where s: "find_live_settlement b i = Some s" by (cases "find_live_settlement b i") auto
  note r2 = r1 [unfolded s from_option_simps and_then_Inr]
  show thesis
  proof (cases "settlement_status s = SettlementConfirmed")
    case True
    with r2 show ?thesis by (intro replay [OF f s True]) auto
  next
    case False
    with r2 have g: "registered_by s \<noteq> actor" "payable_status p = PayableScheduled \<or> payable_status p = PayableDue"
        "settlement_amount s = payable_amount p"
      by (auto split: if_splits)
    with r2 False obtain inst where inst: "find_by inst_id (payable_installment p) (installments b) = Some inst"
      by (cases "find_by inst_id (payable_installment p) (installments b)") auto
    with r2 False g obtain purchase where purchase: "find_by purchase_id (payable_purchase p) (purchases b) = Some purchase"
      by (cases "find_by purchase_id (payable_purchase p) (purchases b)") auto
    have iid: "inst_id inst = payable_installment p" using find_by_Some [OF inst] by simp
    show ?thesis
      using r2 False g inst purchase iid
      by (intro approved [OF f s False g inst purchase refl])
        (auto simp: Let_def update_settlement_def update_payable_def update_installment_def take_id_def fresh_id_def
          record_settlement_action_def write_coverage_event_def i split: if_splits)
  qed
qed

lemma approve_ok:
  assumes ok: "coverage_ok strict b" and run: "approve_payable_settlement i actor now b = Inr (v, b')"
  shows "coverage_ok strict b'"
  using run
proof (cases rule: approve_cases)
  case (replay p s)
  with ok show ?thesis by simp
next
  case (approved p s inst purchase r)
  note keys = coverage_ok_keyed [OF ok]
  from find_by_Some [OF approved(1)] have p: "p \<in> set (payables b)" "payable_id p = i" by auto
  from find_live_settlement_Some [OF approved(2)] have s: "s \<in> set (settlements b)" "settlement_payable s = i" "standing s" by auto
  from find_by_Some [OF approved(7)] have inst: "inst \<in> set (installments b)" "inst_id inst = payable_installment p" by auto
  define f where "f = (\<lambda>q :: payable_row. if payable_id q = i then paid_payable s q else q)"
  define g where "g = (\<lambda>t :: settlement_row. if settlement_id t = settlement_id s then decided_settlement SettlementConfirmed actor now t else t)"
  define h where "h = (\<lambda>x :: installment_row. if inst_id x = payable_installment p then x\<lparr>inst_status := InstallmentCovered\<rparr> else x)"
  have upd: "payables b' = map f (payables b)" "settlements b' = map g (settlements b)" "installments b' = map h (installments b)"
    by (simp_all add: approved(10-12) update_by_def f_def g_def h_def)
  have pf: "payable_id (f q) = payable_id q" "payable_installment (f q) = payable_installment q" "payable_amount (f q) = payable_amount q" for q
    by (simp_all add: f_def paid_payable_def)
  have gf: "settlement_id (g t) = settlement_id t" "settlement_payable (g t) = settlement_payable t" "settlement_amount (g t) = settlement_amount t"
    "registered_by (g t) = registered_by t" for t by (simp_all add: g_def decided_settlement_def)
  have hf: "inst_id (h x) = inst_id x" "inst_amount (h x) = inst_amount x"
    "inst_status x = InstallmentCovered \<longrightarrow> inst_status (h x) = InstallmentCovered" for x by (simp_all add: h_def)
  have same_p: "q = p" if "q \<in> set (payables b)" "payable_id q = i" for q using keyed_unique [OF keys(3) that(1) p(1)] that p by simp
  have same_s: "t = s" if "t \<in> set (settlements b)" "settlement_id t = settlement_id s" for t
    using keyed_unique [OF keys(4) that(1) s(1)] that by simp
  have only_s: "t = s" if "t \<in> set (settlements b)" "standing t" "settlement_payable t = i" for t
    using coverage_okD(5) [OF ok s(1)] s same_s that unfolding settlement_ok_def by metis
  have fp: "payable_status (f p) = PayablePaid" "live (f p)" by (simp_all add: f_def p(2) paid_payable_def live_def)
  have fo: "f q = q" if "payable_id q \<noteq> i" for q using that by (simp add: f_def)
  have livef: "q \<in> set (payables b) \<Longrightarrow> live (f q) \<longleftrightarrow> live q" for q
    using same_p fp fo approved(5) by (cases "payable_id q = i") (auto simp: live_def)
  have unpaid: "q \<in> set (payables b) \<Longrightarrow> payable_status q = PayablePaid \<Longrightarrow> f q = q" for q
    using same_p fo approved(5) by (cases "payable_id q = i") auto
  have go: "g t = t" if "t \<in> set (settlements b)" "t \<noteq> s" for t using same_s that by (auto simp: g_def)
  have gs: "settlement_status (g s) = SettlementConfirmed" "settlement_decided_by (g s) = Some actor" "standing (g s)"
    by (simp_all add: g_def decided_settlement_def standing_def)
  have pin: "f p \<in> set (map f (payables b))" using p(1) by simp
  have pay: "payable_ok strict (map h (installments b)) (notices b) (map f (payables b)) (f q)" if q: "q \<in> set (payables b)" "live (f q)" for q
  proof -
    have "payable_ok strict (installments b) (notices b) (payables b) q" using coverage_okD(3) [OF ok q(1)] livef q by simp
    then have "payable_ok strict (installments b) (notices b) (map f (payables b)) q"
      by (rule payable_ok_payables) (use pf livef in auto)
    then have q_ok: "payable_ok strict (map h (installments b)) (notices b) (map f (payables b)) q"
      by (rule payable_ok_installments [rotated]) (use hf in auto)
    show ?thesis
    proof (cases "payable_id q = i")
      case True
      have "inst_status x = InstallmentCovered" if "x \<in> set (map h (installments b))" "inst_id x = payable_installment p" for x
        using that by (auto simp: h_def split: if_splits)
      then have "\<exists>x \<in> set (map h (installments b)). inst_id x = payable_installment p
          \<and> (strict \<longrightarrow> confirmed_for (notices b) (inst_id x) + payable_amount p \<le> inst_amount x) \<and> inst_status x = InstallmentCovered"
        using q_ok same_p [OF q(1) True] unfolding payable_ok_def by blast
      then show ?thesis using q_ok same_p [OF q(1) True] fp(1) pf by (simp add: payable_ok_def)
    next
      case False
      then show ?thesis using q_ok fo by simp
    qed
  qed
  have settle: "settlement_ok (map f (payables b)) (map g (settlements b)) (g t)" if t: "t \<in> set (settlements b)" for t
  proof (rule settlement_ok_settlements, goal_cases)
    case 1
    show ?case
    proof (cases "t = s")
      case True
      have "\<exists>q \<in> set (map f (payables b)). payable_id q = i \<and> live q \<and> payable_amount p = payable_amount q \<and> payable_status q = PayablePaid"
        using p fp pf by (intro bexI [OF _ pin]) simp
      then show ?thesis
        using coverage_okD(5) [OF ok t] approved(4,6) gs s(2,3) unfolding settlement_ok_def True gf gs by auto
    next
      case False
      then show ?thesis
        using coverage_okD(5) [OF ok t] go [OF t] only_s [OF t] fo by (metis settlement_ok_payables)
    qed
  next
    case (2 u)
    then show ?case using go [OF 2] s(3) gf by (cases "u = s") auto
  qed
  have cov: "covered_ok (map f (payables b)) (h x)" if x: "x \<in> set (installments b)" for x
  proof (cases "inst_id x = payable_installment p")
    case True
    then show ?thesis unfolding covered_ok_def hf using fp pf by (intro impI bexI [OF _ pin]) simp
  next
    case False
    then show ?thesis using covered_ok_payables [OF coverage_okD(4) [OF ok x] unpaid] by (simp add: h_def)
  qed
  have r: "recovery_id r = show_nat (coverage_sequence b)" "recovery_payable r = i" "amount_covered r = payable_amount p" "amount_recovered r = 0"
    "recovery_status r = RecoveryOpen"
    by (simp_all add: approved(6,9) new_recovery_def fresh_id_def p(2))
  have other: "recovery_payable q \<noteq> i" if "q \<in> set (recoveries b)" for q
    using coverage_okD(7) [OF ok that] same_p approved(5) unfolding recovery_ok_def by auto
  have recov: "recovery_ok (map f (payables b)) (recoveries b @ [r]) q" if q: "q \<in> set (recoveries b @ [r])" for q
  proof (cases "q = r")
    case True
    have "\<exists>x \<in> set (map f (payables b)). payable_id x = i \<and> payable_status x = PayablePaid \<and> payable_amount p = payable_amount x"
      using p fp pf by (intro bexI [OF _ pin]) simp
    then show ?thesis unfolding recovery_ok_def True r using other r by auto
  next
    case False
    with q have m: "q \<in> set (recoveries b)" by auto
    show ?thesis
      by (rule recovery_ok_new, rule recovery_ok_payables [OF coverage_okD(7) [OF ok m]]) (use unpaid other [OF m] r(2) in auto)
  qed
  have paid: "paid_ok (map g (settlements b)) (recoveries b @ [r]) (f q)" if q: "q \<in> set (payables b)" for q
  proof (cases "payable_id q = i")
    case True
    have "g s \<in> set (map g (settlements b))" using s(1) by simp
    then have "\<exists>t \<in> set (map g (settlements b)). settlement_payable t = i \<and> settlement_status t = SettlementConfirmed"
      by (rule bexI [rotated]) (simp add: gf gs s(2))
    then show ?thesis unfolding paid_ok_def pf True using r(2) by simp
  next
    case False
    have "paid_ok (map g (settlements b)) (recoveries b) q"
      by (rule paid_ok_settlements [OF coverage_okD(6) [OF ok q]]) (use go approved(3) in auto)
    then show ?thesis using paid_ok_append [of "map g (settlements b)" "recoveries b" q "[]" "[r]"] fo [OF False] by simp
  qed
  have bal: "balance_ok (movements b) q" if "q \<in> set (recoveries b @ [r])" for q
  proof (cases "q = r")
    case True
    have "movement_recovery m \<noteq> recovery_id r" if "m \<in> set (movements b)" for m
      using keys(8) [OF that] unfolding movement_ok_def r(1) by (metis less_irrefl show_nat_inject)
    then have "collected (movements b) (recovery_id r) = 0" by (simp add: collected_def filter_False)
    moreover have "0 < payable_amount p"
      using coverage_okD(3) [OF ok p(1)] approved(5) by (auto simp: live_def payable_ok_def)
    ultimately show ?thesis unfolding True balance_ok_def r by (simp add: recovery_status_for_def)
  next
    case False
    with that show ?thesis using coverage_okD(8) [OF ok] by simp
  qed
  have ids: "inst_id ` set (map h (installments b)) = inst_id ` set (installments b)" using hf(1) by (simp add: image_image)
  show ?thesis
  proof (rule coverage_okI, unfold upd approved(13-16))
    show "keys_ok b'"
      using keys r(1) pf(1) gf(1) hf(1) by (auto simp: keys_ok_def upd approved(13-17) intro: keyed_append keyed_mono movement_ok_mono [OF _ le_SucI [OF order_refl]])
  qed (use pay settle cov recov paid bal coverage_okD [OF ok] ids in auto)
qed

lemma reject_cases:
  assumes "reject_payable_settlement i actor now b = Inr (v, b')"
  obtains p s where "find_by payable_id i (payables b) = Some p" "find_live_settlement b i = Some s"
      "settlement_status s = SettlementPending" "registered_by s \<noteq> actor"
      "b' = record_settlement_action ''REJECT_PAYABLE_SETTLEMENT'' i (settlement_id s) actor
         (update_settlement (settlement_id s) (decided_settlement SettlementRejected actor now) b)"
proof -
  from assms obtain p where f: "find_by payable_id i (payables b) = Some p"
    by (auto simp: reject_payable_settlement_def and_then_eq_Inr lock_payable_def)
  then have i: "payable_id p = i" by (simp add: find_by_Some)
  note r1 = assms [unfolded reject_payable_settlement_def lock_payable_def f from_option_simps and_then_Inr i Let_def]
  then obtain s where s: "find_live_settlement b i = Some s" by (cases "find_live_settlement b i") auto
  with r1 show thesis by (intro that [OF f s]) (auto split: if_splits)
qed

lemma reject_ok:
  assumes ok: "coverage_ok strict b" and run: "reject_payable_settlement i actor now b = Inr (v, b')"
  shows "coverage_ok strict b'"
proof -
  from run obtain p s where p: "find_by payable_id i (payables b) = Some p" and s: "find_live_settlement b i = Some s"
      and st: "settlement_status s = SettlementPending" "registered_by s \<noteq> actor"
      and b': "b' = record_settlement_action ''REJECT_PAYABLE_SETTLEMENT'' i (settlement_id s) actor
         (update_settlement (settlement_id s) (decided_settlement SettlementRejected actor now) b)"
    by (rule reject_cases)
  note keys = coverage_ok_keyed [OF ok]
  define g where "g = (\<lambda>t :: settlement_row. if settlement_id t = settlement_id s then decided_settlement SettlementRejected actor now t else t)"
  have rest: "installments b' = installments b" "notices b' = notices b" "payables b' = payables b"
    "settlements b' = map g (settlements b)" "recoveries b' = recoveries b" "movements b' = movements b" "reviews b' = reviews b"
    "coverage_sequence b' = coverage_sequence b"
    by (simp_all add: b' record_settlement_action_def update_settlement_def update_by_def g_def)
  from find_live_settlement_Some [OF s] have s_in: "s \<in> set (settlements b)" by auto
  have gf: "settlement_id (g t) = settlement_id t" "settlement_payable (g t) = settlement_payable t" for t
    by (simp_all add: g_def decided_settlement_def)
  have go: "t = s \<or> g t = t" if "t \<in> set (settlements b)" for t
    using keyed_unique [OF keys(4) that s_in] by (auto simp: g_def)
  have gs: "\<not> standing (g s)" "settlement_decided_by (g s) = Some actor" "registered_by (g s) = registered_by s"
    by (simp_all add: g_def decided_settlement_def standing_def)
  have settle: "settlement_ok (payables b) (map g (settlements b)) (g t)" if t: "t \<in> set (settlements b)" for t
  proof (rule settlement_ok_settlements, goal_cases)
    case 1
    show ?case using go [OF t] coverage_okD(5) [OF ok t] gs st(2) by (auto simp: settlement_ok_def)
  next
    case (2 u)
    show ?case using go [OF 2] gs gf by auto
  qed
  have paid: "paid_ok (map g (settlements b)) (recoveries b) q" if "q \<in> set (payables b)" for q
    by (rule paid_ok_settlements [OF coverage_okD(6) [OF ok that]]) (use go st(1) in fastforce)
  show ?thesis
  proof (rule coverage_okI, unfold rest)
    show "keys_ok b'" using keys gf(1) by (simp add: keys_ok_def rest)
  qed (use settle paid coverage_okD [OF ok] in auto)
qed

section \<open>Recovery keeps the balance\<close>

lemma update_recovered_frame:
  assumes ok: "coverage_ok strict b" and k: "keys_ok b'"
    and rest: "installments b' = installments b" "notices b' = notices b" "payables b' = payables b"
      "settlements b' = settlements b" "recoveries b' = update_by recovery_id i (recovered_to a) (recoveries b)"
    and refs: "distinct (map payment_reference (movements b'))"
    and bal: "\<And>r. r \<in> set (recoveries b') \<Longrightarrow> balance_ok (movements b') r"
  shows "coverage_ok strict b'"
proof -
  define f where "f = (\<lambda>r :: recovery_row. if recovery_id r = i then recovered_to a r else r)"
  have rs: "recoveries b' = map f (recoveries b)" by (simp add: rest(5) update_by_def f_def)
  have f: "recovery_payable (f r) = recovery_payable r" "amount_covered (f r) = amount_covered r" "recovery_id (f r) = recovery_id r" for r
    by (simp_all add: f_def recovered_to_def)
  have "recovery_ok (payables b) (map f (recoveries b)) (f r)" if "r \<in> set (recoveries b)" for r
    using coverage_okD(7) [OF ok that] unfolding recovery_ok_def f by (auto simp: f)
  moreover have "paid_ok (settlements b) (map f (recoveries b)) p" if "p \<in> set (payables b)" for p
    using coverage_okD(6) [OF ok that] unfolding paid_ok_def by (auto simp: f)
  ultimately show ?thesis
    using coverage_okD [OF ok] k refs bal by (intro coverage_okI) (auto simp: rest(1-4) rs)
qed

lemma apply_recovery_cases:
  assumes "apply_recovery_payment i ref amount currency actor b = Inr (v, b')"
  obtains (replay) r m where "find_by recovery_id i (recoveries b) = Some r" "with_reference b ref = Some m"
      "is_same_recovery_payment m i amount currency" "v = (r, m, True)" "b' = b"
  | (applied) r m where "find_by recovery_id i (recoveries b) = Some r" "with_reference b ref = None"
      "currency = recovery_currency r" "recovery_status r \<noteq> WrittenOff" "amount_recovered r + amount \<le> amount_covered r"
      "m = \<lparr>movement_id = fresh_id b, movement_recovery = i,
            movement_installment = recovery_installment r, movement_type = Payment,
            payment_reference = ref, movement_amount = amount, movement_currency = currency,
            reverses_movement = None, recorded_by = actor\<rparr>"
      "v = (recovered_to (amount_recovered r + amount) r, m, False)"
      "installments b' = installments b" "notices b' = notices b" "payables b' = payables b" "settlements b' = settlements b"
      "reviews b' = reviews b" "movements b' = movements b @ [m]" "coverage_sequence b' = Suc (coverage_sequence b)"
      "recoveries b' = update_by recovery_id i (recovered_to (amount_recovered r + amount)) (recoveries b)"
proof -
  from assms obtain r where f: "find_by recovery_id i (recoveries b) = Some r"
    by (auto simp: apply_recovery_payment_def and_then_eq_Inr lock_recovery_def)
  then have i: "recovery_id r = i" by (simp add: find_by_Some)
  note r1 = assms [unfolded apply_recovery_payment_def lock_recovery_def f from_option_simps and_then_Inr i Let_def]
  show thesis
  proof (cases "with_reference b ref")
    case (Some m)
    with r1 show ?thesis by (intro replay [OF f Some]) (auto split: if_splits)
  next
    case None
    with r1 have "currency = recovery_currency r" "recovery_status r \<noteq> WrittenOff" "amount_recovered r + amount \<le> amount_covered r"
      by (auto split: if_splits)
    with r1 None show ?thesis
      by (intro applied [OF f None _ _ _ refl])
        (auto simp: write_coverage_event_def update_recovered_amount_def insert_movement_def take_id_def split: if_splits)
  qed
qed

lemma with_reference_None: "with_reference b ref = None \<longleftrightarrow> ref \<notin> payment_reference ` set (movements b)"
  by (auto simp: with_reference_def find_None_iff)

lemma recovered_amount_unique:
  assumes "coverage_ok strict b" "find_by recovery_id i (recoveries b) = Some r" "q \<in> set (recoveries b)" "recovery_id q = i"
  shows "q = r"
  using keyed_unique [OF coverage_ok_keyed(5) [OF assms(1)] assms(3)] find_by_Some [OF assms(2)] assms(4) by simp

lemma reversed_append: "reversed (ms @ [m]) j \<longleftrightarrow> reversed ms j \<or> reverses_movement m = Some j"
  by (auto simp: reversed_def)

lemma apply_recovery_ok:
  assumes ok: "coverage_ok strict b" and run: "apply_recovery_payment i ref amount currency actor b = Inr (v, b')" and pos: "0 < amount"
  shows "coverage_ok strict b'"
  using run
proof (cases rule: apply_recovery_cases)
  case (replay r m)
  with ok show ?thesis by simp
next
  case (applied r m)
  note keys = coverage_ok_keyed [OF ok]
  note rest = applied(8-15)
  from find_by_Some [OF applied(1)] have r: "r \<in> set (recoveries b)" "recovery_id r = i" by auto
  have m: "movement_id m = show_nat (coverage_sequence b)" "movement_recovery m = i" "movement_type m = Payment" "movement_amount m = amount"
    "reverses_movement m = None" "payment_reference m = ref"
    by (simp_all add: applied(6) fresh_id_def)
  have fresh: "\<not> reversed (movements b) (movement_id m)"
    using keys(8) unfolding reversed_def movement_ok_def m(1) by (metis less_irrefl show_nat_inject)
  have sum: "collected (movements b @ [m]) j = collected (movements b) j + (if j = i then amount else 0)" for j
    using fresh m by (simp add: collected_def reversed_append)
  have bal: "balance_ok (movements b @ [m]) q" if q: "q \<in> set (recoveries b')" for q
  proof -
    from q obtain x where x: "x \<in> set (recoveries b)" "q = (if recovery_id x = i then recovered_to (amount_recovered r + amount) x else x)"
      by (auto simp: rest(8) set_update_by)
    show ?thesis
    proof (cases "recovery_id x = i")
      case True
      then have "x = r" using recovered_amount_unique [OF ok applied(1) x(1)] by simp
      then show ?thesis using x True coverage_okD(8) [OF ok r(1)] applied(5) r(2) by (simp add: balance_ok_def recovered_to_def sum)
    next
      case False
      then show ?thesis using x coverage_okD(8) [OF ok x(1)] by (simp add: balance_ok_def sum)
    qed
  qed
  have "keys_ok b'"
  proof -
    from keys(5) r have "\<exists>n < Suc (coverage_sequence b). i = show_nat n"
      unfolding keyed_def ids_below_def by (metis image_eqI less_SucI)
    then have "movement_ok (Suc (coverage_sequence b)) m" using pos m by (simp add: movement_ok_def)
    then show ?thesis
      using keys m(1) by (auto simp: keys_ok_def rest recovered_to_def intro: keyed_append keyed_mono movement_ok_mono [OF _ le_SucI [OF order_refl]])
  qed
  then show ?thesis
    using bal coverage_okD(9) [OF ok] applied(2) m(6)
    by (intro update_recovered_frame [OF ok _ rest(1-4) rest(8)]) (auto simp: rest(6) with_reference_None)
qed

lemma reverse_cases:
  assumes "reverse_recovery_movement i j ref actor b = Inr (v, b')"
  obtains (replay) r original previous where "find_by recovery_id i (recoveries b) = Some r" "original \<in> set (movements b)"
      "movement_id original = j" "movement_recovery original = i" "previous \<in> set (movements b)"
      "reverses_movement previous = Some j" "payment_reference previous = ref" "v = (r, previous, True)" "b' = b"
  | (applied) r original m where "find_by recovery_id i (recoveries b) = Some r" "original \<in> set (movements b)"
      "movement_id original = j" "movement_recovery original = i" "movement_type original = Payment"
      "\<not> reversed (movements b) j" "with_reference b ref = None" "movement_amount original \<le> amount_recovered r"
      "m = \<lparr>movement_id = fresh_id b, movement_recovery = i,
            movement_installment = recovery_installment r, movement_type = Reversal,
            payment_reference = ref, movement_amount = movement_amount original,
            movement_currency = movement_currency original,
            reverses_movement = Some j, recorded_by = Some actor\<rparr>"
      "v = (recovered_to (amount_recovered r - movement_amount original) r, m, False)"
      "installments b' = installments b" "notices b' = notices b" "payables b' = payables b" "settlements b' = settlements b"
      "reviews b' = reviews b" "movements b' = movements b @ [m]" "coverage_sequence b' = Suc (coverage_sequence b)"
      "recoveries b' = update_by recovery_id i (recovered_to (amount_recovered r - movement_amount original)) (recoveries b)"
proof -
  from assms obtain r where f: "find_by recovery_id i (recoveries b) = Some r"
    by (auto simp: reverse_recovery_movement_def and_then_eq_Inr lock_recovery_def)
  then have i: "recovery_id r = i" by (simp add: find_by_Some)
  note r1 = assms [unfolded reverse_recovery_movement_def lock_recovery_def f from_option_simps and_then_Inr i Let_def]
  then obtain original where o: "find (\<lambda>m. movement_id m = j \<and> movement_recovery m = i) (movements b) = Some original"
    by (auto split: option.splits)
  then have orig: "original \<in> set (movements b)" "movement_id original = j" "movement_recovery original = i"
    by (auto simp: find_Some_iff)
  note r2 = r1 [unfolded o option.case orig(2)]
  then have pay: "movement_type original = Payment" by (auto split: if_splits)
  show thesis
  proof (cases "find (\<lambda>m. reverses_movement m = Some j) (movements b)")
    case (Some previous)
    then have "previous \<in> set (movements b)" "reverses_movement previous = Some j" by (auto simp: find_Some_iff)
    with r2 Some pay show ?thesis by (intro replay [OF f orig]) (auto split: if_splits)
  next
    case None
    then have "\<not> reversed (movements b) j" by (auto simp: reversed_def find_None_iff)
    moreover from r2 None pay have "with_reference b ref = None" "movement_amount original \<le> amount_recovered r"
      by (auto split: if_splits)
    ultimately show ?thesis using r2 None pay
      by (intro applied [OF f orig pay _ _ _ refl])
        (auto simp: write_coverage_event_def update_recovered_amount_def insert_movement_def take_id_def split: if_splits)
  qed
qed

lemma collected_reversal:
  assumes "distinct (map movement_id ms)" "original \<in> set ms" "movement_type original = Payment" "\<not> reversed ms (movement_id original)"
    and "movement_type m = Reversal" "reverses_movement m = Some (movement_id original)"
  shows "collected (ms @ [m]) i = collected ms i - (if movement_recovery original = i then movement_amount original else 0)"
proof -
  have unique: "x = original" if "x \<in> set ms" "movement_id x = movement_id original" for x
    using unique_row [OF assms(1) that(1) assms(2)] that(2) by simp
  from assms(2) obtain us vs where split: "ms = us @ original # vs" by (auto simp: in_set_conv_decomp)
  have other: "movement_id x \<noteq> movement_id original" if "x \<in> set us \<union> set vs" for x
  proof -
    have "movement_id x \<in> movement_id ` (set us \<union> set vs)" using that by (rule imageI)
    then show ?thesis using assms(1) by (auto simp: split)
  qed
  let ?P = "\<lambda>x. movement_recovery x = i \<and> movement_type x = Payment \<and> \<not> reversed ms (movement_id x)"
  let ?Q = "\<lambda>x. movement_recovery x = i \<and> movement_type x = Payment \<and> \<not> reversed (ms @ [m]) (movement_id x)"
  have same: "filter ?Q us = filter ?P us" "filter ?Q vs = filter ?P vs"
  proof -
    have "?Q x = ?P x" if "x \<in> set us \<union> set vs" for x using other [OF that] assms(6) by (simp add: reversed_append)
    then show "filter ?Q us = filter ?P us" "filter ?Q vs = filter ?P vs" by (auto cong: filter_cong)
  qed
  have "collected (ms @ [m]) i = sum_list (map movement_amount (filter ?Q (us @ original # vs)))"
    unfolding collected_def using assms(5) by (simp add: split)
  also have "\<dots> = sum_list (map movement_amount (filter ?P us)) + sum_list (map movement_amount (filter ?P vs))"
  proof -
    have "\<not> ?Q original" using assms(6) by (simp add: reversed_append)
    then have "filter ?Q (us @ original # vs) = filter ?P us @ filter ?P vs"
      by (simp only: filter_append filter.simps same if_False)
    then show ?thesis by simp
  qed
  finally show ?thesis
    unfolding collected_def using assms(3,4) by (simp add: split)
qed

lemma collected_nonneg_part:
  assumes "\<forall>m \<in> set ms. 0 < movement_amount m" "original \<in> set ms" "movement_type original = Payment"
    "\<not> reversed ms (movement_id original)" "movement_recovery original = i"
  shows "movement_amount original \<le> collected ms i"
proof -
  let ?l = "filter (\<lambda>m. movement_recovery m = i \<and> movement_type m = Payment \<and> \<not> reversed ms (movement_id m)) ms"
  have "original \<in> set ?l" using assms by simp
  then have "movement_amount original \<in> set (map movement_amount ?l)" by simp
  moreover have "\<forall>x \<in> set (map movement_amount ?l). 0 \<le> x" using assms(1) by (auto intro: less_imp_le)
  ultimately show ?thesis unfolding collected_def by (intro member_le_sum_list) auto
qed

lemma reverse_ok:
  assumes ok: "coverage_ok strict b" and run: "reverse_recovery_movement i j ref actor b = Inr (v, b')"
  shows "coverage_ok strict b'"
  using run
proof (cases rule: reverse_cases)
  case replay
  with ok show ?thesis by simp
next
  case (applied r original m)
  note keys = coverage_ok_keyed [OF ok]
  note rest = applied(11-18)
  from find_by_Some [OF applied(1)] have r: "r \<in> set (recoveries b)" "recovery_id r = i" by auto
  have m: "movement_id m = show_nat (coverage_sequence b)" "movement_recovery m = i" "movement_type m = Reversal"
    "movement_amount m = movement_amount original" "reverses_movement m = Some j" "payment_reference m = ref"
    by (simp_all add: applied(9) fresh_id_def)
  have sum: "collected (movements b @ [m]) k = collected (movements b) k - (if k = i then movement_amount original else 0)" for k
    using collected_reversal [OF _ applied(2,5), of m k] keys(6) applied(3,4,6) m by (auto simp: keyed_def)
  have bal: "balance_ok (movements b @ [m]) q" if q: "q \<in> set (recoveries b')" for q
  proof -
    from q obtain x where x: "x \<in> set (recoveries b)" "q = (if recovery_id x = i then recovered_to (amount_recovered r - movement_amount original) x else x)"
      by (auto simp: rest(8) set_update_by)
    have "0 < movement_amount original" using keys(8) [OF applied(2)] by (simp add: movement_ok_def)
    then show ?thesis
      using x coverage_okD(8) [OF ok x(1)] recovered_amount_unique [OF ok applied(1) x(1)] r(2)
      by (cases "recovery_id x = i") (auto simp: balance_ok_def recovered_to_def sum)
  qed
  have "keys_ok b'"
  proof -
    have "movement_ok (Suc (coverage_sequence b)) m"
      using keys(6) keys(8) [OF applied(2)] applied(2,3,4) m unfolding keyed_def ids_below_def movement_ok_def
      by (metis image_eqI less_SucI option.inject)
    then show ?thesis
      using keys m(1) by (auto simp: keys_ok_def rest recovered_to_def intro: keyed_append keyed_mono movement_ok_mono [OF _ le_SucI [OF order_refl]])
  qed
  then show ?thesis
    using bal coverage_okD(9) [OF ok] applied(7) m(6)
    by (intro update_recovered_frame [OF ok _ rest(1-4) rest(8)]) (auto simp: rest(6) with_reference_None)
qed

end
