(* ===== verification/CoverageSystem.thy ===== *)
theory CoverageSystem
  imports CoverageSettlement
begin

text \<open>
  The rest of the coverage operations keep the invariant: decisions on payment notices, the review queue, the
  sweep and the events of Core. Then the system: every operation is a step, next to the registration of new
  installments and the changes other modules make to the rows coverage only reads, and the reachable books satisfy
  the invariant.
\<close>

section \<open>Notices and installments\<close>

lemma notice_frame:
  assumes ok: "coverage_ok strict b" and insts: "installments b' = map h (installments b)"
    and h: "\<And>x. x \<in> set (installments b) \<Longrightarrow> inst_id (h x) = inst_id x \<and> inst_amount (h x) = inst_amount x
      \<and> (inst_status (h x) = InstallmentCovered \<longleftrightarrow> inst_status x = InstallmentCovered)"
    and ns: "keyed (coverage_sequence b') notice_id (notices b')"
      "\<And>n. n \<in> set (notices b') \<Longrightarrow> notice_ok (inst_id ` set (installments b)) n"
      "\<And>p. p \<in> set (payables b) \<Longrightarrow> live p \<Longrightarrow>
        strict \<Longrightarrow> confirmed_for (notices b') (payable_installment p) \<le> confirmed_for (notices b) (payable_installment p)"
    and rest: "payables b' = payables b" "settlements b' = settlements b" "recoveries b' = recoveries b" "movements b' = movements b"
    and seq: "coverage_sequence b \<le> coverage_sequence b'" "keyed (coverage_sequence b') review_id (reviews b')"
  shows "coverage_ok strict b'"
proof -
  note keys = coverage_ok_keyed [OF ok]
  have ids: "map inst_id (map h (installments b)) = map inst_id (installments b)" using h by simp
  have ids': "inst_id ` set (map h (installments b)) = inst_id ` set (installments b)"
    using arg_cong [OF ids, of set] by (simp only: set_map [symmetric])
  show ?thesis
  proof (rule coverage_okI, unfold rest insts)
    have "keyed (coverage_sequence b) inst_id (map h (installments b))"
      using keys(1) by (simp only: keyed_def ids ids')
    then show "keys_ok b'"
      using keys ns(1) seq by (auto simp: keys_ok_def rest insts intro: keyed_mono movement_ok_mono)
    show "payable_ok strict (map h (installments b)) (notices b') (payables b) p" if "p \<in> set (payables b)" "live p" for p
    proof (rule payable_ok_notices [OF _ ns(3) [OF that]])
      show "payable_ok strict (map h (installments b)) (notices b) (payables b) p"
        by (rule payable_ok_installments [OF _ coverage_okD(3) [OF ok that]]) (use h in auto)
    qed
    show "covered_ok (payables b) x" if "x \<in> set (map h (installments b))" for x
      using that h coverage_okD(4) [OF ok] by (auto simp: covered_ok_def)
    show "notice_ok (inst_id ` set (map h (installments b))) n" if "n \<in> set (notices b')" for n
      unfolding ids' using ns(2) [OF that] .
  qed (use coverage_okD [OF ok] in auto)
qed

lemma apply_notice_decision_ok:
  assumes ok: "coverage_ok strict b" and mem: "inst \<in> set (installments b)" "n \<in> set (notices b)"
    and n: "notice_status n = NoticeReported" "strict \<Longrightarrow> notice_installment n = Some (inst_id inst)"
    and uncovered: "confirming \<Longrightarrow> \<not> has_live_coverage b inst"
  shows "coverage_ok strict (snd (apply_notice_decision inst n pending confirming user now today b))" (is "coverage_ok strict ?b")
proof -
  note keys = coverage_ok_keyed [OF ok]
  let ?f = "decided_notice confirming user now"
  have f: "notice_installment (?f r) = notice_installment r" "notice_amount (?f r) = notice_amount r" "notice_id (?f r) = notice_id r" for r
    by (simp_all add: decided_notice_def)
  have ns: "notices ?b = update_by notice_id (notice_id n) ?f (notices b)"
    by (simp add: apply_notice_decision_def Let_def update_installment_def)
  have rest: "payables ?b = payables b" "settlements ?b = settlements b" "recoveries ?b = recoveries b" "movements ?b = movements b"
    "coverage_sequence ?b = coverage_sequence b" "reviews ?b = reviews b"
    by (simp_all add: apply_notice_decision_def Let_def update_installment_def)
  obtain h where insts: "installments ?b = map h (installments b)"
    and h: "\<And>x. x \<in> set (installments b) \<Longrightarrow> inst_id (h x) = inst_id x \<and> inst_amount (h x) = inst_amount x
      \<and> (inst_status (h x) = InstallmentCovered \<longleftrightarrow> inst_status x = InstallmentCovered)"
  proof -
    define b1 where "b1 = b\<lparr>notices := update_by notice_id (notice_id n) ?f (notices b)\<rparr>"
    define k :: "installment_row \<Rightarrow> installment_row" where "k =
      (if confirming \<and> inst_amount inst \<le> confirmed_minor_of b1 (inst_id inst)
       then (\<lambda>x. x\<lparr>inst_status := InstallmentPaidToMerchant, paid_to_merchant_at := Some (notice_paid_at n)\<rparr>)
       else if \<not> confirming \<and> pending - 1 = 0 \<and> inst_status inst = InstallmentScheduled \<and> is_past_due (inst_due_date inst) today
       then (\<lambda>x. x\<lparr>inst_status := InstallmentOverdue\<rparr>) else (\<lambda>x. x))"
    have "installments ?b = map (\<lambda>x. if inst_id x = inst_id inst then k x else x) (installments b)"
    proof -
      have "installments b1 = installments b" by (simp add: b1_def)
      then show ?thesis
        unfolding apply_notice_decision_def Let_def snd_conv b1_def [symmetric] k_def
        by (simp add: update_installment_def update_by_def)
    qed
    moreover have "inst_id (k x) = inst_id x" "inst_amount (k x) = inst_amount x" for x by (simp_all add: k_def)
    moreover have "inst_status (k x) = InstallmentCovered \<longleftrightarrow> inst_status x = InstallmentCovered"
      if x: "x \<in> set (installments b)" "inst_id x = inst_id inst" for x
      using keyed_unique [OF keys(1) x(1) mem(1) x(2)] uncovered by (auto simp: k_def has_live_coverage_def)
    ultimately show ?thesis by (intro that [of "\<lambda>x. if inst_id x = inst_id inst then k x else x"]) auto
  qed
  have conf: "confirmed_for (notices ?b) (payable_installment p) \<le> confirmed_for (notices b) (payable_installment p)"
    if "p \<in> set (payables b)" "live p" strict for p
  proof -
    have "notice_installment n \<noteq> Some (payable_installment p) \<or> notice_status (?f n) \<noteq> NoticeConfirmed"
      using uncovered that n(2) [OF that(3)] by (auto simp: has_live_coverage_def live_payable_None decided_notice_def)
    then show ?thesis
      unfolding ns using confirmed_for_update [OF keys(2) mem(2), of ?f] f n(1) by simp
  qed
  show ?thesis
  proof (rule notice_frame [OF ok insts h _ _ conf rest(1-4)])
    show "keyed (coverage_sequence ?b) notice_id (notices ?b)" using keys(2) f by (simp add: ns rest(5))
    show "notice_ok (inst_id ` set (installments b)) x" if "x \<in> set (notices ?b)" for x
    proof -
      from that obtain r where r: "r \<in> set (notices b)" "x = r \<or> x = ?f r" by (auto simp: ns set_update_by)
      with coverage_okD(2) [OF ok r(1)] f show ?thesis by (auto simp: notice_ok_def)
    qed
  qed (use keys rest in auto)
qed

lemma close_items_ok:
  assumes "coverage_ok strict b" shows "coverage_ok strict (close_items which resolution user b)"
  by (rule coverage_ok_frame [OF assms]) (use coverage_ok_keyed(7) [OF assms] in \<open>simp_all add: close_items_def resolve_item_def\<close>)

lemma pending_noticesD:
  assumes "n \<in> set (pending_notices b i)"
  shows "n \<in> set (notices b)" "notice_status n = NoticeReported" "notice_installment n = Some i"
  using assms by (auto simp: pending_notices_def notices_of_def notices_with_def)

lemma pick_notice_mem: "pick_notice pending chosen = Inr n \<Longrightarrow> n \<in> set pending"
  by (auto simp: pick_notice_def from_option_eq_Inr find_Some_iff split: list.splits option.splits if_splits)

lemma resolve_ok:
  assumes ok: "coverage_ok strict b" and run: "resolve_review_item i action chosen user now today b = Inr (v, b')"
  shows "coverage_ok strict b'"
proof -
  from run obtain item inst where f: "find_by review_id i (reviews b) = Some item"
      "find_by inst_id (review_installment item) (installments b) = Some inst"
    by (auto simp: resolve_review_item_def and_then_eq_Inr)
  note r1 = run [unfolded resolve_review_item_def f from_option_simps and_then_Inr Let_def]
  have inst: "inst \<in> set (installments b)" using find_by_Some [OF f(2)] by simp
  show ?thesis
  proof (cases "action = Dismiss")
    case True
    with r1 have "b' = close_items (\<lambda>r. review_id r = review_id item) Dismissed user b"
      by (auto simp: dismiss_def split: if_splits)
    then show ?thesis using close_items_ok [OF ok] by simp
  next
    case False
    let ?c = "action = ConfirmNotice"
    from r1 False have d: "decide_notice item inst (pending_notices b (inst_id inst)) ?c chosen user now today b = Inr (v, b')"
      by (auto split: if_splits)
    then obtain n where n: "pick_notice (pending_notices b (inst_id inst)) chosen = Inr n"
      by (auto simp: decide_notice_def and_then_eq_Inr split: if_splits)
    from d n have live: "\<not> (?c \<and> has_live_coverage b inst)" by (auto simp: decide_notice_def split: if_splits)
    let ?r = "apply_notice_decision inst n (int (length (pending_notices b (inst_id inst)))) ?c (Some user) now today b"
    have "coverage_ok strict (snd ?r)"
      using pending_noticesD [OF pick_notice_mem [OF n]] inst live by (intro apply_notice_decision_ok [OF ok]) auto
    moreover have "b' = snd ?r \<or> (\<exists>w s u. b' = close_items w s u (snd ?r))"
      using d n live by (auto simp: decide_notice_def split_beta Let_def split: if_splits)
    ultimately show ?thesis using close_items_ok by auto
  qed
qed

lemma open_unresolved_frame:
  assumes "open_unresolved i b = (v, b')"
  shows "installments b' = installments b \<and> notices b' = notices b \<and> payables b' = payables b
    \<and> settlements b' = settlements b \<and> recoveries b' = recoveries b \<and> movements b' = movements b
    \<and> coverage_sequence b \<le> coverage_sequence b'
    \<and> (keyed (coverage_sequence b) review_id (reviews b) \<longrightarrow> keyed (coverage_sequence b') review_id (reviews b'))"
proof (cases "fst (open_unresolved i b)")
  case True
  obtain r b1 where o: "open_review_item i PaymentNoticeUnresolved None b = (r, b1)" by fastforce
  from True assms o have "b' = b1" by (auto simp: open_unresolved_def split: if_splits)
  with open_review_item_frame [OF o] show ?thesis by simp
next
  case False
  with assms have "b' = b" by (auto simp: open_unresolved_def split: if_splits)
  then show ?thesis by simp
qed

lemma sweep_one_frame:
  assumes "sweep_one hours now inst (res, marks, b) = (res', marks', b')" and ok: "coverage_ok strict b"
  shows "coverage_ok strict b' \<and> installments b' = installments b \<and> notices b' = notices b
    \<and> (marks' = marks \<or> inst_status inst = InstallmentScheduled \<and> marks' = marks @ [inst_id inst])"
proof -
  obtain v b1 where o: "open_unresolved (inst_id inst) b = (v, b1)" by fastforce
  note fr = open_unresolved_frame [OF o]
  have "coverage_ok strict b1" using fr coverage_ok_keyed(7) [OF ok] by (intro coverage_ok_frame [OF ok]) auto
  moreover have "b' = b \<or> b' = b1" using assms(1) o by (auto simp: sweep_one_def Let_def split: if_splits)
  moreover have "marks' = marks \<or> inst_status inst = InstallmentScheduled \<and> marks' = marks @ [inst_id inst]"
    using assms(1) o by (auto simp: sweep_one_def Let_def split: if_splits)
  ultimately show ?thesis using fr ok by auto
qed

lemma sweep_fold_frame:
  assumes "fold (sweep_one hours now) due (res, marks, b) = (res', marks', b')" "coverage_ok strict b"
  shows "coverage_ok strict b' \<and> installments b' = installments b \<and> notices b' = notices b
    \<and> set marks' \<subseteq> set marks \<union> inst_id ` {x \<in> set due. inst_status x = InstallmentScheduled}"
  using assms
proof (induction due arbitrary: res marks b)
  case (Cons x xs)
  obtain r m c where s: "sweep_one hours now x (res, marks, b) = (r, m, c)" by (cases "sweep_one hours now x (res, marks, b)") auto
  note fr = sweep_one_frame [OF s Cons.prems(2)]
  have "fold (sweep_one hours now) xs (r, m, c) = (res', marks', b')" using Cons.prems(1) s by simp
  note ih = Cons.IH [OF this conjunct1 [OF fr]]
  have "set m \<subseteq> set marks \<union> inst_id ` {y \<in> set (x # xs). inst_status y = InstallmentScheduled}" using fr by auto
  moreover have "inst_id ` {y \<in> set xs. inst_status y = InstallmentScheduled}
      \<subseteq> inst_id ` {y \<in> set (x # xs). inst_status y = InstallmentScheduled}" by auto
  ultimately have "set marks' \<subseteq> set marks \<union> inst_id ` {y \<in> set (x # xs). inst_status y = InstallmentScheduled}"
    using ih by blast
  then show ?case using ih fr by simp
qed simp

lemma sweep_ok:
  assumes ok: "coverage_ok strict b" and run: "sweep corte hours now b = (v, b')"
  shows "coverage_ok strict b'"
proof -
  let ?due = "filter (\<lambda>r. (inst_status r = InstallmentScheduled \<or> inst_status r = InstallmentOverdue) \<and> inst_due_date r < corte) (installments b)"
  obtain res marks b1 where f: "fold (sweep_one hours now) ?due
      (\<lparr>sw_reviewed = 0, sw_marked = 0, sw_paid = 0, sw_waiting = 0, sw_in_review = 0\<rparr>, [], b) = (res, marks, b1)"
    by (rule prod_cases3)
  note fr = sweep_fold_frame [OF f ok]
  define h where "h = (\<lambda>r :: installment_row. if inst_id r \<in> set marks then r\<lparr>inst_status := InstallmentOverdue\<rparr> else r)"
  have b': "b' = b1\<lparr>installments := map h (installments b1)\<rparr>"
    using run unfolding sweep_def Let_def f h_def by simp
  have ok1: "coverage_ok strict b1" using fr by simp
  have "inst_status (h x) = InstallmentCovered \<longleftrightarrow> inst_status x = InstallmentCovered" if x: "x \<in> set (installments b1)" for x
  proof (cases "inst_id x \<in> set marks")
    case True
    with fr obtain y where y: "y \<in> set (installments b1)" "inst_id y = inst_id x" "inst_status y = InstallmentScheduled" by auto
    have "y = x" using keyed_unique [OF coverage_ok_keyed(1) [OF ok1] y(1) x y(2)] .
    with y True show ?thesis by (simp add: h_def)
  qed (simp add: h_def)
  then show ?thesis
    using coverage_ok_keyed [OF ok1] coverage_okD(2) [OF ok1]
    by (intro notice_frame [OF ok1, of b' h]) (auto simp: b' h_def)
qed

lemma create_notice_frame:
  assumes ok: "coverage_ok strict b" and c: "create_notice l inst e now b = (n, b')" and inst: "inst \<in> set (installments b)" and pos: "0 < cc_amount e"
  shows "coverage_ok strict b' \<and> n \<in> set (notices b') \<and> notice_status n = NoticeReported \<and> notice_installment n = Some (inst_id inst)
    \<and> installments b' = installments b \<and> payables b' = payables b"
proof -
  from c have b': "notices b' = notices b @ [n]" "installments b' = installments b" "payables b' = payables b" "settlements b' = settlements b"
      "recoveries b' = recoveries b" "movements b' = movements b" "reviews b' = reviews b" "coverage_sequence b' = Suc (coverage_sequence b)"
    and n: "notice_id n = show_nat (coverage_sequence b)" "notice_status n = NoticeReported" "notice_installment n = Some (inst_id inst)"
      "notice_amount n = cc_amount e"
    by (auto simp: create_notice_def Let_def take_id_def fresh_id_def)
  note keys = coverage_ok_keyed [OF ok]
  have "coverage_ok strict b'"
  proof (rule notice_frame [OF ok, of b' "\<lambda>x. x"])
    show "keyed (coverage_sequence b') notice_id (notices b')" using keys(2) n(1) by (simp add: b' keyed_append)
    show "notice_ok (inst_id ` set (installments b)) x" if "x \<in> set (notices b')" for x
      using that coverage_okD(2) [OF ok] n inst pos by (auto simp: b' notice_ok_def)
    show "confirmed_for (notices b') (payable_installment p) \<le> confirmed_for (notices b) (payable_installment p)" for p
      by (simp add: b' confirmed_for_def confirmed_total_def n(2))
  qed (use keys in \<open>auto simp: b' intro: keyed_mono\<close>)
  then show ?thesis using b' n by simp
qed

lemma decide_claim_ok:
  assumes ok: "coverage_ok strict b" and mem: "inst \<in> set (installments b)" "n \<in> set (notices b)"
    and n: "notice_status n = NoticeReported" "strict \<Longrightarrow> notice_installment n = Some (inst_id inst)"
  shows "coverage_ok strict (snd (decide_claim e inst n today b))"
proof (cases "cc_topic e = PaymentConfirmed \<and> has_live_coverage b inst")
  case True
  obtain r b1 where o: "open_review_item (inst_id inst) LatePaymentWithCoverage None b = (r, b1)" by fastforce
  have "coverage_ok strict b1"
    using open_review_item_frame [OF o] coverage_ok_keyed(7) [OF ok] by (intro coverage_ok_frame [OF ok]) auto
  with True o show ?thesis by (simp add: decide_claim_def)
next
  case False
  then have "snd (decide_claim e inst n today b) = snd (apply_notice_decision inst n (int (length (pending_notices b (inst_id inst))))
      (cc_topic e = PaymentConfirmed) None (cc_decided e) today b)"
    unfolding decide_claim_def Let_def by (simp only: if_False snd_conv)
  with False show ?thesis using apply_notice_decision_ok [OF ok mem n] by simp
qed

text \<open>
  A claim names the installment of the notice it decides. Core keeps a claim on one installment, but nothing in this
  code checks it; the steps below require it of a history only when the history is \<open>strict\<close>.
\<close>

definition claim_consistent :: "coverage_book \<Rightarrow> core_claim \<Rightarrow> bool" where
  "claim_consistent b e = (\<forall>n l. existing_notice b e = Some n \<longrightarrow> find_link b (cc_tenant e) (cc_installment e) = Some l \<longrightarrow>
     notice_installment n = Some (link_installment l))"

lemma core_exception_ok:
  assumes "coverage_ok strict b" shows "coverage_ok strict (snd (core_exception e reason b))"
  by (rule coverage_ok_frame [OF assms]) (simp_all add: core_exception_def coverage_ok_keyed [OF assms])

lemma core_event_ok:
  assumes ok: "coverage_ok strict b" and claim: "strict \<Longrightarrow> claim_consistent b e" and pos: "0 < cc_amount e"
  shows "coverage_ok strict (snd (apply_core_event e now today b))"
proof (cases "find_link b (cc_tenant e) (cc_installment e)")
  case None
  then show ?thesis by (simp add: apply_core_event_def core_exception_ok [OF ok])
next
  case (Some l)
  note link = Some
  show ?thesis
  proof (cases "find_by inst_id (link_installment l) (installments b)")
    case None
    then show ?thesis using core_exception_ok [OF ok] by (simp add: apply_core_event_def link)
  next
    case (Some inst)
    from find_by_Some [OF this] have inst: "inst \<in> set (installments b)" "inst_id inst = link_installment l" by auto
    show ?thesis
    proof (cases "existing_notice b e")
      case None
      obtain n b1 where c: "create_notice l inst e now b = (n, b1)" by fastforce
      note fr = create_notice_frame [OF ok c inst(1) pos]
      have "coverage_ok strict b1" "coverage_ok strict (snd (decide_claim e inst n today b1))"
        using fr inst(1) by (auto intro: decide_claim_ok)
      then show ?thesis using core_exception_ok [OF ok] by (simp add: apply_core_event_def link Some None c)
    next
      case (Some n)
      then have "n \<in> set (notices b)" by (auto simp: existing_notice_def find_Some_iff)
      then have "coverage_ok strict (snd (decide_claim e inst n today b))" if "notice_status n = NoticeReported"
        using that claim inst link Some by (intro decide_claim_ok [OF ok]) (auto simp: claim_consistent_def)
      then show ?thesis
        using core_exception_ok [OF ok] ok \<open>find_by inst_id (link_installment l) (installments b) = Some inst\<close>
        by (simp add: apply_core_event_def link Some)
    qed
  qed
qed

section \<open>The system\<close>

text \<open>A newly registered installment: it waits for its due date and has no history.\<close>

definition new_installment :: "ident \<Rightarrow> day \<Rightarrow> int \<Rightarrow> coverage_book \<Rightarrow> coverage_book" where
  "new_installment purchase due amount b =
     take_id (b\<lparr>installments := installments b @ [\<lparr>inst_id = fresh_id b, inst_purchase = purchase, inst_due_date = due,
       inst_amount = amount, inst_status = InstallmentScheduled, paid_to_merchant_at = None\<rparr>]\<rparr>)"

text \<open>What other modules own: purchases, contracts, evidence files and links with Core.\<close>

definition surroundings_change :: "coverage_book \<Rightarrow> coverage_book \<Rightarrow> bool" where
  "surroundings_change b b' = (b' = b\<lparr>purchases := purchases b', contract_versions := contract_versions b',
     evidence_files := evidence_files b', core_links := core_links b'\<rparr>)"

inductive coverage_step :: "bool \<Rightarrow> coverage_book \<Rightarrow> coverage_book \<Rightarrow> bool" for strict :: bool where
  originate: "coverage_step strict b (new_installment purchase due amount b)"
| surroundings: "surroundings_change b b' \<Longrightarrow> coverage_step strict b b'"
| schedule: "schedule_coverage i date actor today b = Inr (v1, b') \<Longrightarrow> coverage_step strict b b'"
| cancel: "cancel_payable i actor b = Inr (v2, b') \<Longrightarrow> coverage_step strict b b'"
| register: "mark_payable_paid i d actor now b = Inr (v3, b') \<Longrightarrow> coverage_step strict b b'"
| approve: "approve_payable_settlement i actor now b = Inr (v4, b') \<Longrightarrow> coverage_step strict b b'"
| reject: "reject_payable_settlement i actor now b = Inr (v5, b') \<Longrightarrow> coverage_step strict b b'"
| recover: "apply_recovery_payment i ref amount currency user b = Inr (v6, b') \<Longrightarrow> 0 < amount \<Longrightarrow> coverage_step strict b b'"
| reverse: "reverse_recovery_movement i j ref actor b = Inr (v7, b') \<Longrightarrow> coverage_step strict b b'"
| resolve: "resolve_review_item i action chosen actor now today b = Inr (v8, b') \<Longrightarrow> coverage_step strict b b'"
| overdue: "sweep corte hours now b = (v9, b') \<Longrightarrow> coverage_step strict b b'"
| core: "0 < cc_amount e \<Longrightarrow> (strict \<longrightarrow> claim_consistent b e) \<Longrightarrow> apply_core_event e now today b = (v10, b') \<Longrightarrow> coverage_step strict b b'"

definition empty_coverage :: coverage_book where
  "empty_coverage = \<lparr>installments = [], purchases = [], contract_versions = [], notices = [], payables = [],
     settlements = [], recoveries = [], movements = [], reviews = [], evidence_files = [], core_links = [],
     core_exceptions = [], coverage_events = [], coverage_actions = [], coverage_sequence = 0\<rparr>"

inductive coverage_reachable :: "bool \<Rightarrow> coverage_book \<Rightarrow> bool" for strict :: bool where
  start: "coverage_reachable strict empty_coverage"
| step: "coverage_reachable strict b \<Longrightarrow> coverage_step strict b b' \<Longrightarrow> coverage_reachable strict b'"

lemma empty_coverage_ok: "coverage_ok strict empty_coverage"
  by (simp add: coverage_ok_def keys_ok_def keyed_def ids_below_def empty_coverage_def)

lemma new_installment_ok:
  assumes ok: "coverage_ok strict b"
  shows "coverage_ok strict (new_installment purchase due amount b)" (is "coverage_ok strict ?b")
proof -
  note keys = coverage_ok_keyed [OF ok]
  let ?x = "\<lparr>inst_id = fresh_id b, inst_purchase = purchase, inst_due_date = due,
       inst_amount = amount, inst_status = InstallmentScheduled, paid_to_merchant_at = None\<rparr>"
  have b: "installments ?b = installments b @ [?x]" "notices ?b = notices b" "payables ?b = payables b"
    "settlements ?b = settlements b" "recoveries ?b = recoveries b" "movements ?b = movements b" "reviews ?b = reviews b"
    "coverage_sequence ?b = Suc (coverage_sequence b)"
    by (simp_all add: new_installment_def take_id_def)
  show ?thesis
  proof (rule coverage_okI, unfold b)
    show "keys_ok ?b"
      using keys(1-7) by (auto simp: keys_ok_def b fresh_id_def intro: keyed_append keyed_mono movement_ok_mono [OF keys(8)])
    show "notice_ok (inst_id ` set (installments b @ [?x])) n" if "n \<in> set (notices b)" for n
      using coverage_okD(2) [OF ok that] by (auto simp: notice_ok_def)
    show "payable_ok strict (installments b @ [?x]) (notices b) (payables b) p" if "p \<in> set (payables b)" "live p" for p
      using coverage_okD(3) [OF ok that] by (auto simp: payable_ok_def)
    show "covered_ok (payables b) i" if "i \<in> set (installments b @ [?x])" for i
      using that coverage_okD(4) [OF ok] by (auto simp: covered_ok_def)
  qed (use coverage_okD [OF ok] in auto)
qed

lemma coverage_step_ok: "coverage_step strict b b' \<Longrightarrow> coverage_ok strict b \<Longrightarrow> coverage_ok strict b'"
proof (induction rule: coverage_step.induct)
  case (surroundings b b')
  then show ?case
    unfolding surroundings_change_def
    by (elim ssubst) (rule coverage_ok_frame [OF surroundings(2)], use coverage_ok_keyed(7) [OF surroundings(2)] in simp_all)
next
  case (core e b now today v b')
  then show ?case using core_event_ok [OF core(4) _ core(1), of now today] by auto
qed (fact new_installment_ok schedule_ok [rotated] cancel_ok [rotated] register_ok [rotated] approve_ok [rotated]
  reject_ok [rotated] reverse_ok [rotated] resolve_ok [rotated] sweep_ok [rotated] | rule apply_recovery_ok, assumption+)+

lemma coverage_reachable_ok: "coverage_reachable strict b \<Longrightarrow> coverage_ok strict b"
  by (induction rule: coverage_reachable.induct) (auto intro: empty_coverage_ok coverage_step_ok)

end
