(* ===== verification/CoverageProperties.thy ===== *)
theory CoverageProperties
  imports CoverageSystem
begin

text \<open>
  What the coverage of overdue installments guarantees, over every reachable book: nothing is paid twice, a payment
  has one settlement approved by a second person and one recovery, a recovery stays within what was covered, who is
  eligible, retries, the finality of decisions and the effect of the sweep. A short concrete history supplies the
  witnesses.
\<close>

section \<open>A concrete history\<close>

fun book_after :: "'e + 'v \<times> 'b \<Rightarrow> 'b \<Rightarrow> 'b" where
  "book_after (Inr (v, b')) b = b'"
| "book_after (Inl e) b = b"

lemma book_after_run: "isl r = False \<Longrightarrow> \<exists>v. r = Inr (v, book_after r b)"
  by (cases r) auto

definition demo_opened :: coverage_book where
  "demo_opened = new_installment ''B'' ''2026-01-10'' 5000 (empty_coverage\<lparr>
     purchases := [\<lparr>purchase_id = ''B'', purchase_merchant = ''M'', purchase_consumer = ''C'', purchase_version = ''V'',
       purchase_status = PurchaseConfirmed\<rparr>],
     contract_versions := [\<lparr>version_id = ''V'', version_number = 1, version_contract = Some (''K'', ''ACTIVE'')\<rparr>],
     evidence_files := [(''F'', ''ACTIVE'')]\<rparr>)"

definition demo_transfer :: declared_settlement where
  "demo_transfer = \<lparr>declared_reference = ''T1'', declared_amount = 5000, declared_currency = ''BOB'',
     declared_beneficiary = ''M'', declared_paid_at = 7, declared_evidence = ''F''\<rparr>"

definition demo_scheduled :: coverage_book where
  "demo_scheduled = book_after (schedule_coverage ''0'' ''2026-01-12'' ''ana'' ''2026-01-11'' demo_opened) demo_opened"

definition demo_settled :: coverage_book where
  "demo_settled = book_after (mark_payable_paid ''1'' demo_transfer ''ana'' 9 demo_scheduled) demo_scheduled"

definition demo_approved :: coverage_book where
  "demo_approved = book_after (approve_payable_settlement ''1'' ''eva'' 9 demo_settled) demo_settled"

definition demo_collected :: coverage_book where
  "demo_collected = book_after (apply_recovery_payment ''3'' ''R1'' 2000 ''BOB'' None demo_approved) demo_approved"

lemmas demo_defs = demo_opened_def demo_scheduled_def demo_settled_def demo_approved_def demo_collected_def demo_transfer_def
  empty_coverage_def

lemma demo_runs:
  "isl (schedule_coverage ''0'' ''2026-01-12'' ''ana'' ''2026-01-11'' demo_opened) = False"
  "isl (mark_payable_paid ''1'' demo_transfer ''ana'' 9 demo_scheduled) = False"
  "isl (approve_payable_settlement ''1'' ''eva'' 9 demo_settled) = False"
  "isl (apply_recovery_payment ''3'' ''R1'' 2000 ''BOB'' None demo_approved) = False"
  by code_simp+

lemma demo_coverage_reachable:
  "coverage_reachable strict demo_opened" "coverage_reachable strict demo_scheduled" "coverage_reachable strict demo_settled"
  "coverage_reachable strict demo_approved" "coverage_reachable strict demo_collected"
proof -
  show r0: "coverage_reachable strict demo_opened" unfolding demo_opened_def
    by (rule coverage_reachable.step [OF coverage_reachable.step [OF coverage_reachable.start coverage_step.surroundings] coverage_step.originate])
      (simp add: surroundings_change_def)
  obtain v1 where "schedule_coverage ''0'' ''2026-01-12'' ''ana'' ''2026-01-11'' demo_opened = Inr (v1, demo_scheduled)"
    using book_after_run [OF demo_runs(1)] unfolding demo_scheduled_def by blast
  then show r1: "coverage_reachable strict demo_scheduled"
    by (intro coverage_reachable.step [OF r0 coverage_step.schedule])
  obtain v2 where "mark_payable_paid ''1'' demo_transfer ''ana'' 9 demo_scheduled = Inr (v2, demo_settled)"
    using book_after_run [OF demo_runs(2)] unfolding demo_settled_def by blast
  then show r2: "coverage_reachable strict demo_settled"
    by (intro coverage_reachable.step [OF r1 coverage_step.register])
  obtain v3 where "approve_payable_settlement ''1'' ''eva'' 9 demo_settled = Inr (v3, demo_approved)"
    using book_after_run [OF demo_runs(3)] unfolding demo_approved_def by blast
  then show r3: "coverage_reachable strict demo_approved"
    by (intro coverage_reachable.step [OF r2 coverage_step.approve])
  obtain v4 where "apply_recovery_payment ''3'' ''R1'' 2000 ''BOB'' None demo_approved = Inr (v4, demo_collected)"
    using book_after_run [OF demo_runs(4)] unfolding demo_collected_def by blast
  then show "coverage_reachable strict demo_collected"
    by (rule coverage_reachable.step [OF r3 coverage_step.recover]) simp
qed

lemma demo_rows:
  "hd (payables demo_collected) \<in> set (payables demo_collected) \<and> payable_status (hd (payables demo_collected)) = PayablePaid
   \<and> hd (recoveries demo_collected) \<in> set (recoveries demo_collected)"
  by code_simp

section \<open>No double benefit\<close>

text \<open>C9: in every reachable book a payable that is not cancelled belongs to one installment, is the only such payable
  of it and is positive. Together with the payments the merchant confirmed for that installment it never exceeds its
  amount, so that the company never covers what the consumer already paid, provided that the history is strict: each
  event of Core decides the notice of the very installment it names. The code does not check this (it looks a notice up by
  its claim alone); without it the bound fails.\<close>

theorem coverage_never_pays_twice:
  assumes "coverage_reachable strict b" "p \<in> set (payables b)" "payable_status p \<noteq> PayableCancelled"
  shows "0 < payable_amount p
    \<and> (\<exists>inst \<in> set (installments b). inst_id inst = payable_installment p
          \<and> (strict \<longrightarrow> confirmed_minor_of b (inst_id inst) + payable_amount p \<le> inst_amount inst))
    \<and> filter (\<lambda>q. payable_installment q = payable_installment p \<and> payable_status q \<noteq> PayableCancelled) (payables b) = [p]"
proof -
  note ok = coverage_reachable_ok [OF assms(1)]
  have p_ok: "payable_ok strict (installments b) (notices b) (payables b) p" using coverage_okD(3) [OF ok assms(2)] assms(3) by (simp add: live_def)
  have "filter (\<lambda>q. payable_installment q = payable_installment p \<and> payable_status q \<noteq> PayableCancelled) (payables b) = [p]"
  proof (rule filter_unique [where key = payable_id])
    show "distinct (map payable_id (payables b))" using coverage_ok_keyed(3) [OF ok] by (simp add: keyed_def)
    show "payable_id q = payable_id p"
      if "q \<in> set (payables b)" "payable_installment q = payable_installment p \<and> payable_status q \<noteq> PayableCancelled" for q
      using p_ok that unfolding payable_ok_def live_def by blast
  qed (use assms in simp_all)
  moreover have "0 < payable_amount p" "\<exists>inst \<in> set (installments b). inst_id inst = payable_installment p
      \<and> (strict \<longrightarrow> confirmed_minor_of b (inst_id inst) + payable_amount p \<le> inst_amount inst)"
    using p_ok unfolding payable_ok_def confirmed_minor_of_def confirmed_for_def notices_of_def by blast+
  ultimately show ?thesis by blast
qed

lemma coverage_never_pays_twice_witness:
  "\<exists>inst \<in> set (installments demo_collected). inst_id inst = payable_installment (hd (payables demo_collected))
    \<and> confirmed_minor_of demo_collected (inst_id inst) + payable_amount (hd (payables demo_collected)) \<le> inst_amount inst"
  using coverage_never_pays_twice [OF demo_coverage_reachable(5) [of True], of "hd (payables demo_collected)"] demo_rows by auto

lemma one_standing_settlement:
  "settlement_ok ps ss s \<Longrightarrow> standing s \<Longrightarrow> t \<in> set ss \<Longrightarrow> standing t \<Longrightarrow> settlement_payable t = settlement_payable s
   \<Longrightarrow> settlement_id t = settlement_id s"
  unfolding settlement_ok_def by blast

lemma one_recovery:
  "recovery_ok ps rs r \<Longrightarrow> q \<in> set rs \<Longrightarrow> recovery_payable q = recovery_payable r \<Longrightarrow> recovery_id q = recovery_id r"
  unfolding recovery_ok_def by blast

text \<open>C10: a paid payable has exactly one settlement that was not rejected; it is confirmed, carries the payable's
  amount and was approved by someone other than who registered it. It has exactly one recovery, for the same amount.\<close>

theorem paid_payable_has_one_settlement:
  assumes "coverage_reachable strict b" "p \<in> set (payables b)" "payable_status p = PayablePaid"
  shows "(\<exists>s u. filter (\<lambda>s. settlement_payable s = payable_id p \<and> settlement_status s \<noteq> SettlementRejected) (settlements b) = [s]
        \<and> settlement_status s = SettlementConfirmed \<and> settlement_amount s = payable_amount p
        \<and> settlement_decided_by s = Some u \<and> u \<noteq> registered_by s)
    \<and> (\<exists>r. filter (\<lambda>r. recovery_payable r = payable_id p) (recoveries b) = [r] \<and> amount_covered r = payable_amount p)"
proof -
  note ok = coverage_reachable_ok [OF assms(1)]
  note keys = coverage_ok_keyed [OF ok]
  from coverage_okD(6) [OF ok assms(2)] assms(3) obtain s r where
    s: "s \<in> set (settlements b)" "settlement_payable s = payable_id p" "settlement_status s = SettlementConfirmed"
    and r: "r \<in> set (recoveries b)" "recovery_payable r = payable_id p"
    by (auto simp: paid_ok_def)
  have same: "q = p" if "q \<in> set (payables b)" "payable_id q = payable_id p" for q
    using keyed_unique [OF keys(3) that(1) assms(2) that(2)] .
  have s_ok: "settlement_ok (payables b) (settlements b) s" and r_ok: "recovery_ok (payables b) (recoveries b) r"
    using coverage_okD(5) [OF ok s(1)] coverage_okD(7) [OF ok r(1)] by auto
  have "filter (\<lambda>s. settlement_payable s = payable_id p \<and> settlement_status s \<noteq> SettlementRejected) (settlements b) = [s]"
  proof (rule filter_unique [where key = settlement_id])
    show "distinct (map settlement_id (settlements b))" using keys(4) by (simp add: keyed_def)
    show "settlement_id t = settlement_id s"
      if "t \<in> set (settlements b)" "settlement_payable t = payable_id p \<and> settlement_status t \<noteq> SettlementRejected" for t
      by (rule one_standing_settlement [OF s_ok _ that(1)]) (use that(2) s in \<open>simp_all add: standing_def\<close>)
  qed (use s in simp_all)
  moreover have "settlement_amount s = payable_amount p" "\<exists>u. settlement_decided_by s = Some u \<and> u \<noteq> registered_by s"
  proof -
    have "standing s" "settlement_status s \<noteq> SettlementPending" using s by (simp_all add: standing_def)
    then obtain q where "q \<in> set (payables b)" "payable_id q = payable_id p" "settlement_amount s = payable_amount q"
      and "\<exists>u. settlement_decided_by s = Some u \<and> u \<noteq> registered_by s"
      using s_ok s(2) unfolding settlement_ok_def by metis
    with same show "settlement_amount s = payable_amount p" "\<exists>u. settlement_decided_by s = Some u \<and> u \<noteq> registered_by s" by auto
  qed
  moreover have "filter (\<lambda>r. recovery_payable r = payable_id p) (recoveries b) = [r]"
  proof (rule filter_unique [where key = recovery_id])
    show "distinct (map recovery_id (recoveries b))" using keys(5) by (simp add: keyed_def)
    show "recovery_id q = recovery_id r" if "q \<in> set (recoveries b)" "recovery_payable q = payable_id p" for q
      by (rule one_recovery [OF r_ok that(1)]) (simp add: that(2) r(2))
  qed (use r in simp_all)
  moreover have "amount_covered r = payable_amount p" using r_ok r same unfolding recovery_ok_def by metis
  ultimately show ?thesis using s(3) by blast
qed

lemma paid_payable_has_one_settlement_witness:
  "\<exists>s. filter (\<lambda>s. settlement_payable s = payable_id (hd (payables demo_collected)) \<and> settlement_status s \<noteq> SettlementRejected)
     (settlements demo_collected) = [s]"
  using paid_payable_has_one_settlement [OF demo_coverage_reachable(5), of "hd (payables demo_collected)"] demo_rows by blast

lemma reverse_recovery_negative:
  assumes "reverse_recovery_movement i j ref actor b = Inl RECOVERY_NEGATIVE"
  obtains r original where "find_by recovery_id i (recoveries b) = Some r" "original \<in> set (movements b)"
    "movement_type original = Payment" "\<not> reversed (movements b) (movement_id original)"
    "movement_recovery original = i" "amount_recovered r < movement_amount original"
proof -
  from assms obtain r where r: "find_by recovery_id i (recoveries b) = Some r"
    by (auto simp: reverse_recovery_movement_def lock_recovery_def and_then_eq_Inl)
  note r1 = assms [unfolded reverse_recovery_movement_def lock_recovery_def r from_option_simps and_then_Inr]
  obtain original where o: "find (\<lambda>m. movement_id m = j \<and> movement_recovery m = recovery_id r) (movements b) = Some original"
    using r1 by (cases "find (\<lambda>m. movement_id m = j \<and> movement_recovery m = recovery_id r) (movements b)") auto
  note r2 = r1 [unfolded o option.case]
  have n: "find (\<lambda>m. reverses_movement m = Some (movement_id original)) (movements b) = None"
    using r2 by (cases "find (\<lambda>m. reverses_movement m = Some (movement_id original)) (movements b)") (auto split: if_splits)
  have "movement_type original = Payment \<and> amount_recovered r < movement_amount original"
    using r2 [unfolded n option.case] by (simp add: Let_def split: if_splits)
  then show thesis
  proof (intro that [OF r])
    show "original \<in> set (movements b)" "movement_recovery original = i"
      using o find_by_Some [OF r] by (auto simp: find_Some_iff)
    show "\<not> reversed (movements b) (movement_id original)" using n by (simp add: reversed_def find_None_iff)
  qed simp_all
qed

text \<open>C11: what was recovered is the sum of the payments nobody reversed; it stays between zero and the amount covered,
  the status tells which, and reversing a payment never fails because the balance would be negative.\<close>

theorem recovery_stays_in_bounds:
  assumes "coverage_reachable strict b" "r \<in> set (recoveries b)"
  shows "amount_recovered r = collected (movements b) (recovery_id r)
    \<and> 0 \<le> amount_recovered r \<and> amount_recovered r \<le> amount_covered r
    \<and> (recovery_status r = Recovered \<longleftrightarrow> amount_recovered r = amount_covered r)
    \<and> reverse_recovery_movement (recovery_id r) j ref actor b \<noteq> Inl RECOVERY_NEGATIVE"
proof -
  note ok = coverage_reachable_ok [OF assms(1)]
  note keys = coverage_ok_keyed [OF ok]
  have pos: "\<forall>m \<in> set (movements b). 0 < movement_amount m" using keys(8) by (auto simp: movement_ok_def)
  have bal: "balance_ok (movements b) r" using coverage_okD(8) [OF ok assms(2)] .
  have "0 < amount_covered r"
  proof -
    from coverage_okD(7) [OF ok assms(2)] obtain p where p: "p \<in> set (payables b)" "payable_status p = PayablePaid"
        "amount_covered r = payable_amount p"
      by (auto simp: recovery_ok_def)
    then have "0 < payable_amount p" using coverage_okD(3) [OF ok p(1)] by (simp add: payable_ok_def live_def)
    with p show ?thesis by simp
  qed
  moreover have "0 \<le> collected (movements b) (recovery_id r)"
    unfolding collected_def by (rule sum_list_nonneg) (use pos in \<open>auto intro: less_imp_le\<close>)
  moreover have "reverse_recovery_movement (recovery_id r) j ref actor b \<noteq> Inl RECOVERY_NEGATIVE"
  proof
    assume "reverse_recovery_movement (recovery_id r) j ref actor b = Inl RECOVERY_NEGATIVE"
    then obtain q m where q: "find_by recovery_id (recovery_id r) (recoveries b) = Some q" "amount_recovered q < movement_amount m"
      and m: "m \<in> set (movements b)" "movement_type m = Payment" "\<not> reversed (movements b) (movement_id m)"
        "movement_recovery m = recovery_id r"
      by (rule reverse_recovery_negative)
    have "q = r" using find_by_Some [OF q(1)] keyed_unique [OF keys(5) _ assms(2)] by auto
    then show False using collected_nonneg_part [OF pos m] q(2) bal by (simp add: balance_ok_def)
  qed
  ultimately show ?thesis using bal by (auto simp: balance_ok_def recovery_status_for_def)
qed

lemma recovery_stays_in_bounds_witness:
  "amount_recovered (hd (recoveries demo_collected)) \<le> amount_covered (hd (recoveries demo_collected))"
  using recovery_stays_in_bounds [OF demo_coverage_reachable(5), of "hd (recoveries demo_collected)"] demo_rows by blast

text \<open>C12: a coverage is scheduled exactly for an installment of a confirmed purchase that is past due on the business
  date, is waiting or overdue, has no live payable, no undecided notice and an active contract; its amount is what the
  confirmed payments leave of the installment, and it is payable to the merchant of the purchase.\<close>

theorem schedule_coverage_iff:
  "(\<exists>b'. schedule_coverage i date actor today b = Inr (ScheduledCoverage p, b')) \<longleftrightarrow>
   (\<exists>inst purchase contract version number evidence.
      find_by inst_id i (installments b) = Some inst \<and> find_by purchase_id (inst_purchase inst) (purchases b) = Some purchase
      \<and> purchase_status purchase = PurchaseConfirmed \<and> inst_status inst \<in> {InstallmentScheduled, InstallmentOverdue}
      \<and> inst_due_date inst < today \<and> live_payable b i = None \<and> pending_notices b i = []
      \<and> confirmed_minor_of b i < inst_amount inst
      \<and> contract_of_version b (purchase_version purchase) = Some (contract, ''ACTIVE'', version, number)
      \<and> evidence = coverage_evidence_of (eligibility_of b inst purchase today)
      \<and> p = new_payable (fresh_id b) inst purchase (inst_amount inst - confirmed_minor_of b i) evidence date actor)"
  (is "?L = ?R")
proof -
  have eligible: "evaluate_coverage_eligibility (eligibility_of b inst purchase today) = Eligible amount evidence \<longleftrightarrow>
      purchase_status purchase = PurchaseConfirmed \<and> inst_status inst \<in> {InstallmentScheduled, InstallmentOverdue}
      \<and> inst_due_date inst < today \<and> live_payable b (inst_id inst) = None \<and> pending_notices b (inst_id inst) = []
      \<and> confirmed_minor_of b (inst_id inst) < inst_amount inst
      \<and> (\<exists>contract version number. contract_of_version b (purchase_version purchase) = Some (contract, ''ACTIVE'', version, number))
      \<and> evidence = coverage_evidence_of (eligibility_of b inst purchase today)
      \<and> amount = inst_amount inst - confirmed_minor_of b (inst_id inst)" for inst purchase amount evidence
    by (cases "inst_status inst"; cases "purchase_status purchase")
      (auto simp: evaluate_coverage_eligibility_def Let_def eligibility_of_def is_past_due_def pending_notices_def
        confirmed_minor_of_def split: option.splits)
  show ?thesis
  proof
    assume ?L
    then obtain b' where "schedule_coverage i date actor today b = Inr (ScheduledCoverage p, b')" ..
    then show ?R
    proof (cases rule: schedule_cases)
      case (scheduled inst purchase amount evidence b1 q)
      have "inst_id inst = i" "fresh_id b1 = fresh_id b"
        using find_by_Some [OF scheduled(1)] scheduled(4) by (auto simp: fresh_id_def update_installment_def)
      with scheduled show ?R unfolding eligible by auto
    qed simp
  next
    assume ?R
    then obtain inst purchase contract version number evidence where r: "find_by inst_id i (installments b) = Some inst"
        "find_by purchase_id (inst_purchase inst) (purchases b) = Some purchase"
        "purchase_status purchase = PurchaseConfirmed" "inst_status inst \<in> {InstallmentScheduled, InstallmentOverdue}"
        "inst_due_date inst < today" "live_payable b i = None" "pending_notices b i = []" "confirmed_minor_of b i < inst_amount inst"
        "contract_of_version b (purchase_version purchase) = Some (contract, ''ACTIVE'', version, number)"
        "evidence = coverage_evidence_of (eligibility_of b inst purchase today)"
        "p = new_payable (fresh_id b) inst purchase (inst_amount inst - confirmed_minor_of b i) evidence date actor"
      by blast
    have "inst_id inst = i" using find_by_Some [OF r(1)] by simp
    with r have el: "evaluate_coverage_eligibility (eligibility_of b inst purchase today)
        = Eligible (inst_amount inst - confirmed_minor_of b i) evidence"
      unfolding eligible by simp
    have "fresh_id (if c then update_installment j f b else b) = fresh_id b" for c j f by (simp add: fresh_id_def update_installment_def)
    then show ?L by (simp add: schedule_coverage_def Let_def r(1,2,11) el)
  qed
qed

section \<open>Retries\<close>

lemma cancel_retry:
  assumes "cancel_payable i actor b = Inr (v, b')"
  shows "cancel_payable i actor' b' = Inr (True, b')"
proof -
  from assms obtain p where p: "find_by payable_id i (payables b) = Some p"
    by (cases "find_by payable_id i (payables b)") (simp_all add: cancel_payable_def lock_payable_def)
  then have i: "payable_id p = i" using find_by_Some [OF p] by simp
  show ?thesis
  proof (cases "payable_status p = PayableCancelled")
    case True
    with assms p show ?thesis by (simp add: cancel_payable_def lock_payable_def)
  next
    case False
    with assms p i have "payables b' = update_by payable_id i
        (\<lambda>r. r\<lparr>payable_status := PayableCancelled, payable_cancelled_by := Some actor\<rparr>) (payables b)"
      by (auto simp: cancel_payable_def lock_payable_def update_payable_def split: if_splits)
    with p have "find_by payable_id i (payables b') = Some (p\<lparr>payable_status := PayableCancelled, payable_cancelled_by := Some actor\<rparr>)"
      by (simp add: find_by_update_by)
    then show ?thesis by (simp add: cancel_payable_def lock_payable_def)
  qed
qed

lemma register_retry:
  assumes "mark_payable_paid i d actor now b = Inr (v, b')"
  shows "\<exists>v. mark_payable_paid i d actor' now' b' = Inr (v, b') \<and> sr_replayed v"
  using assms
proof (cases rule: register_cases)
  case (replay p s)
  then show ?thesis using find_by_Some [OF replay(1)] by (simp add: mark_payable_paid_def lock_payable_def settlement_result_of_def)
next
  case (registered p s)
  have "payables b' = payables b" "settlements b' = settlements b @ [s]"
    by (simp_all add: registered(8) take_id_def record_settlement_action_def)
  moreover from this have "find_live_settlement b' i = Some s" "is_same_settlement s d"
    using registered(4) by (simp_all add: find_live_settlement_def find_append registered(7) is_same_settlement_def)
  ultimately show ?thesis
    using registered(1) find_by_Some [OF registered(1)] by (simp add: mark_payable_paid_def lock_payable_def settlement_result_of_def)
qed

lemma approve_retry:
  assumes ok: "coverage_ok strict b" and run: "approve_payable_settlement i actor now b = Inr (v, b')"
  shows "\<exists>v. approve_payable_settlement i actor' now' b' = Inr (v, b') \<and> sr_replayed v"
  using run
proof (cases rule: approve_cases)
  case (replay p s)
  then show ?thesis using find_by_Some [OF replay(1)] by (simp add: approve_payable_settlement_def lock_payable_def settlement_result_of_def)
next
  case (approved p s inst purchase r)
  note ok' = approve_ok [OF ok run]
  let ?s = "decided_settlement SettlementConfirmed actor now s"
  have s: "s \<in> set (settlements b)" "settlement_payable s = i" using find_live_settlement_Some [OF approved(2)] by auto
  then have s': "?s \<in> set (settlements b')" "settlement_payable ?s = i" "settlement_status ?s = SettlementConfirmed" "standing ?s"
    using approved(10) by (auto simp: set_update_by decided_settlement_def standing_def intro: bexI [of _ s])
  have "find_live_settlement b' i = Some ?s"
    unfolding find_live_settlement_def
  proof (rule find_unique [OF s'(1)])
    fix t assume t: "t \<in> set (settlements b')" "settlement_payable t = i \<and> settlement_status t \<noteq> SettlementRejected"
    show "t = ?s"
      using one_standing_settlement [OF coverage_okD(5) [OF ok' s'(1)] s'(4) t(1)] t(2) s'(2)
      by (intro keyed_unique [OF coverage_ok_keyed(4) [OF ok'] t(1) s'(1)]) (simp add: standing_def)
  qed (use s' in \<open>simp_all add: standing_def\<close>)
  moreover have "find_by payable_id i (payables b') = Some (paid_payable s p)" "payable_id (paid_payable s p) = i"
    using approved(1,11) find_by_Some [OF approved(1)] by (simp_all add: find_by_update_by paid_payable_def)
  ultimately show ?thesis using s'(3) by (simp add: approve_payable_settlement_def lock_payable_def settlement_result_of_def)
qed

lemma recovery_retry:
  assumes "apply_recovery_payment i ref amount currency actor b = Inr ((r, m, repeated), b')"
  shows "apply_recovery_payment i ref amount currency actor' b' = Inr ((r, m, True), b')"
  using assms
proof (cases rule: apply_recovery_cases)
  case (replay r' m')
  then show ?thesis using find_by_Some [OF replay(1)] by (simp add: apply_recovery_payment_def lock_recovery_def)
next
  case (applied r' m')
  have "find_by recovery_id i (recoveries b') = Some r" "recovery_id r = i"
    using applied(1,7) find_by_Some [OF applied(1)] by (simp_all add: applied(15) find_by_update_by recovered_to_def)
  moreover have "with_reference b' ref = Some m" "is_same_recovery_payment m i amount currency"
    using applied(2,6,7) by (simp_all add: with_reference_def applied(13) find_append is_same_recovery_payment_def)
  ultimately show ?thesis by (simp add: apply_recovery_payment_def lock_recovery_def)
qed

lemma reverse_retry:
  assumes ok: "coverage_ok strict b" and run: "reverse_recovery_movement i j ref actor b = Inr ((r, m, repeated), b')"
  shows "reverse_recovery_movement i j ref actor b' = Inr ((r, m, True), b')"
  using run
proof (cases rule: reverse_cases)
  case (replay r' original previous)
  with run show ?thesis by simp
next
  case (applied r' original m')
  note keys = coverage_ok_keyed(6) [OF reverse_ok [OF ok run]]
  have "find_by recovery_id i (recoveries b') = Some r" "recovery_id r = i"
    using applied(1,10) find_by_Some [OF applied(1)] by (simp_all add: applied(18) find_by_update_by recovered_to_def)
  moreover have "find (\<lambda>m. movement_id m = j \<and> movement_recovery m = i) (movements b') = Some original"
    using applied(2-4) by (intro find_unique) (auto simp: applied(16) intro: keyed_unique [OF keys])
  moreover have "find (\<lambda>m. reverses_movement m = Some j) (movements b') = Some m"
  proof -
    have "find (\<lambda>m. reverses_movement m = Some j) (movements b) = None"
      using applied(6) by (simp add: reversed_def find_None_iff)
    then show ?thesis using applied(9,10) by (simp add: applied(16) find_append)
  qed
  ultimately show ?thesis using applied(3,5,9,10) by (simp add: reverse_recovery_movement_def lock_recovery_def)
qed

text \<open>C13: every write of the coverage can be retried: repeating a cancellation, a settlement, its approval, a collection or
  a reversal that went through answers as a repetition and changes nothing, whatever the time of the retry.\<close>

theorem retries_change_nothing:
  assumes "coverage_reachable strict b"
  shows "(cancel_payable i actor b = Inr (w, b') \<longrightarrow> cancel_payable i actor b' = Inr (True, b'))
    \<and> (mark_payable_paid i d actor now b = Inr (v, b') \<longrightarrow>
        (\<exists>v. mark_payable_paid i d actor now' b' = Inr (v, b') \<and> sr_replayed v))
    \<and> (approve_payable_settlement i actor now b = Inr (v, b') \<longrightarrow>
        (\<exists>v. approve_payable_settlement i actor now' b' = Inr (v, b') \<and> sr_replayed v))
    \<and> (apply_recovery_payment i ref amount currency user b = Inr ((r, m, repeated), b') \<longrightarrow>
        apply_recovery_payment i ref amount currency user b' = Inr ((r, m, True), b'))
    \<and> (reverse_recovery_movement i j ref actor b = Inr ((r, m, repeated), b') \<longrightarrow>
        reverse_recovery_movement i j ref actor b' = Inr ((r, m, True), b'))"
  by (intro conjI impI)
    (erule cancel_retry register_retry recovery_retry approve_retry [OF coverage_reachable_ok [OF assms]]
      reverse_retry [OF coverage_reachable_ok [OF assms]])+

lemma retries_change_nothing_witness:
  "\<exists>v. approve_payable_settlement ''1'' ''eva'' 99 demo_approved = Inr (v, demo_approved) \<and> sr_replayed v"
proof -
  obtain v where "approve_payable_settlement ''1'' ''eva'' 9 demo_settled = Inr (v, demo_approved)"
    using book_after_run [OF demo_runs(3)] unfolding demo_approved_def by blast
  then show ?thesis using retries_change_nothing [OF demo_coverage_reachable(3)] by blast
qed

section \<open>Decisions are final\<close>

definition history_kept :: "coverage_book \<Rightarrow> coverage_book \<Rightarrow> bool" where
  "history_kept b b' =
     ((\<forall>n \<in> set (notices b). notice_status n \<noteq> NoticeReported \<longrightarrow> n \<in> set (notices b'))
      \<and> (\<forall>s \<in> set (settlements b). settlement_status s \<noteq> SettlementPending \<longrightarrow> s \<in> set (settlements b'))
      \<and> (\<forall>p \<in> set (payables b). payable_status p = PayablePaid \<or> payable_status p = PayableCancelled \<longrightarrow> p \<in> set (payables b'))
      \<and> set (movements b) \<subseteq> set (movements b'))"

lemma history_keptI:
  assumes "\<And>n. n \<in> set (notices b) \<Longrightarrow> notice_status n \<noteq> NoticeReported \<Longrightarrow> n \<in> set (notices b')"
    "\<And>s. s \<in> set (settlements b) \<Longrightarrow> settlement_status s \<noteq> SettlementPending \<Longrightarrow> s \<in> set (settlements b')"
    "\<And>p. p \<in> set (payables b) \<Longrightarrow> payable_status p = PayablePaid \<or> payable_status p = PayableCancelled \<Longrightarrow> p \<in> set (payables b')"
    "set (movements b) \<subseteq> set (movements b')"
  shows "history_kept b b'"
  using assms by (simp add: history_kept_def)

lemma history_kept_same:
  assumes "notices b' = notices b" "settlements b' = settlements b" "payables b' = payables b @ ps" "movements b' = movements b @ ms"
  shows "history_kept b b'"
  using assms by (simp add: history_kept_def)

lemma history_kept_trans: "history_kept a b \<Longrightarrow> history_kept b c \<Longrightarrow> history_kept a c"
  by (auto simp: history_kept_def)

lemma update_by_keeps:
  assumes "keyed k key rows" "x \<in> set rows" "\<not> P x" "r \<in> set rows" "P r"
  shows "r \<in> set (update_by key (key x) f rows)"
proof -
  have "key r \<noteq> key x" using keyed_unique [OF assms(1,4,2)] assms(3,5) by auto
  with assms(4) show ?thesis by (auto simp: set_update_by intro: bexI [of _ r])
qed

lemma open_review_item_kept: "open_review_item i reason user b = (r, b') \<Longrightarrow> history_kept b b'"
  using open_review_item_frame by (intro history_kept_same [of _ _ "[]" "[]"]) auto

lemma schedule_kept:
  assumes "schedule_coverage i date actor today b = Inr (v, b')"
  shows "history_kept b b'"
  using assms
proof (cases rule: schedule_cases)
  case (review reason r)
  then show ?thesis using open_review_item_kept by blast
next
  case (scheduled inst purchase amount evidence b1 p)
  then show ?thesis by (intro history_kept_same [of _ _ "[p]" "[]"]) auto
qed

lemma cancel_kept:
  assumes ok: "coverage_ok strict b" and run: "cancel_payable i actor b = Inr (v, b')"
  shows "history_kept b b'"
proof -
  from run obtain p where f: "find_by payable_id i (payables b) = Some p"
    by (cases "find_by payable_id i (payables b)") (simp_all add: cancel_payable_def lock_payable_def)
  from find_by_Some [OF f] have p: "p \<in> set (payables b)" "payable_id p = i" by auto
  show ?thesis
  proof (cases "payable_status p = PayablePaid \<or> payable_status p = PayableCancelled")
    case True
    with run f have "b' = b" by (auto simp: cancel_payable_def lock_payable_def)
    then show ?thesis by (simp add: history_kept_def)
  next
    case False
    with run f p obtain g where "b' = b\<lparr>payables := update_by payable_id (payable_id p) g (payables b)\<rparr>"
      by (auto simp: cancel_payable_def lock_payable_def update_payable_def split: if_splits)
    then show ?thesis
      using update_by_keeps [OF coverage_ok_keyed(3) [OF ok] p(1), of "\<lambda>p. payable_status p = PayablePaid \<or> payable_status p = PayableCancelled" _ g] False
      by (simp add: history_kept_def)
  qed
qed

lemma register_kept:
  assumes "mark_payable_paid i d actor now b = Inr (v, b')"
  shows "history_kept b b'"
  using assms
  by (cases rule: register_cases) (simp_all add: history_kept_def take_id_def record_settlement_action_def)

lemma approve_kept:
  assumes ok: "coverage_ok strict b" and run: "approve_payable_settlement i actor now b = Inr (v, b')"
  shows "history_kept b b'"
  using run
proof (cases rule: approve_cases)
  case (replay p s)
  then show ?thesis by (simp add: history_kept_def)
next
  case (approved p s inst purchase r)
  from find_by_Some [OF approved(1)] have p: "p \<in> set (payables b)" "payable_id p = i" by auto
  have s: "s \<in> set (settlements b)" "standing s" using find_live_settlement_Some [OF approved(2)] by simp_all
  then have pending: "settlement_status s = SettlementPending"
    using approved(3) unfolding standing_def by (metis settlement_status.exhaust)
  show ?thesis
  proof (rule history_keptI)
    show "t \<in> set (settlements b')" if "t \<in> set (settlements b)" "settlement_status t \<noteq> SettlementPending" for t
      unfolding approved(10) by (rule update_by_keeps [where P = "\<lambda>t. settlement_status t \<noteq> SettlementPending", OF coverage_ok_keyed(4) [OF ok] s(1) _ that])
        (simp add: pending)
    show "q \<in> set (payables b')" if "q \<in> set (payables b)" "payable_status q = PayablePaid \<or> payable_status q = PayableCancelled" for q
      unfolding approved(11) p(2) [symmetric]
      by (rule update_by_keeps [where P = "\<lambda>q. payable_status q = PayablePaid \<or> payable_status q = PayableCancelled",
          OF coverage_ok_keyed(3) [OF ok] p(1) _ that]) (use approved(5) in auto)
  qed (simp_all add: approved(14,15))
qed

lemma reject_kept:
  assumes ok: "coverage_ok strict b" and run: "reject_payable_settlement i actor now b = Inr (v, b')"
  shows "history_kept b b'"
proof -
  from run obtain s where s: "find_live_settlement b i = Some s" "settlement_status s = SettlementPending"
      and b': "b' = record_settlement_action ''REJECT_PAYABLE_SETTLEMENT'' i (settlement_id s) actor
         (update_settlement (settlement_id s) (decided_settlement SettlementRejected actor now) b)"
    by (rule reject_cases)
  have m: "s \<in> set (settlements b)" using find_live_settlement_Some [OF s(1)] by simp
  show ?thesis
  proof (rule history_keptI)
    show "t \<in> set (settlements b')" if "t \<in> set (settlements b)" "settlement_status t \<noteq> SettlementPending" for t
      using update_by_keeps [where P = "\<lambda>t. settlement_status t \<noteq> SettlementPending", OF coverage_ok_keyed(4) [OF ok] m _ that] s(2)
      by (simp add: b' record_settlement_action_def update_settlement_def)
  qed (simp_all add: b' record_settlement_action_def update_settlement_def)
qed

lemma recovery_kept:
  "apply_recovery_payment i ref amount currency user b = Inr (v, b') \<Longrightarrow> history_kept b b'"
  by (erule apply_recovery_cases) (auto simp: history_kept_def)

lemma reverse_kept:
  "reverse_recovery_movement i j ref actor b = Inr (v, b') \<Longrightarrow> history_kept b b'"
  by (erule reverse_cases) (auto simp: history_kept_def)

lemma decision_kept:
  assumes ok: "coverage_ok strict b" and n: "n \<in> set (notices b)" "notice_status n = NoticeReported"
  shows "history_kept b (snd (apply_notice_decision inst n pending confirming user now today b))" (is "history_kept b ?b")
proof -
  have t: "notices ?b = update_by notice_id (notice_id n) (decided_notice confirming user now) (notices b)"
    "settlements ?b = settlements b" "payables ?b = payables b" "movements ?b = movements b"
    by (simp_all add: apply_notice_decision_def Let_def update_installment_def)
  show ?thesis
  proof (rule history_keptI, unfold t)
    show "m \<in> set (update_by notice_id (notice_id n) (decided_notice confirming user now) (notices b))"
      if "m \<in> set (notices b)" "notice_status m \<noteq> NoticeReported" for m
      by (rule update_by_keeps [where P = "\<lambda>m. notice_status m \<noteq> NoticeReported", OF coverage_ok_keyed(2) [OF ok] n(1) _ that])
        (simp add: n(2))
  qed simp_all
qed

lemma close_items_kept: "history_kept b b' \<Longrightarrow> history_kept b (close_items which resolution user b')"
  by (simp add: close_items_def history_kept_def)

lemma resolve_kept:
  assumes ok: "coverage_ok strict b" and run: "resolve_review_item i action chosen user now today b = Inr (v, b')"
  shows "history_kept b b'"
proof -
  from run obtain item where f1: "find_by review_id i (reviews b) = Some item"
    by (cases "find_by review_id i (reviews b)") (simp_all add: resolve_review_item_def)
  with run obtain inst where f2: "find_by inst_id (review_installment item) (installments b) = Some inst"
    by (cases "find_by inst_id (review_installment item) (installments b)") (simp_all add: resolve_review_item_def)
  note r1 = run [unfolded resolve_review_item_def f1 f2 from_option_simps and_then_Inr Let_def]
  have same: "history_kept b b" by (simp add: history_kept_def)
  show ?thesis
  proof (cases "action = Dismiss")
    case True
    with r1 have "b' = close_items (\<lambda>r. review_id r = review_id item) Dismissed user b"
      by (auto simp: dismiss_def split: if_splits)
    then show ?thesis using close_items_kept [OF same] by simp
  next
    case False
    let ?c = "action = ConfirmNotice"
    from r1 False have d: "decide_notice item inst (pending_notices b (inst_id inst)) ?c chosen user now today b = Inr (v, b')"
      by (auto split: if_splits)
    then obtain n where n: "pick_notice (pending_notices b (inst_id inst)) chosen = Inr n"
      by (cases "pick_notice (pending_notices b (inst_id inst)) chosen") (simp_all add: decide_notice_def split: if_splits)
    let ?r = "apply_notice_decision inst n (int (length (pending_notices b (inst_id inst)))) ?c (Some user) now today b"
    have "history_kept b (snd ?r)"
      using pending_noticesD [OF pick_notice_mem [OF n]] by (intro decision_kept [OF ok])
    moreover have "b' = snd ?r \<or> (\<exists>w s u. b' = close_items w s u (snd ?r))"
      using d n by (auto simp: decide_notice_def split_beta Let_def split: if_splits)
    ultimately show ?thesis using close_items_kept by blast
  qed
qed

lemma open_unresolved_kept: "open_unresolved i b = (v, b') \<Longrightarrow> history_kept b b'"
  using open_unresolved_frame by (intro history_kept_same [of _ _ "[]" "[]"]) auto

lemma sweep_one_kept: "sweep_one hours now inst (res, marks, b) = (res', marks', b') \<Longrightarrow> history_kept b b'"
proof -
  assume a: "sweep_one hours now inst (res, marks, b) = (res', marks', b')"
  obtain v b1 where o: "open_unresolved (inst_id inst) b = (v, b1)" by fastforce
  have "history_kept b b" by (simp add: history_kept_def)
  moreover have "b' = b \<or> b' = b1" using a o by (auto simp: sweep_one_def Let_def split: if_splits)
  ultimately show ?thesis using open_unresolved_kept [OF o] by auto
qed

lemma sweep_fold_kept:
  "fold (sweep_one hours now) due (res, marks, b) = (res', marks', b') \<Longrightarrow> history_kept b b'"
proof (induction due arbitrary: res marks b)
  case (Cons x xs)
  obtain r m c where s: "sweep_one hours now x (res, marks, b) = (r, m, c)" by (rule prod_cases3)
  with Cons.prems have "fold (sweep_one hours now) xs (r, m, c) = (res', marks', b')" by simp
  from history_kept_trans [OF sweep_one_kept [OF s] Cons.IH [OF this]] show ?case .
qed (simp add: history_kept_def)

lemma sweep_kept:
  assumes "sweep corte hours now b = (v, b')"
  shows "history_kept b b'"
proof -
  obtain res marks b1 where f: "fold (sweep_one hours now) (filter (\<lambda>r. (inst_status r = InstallmentScheduled \<or> inst_status r = InstallmentOverdue)
      \<and> inst_due_date r < corte) (installments b))
      (\<lparr>sw_reviewed = 0, sw_marked = 0, sw_paid = 0, sw_waiting = 0, sw_in_review = 0\<rparr>, [], b) = (res, marks, b1)"
    by (rule prod_cases3)
  have "history_kept b1 b'" using assms unfolding sweep_def Let_def f by (auto simp: history_kept_def)
  then show ?thesis using history_kept_trans [OF sweep_fold_kept [OF f]] by simp
qed

lemma decide_claim_kept:
  assumes ok: "coverage_ok strict b" and n: "n \<in> set (notices b)" "notice_status n = NoticeReported"
  shows "history_kept b (snd (decide_claim e inst n today b))"
proof -
  obtain r b1 where o: "open_review_item (inst_id inst) LatePaymentWithCoverage None b = (r, b1)" by fastforce
  show ?thesis
    using open_review_item_kept [OF o] decision_kept [OF ok n] by (simp add: decide_claim_def Let_def o)
qed

lemma core_event_kept:
  assumes ok: "coverage_ok strict b" and pos: "0 < cc_amount e"
  shows "history_kept b (snd (apply_core_event e now today b))"
proof -
  have ex: "history_kept b (snd (core_exception e reason b))" "history_kept b b" for reason
    by (simp_all add: core_exception_def history_kept_def)
  show ?thesis
  proof (cases "find_link b (cc_tenant e) (cc_installment e)")
    case None
    with ex show ?thesis by (simp add: apply_core_event_def)
  next
    case link: (Some l)
    show ?thesis
    proof (cases "find_by inst_id (link_installment l) (installments b)")
      case None
      with ex link show ?thesis by (simp add: apply_core_event_def)
    next
      case inst: (Some inst)
      show ?thesis
      proof (cases "existing_notice b e")
        case None
        obtain n b1 where c: "create_notice l inst e now b = (n, b1)" by fastforce
        have "inst \<in> set (installments b)" using find_by_Some [OF inst] by simp
        note fr = create_notice_frame [OF ok c this pos]
        have k1: "history_kept b b1" using c by (auto simp: create_notice_def Let_def take_id_def history_kept_def)
        have "history_kept b1 (snd (decide_claim e inst n today b1))" using fr by (intro decide_claim_kept) auto
        from history_kept_trans [OF k1 this] k1 ex show ?thesis by (simp add: apply_core_event_def link inst None c)
      next
        case (Some n)
        then have "n \<in> set (notices b)" unfolding existing_notice_def by (metis find_Some_iff nth_mem)
        then have "history_kept b (snd (decide_claim e inst n today b))" if "notice_status n = NoticeReported"
          using decide_claim_kept [OF ok _ that] by simp
        with ex show ?thesis by (simp add: apply_core_event_def link inst Some)
      qed
    qed
  qed
qed

lemma step_kept: "coverage_step strict b b' \<Longrightarrow> coverage_ok strict b \<Longrightarrow> history_kept b b'"
proof (induction rule: coverage_step.induct)
  case (originate b purchase due amount)
  show ?case by (simp add: new_installment_def take_id_def history_kept_def)
next
  case (surroundings b b')
  then obtain a c d e where "b' = b\<lparr>purchases := a, contract_versions := c, evidence_files := d, core_links := e\<rparr>"
    unfolding surroundings_change_def by blast
  then show ?case by (simp add: history_kept_def)
next
  case (core e b now today v b')
  then show ?case using core_event_kept [OF core(4,1), of now today] by simp
qed (fact schedule_kept cancel_kept [rotated] register_kept approve_kept [rotated] reject_kept [rotated]
  recovery_kept reverse_kept resolve_kept [rotated] sweep_kept | rule recovery_kept schedule_kept register_kept reverse_kept sweep_kept, assumption)+

text \<open>C14: decisions are final: no operation, and no event of Core, changes a payment notice that was confirmed or rejected,
  a settlement that was approved or rejected, a payable that was paid or cancelled, or a recorded collection.\<close>

theorem decisions_are_final:
  assumes "coverage_reachable strict b" "coverage_step strict b b'"
  shows "{n \<in> set (notices b). notice_status n \<noteq> NoticeReported} \<subseteq> set (notices b')
    \<and> {s \<in> set (settlements b). settlement_status s \<noteq> SettlementPending} \<subseteq> set (settlements b')
    \<and> {p \<in> set (payables b). payable_status p = PayablePaid \<or> payable_status p = PayableCancelled} \<subseteq> set (payables b')
    \<and> set (movements b) \<subseteq> set (movements b')"
  using step_kept [OF assms(2) coverage_reachable_ok [OF assms(1)]] unfolding history_kept_def by blast

lemma demo_step: "coverage_step strict demo_approved demo_collected"
proof -
  obtain v where "apply_recovery_payment ''3'' ''R1'' 2000 ''BOB'' None demo_approved = Inr (v, demo_collected)"
    using book_after_run [OF demo_runs(4)] unfolding demo_collected_def by blast
  then show ?thesis by (rule coverage_step.recover) simp
qed

lemma decisions_are_final_witness:
  "{p \<in> set (payables demo_approved). payable_status p = PayablePaid} \<subseteq> set (payables demo_collected)"
  using decisions_are_final [OF demo_coverage_reachable(4) demo_step] by blast

section \<open>The overdue sweep\<close>

text \<open>Waiting for its payment: not covered by confirmed payments, and no notice still within its time to be verified.\<close>

definition unpaid :: "nat \<Rightarrow> nat \<Rightarrow> notice_row list \<Rightarrow> installment_row \<Rightarrow> bool" where
  "unpaid hours now ns x =
     (let own = filter (\<lambda>n. notice_installment n = Some (inst_id x)) ns
      in inst_status x = InstallmentScheduled \<and> confirmed_total own < inst_amount x
         \<and> (expired_notices own hours now \<noteq> [] \<or> notices_with NoticeReported own = []))"

lemma sweep_one_marks:
  assumes "sweep_one hours now x (res, marks, b) = (res', marks', b')"
  shows "marks' = marks @ (if unpaid hours now (notices b) x then [inst_id x] else [])"
proof -
  obtain v b1 where o: "open_unresolved (inst_id x) b = (v, b1)" by fastforce
  show ?thesis using assms by (auto simp: sweep_one_def Let_def o unpaid_def notices_of_def split: if_splits)
qed

lemma sweep_fold_marks:
  assumes "fold (sweep_one hours now) due (res, marks, b) = (res', marks', b')" "coverage_ok strict b"
  shows "marks' = marks @ map inst_id (filter (unpaid hours now (notices b)) due)"
  using assms
proof (induction due arbitrary: res marks b)
  case (Cons x xs)
  obtain r m c where s: "sweep_one hours now x (res, marks, b) = (r, m, c)" by (rule prod_cases3)
  with Cons.prems have "fold (sweep_one hours now) xs (r, m, c) = (res', marks', b')" by simp
  from Cons.IH [OF this] sweep_one_frame [OF s Cons.prems(2)] sweep_one_marks [OF s] show ?case by simp
qed simp

lemma sweep_tables:
  assumes ok: "coverage_ok strict b" and run: "sweep corte hours now b = (res, b')"
  shows "installments b' = map (\<lambda>x. if inst_due_date x < corte \<and> unpaid hours now (notices b) x
      then x\<lparr>inst_status := InstallmentOverdue\<rparr> else x) (installments b)"
    and "notices b' = notices b"
    and "sw_marked res = length (filter (\<lambda>x. inst_due_date x < corte \<and> unpaid hours now (notices b) x) (installments b))"
proof -
  let ?due = "filter (\<lambda>r. (inst_status r = InstallmentScheduled \<or> inst_status r = InstallmentOverdue)
      \<and> inst_due_date r < corte) (installments b)"
  let ?late = "\<lambda>x. inst_due_date x < corte \<and> unpaid hours now (notices b) x"
  obtain res1 marks b1 where f: "fold (sweep_one hours now) ?due
      (\<lparr>sw_reviewed = 0, sw_marked = 0, sw_paid = 0, sw_waiting = 0, sw_in_review = 0\<rparr>, [], b) = (res1, marks, b1)"
    by (rule prod_cases3)
  have late: "filter (unpaid hours now (notices b)) ?due = filter ?late (installments b)"
    by (auto simp: unpaid_def Let_def intro!: filter_cong)
  note fr = sweep_fold_frame [OF f ok] and m = sweep_fold_marks [OF f ok, unfolded late append_Nil]
  have "inst_id x \<in> set marks \<longleftrightarrow> ?late x" if "x \<in> set (installments b)" for x
    using keyed_unique [OF coverage_ok_keyed(1) [OF ok] _ that] that unfolding m by auto
  then show "installments b' = map (\<lambda>x. if ?late x then x\<lparr>inst_status := InstallmentOverdue\<rparr> else x) (installments b)"
    using run fr unfolding sweep_def Let_def f by auto
  show "notices b' = notices b" "sw_marked res = length (filter ?late (installments b))"
    using run fr unfolding sweep_def Let_def f by (auto simp: m)
qed

text \<open>C15: the sweep marks as overdue exactly the scheduled installments that were due before the cut, whose confirmed payments
  do not reach the amount, and that have either no undecided notice or one whose time to be verified ran out. It counts
  them, touches no notice, and a second sweep with the same cut marks nothing.\<close>

theorem sweep_marks_the_unpaid:
  assumes "coverage_reachable strict b" "sweep corte hours now b = (res, b')"
  shows "installments b' = map (\<lambda>x. if inst_due_date x < corte \<and> unpaid hours now (notices b) x
      then x\<lparr>inst_status := InstallmentOverdue\<rparr> else x) (installments b)
    \<and> sw_marked res = length (filter (\<lambda>x. inst_due_date x < corte \<and> unpaid hours now (notices b) x) (installments b))
    \<and> notices b' = notices b \<and> sw_marked (fst (sweep corte hours now b')) = 0"
proof -
  note ok = coverage_reachable_ok [OF assms(1)]
  note t = sweep_tables [OF ok assms(2)]
  obtain res2 b2 where run2: "sweep corte hours now b' = (res2, b2)" by fastforce
  have "filter (\<lambda>x. inst_due_date x < corte \<and> unpaid hours now (notices b') x) (installments b') = []"
    unfolding t by (auto simp: filter_empty_conv unpaid_def Let_def)
  then show ?thesis using t sweep_tables(3) [OF sweep_ok [OF ok assms(2)] run2] run2 by simp
qed

lemma sweep_marks_the_unpaid_witness:
  "map inst_status (installments (snd (sweep ''2026-01-11'' 72 9 demo_opened))) = [InstallmentOverdue]"
proof -
  obtain res b' where run: "sweep ''2026-01-11'' 72 9 demo_opened = (res, b')" by fastforce
  have "map (\<lambda>x. inst_status (if inst_due_date x < ''2026-01-11'' \<and> unpaid 72 9 (notices demo_opened) x
      then x\<lparr>inst_status := InstallmentOverdue\<rparr> else x)) (installments demo_opened) = [InstallmentOverdue]"
    by code_simp
  then show ?thesis using sweep_marks_the_unpaid [OF demo_coverage_reachable(1) run] by (simp add: run comp_def)
qed

section \<open>Events of Core\<close>

text \<open>A decision of Core on a claim already recorded is not compared with the installment of the claim. Here the claim
  \<open>C1\<close> was reported for installment \<open>0\<close>, which the company covered afterwards; a confirmation of the same claim that
  names installment \<open>1\<close> confirms the notice of installment \<open>0\<close> in spite of its coverage.\<close>

definition demo_claim :: "core_topic \<Rightarrow> string \<Rightarrow> core_claim" where
  "demo_claim topic i = \<lparr>cc_topic = topic, cc_event_key = ''E'' @ i, cc_tenant = ''T'', cc_claim = ''C1'', cc_loan = ''L'',
     cc_installment = i, cc_amount = 5000, cc_currency = ''BOB'', cc_occurred = 1, cc_decided = 2\<rparr>"

definition demo_linked :: coverage_book where
  "demo_linked = new_installment ''B'' ''2026-02-10'' 5000 (demo_approved\<lparr>core_links :=
     [\<lparr>link_purchase = ''B'', link_installment = ''0'', link_tenant = ''T'', link_core_installment = ''i0'', link_loan = ''L''\<rparr>,
      \<lparr>link_purchase = ''B'', link_installment = ''4'', link_tenant = ''T'', link_core_installment = ''i1'', link_loan = ''L''\<rparr>]\<rparr>)"

definition demo_mismatch :: coverage_book where
  "demo_mismatch = snd (apply_core_event (demo_claim PaymentConfirmed ''i1'') 9 ''2026-01-12''
     (snd (apply_core_event (demo_claim PaymentReported ''i0'') 9 ''2026-01-12'' demo_linked)))"

lemma claim_of_another_installment:
  "map payable_amount (filter (\<lambda>p. payable_installment p = ''0'' \<and> payable_status p = PayablePaid) (payables demo_mismatch)) = [5000]
   \<and> confirmed_minor_of demo_mismatch ''0'' = 5000
   \<and> map inst_amount (filter (\<lambda>x. inst_id x = ''0'') (installments demo_mismatch)) = [5000]"
  by code_simp

end
