(* ===== verification/Rating.thy ===== *)
theory Rating
  imports Rows JsNumber
begin

text \<open>
  The credit rating of the portfolio: \<open>domain/rating-scale.ts\<close> and \<open>domain/account-rating.ts\<close> (the scale of
  bands, the provision, the rating of a receivable and of an account), and the operations of
  \<open>services/b2b-credit-rating.service.ts\<close> over \<open>repositories/credit-rating.repository.ts\<close> (rating an account in
  one transaction, superseding the current ratings, the sweep). Amounts are whole cents and days integers, which JavaScript
  numbers represent exactly; the product of the provision is the rounded binary64 one. Dates come as day numbers: reading
  \<open>YYYY-MM-DD\<close> is the platform's. A stored rate is always finite, so the check for a non-numeric one has no case here.
\<close>

section \<open>The scale\<close>

text \<open>\<open>band_max = None\<close> is an open band; the rate is the parsed \<open>numeric(6,4)\<close>, a finite number.\<close>

record rating_band =
  grade :: string
  grade_label :: string
  severity_rank :: int
  band_min :: int
  band_max :: "int option"
  provision_rate :: rat

datatype scale_error =
  NoBands | FirstNotZero | LastNotOpen | OpenBeforeLast string | GapOrOverlap string string

datatype rating_reason = DaysPastDue | InDispute

record receivable_rating_input =
  ri_days :: int
  ri_exposure :: int
  ri_disputed :: bool

record receivable_rating =
  rr_band :: rating_band
  rr_days :: int
  rr_exposure :: int
  rr_provision :: int
  rr_reason :: rating_reason

definition milliseconds_per_day :: int where
  "milliseconds_per_day = 24 * 60 * 60 * 1000"

text \<open>The due date as the number of its day since 1970, the instant in milliseconds: both in UTC.\<close>

definition days_past_due_for :: "int \<Rightarrow> int \<Rightarrow> int" where
  "days_past_due_for due_day as_of =
     (let days = as_of div milliseconds_per_day - due_day in if 0 < days then days else 0)"

text \<open>The loop over neighbours: the first fault is the one thrown.\<close>

fun check_neighbours :: "rating_band list \<Rightarrow> scale_error + unit" where
  "check_neighbours (current # succ # rest) =
     (case band_max current of
        None \<Rightarrow> Inl (OpenBeforeLast (grade current))
      | Some m \<Rightarrow>
          if band_min succ \<noteq> m + 1 then Inl (GapOrOverlap (grade current) (grade succ))
          else check_neighbours (succ # rest))"
| "check_neighbours _ = Inr ()"

text \<open>\<open>Array.prototype.sort\<close> is stable, as \<open>sort_key\<close> is.\<close>

definition normalize_scale :: "rating_band list \<Rightarrow> scale_error + rating_band list" where
  "normalize_scale bands =
     (let ordered = sort_key severity_rank bands
      in if ordered = [] then Inl NoBands
         else if band_min (hd ordered) \<noteq> 0 then Inl FirstNotZero
         else if band_max (List.last ordered) \<noteq> None then Inl LastNotOpen
         else and_then (check_neighbours ordered) (\<lambda>_. Inr ordered))"

definition covers :: "int \<Rightarrow> rating_band \<Rightarrow> bool" where
  "covers days band = (band_min band \<le> days \<and> (case band_max band of None \<Rightarrow> True | Some m \<Rightarrow> days \<le> m))"

datatype rating_error =
  ScaleFault scale_error | NoBandCovers int | RATING_POLICY_NOT_ACTIVE | RATING_POLICY_SCALE_INVALID "scale_error option"
  | RATED_ACCOUNT_NOT_FOUND

definition scale_result :: "scale_error + 'a \<Rightarrow> rating_error + 'a" where
  "scale_result r = (case r of Inl e \<Rightarrow> Inl (ScaleFault e) | Inr a \<Rightarrow> Inr a)"

definition band_for_days_past_due :: "rating_band list \<Rightarrow> int \<Rightarrow> rating_error + rating_band" where
  "band_for_days_past_due bands days_past_due =
     and_then (scale_result (normalize_scale bands)) (\<lambda>ordered.
       let days = max 0 days_past_due in from_option (NoBandCovers days) (find (covers days) ordered))"

definition provision_cents_for :: "int \<Rightarrow> rat \<Rightarrow> int" where
  "provision_cents_for exposure rate = (if exposure \<le> 0 then 0 else math_round (js_mult (of_int exposure) rate))"

definition rate_receivable :: "rating_band list \<Rightarrow> receivable_rating_input \<Rightarrow> rating_error + receivable_rating" where
  "rate_receivable bands x =
     and_then (band_for_days_past_due bands (ri_days x)) (\<lambda>band.
       let exposure = max 0 (ri_exposure x)
       in Inr \<lparr>rr_band = band, rr_days = max 0 (ri_days x), rr_exposure = exposure,
               rr_provision = provision_cents_for exposure (provision_rate band),
               rr_reason = (if ri_disputed x then InDispute else DaysPastDue)\<rparr>)"

section \<open>The account\<close>

type_synonym rated_receivable = "ident \<times> receivable_rating"

datatype account_reason = WorstReceivable | NoOpenDebt

record account_rating =
  ar_band :: rating_band
  ar_worst_days :: int
  ar_count :: nat
  ar_exposure :: int
  ar_provision :: int
  ar_driver :: "ident option"
  ar_reason :: account_reason

definition severity :: "rated_receivable \<Rightarrow> int" where
  "severity x = severity_rank (rr_band (snd x))"

definition exposure_of :: "rated_receivable \<Rightarrow> int" where
  "exposure_of x = rr_exposure (snd x)"

definition worse :: "rated_receivable \<Rightarrow> rated_receivable \<Rightarrow> rated_receivable" where
  "worse worst item =
     (if severity item \<noteq> severity worst then (if severity worst < severity item then item else worst)
      else if exposure_of worst < exposure_of item then item else worst)"

definition larger :: "rated_receivable \<Rightarrow> rated_receivable \<Rightarrow> rated_receivable" where
  "larger largest item = (if exposure_of largest < exposure_of item then item else largest)"

definition worst_receivable :: "rated_receivable list \<Rightarrow> rated_receivable" where
  "worst_receivable xs = foldl worse (hd xs) (tl xs)"

definition largest_receivable :: "rated_receivable list \<Rightarrow> rated_receivable" where
  "largest_receivable xs = foldl larger (hd xs) (tl xs)"

definition rate_account :: "rated_receivable list \<Rightarrow> rating_band \<Rightarrow> bool \<Rightarrow> account_rating" where
  "rate_account receivables best_band contamination =
     (if receivables = [] then
        \<lparr>ar_band = best_band, ar_worst_days = 0, ar_count = 0, ar_exposure = 0, ar_provision = 0,
         ar_driver = None, ar_reason = NoOpenDebt\<rparr>
      else
        (let driver = (if contamination then worst_receivable receivables else largest_receivable receivables)
         in \<lparr>ar_band = rr_band (snd driver),
             ar_worst_days = foldl (\<lambda>worst item. max worst (rr_days (snd item))) 0 receivables,
             ar_count = length receivables,
             ar_exposure = foldl (\<lambda>sum item. sum + rr_exposure (snd item)) 0 receivables,
             ar_provision = foldl (\<lambda>sum item. sum + rr_provision (snd item)) 0 receivables,
             ar_driver = Some (fst driver), ar_reason = WorstReceivable\<rparr>))"

section \<open>Rating an account\<close>

record rated_account_row =
  rated_account :: ident
  risk_rating_grade :: "string option"
  risk_rating_updated_at :: "int option"

record policy_row =
  policy_id :: ident
  policy_status :: string
  contamination_enabled :: bool

record open_receivable_row =
  or_id :: ident
  or_account :: ident
  or_due_day :: int
  or_open_cents :: int
  or_status :: string

record receivable_rating_row =
  rating_receivable :: ident
  rating_account :: ident
  rating_policy :: ident
  rating_row :: receivable_rating
  rating_previous_grade :: "string option"
  rating_is_current :: bool
  rated_at :: int

record account_rating_row =
  arr_account :: ident
  arr_policy :: ident
  arr_rating :: account_rating
  arr_previous_grade :: "string option"
  arr_is_current :: bool
  arr_rated_at :: int

record rating_book =
  rb_accounts :: "rated_account_row list"
  rb_policies :: "policy_row list"
  rb_bands :: "(ident \<times> rating_band) list"
  rb_receivables :: "open_receivable_row list"
  rb_receivable_ratings :: "receivable_rating_row list"
  rb_account_ratings :: "account_rating_row list"

definition find_active_policy :: "rating_book \<Rightarrow> policy_row option" where
  "find_active_policy b = find (\<lambda>p. policy_status p = ''ACTIVE'') (rb_policies b)"

definition find_bands :: "rating_book \<Rightarrow> ident \<Rightarrow> rating_band list" where
  "find_bands b policy = sort_key severity_rank (map snd (filter (\<lambda>x. fst x = policy) (rb_bands b)))"

definition closed_receivable_statuses :: "string list" where
  "closed_receivable_statuses = [''PAID'', ''CANCELLED'']"

definition find_open_receivables :: "rating_book \<Rightarrow> ident \<Rightarrow> open_receivable_row list" where
  "find_open_receivables b account =
     sort_key or_due_day (filter (\<lambda>r. or_account r = account \<and> or_status r \<notin> set closed_receivable_statuses) (rb_receivables b))"

definition resolve_policy :: "rating_book \<Rightarrow> rating_error + policy_row \<times> rating_band list" where
  "resolve_policy b =
     and_then (from_option RATING_POLICY_NOT_ACTIVE (find_active_policy b)) (\<lambda>policy.
       (case normalize_scale (find_bands b (policy_id policy)) of
          Inl e \<Rightarrow> Inl (RATING_POLICY_SCALE_INVALID (Some e))
        | Inr ordered \<Rightarrow> Inr (policy, ordered)))"

definition supersede_receivable_rating :: "receivable_rating_row \<Rightarrow> rating_book \<Rightarrow> rating_book" where
  "supersede_receivable_rating x b =
     b\<lparr>rb_receivable_ratings :=
         map (\<lambda>r. if rating_receivable r = rating_receivable x \<and> rating_is_current r then r\<lparr>rating_is_current := False\<rparr> else r)
           (rb_receivable_ratings b) @ [x]\<rparr>"

definition supersede_account_rating :: "account_rating_row \<Rightarrow> rating_book \<Rightarrow> rating_book" where
  "supersede_account_rating x b =
     b\<lparr>rb_account_ratings :=
         map (\<lambda>r. if arr_account r = arr_account x \<and> arr_is_current r then r\<lparr>arr_is_current := False\<rparr> else r)
           (rb_account_ratings b) @ [x]\<rparr>"

definition project_grade_on_account :: "ident \<Rightarrow> string \<Rightarrow> int \<Rightarrow> rating_book \<Rightarrow> rating_book" where
  "project_grade_on_account account g now b =
     b\<lparr>rb_accounts := update_by rated_account account
         (\<lambda>a. a\<lparr>risk_rating_grade := Some g, risk_rating_updated_at := Some now\<rparr>) (rb_accounts b)\<rparr>"

text \<open>The loop over the open receivables: rate one, read its previous grade, supersede.\<close>

fun rate_receivables ::
    "policy_row \<Rightarrow> rating_band list \<Rightarrow> ident \<Rightarrow> int \<Rightarrow> open_receivable_row list \<Rightarrow> rating_book \<Rightarrow>
     rating_error + rated_receivable list \<times> rating_book" where
  "rate_receivables policy bands account now [] b = Inr ([], b)"
| "rate_receivables policy bands account now (r # rs) b =
     and_then (rate_receivable bands \<lparr>ri_days = days_past_due_for (or_due_day r) now, ri_exposure = or_open_cents r,
         ri_disputed = (or_status r = ''DISPUTED'')\<rparr>) (\<lambda>rating.
       let previous = find (\<lambda>x. rating_receivable x = or_id r \<and> rating_is_current x) (rb_receivable_ratings b);
           row = \<lparr>rating_receivable = or_id r, rating_account = account, rating_policy = policy_id policy,
                  rating_row = rating, rating_previous_grade = map_option (\<lambda>x. grade (rr_band (rating_row x))) previous,
                  rating_is_current = True, rated_at = now\<rparr>
       in and_then (rate_receivables policy bands account now rs (supersede_receivable_rating row b)) (\<lambda>(rated, b').
            Inr ((or_id r, rating) # rated, b')))"

definition persist_account_rating ::
    "ident \<Rightarrow> rated_receivable list \<Rightarrow> policy_row \<Rightarrow> rating_band list \<Rightarrow> int \<Rightarrow> rating_book \<Rightarrow> account_rating_row \<times> rating_book" where
  "persist_account_rating account rated policy bands now b =
     (let previous = find (\<lambda>x. arr_account x = account \<and> arr_is_current x) (rb_account_ratings b);
          row = \<lparr>arr_account = account, arr_policy = policy_id policy,
                 arr_rating = rate_account rated (hd bands) (contamination_enabled policy),
                 arr_previous_grade = map_option (\<lambda>x. grade (ar_band (arr_rating x))) previous,
                 arr_is_current = True, arr_rated_at = now\<rparr>
      in (row, supersede_account_rating row b))"

definition rate_account_by_id :: "ident \<Rightarrow> int \<Rightarrow> rating_book \<Rightarrow> rating_error + (nat \<times> account_rating_row) \<times> rating_book" where
  "rate_account_by_id account now b =
     and_then (from_option RATED_ACCOUNT_NOT_FOUND (find_by rated_account account (rb_accounts b))) (\<lambda>_.
     and_then (resolve_policy b) (\<lambda>(policy, bands).
     and_then (rate_receivables policy bands account now (find_open_receivables b account) b) (\<lambda>(rated, b1).
       let (row, b2) = persist_account_rating account rated policy bands now b1
       in Inr ((length rated, row), project_grade_on_account account (grade (ar_band (arr_rating row))) now b2))))"

section \<open>The sweep\<close>

text \<open>An account that cannot be rated does not stop the others; it is reported.\<close>

definition accounts_with_open_debt :: "nat \<Rightarrow> rating_book \<Rightarrow> ident list" where
  "accounts_with_open_debt limit b =
     take limit (sort (remdups (map or_account
       (filter (\<lambda>r. or_status r \<notin> set closed_receivable_statuses) (rb_receivables b)))))"

fun rate_accounts :: "int \<Rightarrow> ident list \<Rightarrow> nat \<times> ident list \<times> rating_book \<Rightarrow> nat \<times> ident list \<times> rating_book" where
  "rate_accounts now [] acc = acc"
| "rate_accounts now (account # rest) (rated, failures, b) =
     (case rate_account_by_id account now b of
        Inl _ \<Rightarrow> rate_accounts now rest (rated, failures @ [account], b)
      | Inr (_, b') \<Rightarrow> rate_accounts now rest (Suc rated, failures, b'))"

definition rating_sweep :: "nat \<Rightarrow> int \<Rightarrow> rating_book \<Rightarrow> nat \<times> ident list \<times> rating_book" where
  "rating_sweep limit now b = rate_accounts now (accounts_with_open_debt limit b) (0, [], b)"

end
