(* ===== verification/RatingProperties.thy ===== *)
theory RatingProperties
  imports Rating
begin

text \<open>
  An accepted scale is a partition of the days past due and monotone in severity; an account takes the band of its worst
  receivable; and the sweep keeps one current rating per receivable and account.
\<close>

section \<open>The scale is a partition\<close>

definition follows :: "rating_band \<Rightarrow> rating_band \<Rightarrow> bool" where
  "follows a b = (\<exists>m. band_max a = Some m \<and> band_min b = m + 1)"

text \<open>The check constraint of the table of bands.\<close>

definition band_sound :: "rating_band \<Rightarrow> bool" where
  "band_sound b = (case band_max b of None \<Rightarrow> True | Some m \<Rightarrow> band_min b \<le> m)"

lemma check_neighbours_iff: "check_neighbours bands = Inr () \<longleftrightarrow> successively follows bands"
  by (induction bands rule: check_neighbours.induct) (auto simp: follows_def split: option.splits)

lemma normalize_scale_Inr:
  "normalize_scale bands = Inr ordered \<longleftrightarrow>
     ordered = sort_key severity_rank bands \<and> ordered \<noteq> [] \<and> band_min (hd ordered) = 0
     \<and> band_max (last ordered) = None \<and> successively follows ordered"
  by (auto simp: normalize_scale_def Let_def and_then_eq_Inr check_neighbours_iff split: if_splits)

lemma chain_covers:
  assumes "successively follows bands" "bands \<noteq> []" "band_max (last bands) = None" "band_min (hd bands) \<le> d"
  shows "\<exists>band \<in> set bands. covers d band"
  using assms
proof (induction bands rule: induct_list012)
  case (3 a b rest)
  from 3(3) obtain m where m: "band_max a = Some m" "band_min b = m + 1" by (auto simp: follows_def)
  show ?case
  proof (cases "d \<le> m")
    case True
    with 3(6) m have "covers d a" by (simp add: covers_def)
    then show ?thesis by simp
  next
    case False
    with 3 m have "\<exists>band \<in> set (b # rest). covers d band" by (intro "3.IH"(2)) auto
    then show ?thesis by auto
  qed
qed (auto simp: covers_def)

lemma chain_later:
  assumes "successively follows (a # bands)" "\<forall>b \<in> set bands. band_sound b" "b \<in> set bands" "band_max a = Some m"
  shows "m < band_min b"
  using assms
proof (induction bands arbitrary: a m)
  case (Cons c rest)
  have c: "band_min c = m + 1" using Cons.prems by (auto simp: follows_def)
  show ?case
  proof (cases "b = c")
    case False
    with Cons.prems have b: "b \<in> set rest" by simp
    then obtain k where k: "band_max c = Some k" using Cons.prems(1) by (cases rest) (auto simp: follows_def)
    with Cons.prems(2) have "m + 1 \<le> k" by (simp add: band_sound_def c)
    with Cons.IH [OF _ _ b k] Cons.prems show ?thesis by auto
  qed (simp add: c)
qed simp

lemma chain_unique:
  assumes "successively follows bands" "\<forall>b \<in> set bands. band_sound b"
  shows "length (filter (covers d) bands) \<le> 1"
  using assms
proof (induction bands)
  case (Cons a rest)
  have rest: "length (filter (covers d) rest) \<le> 1" using Cons by (cases rest) auto
  show ?case
  proof (cases "covers d a")
    case True
    have "filter (covers d) rest = []"
    proof (rule filter_False, intro ballI)
      fix b assume b: "b \<in> set rest"
      then obtain m where m: "band_max a = Some m" using Cons.prems(1) by (cases rest) (auto simp: follows_def)
      with True have "d \<le> m" by (simp add: covers_def)
      moreover have "m < band_min b" using chain_later [OF Cons.prems(1) _ b m] Cons.prems(2) by simp
      ultimately show "\<not> covers d b" by (simp add: covers_def)
    qed
    with True show ?thesis by simp
  qed (use rest in simp)
qed simp

lemma chain_monotone:
  assumes "successively follows bands" "\<forall>b \<in> set bands. band_sound b" "sorted (map severity_rank bands)"
    and "x \<in> set bands" "y \<in> set bands" "covers d x" "covers d' y" "d \<le> d'"
  shows "severity_rank x \<le> severity_rank y"
  using assms
proof (induction bands)
  case (Cons a rest)
  have succ: "successively follows rest" using Cons.prems(1) by (cases rest) auto
  show ?case
  proof (cases "x = a")
    case True
    with Cons.prems show ?thesis by auto
  next
    case False
    with Cons.prems have x: "x \<in> set rest" by simp
    then obtain m where m: "band_max a = Some m" using Cons.prems(1) by (cases rest) (auto simp: follows_def)
    have "m < band_min x" using chain_later [OF Cons.prems(1) _ x m] Cons.prems(2) by simp
    then have "y \<noteq> a" using Cons.prems(6-8) m by (auto simp: covers_def)
    then show ?thesis using Cons.IH [OF succ _ _ x] Cons.prems by auto
  qed
qed simp

lemma filter_sort_key: "filter P (sort_key f xs) = sort_key f (filter P xs)"
  by (induction xs) (auto simp: filter_insort_triv filter_insort)

lemma one_element: "length xs \<le> 1 \<Longrightarrow> x \<in> set xs \<Longrightarrow> xs = [x]"
  by (cases xs) (auto simp: Suc_le_eq)

lemma band_for_days:
  assumes n: "normalize_scale bands = Inr ordered" and sound: "\<forall>b \<in> set bands. band_sound b" and d: "0 \<le> d"
  obtains band where "filter (covers d) bands = [band]" "band_for_days_past_due bands d = Inr band"
proof -
  note o = n [unfolded normalize_scale_Inr]
  have so: "\<forall>b \<in> set ordered. band_sound b" using sound o by simp
  from chain_covers [of ordered d] o d obtain band where band: "band \<in> set ordered" "covers d band" by auto
  then have u: "filter (covers d) ordered = [band]"
    using one_element [of "filter (covers d) ordered" band] chain_unique [of ordered d] o so by auto
  then have "length (filter (covers d) bands) = 1" using o by (simp add: filter_sort_key flip: length_sort [of severity_rank "filter _ _"])
  then have fb: "filter (covers d) bands = [band]"
    using one_element [of "filter (covers d) bands" band] band o by auto
  have "find (covers d) ordered = Some band"
  proof (rule find_unique [of _ _ "covers d", OF band])
    show "c = band" if "c \<in> set ordered" "covers d c" for c
    proof -
      have "c \<in> set (filter (covers d) ordered)" using that by simp
      then show ?thesis using u by simp
    qed
  qed
  with n d have "band_for_days_past_due bands d = Inr band"
    by (simp add: band_for_days_past_due_def scale_result_def Let_def)
  with fb show ?thesis by (rule that)
qed

text \<open>C36: on a scale that the loader accepts, with bands as the table allows them, every number of days past due falls in
  exactly one band and that band is the one found; more days never give a band of lower severity.\<close>

theorem scale_partitions_days:
  assumes "normalize_scale bands = Inr ordered" "\<forall>b \<in> set bands. band_sound b" "0 \<le> d" "d \<le> d'"
  shows "\<exists>x y. filter (covers d) bands = [x] \<and> band_for_days_past_due bands d = Inr x
    \<and> band_for_days_past_due bands d' = Inr y \<and> severity_rank x \<le> severity_rank y"
proof -
  obtain x where x: "filter (covers d) bands = [x]" "band_for_days_past_due bands d = Inr x"
    using band_for_days [OF assms(1-3)] .
  obtain y where y: "filter (covers d') bands = [y]" "band_for_days_past_due bands d' = Inr y"
    using band_for_days [OF assms(1,2), of d'] assms(3,4) by auto
  note o = assms(1) [unfolded normalize_scale_Inr]
  have "x \<in> set (filter (covers d) bands)" "y \<in> set (filter (covers d') bands)" by (simp_all add: x(1) y(1))
  then have "x \<in> set ordered" "covers d x" "y \<in> set ordered" "covers d' y" using o by simp_all
  then have "severity_rank x \<le> severity_rank y"
    using o assms(2,4) by (intro chain_monotone [of ordered]) auto
  with x y show ?thesis by blast
qed

definition demo_band :: "string \<Rightarrow> int \<Rightarrow> int \<Rightarrow> int option \<Rightarrow> rat \<Rightarrow> rating_band" where
  "demo_band g rank low high rate =
     \<lparr>grade = g, grade_label = g, severity_rank = rank, band_min = low, band_max = high, provision_rate = rate\<rparr>"

definition demo_scale :: "rating_band list" where
  "demo_scale = [demo_band ''B'' 1 6 (Some 30) (1 / 20), demo_band ''A'' 0 0 (Some 5) 0, demo_band ''C'' 2 31 None (1 / 2)]"

lemma scale_partitions_days_witness:
  "\<exists>x y. filter (covers 30) demo_scale = [x] \<and> band_for_days_past_due demo_scale 30 = Inr x
    \<and> band_for_days_past_due demo_scale 31 = Inr y \<and> severity_rank x \<le> severity_rank y"
proof -
  have n: "normalize_scale demo_scale = Inr (sort_key severity_rank demo_scale)" by code_simp
  have s: "\<forall>b \<in> set demo_scale. band_sound b" by code_simp
  show ?thesis by (rule scale_partitions_days [OF n s]) simp_all
qed

section \<open>The account takes the worst\<close>

lemma foldl_worse:
  "foldl worse w xs \<in> set (w # xs)
   \<and> (\<forall>y \<in> set (w # xs). severity y < severity (foldl worse w xs)
        \<or> severity y = severity (foldl worse w xs) \<and> exposure_of y \<le> exposure_of (foldl worse w xs))"
proof (induction xs arbitrary: w)
  case (Cons x xs)
  have w: "worse w x \<in> {w, x}" "\<forall>y \<in> {w, x}. severity y < severity (worse w x)
      \<or> severity y = severity (worse w x) \<and> exposure_of y \<le> exposure_of (worse w x)"
    by (auto simp: worse_def)
  have "severity y < severity (foldl worse w (x # xs))
        \<or> severity y = severity (foldl worse w (x # xs)) \<and> exposure_of y \<le> exposure_of (foldl worse w (x # xs))"
    if y: "y \<in> set (w # x # xs)" for y
  proof (cases "y \<in> set xs")
    case True
    with Cons.IH [of "worse w x"] show ?thesis by auto
  next
    case False
    with y w(2) have "severity y < severity (worse w x)
        \<or> severity y = severity (worse w x) \<and> exposure_of y \<le> exposure_of (worse w x)" by auto
    moreover have "severity (worse w x) < severity (foldl worse w (x # xs))
        \<or> severity (worse w x) = severity (foldl worse w (x # xs)) \<and> exposure_of (worse w x) \<le> exposure_of (foldl worse w (x # xs))"
      using Cons.IH [of "worse w x"] by simp
    ultimately show ?thesis by auto
  qed
  with Cons.IH [of "worse w x"] w(1) show ?case by auto
qed simp

lemma foldl_larger:
  "foldl larger w xs \<in> set (w # xs) \<and> (\<forall>y \<in> set (w # xs). exposure_of y \<le> exposure_of (foldl larger w xs))"
proof (induction xs arbitrary: w)
  case (Cons x xs)
  have "exposure_of w \<le> exposure_of (larger w x)" "exposure_of x \<le> exposure_of (larger w x)" "larger w x \<in> {w, x}"
    by (auto simp: larger_def)
  with Cons.IH [of "larger w x"] show ?case by fastforce
qed simp

lemma foldl_sum: "foldl (\<lambda>s x. s + f x) (n :: int) xs = n + sum_list (map f xs)"
  by (induction xs arbitrary: n) auto

lemma foldl_max: "foldl (\<lambda>w x. max w (f x)) (n :: int) xs = Max (set (n # map f xs))"
proof (induction xs arbitrary: n)
  case (Cons x xs)
  have "Max (insert (max n (f x)) A) = Max (insert n (insert (f x) A))" if "finite A" for A
    using that by (cases "A = {}") (simp_all add: max.assoc)
  with Cons [of "max n (f x)"] show ?case by simp
qed simp

text \<open>An account with open debt takes the band of its worst receivable (the most severe, and of those one of the largest
  balances) when the policy contaminates, and of one of the largest balances when it does not; its exposure and provision are
  the sums of its receivables', and its days past due the most of them.\<close>

theorem account_takes_the_worst:
  assumes "receivables \<noteq> []"
  shows "\<exists>x \<in> set receivables.
       ar_driver (rate_account receivables best contamination) = Some (fst x)
     \<and> ar_band (rate_account receivables best contamination) = rr_band (snd x)
     \<and> (\<forall>y \<in> set receivables. if contamination
          then severity y < severity x \<or> severity y = severity x \<and> exposure_of y \<le> exposure_of x
          else exposure_of y \<le> exposure_of x)
     \<and> ar_exposure (rate_account receivables best contamination) = (\<Sum>y \<leftarrow> receivables. rr_exposure (snd y))
     \<and> ar_provision (rate_account receivables best contamination) = (\<Sum>y \<leftarrow> receivables. rr_provision (snd y))
     \<and> ar_worst_days (rate_account receivables best contamination) = Max (insert 0 (set (map (rr_days \<circ> snd) receivables)))"
proof -
  obtain r rs where r: "receivables = r # rs" using assms by (cases receivables) auto
  let ?x = "if contamination then worst_receivable receivables else largest_receivable receivables"
  have "?x \<in> set receivables"
    using foldl_worse [of r rs] foldl_larger [of r rs] by (simp add: worst_receivable_def largest_receivable_def r)
  moreover have "\<forall>y \<in> set receivables. if contamination then severity y < severity ?x \<or> severity y = severity ?x \<and> exposure_of y \<le> exposure_of ?x
      else exposure_of y \<le> exposure_of ?x"
    using foldl_worse [of r rs] foldl_larger [of r rs] by (auto simp: worst_receivable_def largest_receivable_def r)
  moreover have "ar_driver (rate_account receivables best contamination) = Some (fst ?x)"
    "ar_band (rate_account receivables best contamination) = rr_band (snd ?x)"
    "ar_exposure (rate_account receivables best contamination) = (\<Sum>y \<leftarrow> receivables. rr_exposure (snd y))"
    "ar_provision (rate_account receivables best contamination) = (\<Sum>y \<leftarrow> receivables. rr_provision (snd y))"
    "ar_worst_days (rate_account receivables best contamination) = Max (insert 0 (set (map (rr_days \<circ> snd) receivables)))"
    using assms by (simp_all add: rate_account_def Let_def foldl_sum foldl_max comp_def)
  ultimately show ?thesis by blast
qed

definition demo_rated :: "rated_receivable list" where
  "demo_rated = [(''r1'', \<lparr>rr_band = demo_band ''A'' 0 0 (Some 5) 0, rr_days = 1, rr_exposure = 900, rr_provision = 0, rr_reason = DaysPastDue\<rparr>),
     (''r2'', \<lparr>rr_band = demo_band ''B'' 1 6 (Some 30) (1 / 20), rr_days = 9, rr_exposure = 100, rr_provision = 5, rr_reason = DaysPastDue\<rparr>)]"

lemma account_takes_the_worst_witness:
  "ar_exposure (rate_account demo_rated (demo_band ''A'' 0 0 (Some 5) 0) True) = 1000"
  using account_takes_the_worst [of demo_rated "demo_band ''A'' 0 0 (Some 5) 0" True] by (auto simp: demo_rated_def)

section \<open>One current rating\<close>

definition current_ratings :: "rating_book \<Rightarrow> ident \<Rightarrow> receivable_rating_row list" where
  "current_ratings b i = filter (\<lambda>r. rating_receivable r = i \<and> rating_is_current r) (rb_receivable_ratings b)"

definition current_account_ratings :: "rating_book \<Rightarrow> ident \<Rightarrow> account_rating_row list" where
  "current_account_ratings b a = filter (\<lambda>r. arr_account r = a \<and> arr_is_current r) (rb_account_ratings b)"

definition one_current :: "rating_book \<Rightarrow> bool" where
  "one_current b = (\<forall>i. length (current_ratings b i) \<le> 1 \<and> length (current_account_ratings b i) \<le> 1)"

text \<open>A new current row takes the place of the one it supersedes, and of no other.\<close>

lemma superseded:
  assumes "\<And>r. key (off r) = key r" "\<And>r. \<not> current (off r)" "current x"
  shows "filter (\<lambda>r. key r = i \<and> current r) (map (\<lambda>r. if key r = key x \<and> current r then off r else r) rows @ [x])
    = (if i = key x then [x] else filter (\<lambda>r. key r = i \<and> current r) rows)"
proof (cases "key x = i")
  case True
  have "filter (\<lambda>r. key r = i \<and> current r) (map (\<lambda>r. if key r = key x \<and> current r then off r else r) rows) = []"
    using assms(1,2) True by (auto simp: filter_empty_conv)
  then show ?thesis using True assms(3) by simp
next
  case False
  have "filter (\<lambda>r. key r = i \<and> current r) (map (\<lambda>r. if key r = key x \<and> current r then off r else r) rows)
      = filter (\<lambda>r. key r = i \<and> current r) rows"
    using assms(1) False by (induction rows) auto
  with False show ?thesis by auto
qed

lemma current_supersede:
  "rating_is_current x \<Longrightarrow> current_ratings (supersede_receivable_rating x b) i = (if i = rating_receivable x then [x] else current_ratings b i)"
  "arr_is_current y \<Longrightarrow> current_account_ratings (supersede_account_rating y b) a = (if a = arr_account y then [y] else current_account_ratings b a)"
proof -
  show "current_ratings (supersede_receivable_rating x b) i = (if i = rating_receivable x then [x] else current_ratings b i)"
    if "rating_is_current x"
    using superseded [of rating_receivable "\<lambda>r. r\<lparr>rating_is_current := False\<rparr>" rating_is_current x i "rb_receivable_ratings b"] that
    by (simp add: current_ratings_def supersede_receivable_rating_def)
  show "current_account_ratings (supersede_account_rating y b) a = (if a = arr_account y then [y] else current_account_ratings b a)"
    if "arr_is_current y"
    using superseded [of arr_account "\<lambda>r. r\<lparr>arr_is_current := False\<rparr>" arr_is_current y a "rb_account_ratings b"] that
    by (simp add: current_account_ratings_def supersede_account_rating_def)
qed

text \<open>What rating reads and never changes: the policy, its bands, the receivables and which accounts exist.\<close>

definition same_tables :: "rating_book \<Rightarrow> rating_book \<Rightarrow> bool" where
  "same_tables b b' = (rb_policies b' = rb_policies b \<and> rb_bands b' = rb_bands b \<and> rb_receivables b' = rb_receivables b
     \<and> map rated_account (rb_accounts b') = map rated_account (rb_accounts b))"

lemma same_tables_trans: "same_tables a b \<Longrightarrow> same_tables b c \<Longrightarrow> same_tables a c"
  by (simp add: same_tables_def)

lemma rate_receivables_effect:
  assumes "rate_receivables policy bands account now rs b = Inr (rated, b')" "distinct (map or_id rs)"
  shows "(\<forall>r \<in> set rs. \<exists>x. current_ratings b' (or_id r) = [x] \<and> rating_account x = account \<and> rated_at x = now)
    \<and> (\<forall>i. i \<notin> or_id ` set rs \<longrightarrow> current_ratings b' i = current_ratings b i)
    \<and> rb_account_ratings b' = rb_account_ratings b \<and> same_tables b b'"
  using assms
proof (induction rs arbitrary: b rated)
  case Nil
  then show ?case by (simp add: same_tables_def)
next
  case (Cons r rs)
  from Cons.prems(1) obtain row rest where
    run: "rate_receivables policy bands account now rs (supersede_receivable_rating row b) = Inr (rest, b')"
    and row: "rating_receivable row = or_id r" "rating_account row = account" "rated_at row = now" "rating_is_current row"
    by (force simp: and_then_eq_Inr Let_def)
  note ih = Cons.IH [OF run]
  have s: "rb_account_ratings (supersede_receivable_rating row b) = rb_account_ratings b" "same_tables b (supersede_receivable_rating row b)"
    by (simp_all add: supersede_receivable_rating_def same_tables_def)
  have "current_ratings b' (or_id r) = [row]"
    using ih Cons.prems(2) row by (auto simp: current_supersede)
  moreover have "current_ratings b' i = current_ratings b i" if "i \<notin> or_id ` set (r # rs)" for i
    using ih Cons.prems(2) row that by (auto simp: current_supersede)
  ultimately show ?case using ih Cons.prems(2) row s same_tables_trans by auto
qed

lemma rate_receivables_fails:
  "rate_receivables policy bands account now rs b = Inl e \<Longrightarrow> rate_receivables policy bands account now rs c = Inl e"
proof (induction rs arbitrary: b c)
  case (Cons r rs)
  then show ?case by (auto simp: and_then_def Let_def split: sum.splits)
qed simp

lemma find_by_exists: "(find_by key k xs = None) = (k \<notin> set (map key xs))"
  by (auto simp: find_by_None)

lemma rate_account_fails_iff:
  "(\<exists>e. rate_account_by_id account now b = Inl e) =
     (find_by rated_account account (rb_accounts b) = None
      \<or> (case resolve_policy b of Inl e \<Rightarrow> True
          | Inr (policy, bands) \<Rightarrow> \<exists>e. rate_receivables policy bands account now (find_open_receivables b account) b = Inl e))"
  by (cases "find_by rated_account account (rb_accounts b)"; cases "resolve_policy b";
      cases "rate_receivables (fst (projr (resolve_policy b))) (snd (projr (resolve_policy b))) account now (find_open_receivables b account) b")
    (auto simp: rate_account_by_id_def and_then_def split_beta Let_def)

lemma rate_account_fails:
  assumes "same_tables b c"
  shows "(\<exists>e. rate_account_by_id account now b = Inl e) = (\<exists>e. rate_account_by_id account now c = Inl e)"
proof -
  have "(find_by rated_account account (rb_accounts b) = None) = (find_by rated_account account (rb_accounts c) = None)"
    using assms by (simp add: find_by_exists same_tables_def)
  moreover have "resolve_policy b = resolve_policy c" "find_open_receivables b account = find_open_receivables c account"
    using assms by (simp_all add: resolve_policy_def find_active_policy_def find_bands_def find_open_receivables_def same_tables_def)
  moreover have "(\<exists>e. rate_receivables policy bands account now rs b = Inl e) = (\<exists>e. rate_receivables policy bands account now rs c = Inl e)"
    for policy bands rs using rate_receivables_fails by blast
  ultimately show ?thesis unfolding rate_account_fails_iff by (simp split: sum.split prod.split)
qed

lemma rate_account_effect:
  assumes run: "rate_account_by_id account now b = Inr (v, b')" and ids: "distinct (map or_id (rb_receivables b))"
  shows "(\<exists>x. current_account_ratings b' account = [x] \<and> arr_rated_at x = now)
    \<and> (\<forall>a. a \<noteq> account \<longrightarrow> current_account_ratings b' a = current_account_ratings b a)
    \<and> (\<forall>r \<in> set (find_open_receivables b account).
         \<exists>x. current_ratings b' (or_id r) = [x] \<and> rating_account x = account \<and> rated_at x = now)
    \<and> (\<forall>i. i \<notin> or_id ` set (find_open_receivables b account) \<longrightarrow> current_ratings b' i = current_ratings b i)
    \<and> same_tables b b'"
proof -
  from run obtain policy bands rated b1 where
    r: "rate_receivables policy bands account now (find_open_receivables b account) b = Inr (rated, b1)"
    and b': "b' = project_grade_on_account account
      (grade (ar_band (arr_rating (fst (persist_account_rating account rated policy bands now b1))))) now
      (snd (persist_account_rating account rated policy bands now b1))"
    by (auto simp: rate_account_by_id_def and_then_eq_Inr split_beta Let_def)
  have "distinct (map or_id (find_open_receivables b account))"
    unfolding find_open_receivables_def using ids by (rule distinct_map_sort_filter)
  note e = rate_receivables_effect [OF r this]
  define row where "row = fst (persist_account_rating account rated policy bands now b1)"
  have row: "arr_account row = account" "arr_rated_at row = now" "arr_is_current row"
    by (simp_all add: row_def persist_account_rating_def Let_def)
  have "snd (persist_account_rating account rated policy bands now b1) = supersede_account_rating row b1"
    by (simp add: row_def persist_account_rating_def Let_def)
  then have b'': "b' = project_grade_on_account account (grade (ar_band (arr_rating row))) now (supersede_account_rating row b1)"
    by (simp add: b' row_def)
  have "current_ratings b' i = current_ratings b1 i"
    "current_account_ratings b' a = current_account_ratings (supersede_account_rating row b1) a" for i a
    by (simp_all add: b'' current_ratings_def current_account_ratings_def project_grade_on_account_def supersede_account_rating_def)
  moreover have "current_account_ratings b1 a = current_account_ratings b a" for a
    using e by (simp add: current_account_ratings_def)
  moreover have "same_tables b1 b'"
    by (simp add: b'' same_tables_def project_grade_on_account_def supersede_account_rating_def update_by_def)
  ultimately show ?thesis using e row same_tables_trans [of b b1 b'] by (auto simp: current_supersede)
qed

text \<open>
  What the sweep has done after some accounts, against the book \<open>b0\<close> it started from: an account that was rated and its open
  receivables have one current rating, of this sweep; those of every other account are as they were.
\<close>

definition swept :: "int \<Rightarrow> rating_book \<Rightarrow> ident set \<Rightarrow> rating_book \<Rightarrow> bool" where
  "swept now b0 done b =
     (same_tables b0 b
      \<and> (\<forall>a \<in> done. (\<exists>x. current_account_ratings b a = [x] \<and> arr_rated_at x = now)
           \<and> (\<forall>r \<in> set (find_open_receivables b0 a). \<exists>x. current_ratings b (or_id r) = [x] \<and> rating_account x = a \<and> rated_at x = now))
      \<and> (\<forall>a. a \<notin> done \<longrightarrow> current_account_ratings b a = current_account_ratings b0 a)
      \<and> (\<forall>i. (\<forall>a \<in> done. i \<notin> or_id ` set (find_open_receivables b0 a)) \<longrightarrow> current_ratings b i = current_ratings b0 i))"

lemma open_receivables_apart:
  assumes "distinct (map or_id (rb_receivables b))" "r \<in> set (find_open_receivables b a)" "s \<in> set (find_open_receivables b c)" "or_id r = or_id s"
  shows "a = c"
  using assms unique_row [of or_id "rb_receivables b" r s] by (auto simp: find_open_receivables_def)

lemma swept_step:
  assumes s: "swept now b0 done b" and ids: "distinct (map or_id (rb_receivables b0))" and run: "rate_account_by_id a now b = Inr (v, b')"
  shows "swept now b0 (insert a done) b'"
proof -
  have t: "same_tables b0 b" using s by (simp add: swept_def)
  then have opens: "find_open_receivables b c = find_open_receivables b0 c" for c by (simp add: find_open_receivables_def same_tables_def)
  have "distinct (map or_id (rb_receivables b))" using t ids by (simp add: same_tables_def)
  note e = rate_account_effect [OF run this, unfolded opens]
  have other: "current_ratings b' (or_id r) = current_ratings b (or_id r)" if "r \<in> set (find_open_receivables b0 c)" "c \<noteq> a" for r c
    using e open_receivables_apart [OF ids that(1)] that(2) by blast
  have "(\<exists>x. current_account_ratings b' c = [x] \<and> arr_rated_at x = now)
      \<and> (\<forall>r \<in> set (find_open_receivables b0 c). \<exists>x. current_ratings b' (or_id r) = [x] \<and> rating_account x = c \<and> rated_at x = now)"
    if "c \<in> insert a done" for c
  proof (cases "c = a")
    case True
    with e show ?thesis by blast
  next
    case False
    with that s e other show ?thesis unfolding swept_def by (metis insertE)
  qed
  moreover have "current_account_ratings b' c = current_account_ratings b0 c" if "c \<notin> insert a done" for c
    using that s e unfolding swept_def by auto
  moreover have "current_ratings b' i = current_ratings b0 i" if "\<forall>c \<in> insert a done. i \<notin> or_id ` set (find_open_receivables b0 c)" for i
    using that s e unfolding swept_def by auto
  moreover have "same_tables b0 b'" using t e same_tables_trans by blast
  ultimately show ?thesis unfolding swept_def by blast
qed

lemma rate_accounts_swept:
  assumes "rate_accounts now accounts (k, failures, b) = (k', failures', b')" "swept now b0 done b" "distinct (map or_id (rb_receivables b0))"
  shows "\<exists>bad. failures' = failures @ bad \<and> set bad = {c \<in> set accounts. \<exists>e. rate_account_by_id c now b0 = Inl e}
    \<and> k' + length failures' = k + length failures + length accounts
    \<and> swept now b0 (done \<union> (set accounts - set bad)) b'"
  using assms
proof (induction accounts arbitrary: k failures b "done")
  case (Cons a as)
  have t: "same_tables b0 b" "same_tables b b0" using Cons.prems(2) by (simp_all add: swept_def same_tables_def)
  show ?case
  proof (cases "rate_account_by_id a now b")
    case (Inl e)
    then have fail: "\<exists>e. rate_account_by_id a now b0 = Inl e" unfolding rate_account_fails [OF t(1), of a now] by simp
    from Inl Cons.prems(1) have "rate_accounts now as (k, failures @ [a], b) = (k', failures', b')" by simp
    from Cons.IH [OF this Cons.prems(2,3)] obtain bad where "failures' = failures @ a # bad"
      "set bad = {c \<in> set as. \<exists>e. rate_account_by_id c now b0 = Inl e}"
      "k' + length failures' = k + length failures + length (a # as)" "swept now b0 (done \<union> (set as - set bad)) b'" by auto
    moreover from this(2) fail have "set (a # as) - set (a # bad) = set as - set bad" by auto
    ultimately show ?thesis using fail by (intro exI [of _ "a # bad"]) (simp only:, auto)
  next
    case (Inr x)
    obtain v b1 where x: "x = (v, b1)" by fastforce
    with Inr have run: "rate_account_by_id a now b = Inr (v, b1)" by simp
    have fine: "\<not> (\<exists>e. rate_account_by_id a now b0 = Inl e)" unfolding rate_account_fails [OF t(1), of a now] using run by simp
    from run Cons.prems(1) have "rate_accounts now as (Suc k, failures, b1) = (k', failures', b')" by simp
    from Cons.IH [OF this swept_step [OF Cons.prems(2,3) run] Cons.prems(3)] obtain bad where h: "failures' = failures @ bad"
      "set bad = {c \<in> set as. \<exists>e. rate_account_by_id c now b0 = Inl e}"
      "k' + length failures' = k + length failures + length (a # as)" "swept now b0 (insert a done \<union> (set as - set bad)) b'" by auto
    from h(2) fine have "a \<notin> set bad" "set bad = {c \<in> set (a # as). \<exists>e. rate_account_by_id c now b0 = Inl e}" by auto
    moreover from this(1) have "insert a done \<union> (set as - set bad) = done \<union> (set (a # as) - set bad)" by auto
    ultimately show ?thesis using h by (intro exI [of _ bad]) simp
  qed
qed simp

text \<open>C37: after a sweep every account of its batch that can be rated, and each of its open receivables, has exactly one current
  rating, and it is of this sweep; the accounts reported as failed are exactly those that cannot be rated (an unknown account,
  no valid policy); the current ratings of failed accounts and of accounts outside the batch are the ones they had; and no
  receivable or account anywhere has two.\<close>

theorem sweep_keeps_one_current:
  assumes "one_current b" "distinct (map or_id (rb_receivables b))" "rating_sweep limit now b = (rated, failures, b')"
  shows "one_current b'
    \<and> set failures = {a \<in> set (accounts_with_open_debt limit b). \<exists>e. rate_account_by_id a now b = Inl e}
    \<and> rated + length failures = length (accounts_with_open_debt limit b)
    \<and> (\<forall>a \<in> set (accounts_with_open_debt limit b) - set failures.
         (\<exists>x. current_account_ratings b' a = [x] \<and> arr_rated_at x = now)
         \<and> (\<forall>r \<in> set (find_open_receivables b a). \<exists>x. current_ratings b' (or_id r) = [x] \<and> rating_account x = a \<and> rated_at x = now))
    \<and> (\<forall>a. a \<notin> set (accounts_with_open_debt limit b) \<or> a \<in> set failures \<longrightarrow>
         current_account_ratings b' a = current_account_ratings b a
         \<and> (\<forall>r \<in> set (find_open_receivables b a). current_ratings b' (or_id r) = current_ratings b (or_id r)))"
proof -
  let ?as = "accounts_with_open_debt limit b"
  have "swept now b {} b" by (simp add: swept_def same_tables_def)
  from rate_accounts_swept [OF _ this assms(2), of ?as 0 "[]"] assms(3)
  have h: "set failures = {a \<in> set ?as. \<exists>e. rate_account_by_id a now b = Inl e}" "rated + length failures = length ?as"
    "swept now b (set ?as - set failures) b'" by (auto simp: rating_sweep_def)
  have "length (current_account_ratings b' i) \<le> 1" for i
  proof (cases "i \<in> set ?as - set failures")
    case True
    with h(3) obtain x where "current_account_ratings b' i = [x]" unfolding swept_def by blast
    then show ?thesis by simp
  next
    case False
    with h(3) have "current_account_ratings b' i = current_account_ratings b i" unfolding swept_def by blast
    with assms(1) show ?thesis by (simp add: one_current_def)
  qed
  moreover have "length (current_ratings b' i) \<le> 1" for i
  proof (cases "\<forall>a \<in> set ?as - set failures. i \<notin> or_id ` set (find_open_receivables b a)")
    case True
    with h(3) have "current_ratings b' i = current_ratings b i" unfolding swept_def by blast
    with assms(1) show ?thesis by (simp add: one_current_def)
  next
    case False
    then obtain a r where "a \<in> set ?as - set failures" "r \<in> set (find_open_receivables b a)" "i = or_id r" by blast
    with h(3) obtain x where "current_ratings b' i = [x]" unfolding swept_def by blast
    then show ?thesis by simp
  qed
  ultimately have "one_current b'" by (simp add: one_current_def)
  moreover have "current_account_ratings b' a = current_account_ratings b a
      \<and> (\<forall>r \<in> set (find_open_receivables b a). current_ratings b' (or_id r) = current_ratings b (or_id r))"
    if "a \<notin> set ?as \<or> a \<in> set failures" for a
  proof -
    have a: "a \<notin> set ?as - set failures" using that by blast
    have "\<forall>c \<in> set ?as - set failures. or_id r \<notin> or_id ` set (find_open_receivables b c)" if "r \<in> set (find_open_receivables b a)" for r
      using open_receivables_apart [OF assms(2) that] a by blast
    with a h(3) show ?thesis unfolding swept_def by blast
  qed
  ultimately show ?thesis using h unfolding swept_def by blast
qed

definition demo_rating_book :: rating_book where
  "demo_rating_book = \<lparr>rb_accounts = [\<lparr>rated_account = ''a'', risk_rating_grade = None, risk_rating_updated_at = None\<rparr>],
     rb_policies = [\<lparr>policy_id = ''p'', policy_status = ''ACTIVE'', contamination_enabled = True\<rparr>],
     rb_bands = map (Pair ''p'') demo_scale,
     rb_receivables = [\<lparr>or_id = ''r1'', or_account = ''a'', or_due_day = 10, or_open_cents = 1000, or_status = ''PENDING''\<rparr>,
       \<lparr>or_id = ''r2'', or_account = ''z'', or_due_day = 10, or_open_cents = 1000, or_status = ''PENDING''\<rparr>],
     rb_receivable_ratings = [], rb_account_ratings = []\<rparr>"

lemma sweep_keeps_one_current_witness:
  "\<exists>rated b' x y. rating_sweep 10 (50 * milliseconds_per_day) demo_rating_book = (rated, [''z''], b')
     \<and> current_account_ratings b' ''a'' = [x] \<and> current_ratings b' ''r1'' = [y] \<and> rated_at y = 50 * milliseconds_per_day
     \<and> current_account_ratings b' ''z'' = []"
proof -
  let ?now = "50 * milliseconds_per_day"
  obtain rated failures b' where run: "rating_sweep 10 ?now demo_rating_book = (rated, failures, b')" by (rule prod_cases3)
  have one: "one_current demo_rating_book"
    by (simp add: one_current_def current_ratings_def current_account_ratings_def demo_rating_book_def)
  have d: "distinct (map or_id (rb_receivables demo_rating_book))" "accounts_with_open_debt 10 demo_rating_book = [''a'', ''z'']"
    "fst (snd (rating_sweep 10 ?now demo_rating_book)) = [''z'']" "hd (rb_receivables demo_rating_book) \<in> set (find_open_receivables demo_rating_book ''a'')"
    "or_id (hd (rb_receivables demo_rating_book)) = ''r1''" "current_account_ratings demo_rating_book ''z'' = []"
    by code_simp+
  then have f: "failures = [''z'']" using run by simp
  note h = sweep_keeps_one_current [OF one d(1) run, unfolded d(2) f]
  have a: "''a'' \<in> set [''a'', ''z''] - set [''z'']" by simp
  note ha = bspec [OF conjunct1 [OF conjunct2 [OF conjunct2 [OF conjunct2 [OF h]]]] a]
  note hz = conjunct1 [OF mp [OF spec [of _ "''z''", OF conjunct2 [OF conjunct2 [OF conjunct2 [OF conjunct2 [OF h]]]]]]]
  obtain x where x: "current_account_ratings b' ''a'' = [x]" using conjunct1 [OF ha] by blast
  obtain y where y: "current_ratings b' ''r1'' = [y]" "rated_at y = ?now"
    using bspec [OF conjunct2 [OF ha] d(4)] unfolding d(5) by blast
  have "current_account_ratings b' ''z'' = []" using hz by (simp add: d(6))
  with x y run f show ?thesis by blast
qed

end
