(* ===== verification/Cuf.thy ===== *)
theory Cuf
  imports JsText Prelude
begin

text \<open>
The unique invoice code of the tax authority: \<open>modules/fiscal/siat/domain/cuf.ts\<close>.  The invoice's fields are padded to
fixed widths, a modulo 11 digit is appended, the decimal number is written in hexadecimal and the authority's control code
follows.  The lemmas show that the code is well formed (capital hexadecimal digits) and that it identifies the invoice: two
inputs with one code and control code have the same fields.
\<close>

section \<open>The invoice code\<close>

datatype cuf_error = CufInputError string

text \<open>Numbers and texts of the input are both read through \<open>String(valor)\<close>; the model takes the text.\<close>

record cuf_input =
  cuf_nit :: string
  cuf_fecha_emision :: string
  cuf_sucursal :: string
  cuf_modalidad :: string
  cuf_emision :: string
  cuf_tipo_factura :: string
  cuf_documento_sector :: string
  cuf_numero_factura :: string
  cuf_punto_venta :: string
  cuf_codigo_control :: string

text \<open>The weights 2..9 from the right; a remainder of 10 is written \<open>1\<close>. The test for 11 never holds: the remainder is below 11.\<close>

fun suma_ponderada :: "string \<Rightarrow> nat \<Rightarrow> nat \<Rightarrow> nat" where
  "suma_ponderada [] mult suma = suma"
| "suma_ponderada (c # cs) mult suma =
     suma_ponderada cs (if mult = 9 then 2 else mult + 1) (suma + mult * digit_value c)"

definition modulo11 :: "string \<Rightarrow> string" where
  "modulo11 cadena =
     (let digito = suma_ponderada (rev cadena) 2 0 mod 11
      in if digito = 10 then ''1'' else if digito = 11 then ''0'' else show_nat digito)"

text \<open>\<open>yyyy-MM-ddTHH:mm:ss.SSS\<close>: the digits of the pattern, in order.\<close>

definition fecha_mask :: string where
  "fecha_mask = ''dddd-dd-ddTdd:dd:dd.ddd''"

definition mask_char :: "char \<Rightarrow> char \<Rightarrow> bool" where
  "mask_char m c = (if m = CHR ''d'' then is_digit c else c = m)"

definition matches_mask :: "string \<Rightarrow> string \<Rightarrow> bool" where
  "matches_mask pat s = list_all2 mask_char pat s"

definition fecha_para_cuf :: "string \<Rightarrow> cuf_error + string" where
  "fecha_para_cuf s = (if matches_mask fecha_mask s then Inr (filter is_digit s) else Inl (CufInputError ''fechaEmision''))"

definition relleno :: "string \<Rightarrow> string \<Rightarrow> nat \<Rightarrow> cuf_error + string" where
  "relleno campo valor ancho =
     (let texto = js_trim valor
      in if \<not> all_digits texto \<or> texto = [] \<or> ancho < length texto then Inl (CufInputError campo)
         else Inr (pad_start ancho texto))"

definition cuf_cadena :: "cuf_input \<Rightarrow> cuf_error + string" where
  "cuf_cadena x =
     and_then (relleno ''nit'' (cuf_nit x) 13) (\<lambda>nit.
     and_then (fecha_para_cuf (cuf_fecha_emision x)) (\<lambda>fecha.
     and_then (relleno ''codigoSucursal'' (cuf_sucursal x) 4) (\<lambda>sucursal.
     and_then (relleno ''codigoModalidad'' (cuf_modalidad x) 1) (\<lambda>modalidad.
     and_then (relleno ''codigoEmision'' (cuf_emision x) 1) (\<lambda>emision.
     and_then (relleno ''tipoFacturaDocumento'' (cuf_tipo_factura x) 1) (\<lambda>tipo.
     and_then (relleno ''codigoDocumentoSector'' (cuf_documento_sector x) 2) (\<lambda>sector.
     and_then (relleno ''numeroFactura'' (cuf_numero_factura x) 10) (\<lambda>numero.
     and_then (relleno ''codigoPuntoVenta'' (cuf_punto_venta x) 4) (\<lambda>punto.
     Inr (nit @ fecha @ sucursal @ modalidad @ emision @ tipo @ sector @ numero @ punto))))))))))"

section \<open>Hexadecimal\<close>

definition hex_char :: "nat \<Rightarrow> char" where
  "hex_char d = (if d < 10 then digit_char d else char_of (55 + d))"

definition hex_value :: "char \<Rightarrow> nat" where
  "hex_value c = (if is_digit c then digit_value c else code_unit (upper_char c) - 55)"

definition is_hex :: "char \<Rightarrow> bool" where
  "is_hex c = (is_digit c \<or> c \<in> set ''ABCDEFabcdef'')"

text \<open>\<open>BigInt.prototype.toString(16)\<close>, in capitals: division by 16 until nothing is left.\<close>

fun to_hex :: "nat \<Rightarrow> string" where
  "to_hex n = (if n < 16 then [hex_char n] else to_hex (n div 16) @ [hex_char (n mod 16)])"

declare to_hex.simps [simp del]

definition from_hex :: "string \<Rightarrow> nat" where
  "from_hex s = foldl (\<lambda>n c. 16 * n + hex_value c) 0 s"

definition calcular_cuf :: "cuf_input \<Rightarrow> cuf_error + string" where
  "calcular_cuf x =
     (if cuf_codigo_control x = [] \<or> \<not> list_all is_hex (cuf_codigo_control x) then Inl (CufInputError ''codigoControl'')
      else and_then (cuf_cadena x) (\<lambda>cadena.
        Inr (to_hex (parse_nat (cadena @ modulo11 cadena)) @ cuf_codigo_control x)))"

lemma hex_value_char: "d < 16 \<Longrightarrow> hex_value (hex_char d) = d"
proof -
  have "\<forall>d \<in> set [0..<16]. hex_value (hex_char d) = d" by code_simp
  then show "d < 16 \<Longrightarrow> hex_value (hex_char d) = d" by simp
qed

lemma from_hex_append: "from_hex (s @ [c]) = 16 * from_hex s + hex_value c"
  by (simp add: from_hex_def)

lemma from_to_hex [simp]: "from_hex (to_hex n) = n"
proof (induction n rule: to_hex.induct)
  case (1 n)
  then show ?case
    by (cases "n < 16") (simp_all add: to_hex.simps [of n] from_hex_append hex_value_char, simp add: from_hex_def hex_value_char)
qed

definition capital_hex :: "char \<Rightarrow> bool" where
  "capital_hex c = (c \<in> set ''0123456789ABCDEF'')"

lemma capital_hex_char: "d < 16 \<Longrightarrow> capital_hex (hex_char d)"
proof -
  have "\<forall>d \<in> set [0..<16]. capital_hex (hex_char d)" by code_simp
  then show "d < 16 \<Longrightarrow> capital_hex (hex_char d)" by simp
qed

lemma to_hex_chars: "list_all capital_hex (to_hex n)"
proof (induction n rule: to_hex.induct)
  case (1 n)
  then show ?case
    by (cases "n < 16") (simp_all add: to_hex.simps [of n] capital_hex_char)
qed

section \<open>The code identifies the invoice\<close>

lemma digit_value_inject: "is_digit c \<Longrightarrow> is_digit d \<Longrightarrow> digit_value c = digit_value d \<Longrightarrow> c = d"
  using digit_char_value by metis

lemma parse_nat_inject:
  assumes "all_digits s" "all_digits t" "length s = length t" "parse_nat s = parse_nat t"
  shows "s = t"
  using assms(3,1,2,4)
proof (induction s t rule: list_induct2)
  case (Cons c s d t)
  have b: "parse_nat s < 10 ^ length s" "parse_nat t < 10 ^ length s"
    using parse_nat_bound [of s] parse_nat_bound [of t] Cons by (simp_all add: all_digits_def)
  have e: "digit_value c * 10 ^ length s + parse_nat s = digit_value d * 10 ^ length s + parse_nat t"
    using Cons.prems(3) Cons.hyps by (simp add: parse_nat_Cons)
  have "(digit_value c * 10 ^ length s + parse_nat s) div 10 ^ length s = digit_value c"
    "(digit_value d * 10 ^ length s + parse_nat t) div 10 ^ length s = digit_value d"
    using b by simp_all
  then have "digit_value c = digit_value d" using e by simp
  moreover from this e have "parse_nat s = parse_nat t" by simp
  ultimately show ?case using Cons digit_value_inject by (simp add: all_digits_def)
qed simp

lemma pad_show_parse:
  assumes "all_digits s" "length s = k" "0 < k"
  shows "pad_start k (show_nat (parse_nat s)) = s"
proof (rule parse_nat_inject)
  have "length (show_nat (parse_nat s)) \<le> k" using show_nat_length_le parse_nat_bound assms by metis
  then show "length (pad_start k (show_nat (parse_nat s))) = length s" using assms(2) by simp
qed (use assms in simp_all)

lemma mask_inject:
  assumes "list_all2 mask_char pat s"
    "list_all2 mask_char pat t"
    "list_all (\<lambda>m. \<not> is_digit m) pat" "filter is_digit s = filter is_digit t"
  shows "s = t"
  using assms
proof (induction pat s arbitrary: t rule: list_all2_induct)
  case (Cons m ms c cs)
  then obtain d ds where t: "t = d # ds" "mask_char m d" "list_all2 mask_char ms ds" by (auto simp: list_all2_Cons1)
  have m: "\<not> is_digit m" "list_all (\<lambda>m. \<not> is_digit m) ms" using Cons.prems(2) by auto
  have "c = d \<and> filter is_digit cs = filter is_digit ds"
  proof (cases "m = CHR ''d''")
    case True
    then have "is_digit c" "is_digit d" using Cons.hyps t by (simp_all add: mask_char_def)
    then show ?thesis using Cons.prems(3) t(1) by simp
  next
    case False
    then have "c = m" "d = m" using Cons.hyps t by (simp_all add: mask_char_def)
    then show ?thesis using Cons.prems(3) t(1) m(1) by simp
  qed
  then show ?case using Cons.IH [OF t(3) m(2)] t(1) by simp
qed simp

lemma fecha_inject:
  assumes "fecha_para_cuf s = Inr f" "fecha_para_cuf t = Inr f"
  shows "s = t"
proof (rule mask_inject [of fecha_mask])
  show "list_all (\<lambda>m. \<not> is_digit m) fecha_mask" by code_simp
qed (use assms in \<open>auto simp: fecha_para_cuf_def matches_mask_def split: if_splits\<close>)

lemma fecha_length:
  assumes "fecha_para_cuf s = Inr f"
  shows "length f = 17 \<and> all_digits f"
proof -
  have m: "list_all2 mask_char fecha_mask s" "f = filter is_digit s"
    using assms by (auto simp: fecha_para_cuf_def matches_mask_def split: if_splits)
  have "length (filter is_digit s) = length (filter (\<lambda>m. m = CHR ''d'') pat)"
    if "list_all2 mask_char pat s" "list_all (\<lambda>m. \<not> is_digit m) pat" for pat
    using that by (induction pat s rule: list_all2_induct) (auto simp: mask_char_def)
  from this [OF m(1)] have "length (filter is_digit s) = length (filter (\<lambda>m. m = CHR ''d'') fecha_mask)" by (simp add: fecha_mask_def is_digit_def code_unit_def)
  then show ?thesis unfolding m(2) by (simp add: fecha_mask_def all_digits_def list_all_iff)
qed

lemma relleno_Inr:
  assumes "relleno campo v n = Inr t"
  shows "length t = n" "all_digits t" "parse_nat t = parse_nat (js_trim v)" "n = 0 \<Longrightarrow> False"
  using assms by (auto simp: relleno_def Let_def split: if_splits)

lemma modulo11_digit: "length (modulo11 s) = 1 \<and> all_digits (modulo11 s)"
proof -
  define d where "d = suma_ponderada (rev s) 2 0 mod 11"
  have "d < 11" by (simp add: d_def)
  then have "length (show_nat d) = 1" if "d \<noteq> 10" using that by (simp add: show_nat.simps [of d])
  then have "length (if d = 10 then ''1'' else if d = 11 then ''0'' else show_nat d) = 1
      \<and> all_digits (if d = 10 then ''1'' else if d = 11 then ''0'' else show_nat d)"
    using \<open>d < 11\<close> by (cases "d = 10") (simp_all, simp add: all_digits_def is_digit_def code_unit_def)
  then show ?thesis unfolding modulo11_def Let_def d_def .
qed

text \<open>What a CUF says of an invoice: the numbers of its fields and the text of its date.\<close>

definition cuf_identity :: "cuf_input \<Rightarrow> nat list \<times> string" where
  "cuf_identity x =
     (map (\<lambda>f. parse_nat (js_trim (f x))) [cuf_nit, cuf_sucursal, cuf_modalidad, cuf_emision, cuf_tipo_factura,
        cuf_documento_sector, cuf_numero_factura, cuf_punto_venta], cuf_fecha_emision x)"

lemma cuf_cadena_Inr:
  assumes "cuf_cadena x = Inr s"
  obtains nit fecha sucursal modalidad emision tipo sector numero punto where
    "s = nit @ fecha @ sucursal @ modalidad @ emision @ tipo @ sector @ numero @ punto"
    "fecha_para_cuf (cuf_fecha_emision x) = Inr fecha"
    "relleno ''nit'' (cuf_nit x) 13 = Inr nit" "relleno ''codigoSucursal'' (cuf_sucursal x) 4 = Inr sucursal"
    "relleno ''codigoModalidad'' (cuf_modalidad x) 1 = Inr modalidad" "relleno ''codigoEmision'' (cuf_emision x) 1 = Inr emision"
    "relleno ''tipoFacturaDocumento'' (cuf_tipo_factura x) 1 = Inr tipo"
    "relleno ''codigoDocumentoSector'' (cuf_documento_sector x) 2 = Inr sector"
    "relleno ''numeroFactura'' (cuf_numero_factura x) 10 = Inr numero"
    "relleno ''codigoPuntoVenta'' (cuf_punto_venta x) 4 = Inr punto"
  using assms unfolding cuf_cadena_def by (auto simp: and_then_eq_Inr)

lemma cuf_cadena_shape: "cuf_cadena x = Inr s \<Longrightarrow> length s = 53 \<and> all_digits s"
  by (erule cuf_cadena_Inr) (use relleno_Inr(1,2) fecha_length in \<open>simp add: all_digits_append\<close>)

lemma cuf_cadena_identity:
  assumes "cuf_cadena x = Inr s" "cuf_cadena y = Inr s"
  shows "cuf_identity x = cuf_identity y"
proof -
  from cuf_cadena_Inr [OF assms(1)] obtain nit fecha sucursal modalidad emision tipo sector numero punto where
    x: "s = nit @ fecha @ sucursal @ modalidad @ emision @ tipo @ sector @ numero @ punto"
    "fecha_para_cuf (cuf_fecha_emision x) = Inr fecha"
    "relleno ''nit'' (cuf_nit x) 13 = Inr nit" "relleno ''codigoSucursal'' (cuf_sucursal x) 4 = Inr sucursal"
    "relleno ''codigoModalidad'' (cuf_modalidad x) 1 = Inr modalidad" "relleno ''codigoEmision'' (cuf_emision x) 1 = Inr emision"
    "relleno ''tipoFacturaDocumento'' (cuf_tipo_factura x) 1 = Inr tipo"
    "relleno ''codigoDocumentoSector'' (cuf_documento_sector x) 2 = Inr sector"
    "relleno ''numeroFactura'' (cuf_numero_factura x) 10 = Inr numero"
    "relleno ''codigoPuntoVenta'' (cuf_punto_venta x) 4 = Inr punto" .
  from cuf_cadena_Inr [OF assms(2)] obtain nit' fecha' sucursal' modalidad' emision' tipo' sector' numero' punto' where
    y: "s = nit' @ fecha' @ sucursal' @ modalidad' @ emision' @ tipo' @ sector' @ numero' @ punto'"
    "fecha_para_cuf (cuf_fecha_emision y) = Inr fecha'"
    "relleno ''nit'' (cuf_nit y) 13 = Inr nit'" "relleno ''codigoSucursal'' (cuf_sucursal y) 4 = Inr sucursal'"
    "relleno ''codigoModalidad'' (cuf_modalidad y) 1 = Inr modalidad'" "relleno ''codigoEmision'' (cuf_emision y) 1 = Inr emision'"
    "relleno ''tipoFacturaDocumento'' (cuf_tipo_factura y) 1 = Inr tipo'"
    "relleno ''codigoDocumentoSector'' (cuf_documento_sector y) 2 = Inr sector'"
    "relleno ''numeroFactura'' (cuf_numero_factura y) 10 = Inr numero'"
    "relleno ''codigoPuntoVenta'' (cuf_punto_venta y) 4 = Inr punto'" .
  note lx = x(3-10) [THEN relleno_Inr(1)] and ly = y(3-10) [THEN relleno_Inr(1)]
  have l: "length fecha = 17" "length fecha' = 17" using x(2) y(2) fecha_length by auto
  have "nit = nit' \<and> fecha = fecha' \<and> sucursal = sucursal' \<and> modalidad = modalidad' \<and> emision = emision' \<and> tipo = tipo'
      \<and> sector = sector' \<and> numero = numero' \<and> punto = punto'"
    using x(1) y(1) lx ly l by (simp add: append_eq_append_conv)
  then show ?thesis
    using fecha_inject x(2) y(2) x(3-10) [THEN relleno_Inr(3), symmetric] y(3-10) [THEN relleno_Inr(3), symmetric]
    by (simp add: cuf_identity_def)
qed

text \<open>C38: the code of an invoice is capital hexadecimal followed by the control code, reading it back gives the padded
  fields and their check digit, and two invoices with the same code and control code have the same issuer, date, branch,
  mode, type, sector, number and point of sale.\<close>

theorem cuf_identifies_the_invoice:
  assumes "calcular_cuf x = Inr cuf"
  shows "(\<exists>body cadena. cuf = body @ cuf_codigo_control x \<and> list_all capital_hex body \<and> cuf_cadena x = Inr cadena
      \<and> pad_start 54 (show_nat (from_hex body)) = cadena @ modulo11 cadena)
    \<and> (calcular_cuf y = Inr cuf \<longrightarrow> cuf_codigo_control y = cuf_codigo_control x \<longrightarrow> cuf_identity x = cuf_identity y)"
proof -
  have body: "\<exists>cadena. cuf_cadena z = Inr cadena \<and> cuf = to_hex (parse_nat (cadena @ modulo11 cadena)) @ cuf_codigo_control z"
    if "calcular_cuf z = Inr cuf" for z
    using that by (auto simp: calcular_cuf_def and_then_eq_Inr split: if_splits)
  have pad: "pad_start 54 (show_nat (parse_nat (cadena @ modulo11 cadena))) = cadena @ modulo11 cadena" if "cuf_cadena z = Inr cadena" for z cadena
    using cuf_cadena_shape [OF that] modulo11_digit [of cadena] by (intro pad_show_parse) simp_all
  obtain c where c: "cuf_cadena x = Inr c" "cuf = to_hex (parse_nat (c @ modulo11 c)) @ cuf_codigo_control x"
    using body [OF assms] by blast
  have "cuf_identity x = cuf_identity y" if y: "calcular_cuf y = Inr cuf" "cuf_codigo_control y = cuf_codigo_control x"
  proof -
    obtain d where d: "cuf_cadena y = Inr d" "cuf = to_hex (parse_nat (d @ modulo11 d)) @ cuf_codigo_control y"
      using body [OF y(1)] by blast
    with c y(2) have "to_hex (parse_nat (c @ modulo11 c)) = to_hex (parse_nat (d @ modulo11 d))" by simp
    then have "parse_nat (c @ modulo11 c) = parse_nat (d @ modulo11 d)" using from_to_hex by metis
    then have "c @ modulo11 c = d @ modulo11 d" using pad [OF c(1)] pad [OF d(1)] by metis
    then have "take 53 (c @ modulo11 c) = take 53 (d @ modulo11 d)" by (rule arg_cong)
    then have "c = d" using cuf_cadena_shape [OF c(1)] cuf_cadena_shape [OF d(1)] by simp
    then show ?thesis using cuf_cadena_identity [OF c(1)] d(1) by simp
  qed
  with c pad [OF c(1)] show ?thesis by (auto simp: to_hex_chars)
qed

text \<open>The first example the tax authority publishes.\<close>

definition official_invoice :: cuf_input where
  "official_invoice = \<lparr>cuf_nit = ''123456789'', cuf_fecha_emision = ''2019-01-13T16:37:21.231'', cuf_sucursal = ''0'',
     cuf_modalidad = ''1'', cuf_emision = ''1'', cuf_tipo_factura = ''1'', cuf_documento_sector = ''1'',
     cuf_numero_factura = ''1'', cuf_punto_venta = ''0'', cuf_codigo_control = ''A19E23EF34124CD''\<rparr>"

lemma hex_chars:
  "hex_char (Suc 0) = CHR ''1''" "hex_char 0 = CHR ''0''" "hex_char 1 = CHR ''1''" "hex_char 2 = CHR ''2''" "hex_char 3 = CHR ''3''" "hex_char 4 = CHR ''4''" "hex_char 5 = CHR ''5''" "hex_char 6 = CHR ''6''" "hex_char 7 = CHR ''7''" "hex_char 8 = CHR ''8''" "hex_char 9 = CHR ''9''" "hex_char 10 = CHR ''A''" "hex_char 11 = CHR ''B''" "hex_char 12 = CHR ''C''" "hex_char 13 = CHR ''D''" "hex_char 14 = CHR ''E''" "hex_char 15 = CHR ''F''"
  by code_simp+

lemma official_code: "calcular_cuf official_invoice = Inr ''8727F63A15F8976591FDDE5B387C5D015A29E06A1A19E23EF34124CD''"
proof -
  have c: "cuf_cadena official_invoice = Inr ''00001234567892019011316372123100001110100000000010000''" by code_simp
  have m: "modulo11 ''00001234567892019011316372123100001110100000000010000'' = ''1''" by code_simp
  have p: "parse_nat ''000012345678920190113163721231000011101000000000100001'' = 12345678920190113163721231000011101000000000100001"
    by (simp add: parse_nat_def digit_value_def code_unit_def)
  have h: "to_hex 12345678920190113163721231000011101000000000100001 = ''8727F63A15F8976591FDDE5B387C5D015A29E06A1''"
    by (simp add: to_hex.simps hex_chars)
  have k: "cuf_codigo_control official_invoice = ''A19E23EF34124CD''" "list_all is_hex ''A19E23EF34124CD''" by code_simp+
  show ?thesis by (simp add: calcular_cuf_def c k(1) m p h is_hex_def is_digit_def code_unit_def)
qed

lemma cuf_identifies_the_invoice_witness:
  "\<exists>body. ''8727F63A15F8976591FDDE5B387C5D015A29E06A1A19E23EF34124CD'' = body @ ''A19E23EF34124CD'' \<and> list_all capital_hex body"
  using cuf_identifies_the_invoice [OF official_code] unfolding official_invoice_def cuf_input.simps by blast

end
