(* ===== verification/MontoLiteral.thy ===== *)
theory MontoLiteral
  imports JsText Prelude
begin

text \<open>
Amounts in words on the printed invoice: \<open>modules/fiscal/siat/domain/monto-literal.ts\<close>.  The recursion on thousands and
millions is modelled with its termination proof; a reader of the words inverts it below a million.
\<close>

section \<open>Numbers in words\<close>

definition unidades :: "string list" where
  "unidades = ['''', ''uno'', ''dos'', ''tres'', ''cuatro'', ''cinco'', ''seis'', ''siete'', ''ocho'', ''nueve'', ''diez'',
     ''once'', ''doce'', ''trece'', ''catorce'', ''quince'', ''diecis'' @ [CHR 0xE9] @ ''is'', ''diecisiete'', ''dieciocho'',
     ''diecinueve'', ''veinte'', ''veintiuno'', ''veintid'' @ [CHR 0xF3] @ ''s'', ''veintitr'' @ [CHR 0xE9] @ ''s'',
     ''veinticuatro'', ''veinticinco'', ''veintis'' @ [CHR 0xE9] @ ''is'', ''veintisiete'', ''veintiocho'', ''veintinueve'']"

definition decenas :: "string list" where
  "decenas = ['''', '''', '''', ''treinta'', ''cuarenta'', ''cincuenta'', ''sesenta'', ''setenta'', ''ochenta'', ''noventa'']"

definition centenas :: "string list" where
  "centenas = ['''', ''ciento'', ''doscientos'', ''trescientos'', ''cuatrocientos'', ''quinientos'', ''seiscientos'',
     ''setecientos'', ''ochocientos'', ''novecientos'']"

text \<open>Called with numbers below a thousand only.\<close>

definition decenas_en_letras :: "nat \<Rightarrow> string" where
  "decenas_en_letras resto =
     (if resto < 30 then unidades ! resto
      else decenas ! (resto div 10) @ (if resto mod 10 \<noteq> 0 then '' y '' @ unidades ! (resto mod 10) else ''''))"

definition hasta_mil :: "nat \<Rightarrow> string" where
  "hasta_mil n =
     (if n = 0 then '''' else if n = 100 then ''cien''
      else
        (let texto = centenas ! (n div 100); resto = n mod 100
         in if 0 < resto then (if texto \<noteq> '''' then texto @ '' '' @ decenas_en_letras resto else decenas_en_letras resto)
            else texto))"

text \<open>The two replacements, each anchored at the end of the text: \<open>/(^|\s)uno$/\<close> and \<open>/veintiuno$/\<close>.\<close>

definition apocope_uno :: "string \<Rightarrow> string" where
  "apocope_uno s =
     (if take 3 (rev s) = ''onu'' \<and> (length s = 3 \<or> js_space (rev s ! 3)) then butlast s else s)"

definition apocope_veintiuno :: "string \<Rightarrow> string" where
  "apocope_veintiuno s =
     (if take 9 (rev s) = rev ''veintiuno'' then take (length s - 9) s @ ''veinti'' @ [CHR 0xFA] @ ''n'' else s)"

definition apocope :: "string \<Rightarrow> string" where
  "apocope s = apocope_veintiuno (apocope_uno s)"

definition join_space :: "string list \<Rightarrow> string" where
  "join_space partes = (case partes of [] \<Rightarrow> [] | p # ps \<Rightarrow> foldl (\<lambda>s q. s @ '' '' @ q) p ps)"

text \<open>The text, or \<open>None\<close> for the range error.\<close>

function entero_en_letras :: "int \<Rightarrow> string option" where
  "entero_en_letras n =
     (if n < 0 \<or> 999999999999 < n then None
      else if n = 0 then Some ''cero''
      else
        (let millones = n div 1000000; miles = nat (n mod 1000000 div 1000); resto = nat (n mod 1000);
             cola = (if 0 < miles then [if miles = 1 then ''mil'' else apocope (hasta_mil miles) @ '' mil''] else [])
                  @ (if 0 < resto then [hasta_mil resto] else [])
         in if millones = 0 then Some (join_space cola)
            else if millones = 1 then Some (join_space ((''un mill'' @ [CHR 0xF3] @ ''n'') # cola))
            else (case entero_en_letras millones of
                    None \<Rightarrow> None
                  | Some letras \<Rightarrow> Some (join_space ((apocope letras @ '' millones'') # cola)))))"
  by pat_completeness auto

text \<open>The number of millions is smaller than the number.\<close>

termination entero_en_letras
  by (relation "measure nat") auto

declare entero_en_letras.simps [simp del]

section \<open>Reading the words back\<close>

fun words :: "string \<Rightarrow> string list" where
  "words [] = [[]]"
| "words (c # s) = (if c = CHR '' '' then [] # words s else (c # hd (words s)) # tl (words s))"

definition numerals :: "(string \<times> nat) list" where
  "numerals =
    [(''uno'', 1), (''dos'', 2), (''tres'', 3), (''cuatro'', 4), (''cinco'', 5),
     (''seis'', 6), (''siete'', 7), (''ocho'', 8), (''nueve'', 9), (''diez'', 10),
     (''once'', 11), (''doce'', 12), (''trece'', 13), (''catorce'', 14), (''quince'', 15),
     (''diecis'' @ [CHR 0xE9] @ ''is'', 16), (''diecisiete'', 17), (''dieciocho'', 18), (''diecinueve'', 19), (''veinte'', 20),
     (''veintiuno'', 21), (''veintid'' @ [CHR 0xF3] @ ''s'', 22), (''veintitr'' @ [CHR 0xE9] @ ''s'', 23), (''veinticuatro'', 24), (''veinticinco'', 25),
     (''veintis'' @ [CHR 0xE9] @ ''is'', 26), (''veintisiete'', 27), (''veintiocho'', 28), (''veintinueve'', 29), (''treinta'', 30),
     (''cuarenta'', 40), (''cincuenta'', 50), (''sesenta'', 60), (''setenta'', 70), (''ochenta'', 80),
     (''noventa'', 90), (''ciento'', 100), (''doscientos'', 200), (''trescientos'', 300), (''cuatrocientos'', 400),
     (''quinientos'', 500), (''seiscientos'', 600), (''setecientos'', 700), (''ochocientos'', 800), (''novecientos'', 900),
     (''cien'', 100), (''un'', 1), (''veinti'' @ [CHR 0xFA] @ ''n'', 21), (''y'', 0)]"

definition numeral_value :: "string \<Rightarrow> nat option" where
  "numeral_value w = map_of numerals w"

text \<open>Millions, thousands and units read so far.\<close>

fun read_word :: "string \<Rightarrow> nat \<times> nat \<times> nat \<Rightarrow> nat \<times> nat \<times> nat" where
  "read_word w (mill, mil, cur) =
     (if w = ''millones'' \<or> w = ''mill'' @ [CHR 0xF3] @ ''n'' then (mil + cur, 0, 0)
      else if w = ''mil'' then (mill, 1000 * (if cur = 0 then 1 else cur), 0)
      else (mill, mil, cur + (case numeral_value w of Some v \<Rightarrow> v | None \<Rightarrow> 0)))"

definition read_words :: "string list \<Rightarrow> nat \<times> nat \<times> nat \<Rightarrow> nat \<times> nat \<times> nat" where
  "read_words ws st = fold read_word ws st"

definition letras_value :: "string \<Rightarrow> nat" where
  "letras_value s = (case read_words (words s) (0, 0, 0) of (mill, mil, cur) \<Rightarrow> 1000000 * mill + mil + cur)"

definition small :: "nat \<Rightarrow> string \<Rightarrow> bool" where
  "small n s = (list_all (\<lambda>w. w \<noteq> ''millones'' \<and> w \<noteq> ''mill'' @ [CHR 0xF3] @ ''n'' \<and> w \<noteq> ''mil'' \<and> numeral_value w \<noteq> None) (words s)
     \<and> sum_list (map (\<lambda>w. the (numeral_value w)) (words s)) = n)"

subsection \<open>Words below a thousand\<close>

lemma words_nonempty [simp]: "words s \<noteq> []"
  by (cases s) simp_all

lemma words_join: "words (s @ '' '' @ t) = words s @ words t"
  by (induction s) (simp_all add: hd_append tl_append split: list.splits)

lemma small_join: "small a s \<Longrightarrow> small b t \<Longrightarrow> small (a + b) (s @ '' '' @ t)"
  unfolding small_def words_join by simp

lemma read_small: "small n s \<Longrightarrow> read_words (words s) (mill, mil, cur) = (mill, mil, cur + n)"
proof -
  have "list_all (\<lambda>w. w \<noteq> ''millones'' \<and> w \<noteq> ''mill'' @ [CHR 0xF3] @ ''n'' \<and> w \<noteq> ''mil'' \<and> numeral_value w \<noteq> None) ws
     \<Longrightarrow> fold read_word ws (mill, mil, cur) = (mill, mil, cur + sum_list (map (\<lambda>w. the (numeral_value w)) ws))" for ws
    by (induction ws arbitrary: cur) auto
  then show "small n s \<Longrightarrow> read_words (words s) (mill, mil, cur) = (mill, mil, cur + n)"
    unfolding small_def read_words_def by blast
qed

lemma unit_table: "list_all (\<lambda>n. small n (unidades ! n) \<and> small n (apocope (unidades ! n)) \<and> unidades ! n \<noteq> []) [1..<30]"
  by code_simp

lemma ten_table: "list_all (\<lambda>n. small (10 * n) (decenas ! n) \<and> small (10 * n) (apocope (decenas ! n)) \<and> decenas ! n \<noteq> []) [3..<10]"
  by code_simp

lemma hundred_table: "list_all (\<lambda>n. small (100 * n) (centenas ! n) \<and> small (100 * n) (apocope (centenas ! n)) \<and> centenas ! n \<noteq> []) [1..<10]"
  by code_simp

lemma other_words: "small 100 ''cien'' \<and> small 100 (apocope ''cien'') \<and> small 0 ''y'' \<and> apocope ''mil'' = ''mil''"
  by code_simp

lemma take_rev_join:
  assumes "CHR '' '' \<notin> set w" "length w = k"
  shows "take k (rev (s @ '' '' @ t)) = w \<longleftrightarrow> take k (rev t) = w"
proof (cases "k \<le> length t")
  case False
  then have "take k (rev (s @ '' '' @ t)) ! length t = CHR '' ''" "length t < length (take k (rev (s @ '' '' @ t)))"
    by (simp_all add: nth_append)
  then have "CHR '' '' \<in> set (take k (rev (s @ '' '' @ t)))" by (metis nth_mem)
  then have "take k (rev (s @ '' '' @ t)) \<noteq> w" using assms(1) by blast
  moreover have "length (take k (rev t)) < k" using False by simp
  then have "take k (rev t) \<noteq> w" using assms(2) by auto
  ultimately show ?thesis by simp
qed simp

lemma apocope_uno_join:
  assumes "t \<noteq> []" shows "apocope_uno (s @ '' '' @ t) = s @ '' '' @ apocope_uno t"
proof (cases "take 3 (rev t) = ''onu''")
  case True
  have "length (take 3 (rev t)) = 3" unfolding True by simp
  then have l: "3 \<le> length t" by simp
  have "take 3 (rev (s @ '' '' @ t)) = ''onu''" using True l by simp
  moreover have "length t = 3 \<or> js_space (rev (s @ '' '' @ t) ! 3) = js_space (rev t ! 3)" using l by (auto simp: nth_append)
  moreover have "length t = 3 \<Longrightarrow> js_space (rev (s @ '' '' @ t) ! 3)" by (simp add: nth_append js_space_def code_unit_def)
  ultimately show ?thesis using True l assms by (auto simp: apocope_uno_def butlast_append)
next
  case False
  then have "take 3 (rev (s @ '' '' @ t)) \<noteq> ''onu''" using take_rev_join [of "''onu''" 3 s t] by simp
  with False show ?thesis by (simp add: apocope_uno_def)
qed

lemma apocope_veintiuno_join: "apocope_veintiuno (s @ '' '' @ t) = s @ '' '' @ apocope_veintiuno t"
proof (cases "take 9 (rev t) = rev ''veintiuno''")
  case True
  have "length (take 9 (rev t)) = 9" unfolding True by simp
  then have l: "9 \<le> length t" by simp
  have "take 9 (rev (s @ '' '' @ t)) = rev ''veintiuno''" using True l by simp
  moreover obtain j where "length t = j + 9" using l by (metis le_add_diff_inverse2)
  ultimately show ?thesis using True by (simp add: apocope_veintiuno_def take_Cons')
next
  case False
  then have "take 9 (rev (s @ '' '' @ t)) \<noteq> rev ''veintiuno''" using take_rev_join [of "rev ''veintiuno''" 9 s t] by simp
  with False show ?thesis by (simp add: apocope_veintiuno_def)
qed

lemma apocope_uno_nonempty: "t \<noteq> [] \<Longrightarrow> apocope_uno t \<noteq> []"
  by (auto simp: apocope_uno_def butlast_conv_take take_Cons')

lemma apocope_join:
  assumes "t \<noteq> []" shows "apocope (s @ '' '' @ t) = s @ '' '' @ apocope t"
  unfolding apocope_def apocope_uno_join [OF assms] by (rule apocope_veintiuno_join)

definition readable :: "nat \<Rightarrow> string \<Rightarrow> bool" where
  "readable n s = (small n s \<and> small n (apocope s) \<and> s \<noteq> [])"

lemma readable_join: "small a s \<Longrightarrow> readable b t \<Longrightarrow> readable (a + b) (s @ '' '' @ t)"
  unfolding readable_def using apocope_join [of t s] small_join [of a s b t] small_join [of a s b "apocope t"] by simp

lemma readable_tables:
  "0 < n \<Longrightarrow> n < 30 \<Longrightarrow> readable n (unidades ! n)"
  "3 \<le> k \<Longrightarrow> k < 10 \<Longrightarrow> readable (10 * k) (decenas ! k)"
  "0 < k \<Longrightarrow> k < 10 \<Longrightarrow> readable (100 * k) (centenas ! k)"
  "readable 100 ''cien''"
proof -
  show "readable n (unidades ! n)" if "0 < n" "n < 30"
  proof -
    have "n \<in> set [1..<30]" using that by simp
    then show ?thesis using unit_table unfolding list_all_iff readable_def by blast
  qed
  show "readable (10 * k) (decenas ! k)" if "3 \<le> k" "k < 10"
  proof -
    have "k \<in> set [3..<10]" using that by auto
    then show ?thesis using ten_table unfolding list_all_iff readable_def by blast
  qed
  show "readable (100 * k) (centenas ! k)" if "0 < k" "k < 10"
  proof -
    have "k \<in> set [1..<10]" using that by auto
    then show ?thesis using hundred_table unfolding list_all_iff readable_def by blast
  qed
qed (use other_words in \<open>simp add: readable_def\<close>)

lemma readable_decenas:
  assumes "0 < r" "r < 100" shows "readable r (decenas_en_letras r)"
proof (cases "r < 30")
  case True
  with assms show ?thesis using readable_tables(1) by (simp add: decenas_en_letras_def)
next
  case False
  then have d: "readable (10 * (r div 10)) (decenas ! (r div 10))" using assms by (intro readable_tables) auto
  show ?thesis
  proof (cases "r mod 10 = 0")
    case True
    have "10 * (r div 10) = r" using True by auto
    with d False True show ?thesis by (simp add: decenas_en_letras_def)
  next
    case ones: False
    have "small (10 * (r div 10) + 0) (decenas ! (r div 10) @ '' '' @ ''y'')"
      using d other_words by (intro small_join) (simp_all add: readable_def)
    then have "readable (10 * (r div 10) + 0 + r mod 10) ((decenas ! (r div 10) @ '' '' @ ''y'') @ '' '' @ unidades ! (r mod 10))"
      using ones by (intro readable_join readable_tables) auto
    then show ?thesis using False ones by (simp add: decenas_en_letras_def)
  qed
qed

lemma readable_hasta_mil:
  assumes "0 < n" "n < 1000" shows "readable n (hasta_mil n)"
proof (cases "n div 100 = 0")
  case True
  then have "n < 100" by auto
  then show ?thesis using assms readable_decenas [of n] by (simp add: hasta_mil_def centenas_def Let_def)
next
  case False
  then have c: "readable (100 * (n div 100)) (centenas ! (n div 100))" using assms by (intro readable_tables) auto
  then have ne: "centenas ! (n div 100) \<noteq> []" by (simp add: readable_def)
  show ?thesis
  proof (cases "n mod 100 = 0")
    case True
    then have "100 * (n div 100) = n" by auto
    with c True ne assms show ?thesis using readable_tables(4) by (simp add: hasta_mil_def Let_def)
  next
    case rest: False
    have "readable (100 * (n div 100) + n mod 100) (centenas ! (n div 100) @ '' '' @ decenas_en_letras (n mod 100))"
      using c rest by (intro readable_join readable_decenas) (auto simp: readable_def)
    moreover have "n \<noteq> 100" using rest by auto
    ultimately show ?thesis using rest ne assms by (simp add: hasta_mil_def Let_def)
  qed
qed

subsection \<open>The whole range\<close>

text \<open>The part of a number below a million: thousands and units.\<close>

definition cola :: "nat \<Rightarrow> nat \<Rightarrow> string list" where
  "cola miles resto =
     (if 0 < miles then [if miles = 1 then ''mil'' else apocope (hasta_mil miles) @ '' mil''] else [])
     @ (if 0 < resto then [hasta_mil resto] else [])"

lemma entero_en_letras_unfold:
  "entero_en_letras n =
     (if n < 0 \<or> 999999999999 < n then None
      else if n = 0 then Some ''cero''
      else
        (let millones = n div 1000000; rest = cola (nat (n mod 1000000 div 1000)) (nat (n mod 1000))
         in if millones = 0 then Some (join_space rest)
            else if millones = 1 then Some (join_space ((''un mill'' @ [CHR 0xF3] @ ''n'') # rest))
            else (case entero_en_letras millones of
                    None \<Rightarrow> None
                  | Some letras \<Rightarrow> Some (join_space ((apocope letras @ '' millones'') # rest)))))"
  unfolding cola_def Let_def by (subst entero_en_letras.simps) (simp only: Let_def)

lemma read_append [simp]: "read_words (a @ b) st = read_words b (read_words a st)"
  by (simp add: read_words_def)

lemma read_mil: "words ''mil'' = [''mil'']" "read_words [''mil''] (m, k, c) = (m, 1000 * (if c = 0 then 1 else c), 0)"
  by (simp_all add: read_words_def)

lemma read_millon:
  "words ''millones'' = [''millones'']" "read_words [''millones''] (m, k, c) = (k + c, 0, 0)"
  "words (''un mill'' @ [CHR 0xF3] @ ''n'') = [''un'', ''mill'' @ [CHR 0xF3] @ ''n'']"
  "read_words [''un'', ''mill'' @ [CHR 0xF3] @ ''n''] (0, 0, 0) = (1, 0, 0)"
  by (simp_all add: read_words_def numeral_value_def numerals_def)

lemma words_mil: "words (s @ '' mil'') = words s @ [''mil'']"
  using words_join [of s "''mil''"] read_mil(1) by simp

lemma words_millones: "words (s @ '' millones'') = words s @ [''millones'']"
  using words_join [of s "''millones''"] read_millon(1) by simp

lemma read_thousands:
  assumes "0 < miles" "miles < 1000"
  shows "read_words (words (if miles = 1 then ''mil'' else apocope (hasta_mil miles) @ '' mil'')) (m, 0, 0) = (m, 1000 * miles, 0)"
proof (cases "miles = 1")
  case True
  then show ?thesis by (simp add: read_mil del: words.simps)
next
  case False
  have "small miles (apocope (hasta_mil miles))" using readable_hasta_mil [OF assms] by (simp add: readable_def)
  from read_small [OF this, of m 0 0] show ?thesis
    using False assms by (simp add: words_mil read_mil del: words.simps)
qed

lemma apocope_mil: "apocope ''mil'' = ''mil''" "apocope (s @ '' mil'') = s @ '' mil''"
proof -
  show "apocope ''mil'' = ''mil''" using other_words by simp
  then show "apocope (s @ '' mil'') = s @ '' mil''" using apocope_join [of "''mil''" s] by simp
qed

lemma read_below_million:
  assumes "miles < 1000" "resto < 1000" "0 < miles \<or> 0 < resto"
  shows "read_words (words (join_space (cola miles resto))) (m, 0, 0) = (m, 1000 * miles, resto)
    \<and> read_words (words (apocope (join_space (cola miles resto)))) (m, 0, 0) = (m, 1000 * miles, resto)"
proof (cases "0 < resto")
  case True
  have r: "readable resto (hasta_mil resto)" using readable_hasta_mil True assms(2) .
  then have s: "small resto (hasta_mil resto)" "small resto (apocope (hasta_mil resto))" "hasta_mil resto \<noteq> []"
    by (simp_all add: readable_def)
  show ?thesis
  proof (cases "0 < miles")
    case False
    then have "join_space (cola miles resto) = hasta_mil resto" using True by (simp add: cola_def join_space_def)
    then show ?thesis using read_small [OF s(1)] read_small [OF s(2)] False by simp
  next
    case miles: True
    let ?a = "if miles = 1 then ''mil'' else apocope (hasta_mil miles) @ '' mil''"
    have j: "join_space (cola miles resto) = ?a @ '' '' @ hasta_mil resto" using True miles by (simp add: cola_def join_space_def)
    show ?thesis
      unfolding j apocope_join [OF s(3)] words_join read_append read_thousands [OF miles assms(1)]
      using read_small [OF s(1)] read_small [OF s(2)] by simp
  qed
next
  case False
  let ?a = "if miles = 1 then ''mil'' else apocope (hasta_mil miles) @ '' mil''"
  have j: "join_space (cola miles resto) = ?a" using False assms(3) by (simp add: cola_def join_space_def)
  have "apocope ?a = ?a" using apocope_mil by simp
  then show ?thesis unfolding j using read_thousands [of miles m] False assms by simp
qed

lemma read_rest:
  assumes "miles < 1000" "resto < 1000" "read_words (words s) (0, 0, 0) = (m, 0, 0)"
  shows "read_words (words (join_space (s # cola miles resto))) (0, 0, 0) = (m, 1000 * miles, resto)"
proof (cases "0 < miles \<or> 0 < resto")
  case True
  then have "cola miles resto \<noteq> []" by (auto simp: cola_def)
  then have j: "join_space (s # cola miles resto) = s @ '' '' @ join_space (cola miles resto)"
    by (cases "0 < miles"; cases "0 < resto") (simp_all add: cola_def join_space_def)
  then show ?thesis
    unfolding j words_join read_append assms(3) using read_below_million [OF assms(1,2) True] by blast
next
  case False
  then show ?thesis by (simp add: cola_def join_space_def assms(3))
qed

lemma letras_below_million:
  assumes "0 < n" "n < 1000000"
  obtains s where "entero_en_letras n = Some s" "read_words (words s) (0, 0, 0) = (0, 1000 * nat (n div 1000), nat (n mod 1000))"
    "read_words (words (apocope s)) (0, 0, 0) = (0, 1000 * nat (n div 1000), nat (n mod 1000))"
proof -
  let ?m = "nat (n div 1000)" and ?r = "nat (n mod 1000)"
  have "n div 1000 < 1000" "n mod 1000 < 1000" "0 < n div 1000 \<or> 0 < n mod 1000" 
  proof -
    have "n = n div 1000 * 1000 + n mod 1000" "0 \<le> n div 1000" "0 \<le> n mod 1000" "n mod 1000 < 1000" using assms by simp_all
    then show "n div 1000 < 1000" "n mod 1000 < 1000" "0 < n div 1000 \<or> 0 < n mod 1000" using assms by linarith+
  qed
  then have b: "?m < 1000" "?r < 1000" "0 < ?m \<or> 0 < ?r" by auto
  have "entero_en_letras n = Some (join_space (cola ?m ?r))"
    using assms by (subst entero_en_letras_unfold) (simp add: Let_def)
  then show ?thesis using read_below_million [OF b] that by blast
qed

lemma nat_thousands: "0 \<le> k \<Longrightarrow> 1000 * nat (k div 1000) + nat (k mod 1000) = nat k"
  by (simp add: nat_div_distrib nat_mod_distrib)

lemma letras_in_range:
  assumes "0 \<le> n" "n \<le> 999999999999"
  shows "\<exists>s. entero_en_letras n = Some s \<and> int (letras_value s) = n"
proof (cases "n < 1000000")
  case True
  show ?thesis
  proof (cases "n = 0")
    case True
    have "letras_value ''cero'' = 0" by (simp add: letras_value_def read_words_def numeral_value_def numerals_def)
    with True show ?thesis by (subst entero_en_letras_unfold) simp
  next
    case False
    with assms have "0 < n" by simp
    then obtain s where s: "entero_en_letras n = Some s"
        "read_words (words s) (0, 0, 0) = (0, 1000 * nat (n div 1000), nat (n mod 1000))"
      using letras_below_million [of n] True by blast
    have "0 \<le> n div 1000" using assms by simp
    then have "int (1000 * nat (n div 1000) + nat (n mod 1000)) = n" by simp
    with s show ?thesis by (simp add: letras_value_def)
  qed
next
  case False
  let ?k = "n div 1000000" and ?m = "nat (n mod 1000000 div 1000)" and ?r = "nat (n mod 1000)"
  have k: "0 < ?k" "?k < 1000000" using assms False by simp_all
  have b: "?m < 1000" "?r < 1000" by simp_all
  have v: "int (1000000 * nat ?k + 1000 * ?m + ?r) = n"
  proof -
    have "n mod 1000000 mod 1000 = n mod 1000" by (simp add: mod_mod_cancel)
    then have e1: "n mod 1000000 = n mod 1000000 div 1000 * 1000 + n mod 1000" by (metis div_mult_mod_eq)
    have e2: "n div 1000000 * 1000000 + n mod 1000000 = n" by (rule div_mult_mod_eq)
    have "0 \<le> n mod 1000000 div 1000" "0 \<le> n mod 1000" by simp_all
    then have "int (1000000 * nat ?k + 1000 * ?m + ?r) = 1000000 * ?k + 1000 * (n mod 1000000 div 1000) + n mod 1000"
      using k by (simp only: of_nat_add of_nat_mult int_nat_eq) simp
    with e1 e2 show ?thesis by linarith
  qed
  show ?thesis
  proof (cases "?k = 1")
    case True
    let ?s = "''un mill'' @ [CHR 0xF3] @ ''n''"
    have "entero_en_letras n = Some (join_space (?s # cola ?m ?r))"
      using assms False True by (subst entero_en_letras_unfold) (simp add: Let_def)
    moreover have "read_words (words ?s) (0, 0, 0) = (1, 0, 0)" using read_millon(3,4) by simp
    from read_rest [OF b this] have "letras_value (join_space (?s # cola ?m ?r)) = 1000000 + 1000 * ?m + ?r"
      unfolding letras_value_def by simp
    ultimately show ?thesis using v True by simp
  next
    case many: False
    obtain t where t: "entero_en_letras ?k = Some t"
        "read_words (words (apocope t)) (0, 0, 0) = (0, 1000 * nat (?k div 1000), nat (?k mod 1000))"
      using letras_below_million [OF k] by blast
    let ?s = "apocope t @ '' millones''"
    have "entero_en_letras n = Some (join_space (?s # cola ?m ?r))"
    proof -
      have "?k \<noteq> 0" "\<not> (n < 0 \<or> 999999999999 < n)" "n \<noteq> 0" using k assms False by simp_all
      then show ?thesis unfolding entero_en_letras_unfold [of n] Let_def t(1) using many by (simp only: if_False option.case)
    qed
    moreover have "1000 * nat (?k div 1000) + nat (?k mod 1000) = nat ?k" using k by (intro nat_thousands) simp
    then have "read_words (words ?s) (0, 0, 0) = (nat ?k, 0, 0)" by (simp add: words_millones t(2) read_millon(2) del: words.simps)
    from read_rest [OF b this] have "letras_value (join_space (?s # cola ?m ?r)) = 1000000 * nat ?k + 1000 * ?m + ?r"
      unfolding letras_value_def by simp
    ultimately show ?thesis using v by simp
  qed
qed

text \<open>C39: the amount in words is defined exactly from zero to 999,999,999,999, so the inner call for the millions never fails
  and the recursion always ends, and reading the words back gives the number.\<close>

theorem words_for_every_amount:
  "(if 0 \<le> n \<and> n \<le> 999999999999
    then \<exists>s. entero_en_letras n = Some s \<and> int (letras_value s) = n
    else entero_en_letras n = None)"
proof (cases "0 \<le> n \<and> n \<le> 999999999999")
  case True
  with letras_in_range show ?thesis by simp
next
  case False
  then have "n < 0 \<or> 999999999999 < n" by linarith
  then have "entero_en_letras n = None" by (subst entero_en_letras_unfold) simp
  with False show ?thesis by simp
qed

section \<open>The literal amount\<close>

text \<open>\<open>monto.split('.')\<close> with its defaults. The totals written are texts of \<open>fromMinorUnits\<close>, whose whole part is a run of
  digits: \<open>Number\<close> reads it as the model does.\<close>

definition monto_literal :: "string \<Rightarrow> string \<Rightarrow> string option" where
  "monto_literal monto moneda =
     (let entero = takeWhile (\<lambda>c. c \<noteq> CHR ''.'') monto;
          decimales = takeWhile (\<lambda>c. c \<noteq> CHR ''.'') (drop (Suc (length entero)) monto)
      in map_option (\<lambda>letras. ''Son: '' @ [upper_char (hd letras)] @ tl letras @ '' '' @ take 2 (pad_end 2 decimales) @ ''/100 '' @ moneda)
           (entero_en_letras (int (parse_nat entero))))"

end
