(* ===== verification/PaqueteTar.thy ===== *)
theory PaqueteTar
  imports Prelude "HOL-Library.Word"
begin

text \<open>
The contingency package sent to the tax authority: \<open>modules/fiscal/siat/domain/paquete-tar.ts\<close>.  A minimal writer of the
ustar format is modelled byte by byte (the gzip compression and the SHA-256 digest around it are Node's).  A reader of the
format, strict on the checksum, is the reference: the round trip shows that every package the writer produces is read back
file by file.
\<close>

type_synonym byte = "8 word"

section \<open>Writing\<close>

definition bloque :: nat where
  "bloque = 512"

text \<open>\<open>buffer.write\<close>: at most \<open>largo\<close> bytes, from \<open>inicio\<close> on, and never past the end of the buffer.\<close>

definition write_at :: "nat \<Rightarrow> nat \<Rightarrow> byte list \<Rightarrow> byte list \<Rightarrow> byte list" where
  "write_at inicio largo bytes buffer =
     (let written = take (length buffer - inicio) (take largo bytes)
      in take inicio buffer @ written @ drop (inicio + length written) buffer)"

text \<open>\<open>toString(8)\<close>.\<close>

fun octal_digits :: "nat \<Rightarrow> nat list" where
  "octal_digits n = (if n < 8 then [n] else octal_digits (n div 8) @ [n mod 8])"

declare octal_digits.simps [simp del]

definition digit_byte :: "nat \<Rightarrow> byte" where
  "digit_byte d = word_of_nat (48 + d)"

definition padded_octal :: "nat \<Rightarrow> nat \<Rightarrow> byte list" where
  "padded_octal ancho valor =
     (let digits = map digit_byte (octal_digits valor) in replicate (ancho - length digits) (digit_byte 0) @ digits)"

definition octal :: "nat \<Rightarrow> nat \<Rightarrow> nat \<Rightarrow> byte list \<Rightarrow> byte list" where
  "octal inicio largo valor cabecera = write_at inicio largo (padded_octal (largo - 1) valor @ [0]) cabecera"

text \<open>The loop over the 512 bytes of the header; the field of the sum itself counts as spaces.\<close>

definition suma_de_control :: "byte list \<Rightarrow> nat" where
  "suma_de_control cabecera =
     sum_list (map (\<lambda>i. if 148 \<le> i \<and> i < 156 then 0x20 else unat (cabecera ! i)) [0..<bloque])"

definition ascii_bytes :: "string \<Rightarrow> byte list" where
  "ascii_bytes s = map (\<lambda>c. word_of_nat (of_char c)) s"

text \<open>A file: its name and its content, both as the bytes of their UTF-8 encoding.\<close>

record archivo_tar =
  nombre :: "byte list"
  contenido :: "byte list"

definition cabecera_sin_suma :: "archivo_tar \<Rightarrow> byte list" where
  "cabecera_sin_suma f =
     write_at 263 2 (ascii_bytes ''00'') (write_at 257 6 (ascii_bytes ''ustar'' @ [0]) (write_at 156 1 (ascii_bytes ''0'')
       (octal 136 12 0 (octal 124 12 (length (contenido f)) (octal 116 8 0 (octal 108 8 0 (octal 100 8 420
         (write_at 0 100 (nombre f) (replicate bloque 0)))))))))"

definition cabecera_de :: "archivo_tar \<Rightarrow> byte list" where
  "cabecera_de f =
     (let cabecera = cabecera_sin_suma f
      in write_at 148 8 (padded_octal 6 (suma_de_control cabecera) @ [0] @ ascii_bytes '' '') cabecera)"

definition relleno_de :: "nat \<Rightarrow> nat" where
  "relleno_de n = (bloque - n mod bloque) mod bloque"

definition partes_de :: "archivo_tar \<Rightarrow> byte list" where
  "partes_de f = cabecera_de f @ contenido f @ replicate (relleno_de (length (contenido f))) 0"

datatype tar_error = NameTooLong

definition escribir_tar :: "archivo_tar list \<Rightarrow> tar_error + byte list" where
  "escribir_tar archivos =
     (if \<exists>f \<in> set archivos. 100 < length (nombre f) then Inl NameTooLong
      else Inr (concat (map partes_de archivos) @ replicate (bloque * 2) 0))"

text \<open>The compressed package: Node's \<open>gzipSync\<close> and SHA-256 digest are parameters. The number of an invoice comes as the
  text it is interpolated as.\<close>

record archivo_comprimido =
  gzip :: "byte list"
  sha256 :: string

definition comprimir :: "(byte list \<Rightarrow> byte list) \<Rightarrow> (byte list \<Rightarrow> string) \<Rightarrow> byte list \<Rightarrow> archivo_comprimido" where
  "comprimir gzip_sync digest c = (let g = gzip_sync c in \<lparr>gzip = g, sha256 = digest g\<rparr>)"

definition empaquetar_facturas ::
    "(byte list \<Rightarrow> byte list) \<Rightarrow> (byte list \<Rightarrow> string) \<Rightarrow> (string \<times> byte list) list \<Rightarrow> tar_error + archivo_comprimido" where
  "empaquetar_facturas gzip_sync digest facturas =
     and_then (escribir_tar (map (\<lambda>(numero, xml). \<lparr>nombre = ascii_bytes (numero @ ''.xml''), contenido = xml\<rparr>) facturas))
       (\<lambda>bytes. Inr (comprimir gzip_sync digest bytes))"

section \<open>Reading\<close>

text \<open>A reader of the format: names end at their first zero byte, numbers are octal, and a header whose checksum does not
  match is refused.\<close>

definition octal_digit :: "byte \<Rightarrow> bool" where
  "octal_digit b = (48 \<le> unat b \<and> unat b < 56)"

definition octal_value :: "byte list \<Rightarrow> nat" where
  "octal_value bs = foldl (\<lambda>n b. 8 * n + (unat b - 48)) 0 (takeWhile octal_digit bs)"

function leer_tar :: "byte list \<Rightarrow> archivo_tar list option" where
  "leer_tar bytes =
     (let cabecera = take bloque bytes; n = octal_value (take 12 (drop 124 cabecera)); total = 512 * ((n + 511) div 512);
          cuerpo = drop bloque bytes
      in if length bytes < bloque then None
         else if list_all (\<lambda>b. b = 0) cabecera then Some []
         else if octal_value (take 8 (drop 148 cabecera)) \<noteq> suma_de_control cabecera then None
         else if length cuerpo < total then None
         else map_option ((#) \<lparr>nombre = takeWhile (\<lambda>b. b \<noteq> 0) (take 100 cabecera), contenido = take n cuerpo\<rparr>)
                (leer_tar (drop total cuerpo)))"
  by pat_completeness auto

termination leer_tar
  by (relation "measure length") (auto simp: bloque_def)

declare leer_tar.simps [simp del]

section \<open>Octal numbers\<close>

lemma unat_digit_byte [simp]: "d < 8 \<Longrightarrow> unat (digit_byte d) = 48 + d"
  by (simp add: digit_byte_def unat_of_nat del: of_nat_add)

lemma octal_digit_byte: "d < 8 \<Longrightarrow> octal_digit (digit_byte d)"
  by (simp add: octal_digit_def)

lemma octal_digits_small: "\<forall>d \<in> set (octal_digits n). d < 8"
proof (induction n rule: octal_digits.induct)
  case (1 n)
  then show ?case by (subst octal_digits.simps) auto
qed

definition octal_fold :: "byte list \<Rightarrow> nat" where
  "octal_fold bs = foldl (\<lambda>n b. 8 * n + (unat b - 48)) 0 bs"

lemma octal_fold_append: "octal_fold (bs @ [b]) = 8 * octal_fold bs + (unat b - 48)"
  by (simp add: octal_fold_def)

lemma octal_fold_digits: "octal_fold (map digit_byte (octal_digits n)) = n"
proof (induction n rule: octal_digits.induct)
  case (1 n)
  show ?case
  proof (cases "n < 8")
    case True
    then show ?thesis by (simp add: octal_digits.simps [of n] octal_fold_def)
  next
    case False
    then show ?thesis using 1 by (simp add: octal_digits.simps [of n] octal_fold_append)
  qed
qed

lemma octal_fold_zeros: "octal_fold (replicate k (digit_byte 0) @ bs) = octal_fold bs"
proof -
  have "foldl (\<lambda>n b. 8 * n + (unat b - 48)) 0 (replicate k (digit_byte 0)) = 0" by (induction k) simp_all
  then show ?thesis by (simp add: octal_fold_def)
qed

lemma octal_digits_length: "0 < k \<Longrightarrow> n < 8 ^ k \<Longrightarrow> length (octal_digits n) \<le> k"
proof (induction k arbitrary: n)
  case (Suc k)
  show ?case
  proof (cases "n < 8")
    case True
    then show ?thesis by (simp add: octal_digits.simps [of n])
  next
    case False
    with Suc.prems have "0 < k" "n div 8 < 8 ^ k" by (cases k; simp add: less_mult_imp_div_less mult.commute)+
    with Suc.IH [of "n div 8"] False show ?thesis by (simp add: octal_digits.simps [of n])
  qed
qed simp

lemma octal_value_padded:
  assumes "\<not> octal_digit b" shows "octal_value (padded_octal k n @ b # rest) = n"
proof -
  have d: "\<forall>x \<in> set (padded_octal k n). octal_digit x"
    using octal_digits_small [of n] by (auto simp: padded_octal_def Let_def octal_digit_byte)
  then have "takeWhile octal_digit (padded_octal k n @ b # rest) = padded_octal k n"
    using assms by (simp add: takeWhile_append2)
  then show ?thesis
    by (simp only: octal_value_def padded_octal_def Let_def octal_fold_def [symmetric] octal_fold_zeros octal_fold_digits)
qed

lemma padded_length: "0 < k \<Longrightarrow> n < 8 ^ k \<Longrightarrow> length (padded_octal k n) = k"
  using octal_digits_length [of k n] by (simp add: padded_octal_def Let_def)

section \<open>Headers\<close>

definition slice :: "nat \<Rightarrow> nat \<Rightarrow> byte list \<Rightarrow> byte list" where
  "slice j m bs = take m (drop j bs)"

lemma write_at_length [simp]: "i \<le> length buf \<Longrightarrow> length (write_at i l bs buf) = length buf"
  by (simp add: write_at_def Let_def)

lemma write_at_nth:
  "i + l \<le> length buf \<Longrightarrow> k < length buf \<Longrightarrow>
   write_at i l bs buf ! k = (if i \<le> k \<and> k < i + min l (length bs) then bs ! (k - i) else buf ! k)"
  by (auto simp: write_at_def Let_def nth_append min_def)

lemma slice_length [simp]: "length (slice j m bs) = min m (length bs - j)"
  by (simp add: slice_def)

lemma slice_written:
  "i + length bs \<le> length buf \<Longrightarrow> length bs = l \<Longrightarrow> slice i l (write_at i l bs buf) = bs"
  by (simp add: slice_def write_at_def Let_def)

lemma slice_untouched:
  "j + m \<le> i \<or> i + l \<le> j \<Longrightarrow> i + l \<le> length buf \<Longrightarrow> slice j m (write_at i l bs buf) = slice j m buf"
  by (rule nth_equalityI) (auto simp: slice_def write_at_nth)

lemma octal_write: "octal i l v h = write_at i l (padded_octal (l - 1) v @ [0]) h"
  by (simp add: octal_def)

lemma octal_field_length: "1 < l \<Longrightarrow> v < 8 ^ (l - 1) \<Longrightarrow> length (padded_octal (l - 1) v @ [0]) = l"
  by (simp add: padded_length)

lemma octal_untouched:
  "j + m \<le> i \<or> i + l \<le> j \<Longrightarrow> i + l \<le> length h \<Longrightarrow> slice j m (octal i l v h) = slice j m h"
  unfolding octal_def by (rule slice_untouched)

lemma octal_length [simp]: "i \<le> length h \<Longrightarrow> length (octal i l v h) = length h"
  by (simp add: octal_def)

lemma ascii_length [simp]: "length (ascii_bytes s) = length s"
  by (simp add: ascii_bytes_def)

definition tar_file_ok :: "archivo_tar \<Rightarrow> bool" where
  "tar_file_ok f \<longleftrightarrow> length (nombre f) \<le> 100 \<and> 0 \<notin> set (nombre f) \<and> length (contenido f) < 8 ^ 11"

lemma sin_suma_length [simp]: "length (cabecera_sin_suma f) = 512"
  by (simp add: cabecera_sin_suma_def bloque_def)

lemma cabecera_length [simp]: "length (cabecera_de f) = 512"
  by (simp add: cabecera_de_def Let_def)

lemma sum_bytes_bound: "sum_list (map (\<lambda>i. if P i then 0x20 else unat (h ! i :: byte)) xs) \<le> 255 * length xs"
proof (induction xs)
  case (Cons i xs)
  have "unat (h ! i) \<le> 255" using unsigned_less [of "h ! i", where 'a = nat] by simp
  with Cons show ?case by auto
qed simp

lemma checksum_bound: "suma_de_control h < 8 ^ 6"
  using sum_bytes_bound [of "\<lambda>i. 148 \<le> i \<and> i < 156" h "[0..<bloque]"] by (simp add: suma_de_control_def bloque_def)

lemma checksum_length [simp]: "length (padded_octal 6 (suma_de_control h)) = 6"
  by (rule padded_length [OF _ checksum_bound]) simp

lemma checksum_field_length: "length (padded_octal 6 (suma_de_control h) @ [0] @ ascii_bytes '' '') = 8"
  by simp

lemma checksum_kept: "length h = 512 \<Longrightarrow> length bs = 8 \<Longrightarrow> suma_de_control (write_at 148 8 bs h) = suma_de_control h"
  unfolding suma_de_control_def
  by (intro arg_cong [where f = sum_list] map_cong refl) (simp add: write_at_nth bloque_def)

lemma header_outside_checksum:
  assumes "j + m \<le> 148 \<or> 156 \<le> j" shows "slice j m (cabecera_de f) = slice j m (cabecera_sin_suma f)"
  unfolding cabecera_de_def Let_def
  using assms by (intro slice_untouched) auto

lemma header_checksum: "slice 148 8 (cabecera_de f) = padded_octal 6 (suma_de_control (cabecera_sin_suma f)) @ [0] @ ascii_bytes '' ''"
  unfolding cabecera_de_def Let_def by (rule slice_written) auto

lemma header_sum: "suma_de_control (cabecera_de f) = suma_de_control (cabecera_sin_suma f)"
  unfolding cabecera_de_def Let_def by (rule checksum_kept) (simp_all only: sin_suma_length checksum_field_length)

lemma header_kind: "slice 156 1 (cabecera_de f) = ascii_bytes ''0''"
proof -
  have "slice 156 1 (cabecera_de f) = slice 156 1 (cabecera_sin_suma f)" by (rule header_outside_checksum) simp
  also have "\<dots> = ascii_bytes ''0''"
    unfolding cabecera_sin_suma_def by (simp add: slice_untouched slice_written bloque_def)
  finally show ?thesis .
qed

lemma header_size:
  assumes "length (contenido f) < 8 ^ 11"
  shows "slice 124 12 (cabecera_de f) = padded_octal 11 (length (contenido f)) @ [0]"
proof -
  have n: "length (padded_octal 11 (length (contenido f)) @ [0]) = 12" using padded_length [OF _ assms] by simp
  have "slice 124 12 (cabecera_de f) = slice 124 12 (cabecera_sin_suma f)" by (rule header_outside_checksum) simp
  also have "\<dots> = padded_octal 11 (length (contenido f)) @ [0]"
    unfolding cabecera_sin_suma_def using n
    by (simp add: slice_untouched octal_untouched octal_write [of 124] slice_written bloque_def del: append_assoc)
  finally show ?thesis .
qed

lemma header_name:
  assumes "length (nombre f) \<le> 100"
  shows "slice 0 100 (cabecera_de f) = nombre f @ replicate (100 - length (nombre f)) 0"
proof -
  have "slice 0 100 (cabecera_de f) = slice 0 100 (cabecera_sin_suma f)" by (rule header_outside_checksum) simp
  also have "\<dots> = slice 0 100 (write_at 0 100 (nombre f) (replicate bloque 0))"
    unfolding cabecera_sin_suma_def by (simp add: slice_untouched octal_untouched bloque_def)
  also have "\<dots> = nombre f @ replicate (100 - length (nombre f)) 0"
    using assms by (simp add: slice_def write_at_def Let_def bloque_def)
  finally show ?thesis .
qed

section \<open>Round trip\<close>

lemma takeWhile_name: "0 \<notin> set (n :: byte list) \<Longrightarrow> takeWhile (\<lambda>b. b \<noteq> 0) (n @ replicate k 0) = n"
  by (subst takeWhile_append2) (auto simp: takeWhile_replicate)

lemma ceiling_blocks: "n = 512 * q + r \<Longrightarrow> r < 512 \<Longrightarrow> n + (if r = 0 then 0 else 512 - r) = 512 * (((n::nat) + 511) div 512)"
proof (cases "r = 0")
  case False
  assume "n = 512 * q + r" "r < 512"
  with False have "(n + 511) div 512 = Suc q" by (intro div_nat_eqI) simp_all
  with \<open>n = _\<close> \<open>r < 512\<close> False show ?thesis by simp
qed (auto simp: div_nat_eqI)

lemma relleno_total: "n + relleno_de n = 512 * ((n + 511) div 512)"
proof -
  have "relleno_de n = (if n mod 512 = 0 then 0 else 512 - n mod 512)" by (simp add: relleno_de_def bloque_def)
  then show ?thesis using ceiling_blocks [of n "n div 512" "n mod 512"] by simp
qed

lemma zero_not_octal: "\<not> octal_digit 0"
  by (simp add: octal_digit_def)

lemma read_one:
  assumes f: "tar_file_ok f" shows "leer_tar (partes_de f @ rest) = map_option ((#) f) (leer_tar rest)"
proof -
  let ?c = "cabecera_de f" and ?n = "length (contenido f)"
  have n: "octal_value (slice 124 12 ?c) = ?n"
    using f octal_value_padded [OF zero_not_octal, of 11 ?n "[]"] by (simp add: tar_file_ok_def header_size)
  have s: "octal_value (slice 148 8 ?c) = suma_de_control ?c"
    using octal_value_padded [OF zero_not_octal, of 6] by (simp add: header_checksum header_sum)
  have nz: "\<not> list_all (\<lambda>b. b = 0) ?c"
  proof
    assume a: "list_all (\<lambda>b. b = 0) ?c"
    have "set (slice 156 1 ?c) \<subseteq> set ?c" unfolding slice_def by (meson order_trans set_drop_subset set_take_subset)
    with a show False unfolding header_kind by (auto simp: ascii_bytes_def list_all_iff)
  qed
  have m: "takeWhile (\<lambda>b. b \<noteq> 0) (take 100 ?c) = nombre f"
    using f header_name [of f] takeWhile_name by (simp add: tar_file_ok_def slice_def)
  have e: "\<lparr>nombre = nombre f, contenido = contenido f\<rparr> = f" by simp
  have "take bloque (partes_de f @ rest) = ?c" "drop bloque (partes_de f @ rest) = contenido f @ replicate (relleno_de ?n) 0 @ rest"
    by (simp_all add: partes_de_def bloque_def)
  then have "leer_tar (partes_de f @ rest) = map_option ((#) \<lparr>nombre = nombre f, contenido = contenido f\<rparr>) (leer_tar rest)"
    using n s nz m relleno_total [of "length (contenido f)", symmetric] by (subst leer_tar.simps) (simp add: Let_def slice_def partes_de_def bloque_def)
  then show ?thesis unfolding e .
qed

lemma read_end: "leer_tar (replicate (bloque * 2) 0) = Some []"
  by (simp add: leer_tar.simps Let_def bloque_def list_all_iff)

lemma read_all: "\<forall>f \<in> set fs. tar_file_ok f \<Longrightarrow> leer_tar (concat (map partes_de fs) @ replicate (bloque * 2) 0) = Some fs"
  by (induction fs) (simp_all add: read_end read_one)

lemma blocks_of_file: "512 dvd length (partes_de f)"
  using relleno_total [of "length (contenido f)"] by (simp add: partes_de_def)

lemma blocks_of_all: "512 dvd length (concat (map partes_de fs))"
  by (induction fs) (simp_all add: blocks_of_file)

text \<open>C40: a package of files with names of at most 100 bytes, without zero bytes, and contents below 8 GiB is written, is a
  whole number of blocks, and is read back file by file: names, lengths, contents, order and checksums are right.\<close>

theorem tar_round_trip:
  assumes "\<forall>f \<in> set fs. length (nombre f) \<le> 100 \<and> 0 \<notin> set (nombre f) \<and> length (contenido f) < 8 ^ 11"
  shows "\<exists>bytes. escribir_tar fs = Inr bytes \<and> leer_tar bytes = Some fs \<and> 512 dvd length bytes"
proof -
  have "\<forall>f \<in> set fs. tar_file_ok f" using assms unfolding tar_file_ok_def .
  then show ?thesis
    using assms read_all blocks_of_all [of fs] by (auto simp: escribir_tar_def not_less bloque_def)
qed

lemma tar_round_trip_witness:
  "\<exists>bytes. escribir_tar [\<lparr>nombre = ascii_bytes ''1.xml'', contenido = ascii_bytes ''<a/>''\<rparr>] = Inr bytes \<and>
     leer_tar bytes = Some [\<lparr>nombre = ascii_bytes ''1.xml'', contenido = ascii_bytes ''<a/>''\<rparr>] \<and> 512 dvd length bytes"
  by (rule tar_round_trip) (auto simp: ascii_bytes_def)

end
