(* ===== verification/Billing.thy ===== *)
theory Billing
  imports BillingMath Rows Numbering
begin

text \<open>
  Billing the merchants: the tables of \<open>models/b2b-sales-crm.models.ts\<close> the operations write, the choice of the merchant
  discount rule and its fee (\<open>domain/mdr-rule-specificity.ts\<close>, \<open>b2b-sales-crm-use-case.base.ts\<close>), registering a
  purchase, issuing an invoice and registering a payment (\<open>services/b2b-bnpl-billing.service.ts\<close>), annulling one
  (\<open>siat-annulment.service.ts\<close>), and the monthly closing that invoices what was sold
  (\<open>billing-cycle/merchant-billing-cycle.service.ts\<close>). Stored amounts are whole cents, the amounts of a request JavaScript
  values read by \<open>parseMoney\<close>; days are ISO texts, whose order is the order of the days; keys are the next numeral.
\<close>

section \<open>The tables\<close>

datatype receivable_status =
  ReceivablePending | ReceivablePartiallyPaid | ReceivablePaid | ReceivableOverdue | ReceivableCancelled | ReceivableDisputed

datatype invoice_status = InvoiceDraft | InvoiceIssued | InvoicePartiallyPaid | InvoicePaid | InvoiceOverdue | InvoiceCancelled

datatype term_type = TermMDR | TermSubscription | TermSetupFee | TermServiceFee | TermPenalty | TermMinimumMonthlyFee

record merchant_row =
  merchant_id :: ident
  merchant_lifecycle :: string

record branch_row =
  branch_id :: ident
  branch_account :: ident
  branch_status :: string
  can_originate :: bool

record consumer_row =
  consumer_id :: ident
  consumer_ref :: "string option"

record mdr_rule_row =
  rule_id :: ident
  rule_category :: "string option"
  rule_branch :: "ident option"
  rule_risk :: "string option"
  rule_rate :: string
  rule_min :: "string option"
  rule_max :: "string option"
  rule_active :: bool

record term_row =
  term_type :: term_type
  term_rate :: "string option"

text \<open>A version with the contract it belongs to (account and status), its terms and its rules.\<close>

record tariff_version_row =
  tariff_id :: ident
  tariff_account :: ident
  tariff_contract_status :: string
  tariff_status :: string
  tariff_from :: day
  tariff_to :: "day option"
  tariff_terms :: "term_row list"
  tariff_rules :: "mdr_rule_row list"

datatype mdr_source = MdrRules | CommercialTerms

record bnpl_purchase_row =
  bp_id :: ident
  bp_merchant :: ident
  bp_branch :: ident
  bp_consumer :: ident
  bp_version :: ident
  bp_purchase :: int
  bp_down_payment :: int
  bp_financed :: int
  bp_risk :: "string option"
  bp_rate :: string
  bp_mdr :: int
  bp_rule :: "ident option"
  bp_source :: mdr_source

record bnpl_installment_row =
  bi_id :: ident
  bi_purchase :: ident
  bi_number :: js_number
  bi_due :: day
  bi_amount :: int

record down_payment_row =
  dp_purchase :: ident
  dp_amount :: int
  dp_status :: string

record core_link_row =
  cl_purchase :: ident
  cl_installment :: ident
  cl_tenant :: string
  cl_loan :: string
  cl_core_installment :: string

record product_row =
  product_id :: ident
  product_name :: string
  product_source :: string
  product_active :: bool

text \<open>A moment: the ISO text of a UTC timestamp, of fixed width, so that the order of the texts is the order of time.\<close>

type_synonym moment = string

record receivable_row =
  rc_id :: ident
  rc_account :: ident
  rc_invoice :: "ident option"
  rc_source :: string
  rc_source_id :: "ident option"
  rc_product :: "ident option"
  rc_original :: int
  rc_open :: int
  rc_currency :: string
  rc_issued :: moment
  rc_due :: day
  rc_status :: receivable_status

record invoice_row =
  iv_id :: ident
  iv_account :: ident
  iv_contract :: "ident option"
  iv_number :: string
  iv_date :: day
  iv_due :: day
  iv_subtotal :: int
  iv_tax :: int
  iv_total :: int
  iv_status :: invoice_status
  iv_tax_ref :: "string option"

record invoice_line_row =
  il_invoice :: ident
  il_source :: string
  il_source_id :: "ident option"
  il_product :: "ident option"
  il_description :: string
  il_unit :: int
  il_tax :: int
  il_total :: int

record payment_row =
  py_id :: ident
  py_account :: ident
  py_amount :: int
  py_currency :: string
  py_status :: string

record allocation_row =
  al_payment :: ident
  al_receivable :: ident
  al_applied :: int

record billing_book =
  bb_next :: nat
  bb_merchants :: "merchant_row list"
  bb_branches :: "branch_row list"
  bb_consumers :: "consumer_row list"
  bb_tiers :: "(string \<times> string option) list"
  bb_tariffs :: "tariff_version_row list"
  bb_products :: "product_row list"
  bb_purchases :: "bnpl_purchase_row list"
  bb_installments :: "bnpl_installment_row list"
  bb_down_payments :: "down_payment_row list"
  bb_links :: "core_link_row list"
  bb_receivables :: "receivable_row list"
  bb_invoices :: "invoice_row list"
  bb_invoice_lines :: "invoice_line_row list"
  bb_payments :: "payment_row list"
  bb_allocations :: "allocation_row list"

datatype billing_failure =
    MERCHANT_NOT_FOUND | MERCHANT_NOT_CUSTOMER | BRANCH_NOT_ENABLED | SPLIT_VIOLATION violation_code
  | CONSUMER_NOT_IDENTIFIED | NO_ACTIVE_CONTRACT_VERSION | NO_MDR_RULE_OR_TERM | CORE_INSTALLMENT_ALREADY_LINKED
  | RECEIVABLES_NOT_FOUND | RECEIVABLE_ALREADY_INVOICED | RECEIVABLE_NOT_PENDING | RECEIVABLE_WITHOUT_BALANCE
  | INVOICE_NUMBER_TAKEN | RECEIVABLE_SOURCE_TAKEN | ALLOCATIONS_MISMATCH | RECEIVABLE_NOT_FOUND | PAYMENT_CURRENCY_MISMATCH | ALLOCATION_EXCEEDS_OPEN
  | BillingFault billing_error

definition lift_billing :: "billing_error + 'a \<Rightarrow> billing_failure + 'a" where
  "lift_billing r = (case r of Inl e \<Rightarrow> Inl (BillingFault e) | Inr a \<Rightarrow> Inr a)"

definition lift_parse :: "money_error + 'a \<Rightarrow> billing_failure + 'a" where
  "lift_parse r = lift_billing (lift_money r)"

lemma lift_failure_eq_Inr [simp]: "lift_billing r = Inr a \<longleftrightarrow> r = Inr a" "lift_parse m = Inr a \<longleftrightarrow> m = Inr a"
  by (auto simp: lift_billing_def lift_parse_def lift_money_def split: sum.splits)

section \<open>The MDR of a purchase\<close>

definition mdr_branch_weight :: nat where "mdr_branch_weight = 4"
definition mdr_category_weight :: nat where "mdr_category_weight = 2"
definition mdr_risk_weight :: nat where "mdr_risk_weight = 1"

definition mdr_rule_specificity :: "mdr_rule_row \<Rightarrow> nat" where
  "mdr_rule_specificity r =
     (if truthy (rule_branch r) then mdr_branch_weight else 0) +
     (if truthy (rule_category r) then mdr_category_weight else 0) +
     (if truthy (rule_risk r) then mdr_risk_weight else 0)"

definition mdr_rule_matches :: "ident \<Rightarrow> string option \<Rightarrow> string option \<Rightarrow> mdr_rule_row \<Rightarrow> bool" where
  "mdr_rule_matches branch category risk r =
     ((\<not> truthy (rule_branch r) \<or> rule_branch r = Some branch) \<and>
      (\<not> truthy (rule_category r) \<or> rule_category r = category) \<and>
      (\<not> truthy (rule_risk r) \<or> rule_risk r = risk))"

text \<open>The sort is stable and descending.\<close>

definition pick_best_mdr_rule :: "mdr_rule_row list \<Rightarrow> ident \<Rightarrow> string option \<Rightarrow> string option \<Rightarrow> mdr_rule_row option" where
  "pick_best_mdr_rule rules branch category risk =
     (case sort_key (\<lambda>r. - int (mdr_rule_specificity r)) (filter (mdr_rule_matches branch category risk) rules) of
        [] \<Rightarrow> None
      | r # _ \<Rightarrow> Some r)"

record mdr_charge =
  mc_rate :: string
  mc_amount :: int
  mc_source :: mdr_source
  mc_rule :: "ident option"

definition optional_text :: "string option \<Rightarrow> js_value" where
  "optional_text x = (case x of None \<Rightarrow> JNull | Some s \<Rightarrow> JString s)"

definition calculate_mdr ::
    "js_value \<Rightarrow> tariff_version_row \<Rightarrow> ident \<Rightarrow> string option \<Rightarrow> string option \<Rightarrow> billing_failure + mdr_charge" where
  "calculate_mdr amount version branch category risk =
     (case pick_best_mdr_rule (tariff_rules version) branch category risk of
        Some rule \<Rightarrow>
          and_then (lift_parse (compute_mdr_fee amount \<lparr>rate_percent = JString (rule_rate rule),
              min_fee_amount = optional_text (rule_min rule), max_fee_amount = optional_text (rule_max rule)\<rparr>)) (\<lambda>fee.
          Inr \<lparr>mc_rate = rate_text fee, mc_amount = fee_minor fee, mc_source = MdrRules, mc_rule = Some (rule_id rule)\<rparr>)
      | None \<Rightarrow>
          (case find (\<lambda>t. term_type t = TermMDR \<and> term_rate t \<noteq> None) (tariff_terms version) of
             Some t \<Rightarrow>
               if \<not> truthy (term_rate t) then Inl NO_MDR_RULE_OR_TERM
               else
                 and_then (lift_parse (compute_mdr_fee amount \<lparr>rate_percent = optional_text (term_rate t),
                     min_fee_amount = JUndefined, max_fee_amount = JUndefined\<rparr>)) (\<lambda>fee.
                 Inr \<lparr>mc_rate = rate_text fee, mc_amount = fee_minor fee, mc_source = CommercialTerms, mc_rule = None\<rparr>)
           | None \<Rightarrow> Inl NO_MDR_RULE_OR_TERM))"

section \<open>Registering a purchase\<close>

text \<open>Every installment of the request has its number and amount, its due day and, when it has one, its Core installment.\<close>

record purchase_input =
  pi_merchant :: ident
  pi_branch :: ident
  pi_consumer :: "ident option"
  pi_consumer_ref :: "string option"
  pi_amount :: js_value
  pi_down_payment :: js_value
  pi_financed :: js_value
  pi_installments :: "(installment_input \<times> day \<times> string option) list"
  pi_category :: "string option"
  pi_mdr_due :: day
  pi_core_loan :: "(string \<times> string) option"

definition split_input :: "purchase_input \<Rightarrow> purchase_split_input" where
  "split_input x = \<lparr>purchase_amount = pi_amount x, down_payment_amount = pi_down_payment x,
     financed_amount = pi_financed x, installments_in = map fst (pi_installments x)\<rparr>"

definition assert_purchase_split :: "purchase_split_input \<Rightarrow> billing_failure + unit" where
  "assert_purchase_split input =
     and_then (lift_billing (purchase_split_violations input)) (\<lambda>violations.
       case violations of [] \<Rightarrow> Inr () | MoneyRuleViolation code _ # _ \<Rightarrow> Inl (SPLIT_VIOLATION code))"

definition resolve_consumer_id ::
    "ident option \<Rightarrow> string option \<Rightarrow> billing_book \<Rightarrow> billing_failure + ident \<times> billing_book" where
  "resolve_consumer_id consumer ref b =
     (if truthy consumer then
        Inr (the consumer,
          if the consumer \<in> consumer_id ` set (bb_consumers b) then b
          else b\<lparr>bb_consumers := bb_consumers b @ [\<lparr>consumer_id = the consumer, consumer_ref = ref\<rparr>]\<rparr>)
      else
        (let external = map_option js_trim ref
         in if \<not> truthy external then Inl CONSUMER_NOT_IDENTIFIED
            else
              (case find (\<lambda>c. consumer_ref c = external) (bb_consumers b) of
                 Some c \<Rightarrow> Inr (consumer_id c, b)
               | None \<Rightarrow>
                   Inr (show_nat (bb_next b), b\<lparr>bb_next := Suc (bb_next b),
                     bb_consumers := bb_consumers b @ [\<lparr>consumer_id = show_nat (bb_next b), consumer_ref = external\<rparr>]\<rparr>))))"

definition resolve_risk_tier :: "string option \<Rightarrow> billing_book \<Rightarrow> string option" where
  "resolve_risk_tier ref b =
     (let customer = map_option js_trim ref
      in if \<not> truthy customer then None
         else (case find (\<lambda>t. fst t = the customer) (bb_tiers b) of None \<Rightarrow> None | Some t \<Rightarrow> snd t))"

text \<open>The last active version of an active contract in force on the day; its inactive rules are left out.\<close>

definition find_active_contract_version :: "ident \<Rightarrow> day \<Rightarrow> billing_book \<Rightarrow> tariff_version_row option" where
  "find_active_contract_version account on_day b =
     (case filter (\<lambda>v. tariff_account v = account \<and> tariff_contract_status v = ''ACTIVE'' \<and> tariff_status v = ''ACTIVE'' \<and>
             tariff_from v \<le> on_day \<and> (case tariff_to v of None \<Rightarrow> True | Some t \<Rightarrow> on_day \<le> t)) (bb_tariffs b) of
        [] \<Rightarrow> None
      | v # vs \<Rightarrow>
          (let best = foldl (\<lambda>a c. if tariff_from a < tariff_from c then c else a) v vs
           in Some (best\<lparr>tariff_rules := filter rule_active (tariff_rules best)\<rparr>)))"

text \<open>The unique indexes of the link table: one link per installment on both sides.\<close>

definition link_core_installment :: "core_link_row \<Rightarrow> billing_book \<Rightarrow> billing_failure + billing_book" where
  "link_core_installment l b =
     (if \<exists>x \<in> set (bb_links b). cl_installment x = cl_installment l \<or>
           (cl_tenant x = cl_tenant l \<and> cl_core_installment x = cl_core_installment l)
      then Inl CORE_INSTALLMENT_ALREADY_LINKED
      else Inr (b\<lparr>bb_links := bb_links b @ [l]\<rparr>))"

text \<open>One turn of the loop over the installments: the row, and its link when both sides are given.\<close>

definition create_installment ::
    "ident \<Rightarrow> (string \<times> string) option \<Rightarrow> (installment_input \<times> day \<times> string option) \<times> int \<Rightarrow> billing_book \<Rightarrow>
     billing_failure + billing_book" where
  "create_installment sale loan x b =
     (case x of ((i, due, core), amount) \<Rightarrow>
       let new = show_nat (bb_next b);
           b1 = b\<lparr>bb_next := Suc (bb_next b), bb_installments := bb_installments b @
             [\<lparr>bi_id = new, bi_purchase = sale, bi_number = installment_number i, bi_due = due, bi_amount = amount\<rparr>]\<rparr>
       in case loan of
            Some (tenant, loan_id) \<Rightarrow>
              if truthy core then
                link_core_installment \<lparr>cl_purchase = sale, cl_installment = new, cl_tenant = tenant, cl_loan = loan_id,
                  cl_core_installment = the core\<rparr> b1
              else Inr b1
          | None \<Rightarrow> Inr b1)"

fun create_installments ::
    "ident \<Rightarrow> (string \<times> string) option \<Rightarrow> ((installment_input \<times> day \<times> string option) \<times> int) list \<Rightarrow> billing_book \<Rightarrow>
     billing_failure + billing_book" where
  "create_installments sale loan [] b = Inr b"
| "create_installments sale loan (x # xs) b =
     and_then (create_installment sale loan x b) (create_installments sale loan xs)"

definition find_product_by_source_type :: "string \<Rightarrow> billing_book \<Rightarrow> product_row option" where
  "find_product_by_source_type source b = find (\<lambda>p. product_source p = source \<and> product_active p) (bb_products b)"

definition new_purchase ::
    "purchase_input \<Rightarrow> purchase_split \<Rightarrow> ident \<Rightarrow> ident \<Rightarrow> string option \<Rightarrow> mdr_charge \<Rightarrow> ident \<Rightarrow> bnpl_purchase_row" where
  "new_purchase x split consumer version risk mdr i =
     \<lparr>bp_id = i, bp_merchant = pi_merchant x, bp_branch = pi_branch x, bp_consumer = consumer, bp_version = version,
      bp_purchase = purchase split, bp_down_payment = down_payment split, bp_financed = financed split,
      bp_risk = risk, bp_rate = mc_rate mdr, bp_mdr = mc_amount mdr, bp_rule = mc_rule mdr, bp_source = mc_source mdr\<rparr>"

definition mdr_receivable :: "purchase_input \<Rightarrow> ident \<Rightarrow> int \<Rightarrow> ident option \<Rightarrow> moment \<Rightarrow> ident \<Rightarrow> receivable_row" where
  "mdr_receivable x source amount product now i =
     \<lparr>rc_id = i, rc_account = pi_merchant x, rc_invoice = None, rc_source = ''MDR'', rc_source_id = Some source,
      rc_product = product, rc_original = amount, rc_open = amount, rc_currency = ''BOB'', rc_issued = now,
      rc_due = pi_mdr_due x, rc_status = ReceivablePending\<rparr>"

definition record_purchase ::
    "purchase_input \<Rightarrow> purchase_split \<Rightarrow> ident \<Rightarrow> ident \<Rightarrow> string option \<Rightarrow> mdr_charge \<Rightarrow> moment \<Rightarrow> billing_book \<Rightarrow>
     billing_failure + ident \<times> billing_book" where
  "record_purchase x split consumer version risk mdr now b =
     (let i = show_nat (bb_next b);
          b1 = b\<lparr>bb_next := Suc (bb_next b),
            bb_purchases := bb_purchases b @ [new_purchase x split consumer version risk mdr i],
            bb_down_payments := bb_down_payments b @
              [\<lparr>dp_purchase = i, dp_amount = down_payment split, dp_status = ''REPORTED''\<rparr>]\<rparr>
      in and_then (create_installments i (pi_core_loan x)
           (zip (pi_installments x) (installments split)) b1) (\<lambda>b2.
         Inr (i, b2\<lparr>bb_next := Suc (bb_next b2),
           bb_receivables := bb_receivables b2 @ [mdr_receivable x i (mc_amount mdr)
             (map_option product_id (find_product_by_source_type ''MDR'' b2)) now (show_nat (bb_next b2))]\<rparr>)))"

definition branch_enabled :: "ident \<Rightarrow> ident \<Rightarrow> billing_book \<Rightarrow> bool" where
  "branch_enabled branch account b =
     (case find (\<lambda>r. branch_id r = branch \<and> branch_account r = account) (bb_branches b) of
        None \<Rightarrow> False
      | Some r \<Rightarrow> branch_status r = ''ACTIVE'' \<and> can_originate r)"

definition register_purchase :: "purchase_input \<Rightarrow> day \<Rightarrow> moment \<Rightarrow> billing_book \<Rightarrow> billing_failure + ident \<times> billing_book" where
  "register_purchase x today now b =
     and_then (from_option MERCHANT_NOT_FOUND (find_by merchant_id (pi_merchant x) (bb_merchants b))) (\<lambda>account.
     and_then (ensure (merchant_lifecycle account = ''CUSTOMER'') MERCHANT_NOT_CUSTOMER) (\<lambda>_.
     and_then (ensure (branch_enabled (pi_branch x) (pi_merchant x) b) BRANCH_NOT_ENABLED) (\<lambda>_.
     and_then (assert_purchase_split (split_input x)) (\<lambda>_.
     and_then (lift_parse (parse_purchase_split (split_input x))) (\<lambda>split.
     and_then (resolve_consumer_id (pi_consumer x) (pi_consumer_ref x) b) (\<lambda>(consumer, b1).
     and_then (from_option NO_ACTIVE_CONTRACT_VERSION (find_active_contract_version (pi_merchant x) today b1)) (\<lambda>version.
     let risk = resolve_risk_tier (pi_consumer_ref x) b1
     in and_then (calculate_mdr (pi_amount x) version (pi_branch x) (pi_category x) risk) (\<lambda>mdr.
        record_purchase x split consumer (tariff_id version) risk mdr now b1))))))))"

section \<open>Charges of the advertising module\<close>

text \<open>
  The advertising module inserts the invoice of a period as a pending charge of the merchant: its amount in millionths,
  which is never negative, rounded to cents; \<open>uq_merchant_receivable_source\<close> admits one charge per source.
\<close>

definition create_merchant_receivable_from_ads_invoice ::
    "ident \<Rightarrow> ident \<Rightarrow> string \<Rightarrow> ident \<Rightarrow> nat \<Rightarrow> string \<Rightarrow> day \<Rightarrow> moment \<Rightarrow> billing_book \<Rightarrow> billing_failure + billing_book" where
  "create_merchant_receivable_from_ads_invoice merchant product source ads_invoice micros currency due now b =
     (let cents = int ((micros + 5000) div 10000)
      in if \<exists>r \<in> set (bb_receivables b). rc_source r = source \<and> rc_source_id r = Some ads_invoice then Inl RECEIVABLE_SOURCE_TAKEN
         else Inr (b\<lparr>bb_next := Suc (bb_next b), bb_receivables := bb_receivables b @
           [\<lparr>rc_id = show_nat (bb_next b), rc_account = merchant, rc_invoice = None, rc_source = source,
             rc_source_id = Some ads_invoice, rc_product = Some product, rc_original = cents, rc_open = cents,
             rc_currency = currency, rc_issued = now, rc_due = due, rc_status = ReceivablePending\<rparr>]\<rparr>))"

section \<open>Issuing an invoice\<close>

record invoice_input =
  ii_account :: ident
  ii_contract :: "ident option"
  ii_date :: day
  ii_due :: day
  ii_receivables :: "ident list"
  ii_tax_ref :: "string option"

text \<open>The charge as the column texts that \<open>computeInvoiceTotals\<close> reads.\<close>

definition charge_of :: "receivable_row \<Rightarrow> invoiceable_charge" where
  "charge_of r = \<lparr>charge_id = rc_id r, amount_open = JString (minor_text (rc_open r) 2), charge_currency = rc_currency r\<rparr>"

definition totals_of :: "js_value \<Rightarrow> receivable_row list \<Rightarrow> billing_failure + invoice_totals" where
  "totals_of tax_rate rs = lift_billing (compute_invoice_totals (map charge_of rs) tax_rate)"

text \<open>\<open>new Map(products.map(...))\<close>: the last product of a source type.\<close>

definition product_of_source :: "string \<Rightarrow> billing_book \<Rightarrow> product_row option" where
  "product_of_source source b =
     (case filter (\<lambda>p. product_source p = source) (bb_products b) of [] \<Rightarrow> None | p # ps \<Rightarrow> Some (List.last (p # ps)))"

definition line_of :: "invoice_totals \<Rightarrow> ident \<Rightarrow> invoice_line_totals" where
  "line_of t i = List.last (filter (\<lambda>l. line_id l = i) (lines t))"

definition new_invoice_line :: "ident \<Rightarrow> invoice_totals \<Rightarrow> billing_book \<Rightarrow> receivable_row \<Rightarrow> invoice_line_row" where
  "new_invoice_line invoice t b r =
     (let l = line_of t (rc_id r); product = product_of_source (rc_source r) b
      in \<lparr>il_invoice = invoice, il_source = rc_source r, il_source_id = rc_source_id r,
          il_product = (if rc_product r \<noteq> None then rc_product r else map_option product_id product),
          il_description = (case product of Some p \<Rightarrow> product_name p | None \<Rightarrow> ''Cargo '' @ rc_source r),
          il_unit = minor_value (line_net l), il_tax = minor_value (line_tax l), il_total = minor_value (line_total l)\<rparr>)"

definition charges_for :: "invoice_input \<Rightarrow> billing_book \<Rightarrow> receivable_row list" where
  "charges_for x b = filter (\<lambda>r. rc_id r \<in> set (ii_receivables x) \<and> rc_account r = ii_account x) (bb_receivables b)"

text \<open>The branch without electronic invoicing: no fiscal document is issued.\<close>

definition issue_invoice ::
    "js_value \<Rightarrow> string \<Rightarrow> invoice_input \<Rightarrow> billing_book \<Rightarrow> billing_failure + ident \<times> billing_book" where
  "issue_invoice tax_rate clock_year x b =
     (let rs = charges_for x b
      in if length rs \<noteq> length (ii_receivables x) then Inl RECEIVABLES_NOT_FOUND
         else if \<exists>r \<in> set rs. rc_invoice r \<noteq> None then Inl RECEIVABLE_ALREADY_INVOICED
         else if \<exists>r \<in> set rs. rc_status r \<noteq> ReceivablePending then Inl RECEIVABLE_NOT_PENDING
         else if \<exists>r \<in> set rs. rc_open r \<le> 0 then Inl RECEIVABLE_WITHOUT_BALANCE
         else
           and_then (totals_of tax_rate rs) (\<lambda>t.
             let i = show_nat (bb_next b);
                 invoice = \<lparr>iv_id = i, iv_account = ii_account x, iv_contract = ii_contract x,
                   iv_number = document_number clock_year ''FAC-CM'' (ii_date x) None (map iv_number (bb_invoices b)),
                   iv_date = ii_date x, iv_due = ii_due x, iv_subtotal = minor_value (subtotal t),
                   iv_tax = minor_value (tax t), iv_total = minor_value (total_amount t), iv_status = InvoiceIssued,
                   iv_tax_ref = ii_tax_ref x\<rparr>
             in if iv_number invoice \<in> iv_number ` set (bb_invoices b) then Inl INVOICE_NUMBER_TAKEN
                else Inr (i, b\<lparr>bb_next := Suc (bb_next b), bb_invoices := bb_invoices b @ [invoice],
                  bb_invoice_lines := bb_invoice_lines b @ map (new_invoice_line i t b) rs,
                  bb_receivables := map (\<lambda>r. if rc_id r \<in> rc_id ` set rs then r\<lparr>rc_invoice := Some i\<rparr> else r) (bb_receivables b)\<rparr>)))"

section \<open>Payments\<close>

record payment_input =
  pm_account :: ident
  pm_amount :: js_value
  pm_code :: string
  pm_allocations :: "(ident \<times> js_value) list"

definition collected_status :: "receivable_row list \<Rightarrow> invoice_status" where
  "collected_status rs =
     (if \<forall>r \<in> set rs. rc_open r = 0 then InvoicePaid
      else if \<exists>r \<in> set rs. rc_open r < rc_original r then InvoicePartiallyPaid
      else InvoiceIssued)"

definition refresh_invoice_payment_status :: "ident \<Rightarrow> billing_book \<Rightarrow> billing_book" where
  "refresh_invoice_payment_status i b =
     (let rs = filter (\<lambda>r. rc_invoice r = Some i) (bb_receivables b)
      in case find_by iv_id i (bb_invoices b) of
           None \<Rightarrow> b
         | Some invoice \<Rightarrow>
             if rs = [] \<or> iv_status invoice = InvoiceCancelled then b
             else b\<lparr>bb_invoices := update_by iv_id i (\<lambda>v. v\<lparr>iv_status := collected_status rs\<rparr>) (bb_invoices b)\<rparr>)"

text \<open>One turn of the loop: the allocation, the new balance, and the invoice it touches.\<close>

definition apply_allocation ::
    "payment_input \<Rightarrow> ident \<Rightarrow> ident \<times> js_value \<Rightarrow> ident list \<times> billing_book \<Rightarrow> billing_failure + ident list \<times> billing_book" where
  "apply_allocation x payment a acc =
     (case a of (receivable, amount) \<Rightarrow> case acc of (touched, b) \<Rightarrow>
       and_then (from_option RECEIVABLE_NOT_FOUND
           (find (\<lambda>r. rc_id r = receivable \<and> rc_account r = pm_account x) (bb_receivables b))) (\<lambda>r.
       and_then (ensure (to_upper (js_trim (rc_currency r)) = pm_code x) PAYMENT_CURRENCY_MISMATCH) (\<lambda>_.
       and_then (lift_parse (parse_money amount (positive_money\<lparr>pm_currency := Some (pm_code x)\<rparr>))) (\<lambda>applied.
       and_then (ensure (applied \<le> rc_open r) ALLOCATION_EXCEEDS_OPEN) (\<lambda>_.
         let next_open = rc_open r - applied
         in Inr (case rc_invoice r of None \<Rightarrow> touched | Some i \<Rightarrow> touched @ [i],
              b\<lparr>bb_allocations := bb_allocations b @ [\<lparr>al_payment = payment, al_receivable = rc_id r, al_applied = applied\<rparr>],
                bb_receivables := update_by rc_id (rc_id r) (\<lambda>r. r\<lparr>rc_open := next_open,
                  rc_status := (if next_open = 0 then ReceivablePaid else ReceivablePartiallyPaid)\<rparr>) (bb_receivables b)\<rparr>))))))"

fun apply_allocations ::
    "payment_input \<Rightarrow> ident \<Rightarrow> (ident \<times> js_value) list \<Rightarrow> ident list \<times> billing_book \<Rightarrow> billing_failure + ident list \<times> billing_book" where
  "apply_allocations x payment [] acc = Inr acc"
| "apply_allocations x payment (a # rest) acc = and_then (apply_allocation x payment a acc) (apply_allocations x payment rest)"

definition register_merchant_payment :: "payment_input \<Rightarrow> billing_book \<Rightarrow> billing_failure + ident \<times> billing_book" where
  "register_merchant_payment x b =
     and_then (lift_parse (allocations_match_payment (pm_amount x) (map snd (pm_allocations x)) (pm_code x))) (\<lambda>matching.
     and_then (ensure matching ALLOCATIONS_MISMATCH) (\<lambda>_.
     and_then (lift_parse (parse_money (pm_amount x) (default_options\<lparr>pm_currency := Some (pm_code x)\<rparr>))) (\<lambda>amount.
       let i = show_nat (bb_next b);
           b1 = b\<lparr>bb_next := Suc (bb_next b), bb_payments := bb_payments b @
             [\<lparr>py_id = i, py_account = pm_account x, py_amount = amount, py_currency = pm_code x, py_status = ''CONFIRMED''\<rparr>]\<rparr>
       in and_then (apply_allocations x i (pm_allocations x) ([], b1)) (\<lambda>(touched, b2).
            Inr (i, fold refresh_invoice_payment_status (distinct_in_order touched) b2)))))"

section \<open>Annulment\<close>

text \<open>The local effects of an annulment the tax authority confirmed, for a merchant invoice.\<close>

definition annul_invoice :: "ident \<Rightarrow> billing_book \<Rightarrow> billing_book" where
  "annul_invoice i b =
     b\<lparr>bb_invoices := update_by iv_id i (\<lambda>v. v\<lparr>iv_status := InvoiceCancelled\<rparr>) (bb_invoices b),
       bb_receivables := map (\<lambda>r. if rc_invoice r = Some i then r\<lparr>rc_invoice := None\<rparr> else r) (bb_receivables b)\<rparr>"

section \<open>The billing cycle\<close>

definition max_lineas_por_factura :: nat where
  "max_lineas_por_factura = 500"

datatype corrida_status = RunDone | RunPartial | RunFailed | RunAlreadyRun

record run_row =
  run_id :: ident
  run_key :: string
  run_status :: "corrida_status option"
  run_accounts :: nat
  run_invoices :: "ident list"
  run_errors :: "ident list"

text \<open>\<open>split('-')\<close> of a day: year and month.\<close>

definition clave_del_ciclo_cerrado :: "day \<Rightarrow> string" where
  "clave_del_ciclo_cerrado hoy =
     (let anio = takeWhile (\<lambda>c. c \<noteq> CHR ''-'') hoy;
          mes = takeWhile (\<lambda>c. c \<noteq> CHR ''-'') (drop (Suc (length anio)) hoy);
          a = parse_nat anio; m = parse_nat mes
      in ''MONTHLY:'' @ (if m = 1 then show_integer (int a - 1) @ ''-12''
                         else show_nat a @ ''-'' @ pad_start 2 (show_integer (int m - 1))))"

text \<open>Midnight of a day in La Paz, which is four hours behind UTC all year.\<close>

definition medianoche_la_paz :: "day \<Rightarrow> moment" where
  "medianoche_la_paz hoy = hoy @ ''T04:00:00.000Z''"

text \<open>The charges the query selects, in its order.\<close>

definition cargos_pendientes :: "day \<Rightarrow> billing_book \<Rightarrow> receivable_row list" where
  "cargos_pendientes hoy b =
     sort_key rc_account (sort_key rc_currency (sort_key rc_issued (sort_key rc_id
       (filter (\<lambda>r. rc_status r = ReceivablePending \<and> rc_invoice r = None \<and> 0 < rc_open r \<and> rc_issued r < medianoche_la_paz hoy)
         (bb_receivables b)))))"

text \<open>The groups by account and currency, in the order in which the map inserts them.\<close>

definition agregar :: "receivable_row \<Rightarrow> ((ident \<times> string) \<times> ident list) list \<Rightarrow> ((ident \<times> string) \<times> ident list) list" where
  "agregar r grupos =
     (let clave = (rc_account r, rc_currency r)
      in if clave \<in> fst ` set grupos then map (\<lambda>g. if fst g = clave then (clave, snd g @ [rc_id r]) else g) grupos
         else grupos @ [(clave, [rc_id r])])"

definition grupos_de :: "receivable_row list \<Rightarrow> ((ident \<times> string) \<times> ident list) list" where
  "grupos_de cargos = fold agregar cargos []"

function tandas :: "ident list \<Rightarrow> ident list list" where
  "tandas ids = (if ids = [] then [] else take max_lineas_por_factura ids # tandas (drop max_lineas_por_factura ids))"
  by pat_completeness auto

termination tandas
  by (relation "measure length") (auto simp: max_lineas_por_factura_def)

declare tandas.simps [simp del]

text \<open>A batch that fails is reported and does not stop the others.\<close>

definition facturar_tanda ::
    "js_value \<Rightarrow> string \<Rightarrow> day \<Rightarrow> day \<Rightarrow> ident \<times> ident list \<Rightarrow> ident list \<times> ident list \<times> billing_book \<Rightarrow>
     ident list \<times> ident list \<times> billing_book" where
  "facturar_tanda tax_rate clock_year hoy vence tanda acc =
     (case acc of (facturas, errores, b) \<Rightarrow>
        case issue_invoice tax_rate clock_year \<lparr>ii_account = fst tanda, ii_contract = None, ii_date = hoy, ii_due = vence,
            ii_receivables = snd tanda, ii_tax_ref = None\<rparr> b of
          Inl _ \<Rightarrow> (facturas, errores @ [fst tanda], b)
        | Inr (i, b') \<Rightarrow> (facturas @ [i], errores, b'))"

definition tandas_de :: "((ident \<times> string) \<times> ident list) list \<Rightarrow> (ident \<times> ident list) list" where
  "tandas_de grupos = concat (map (\<lambda>g. map (\<lambda>t. (fst (fst g), t)) (tandas (snd g))) grupos)"

record cycle_state =
  cy_runs :: "run_row list"
  cy_next :: nat
  cy_book :: billing_book

text \<open>
  The claim: an INSERT that commits by itself, and that inserts nothing when the cycle has its row already. The row says
  RUNNING (no status here) until the end of the run updates it.
\<close>

definition reclamar_ciclo :: "day \<Rightarrow> cycle_state \<Rightarrow> (ident \<times> cycle_state) option" where
  "reclamar_ciclo hoy s =
     (let clave = clave_del_ciclo_cerrado hoy; i = show_nat (cy_next s)
      in if clave \<in> run_key ` set (cy_runs s) then None
         else Some (i, s\<lparr>cy_next := Suc (cy_next s), cy_runs := cy_runs s @
           [\<lparr>run_id = i, run_key = clave, run_status = None, run_accounts = 0, run_invoices = [], run_errors = []\<rparr>]\<rparr>))"

text \<open>
  The run: the claim, then one transaction per batch, then the UPDATE of its row. Each commits by itself, so the process may
  end in between: \<open>Some n\<close> is a run that ends after the claim and \<open>n\<close> batches, without a result. The result names the run
  (when it was claimed), its status, its invoices and the accounts that failed.
\<close>

definition ejecutar_cierre ::
    "js_value \<Rightarrow> string \<Rightarrow> day \<Rightarrow> day \<Rightarrow> nat option \<Rightarrow> cycle_state \<Rightarrow>
     (ident option \<times> corrida_status \<times> ident list \<times> ident list) option \<times> cycle_state" where
  "ejecutar_cierre tax_rate clock_year hoy vence caida s =
     (case reclamar_ciclo hoy s of
        None \<Rightarrow> (Some (None, RunAlreadyRun, [], []), s)
      | Some (i, s1) \<Rightarrow>
          (let grupos = grupos_de (cargos_pendientes hoy (cy_book s1));
               todas = tandas_de grupos;
               hechas = (case caida of None \<Rightarrow> todas | Some n \<Rightarrow> take n todas);
               (facturas, errores, b) = fold (facturar_tanda tax_rate clock_year hoy vence) hechas ([], [], cy_book s1);
               status = (if errores = [] then RunDone else if facturas \<noteq> [] then RunPartial else RunFailed)
           in if caida \<noteq> None then (None, s1\<lparr>cy_book := b\<rparr>)
              else (Some (Some i, status, facturas, errores),
                s1\<lparr>cy_book := b, cy_runs := update_by run_id i (\<lambda>r. r\<lparr>run_status := Some status,
                  run_accounts := length (remdups (map (fst \<circ> fst) grupos)), run_invoices := facturas,
                  run_errors := errores\<rparr>) (cy_runs s1)\<rparr>)))"

end
