(* ===== verification/BillingInvariant.thy ===== *)
theory BillingInvariant
  imports Billing
begin

text \<open>
  The invariant of the billing tables, and that registering a purchase, issuing an invoice, registering a payment and
  annulling an invoice keep it. The invariant says that keys are unique and references resolve, that the balance of a charge
  is what was charged less the allocations on it, with the status that balance implies, that a payment is the sum of its
  allocations, and, as payments run one after another, that an invoice's status says what of its charges was collected.
\<close>

lemma keyed_fresh_row: "keyed k key rows \<Longrightarrow> r \<in> set rows \<Longrightarrow> key r \<noteq> show_nat k"
  using keyed_fresh by (metis imageI)

section \<open>The invariant\<close>

definition applied :: "allocation_row list \<Rightarrow> ident \<Rightarrow> int" where
  "applied als i = sum_list (map al_applied (filter (\<lambda>a. al_receivable a = i) als))"

definition paid_with :: "allocation_row list \<Rightarrow> ident \<Rightarrow> int" where
  "paid_with als p = sum_list (map al_applied (filter (\<lambda>a. al_payment a = p) als))"

definition members :: "receivable_row list \<Rightarrow> ident \<Rightarrow> receivable_row list" where
  "members rs i = filter (\<lambda>r. rc_invoice r = Some i) rs"

text \<open>What is open is what was charged less what was applied, and the status says which.\<close>

definition charge_ok :: "allocation_row list \<Rightarrow> receivable_row \<Rightarrow> bool" where
  "charge_ok als r =
     (rc_open r = rc_original r - applied als (rc_id r) \<and> 0 \<le> rc_open r \<and> 0 \<le> applied als (rc_id r)
      \<and> (rc_status r = ReceivablePending \<and> applied als (rc_id r) = 0
         \<or> rc_status r = ReceivablePartiallyPaid \<and> 0 < applied als (rc_id r) \<and> 0 < rc_open r
         \<or> rc_status r = ReceivablePaid \<and> 0 < applied als (rc_id r) \<and> rc_open r = 0))"

definition invoiced_ok :: "invoice_row list \<Rightarrow> receivable_row \<Rightarrow> bool" where
  "invoiced_ok vs r = (\<forall>i. rc_invoice r = Some i \<longrightarrow>
     (\<exists>v \<in> set vs. iv_id v = i \<and> iv_status v \<noteq> InvoiceCancelled \<and> iv_account v = rc_account r))"

definition header_ok :: "receivable_row list \<Rightarrow> invoice_row \<Rightarrow> bool" where
  "header_ok rs v = (iv_status v \<noteq> InvoiceCancelled \<longrightarrow>
     members rs (iv_id v) \<noteq> [] \<and> (\<forall>x \<in> set (map rc_original (members rs (iv_id v))). 0 < x) \<and> iv_subtotal v = sum_list (map rc_original (members rs (iv_id v)))
     \<and> iv_total v = iv_subtotal v + iv_tax v)"

definition shown_ok :: "receivable_row list \<Rightarrow> invoice_row \<Rightarrow> bool" where
  "shown_ok rs v = (iv_status v \<noteq> InvoiceCancelled \<longrightarrow> iv_status v = collected_status (members rs (iv_id v)))"

definition payment_ok :: "allocation_row list \<Rightarrow> payment_row \<Rightarrow> bool" where
  "payment_ok als p = (py_amount p = paid_with als (py_id p))"

definition allocation_ok :: "receivable_row list \<Rightarrow> payment_row list \<Rightarrow> allocation_row \<Rightarrow> bool" where
  "allocation_ok rs ps a = (0 < al_applied a \<and> al_receivable a \<in> rc_id ` set rs \<and> al_payment a \<in> py_id ` set ps)"

definition billing_keys :: "billing_book \<Rightarrow> bool" where
  "billing_keys b = (keyed (bb_next b) rc_id (bb_receivables b) \<and> keyed (bb_next b) iv_id (bb_invoices b)
     \<and> keyed (bb_next b) py_id (bb_payments b))"

text \<open>Within a payment, the invoices \<open>T\<close> it has touched show the status they had, and its allocations are not complete.\<close>

definition billing_inv :: "ident set \<Rightarrow> ident set \<Rightarrow> billing_book \<Rightarrow> bool" where
  "billing_inv T P b =
     (billing_keys b
      \<and> (\<forall>r \<in> set (bb_receivables b). charge_ok (bb_allocations b) r \<and> invoiced_ok (bb_invoices b) r)
      \<and> (\<forall>v \<in> set (bb_invoices b). header_ok (bb_receivables b) v \<and> (iv_id v \<notin> T \<longrightarrow> shown_ok (bb_receivables b) v))
      \<and> (\<forall>p \<in> set (bb_payments b). py_id p \<notin> P \<longrightarrow> payment_ok (bb_allocations b) p)
      \<and> (\<forall>a \<in> set (bb_allocations b). allocation_ok (bb_receivables b) (bb_payments b) a))"

abbreviation billing_ok :: "billing_book \<Rightarrow> bool" where
  "billing_ok \<equiv> billing_inv {} {}"

lemma balance_ok_invoice [simp]: "charge_ok als (r\<lparr>rc_invoice := z\<rparr>) = charge_ok als r"
  by (simp add: charge_ok_def)

lemma billing_invD:
  assumes "billing_inv T P b"
  shows "billing_keys b"
    "r \<in> set (bb_receivables b) \<Longrightarrow> charge_ok (bb_allocations b) r" "r \<in> set (bb_receivables b) \<Longrightarrow> invoiced_ok (bb_invoices b) r"
    "v \<in> set (bb_invoices b) \<Longrightarrow> header_ok (bb_receivables b) v"
    "v \<in> set (bb_invoices b) \<Longrightarrow> iv_id v \<notin> T \<Longrightarrow> shown_ok (bb_receivables b) v"
    "p \<in> set (bb_payments b) \<Longrightarrow> py_id p \<notin> P \<Longrightarrow> payment_ok (bb_allocations b) p"
    "a \<in> set (bb_allocations b) \<Longrightarrow> allocation_ok (bb_receivables b) (bb_payments b) a"
  using assms unfolding billing_inv_def by blast+

lemma billing_invI:
  assumes "billing_keys b"
    "\<And>r. r \<in> set (bb_receivables b) \<Longrightarrow> charge_ok (bb_allocations b) r" "\<And>r. r \<in> set (bb_receivables b) \<Longrightarrow> invoiced_ok (bb_invoices b) r"
    "\<And>v. v \<in> set (bb_invoices b) \<Longrightarrow> header_ok (bb_receivables b) v"
    "\<And>v. v \<in> set (bb_invoices b) \<Longrightarrow> iv_id v \<notin> T \<Longrightarrow> shown_ok (bb_receivables b) v"
    "\<And>p. p \<in> set (bb_payments b) \<Longrightarrow> py_id p \<notin> P \<Longrightarrow> payment_ok (bb_allocations b) p"
    "\<And>a. a \<in> set (bb_allocations b) \<Longrightarrow> allocation_ok (bb_receivables b) (bb_payments b) a"
  shows "billing_inv T P b"
  using assms unfolding billing_inv_def by blast

lemma billing_keysD:
  assumes "billing_inv T P b"
  shows "keyed (bb_next b) rc_id (bb_receivables b)" "keyed (bb_next b) iv_id (bb_invoices b)" "keyed (bb_next b) py_id (bb_payments b)"
  using billing_invD(1) [OF assms] by (simp_all add: billing_keys_def)

text \<open>The sums over the allocations.\<close>

lemma applied_append [simp]: "applied (als @ [a]) i = applied als i + (if al_receivable a = i then al_applied a else 0)"
  by (simp add: applied_def)

lemma paid_with_append [simp]: "paid_with (als @ [a]) p = paid_with als p + (if al_payment a = p then al_applied a else 0)"
  by (simp add: paid_with_def)

lemma applied_other: "\<forall>a \<in> set als. al_receivable a \<noteq> i \<Longrightarrow> applied als i = 0"
  by (auto simp: applied_def intro!: sum_list_0 filter_False)

lemma paid_with_other: "\<forall>a \<in> set als. al_payment a \<noteq> p \<Longrightarrow> paid_with als p = 0"
  by (auto simp: paid_with_def)

lemma allocation_ok_mono:
  "allocation_ok rs ps a \<Longrightarrow> rc_id ` set rs \<subseteq> rc_id ` set rs' \<Longrightarrow> py_id ` set ps \<subseteq> py_id ` set ps' \<Longrightarrow> allocation_ok rs' ps' a"
  by (auto simp: allocation_ok_def)

text \<open>Two tables of receivables with the same links and amounts give an invoice the same header.\<close>

lemma header_ok_cong: "map (\<lambda>r. (rc_invoice r, rc_original r)) rs' = map (\<lambda>r. (rc_invoice r, rc_original r)) rs \<Longrightarrow> header_ok rs' v = header_ok rs v"
proof -
  assume "map (\<lambda>r. (rc_invoice r, rc_original r)) rs' = map (\<lambda>r. (rc_invoice r, rc_original r)) rs"
  moreover have "map rc_original (members xs i) = map snd (filter (\<lambda>p. fst p = Some i) (map (\<lambda>r. (rc_invoice r, rc_original r)) xs))" for xs i
    by (simp add: members_def filter_map comp_def)
  ultimately have m: "map rc_original (members rs' i) = map rc_original (members rs i)" for i by simp
  then have "members rs' i = [] \<longleftrightarrow> members rs i = []" for i by (metis map_is_Nil_conv)
  with m show ?thesis unfolding header_ok_def by metis
qed

lemma same_keys: "(\<And>r. key (f r) = key r) \<Longrightarrow> key ` set (map f rs) = key ` set rs"
  by (simp add: image_image)

section \<open>New receivables\<close>

lemma new_receivable_ok:
  assumes ok: "billing_ok b" and rs: "bb_receivables b' = bb_receivables b @ [r]"
    and rest: "bb_invoices b' = bb_invoices b" "bb_payments b' = bb_payments b" "bb_allocations b' = bb_allocations b"
    and k: "rc_id r = show_nat k" "bb_next b \<le> k" "k < bb_next b'"
    and r: "rc_invoice r = None" "rc_open r = rc_original r" "0 \<le> rc_original r" "rc_status r = ReceivablePending"
  shows "billing_ok b'"
proof (rule billing_invI)
  note keys = billing_keysD [OF ok]
  have fresh: "rc_id r \<notin> rc_id ` set (bb_receivables b)"
    using keyed_fresh [OF keyed_mono [OF keys(1) k(2)]] k(1) by simp
  have "al_receivable a \<noteq> rc_id r" if "a \<in> set (bb_allocations b)" for a
    using billing_invD(7) [OF ok that] fresh unfolding allocation_ok_def by metis
  then have zero: "applied (bb_allocations b) (rc_id r) = 0" by (intro applied_other) simp
  have m: "members (bb_receivables b') i = members (bb_receivables b) i" for i by (simp add: rs members_def r)
  show "billing_keys b'"
    using keyed_append [OF keyed_mono [OF keys(1) k(2)] k(1)] keys k(2,3)
    by (auto simp: billing_keys_def rs rest intro: keyed_mono)
  show "charge_ok (bb_allocations b') x" "invoiced_ok (bb_invoices b') x" if "x \<in> set (bb_receivables b')" for x
    using that billing_invD(2,3) [OF ok] zero r unfolding rs rest by (auto simp: charge_ok_def invoiced_ok_def)
  show "header_ok (bb_receivables b') v" if "v \<in> set (bb_invoices b')" for v
    using that billing_invD(4) [OF ok] by (simp add: rest header_ok_def m)
  show "shown_ok (bb_receivables b') v" if "v \<in> set (bb_invoices b')" for v
    using that billing_invD(5) [OF ok] by (simp add: rest shown_ok_def m)
  show "payment_ok (bb_allocations b') p" if "p \<in> set (bb_payments b')" for p
    using that billing_invD(6) [OF ok] by (simp add: rest)
  show "allocation_ok (bb_receivables b') (bb_payments b') a" if "a \<in> set (bb_allocations b')" for a
    using that unfolding rest rs by (intro allocation_ok_mono [OF billing_invD(7) [OF ok]]) auto
qed

section \<open>What the money functions return\<close>

lemma parse_money_text: "parse_money (JString (minor_text m 2)) opts = Inr n \<Longrightarrow> n = m"
proof -
  assume a: "parse_money (JString (minor_text m 2)) opts = Inr n"
  then obtain s where s: "currency_scale (case pm_currency opts of None \<Rightarrow> ''BOB'' | Some c \<Rightarrow> c) = Inr s"
    "parse_decimal_exact (JString (minor_text m 2)) s = Inr n"
    by (auto simp: parse_money_def Let_def result_simps split: if_splits)
  from s(1) have "s = 2" by (auto simp: currency_scale_def currency_minor_scale_def result_simps split: if_splits)
  with s(2) have "to_minor_units (JString (js_trim (minor_text m 2))) 2 = Inr n"
    by (auto simp: parse_decimal_exact_def exact_decimal_text_def Let_def result_simps split: if_splits)
  then show "n = m"
    using to_minor_units_minor_text [of 2 m] by (simp add: pattern_trim [OF minor_text_pattern])
qed

lemma invoice_totals_parts:
  assumes "compute_invoice_totals charges rate = Inr t"
  obtains nets r taxes where "charges \<noteq> []" "invoice_currency charges = Inr (totals_currency t)"
    "traverse (\<lambda>c. parse_money (amount_open c) (positive_money\<lparr>pm_currency := Some (totals_currency t)\<rparr>)) charges = Inr nets"
    "parse_rate_percent rate = Inr r" "allocate_proportionally (minor_value (tax t)) nets = Inr taxes"
    "minor_value (tax t) = rounded_quotient money_rounding_mode (sum_list nets * r) 100000000"
    "minor_value (subtotal t) = sum_list nets" "minor_value (total_amount t) = sum_list nets + minor_value (tax t)"
    "traverse invoice_line (zip charges (zip nets taxes)) = Inr (lines t)"
  using assms by (auto simp: compute_invoice_totals_def Let_def result_simps cents_eq_Inr split: if_splits)

lemma traverse_texts: "traverse (\<lambda>c. parse_money (amount_open c) opts) (map charge_of rs) = Inr nets \<Longrightarrow> nets = map rc_open rs"
  by (induction rs arbitrary: nets) (auto simp: result_simps charge_of_def dest: parse_money_text)

lemma totals_of_header:
  assumes "totals_of rate rs = Inr t"
  shows "rs \<noteq> []" "minor_value (subtotal t) = sum_list (map rc_open rs)"
    "minor_value (total_amount t) = minor_value (subtotal t) + minor_value (tax t)"
proof -
  from assms have a: "compute_invoice_totals (map charge_of rs) rate = Inr t" by (simp add: totals_of_def)
  from invoice_totals_parts [OF a] obtain nets where n: "map charge_of rs \<noteq> []"
    "traverse (\<lambda>c. parse_money (amount_open c) (positive_money\<lparr>pm_currency := Some (totals_currency t)\<rparr>)) (map charge_of rs) = Inr nets"
    "minor_value (subtotal t) = sum_list nets" "minor_value (total_amount t) = sum_list nets + minor_value (tax t)"
    by metis
  with traverse_texts [OF n(2)] show "rs \<noteq> []" "minor_value (subtotal t) = sum_list (map rc_open rs)"
    "minor_value (total_amount t) = minor_value (subtotal t) + minor_value (tax t)" by simp_all
qed

lemma floor_fee: "(if present v then and_then (parse_money v default_options) (\<lambda>m. Inr (if fee < m then m else fee)) else Inr fee) = Inr fee'
    \<Longrightarrow> 0 \<le> fee \<Longrightarrow> 0 \<le> fee'"
  by (auto simp: result_simps split: if_splits)

lemma cap_fee: "(if present v then and_then (parse_money v default_options) (\<lambda>m. Inr (if m < fee then m else fee)) else Inr fee) = Inr fee'
    \<Longrightarrow> 0 \<le> fee \<Longrightarrow> 0 \<le> fee'"
  by (auto simp: result_simps dest: parse_money_nonneg split: if_splits)

lemma fee_nonneg: "compute_mdr_fee amount pricing = Inr fee \<Longrightarrow> 0 \<le> fee_minor fee"
proof -
  assume a: "compute_mdr_fee amount pricing = Inr fee"
  then obtain p u f0 f1 f2 tx ty where f: "parse_money amount positive_money = Inr p" "parse_rate_percent (rate_percent pricing) = Inr u"
    "apply_rate_percent p u money_rounding_mode = Inr f0"
    "(if present (min_fee_amount pricing) then and_then (parse_money (min_fee_amount pricing) default_options)
        (\<lambda>m. Inr (if f0 < m then m else f0)) else Inr f0) = Inr f1"
    "(if present (max_fee_amount pricing) then and_then (parse_money (max_fee_amount pricing) default_options)
        (\<lambda>m. Inr (if m < f1 then m else f1)) else Inr f1) = Inr f2"
    "Inr \<lparr>rate_units = u, rate_text = tx, fee_minor = f2, fee_text = ty\<rparr> = (Inr fee :: money_error + mdr_fee)"
    unfolding compute_mdr_fee_def and_then_eq_Inr by blast
  have "0 < p" using f(1) parse_money_positive [of amount None] by (simp flip: positive_money_no_currency)
  with f(2,3) parse_rate_percent_range [OF f(2)] rate_of_amount_bounds(1) [of p u] have "0 \<le> f0" by auto
  from cap_fee [OF f(5) floor_fee [OF f(4) this]] f(6) show "0 \<le> fee_minor fee" by auto
qed

lemma calculate_mdr_nonneg: "calculate_mdr amount v branch category risk = Inr m \<Longrightarrow> 0 \<le> mc_amount m"
  by (auto simp: calculate_mdr_def result_simps fee_nonneg split: option.splits if_splits)

section \<open>Invoices\<close>

lemma issue_invoice_Inr:
  assumes "issue_invoice rate y x b = Inr (i, b')"
  obtains t where "totals_of rate (charges_for x b) = Inr t" "length (charges_for x b) = length (ii_receivables x)"
    "\<forall>r \<in> set (charges_for x b). rc_invoice r = None \<and> rc_status r = ReceivablePending \<and> 0 < rc_open r"
    "i = show_nat (bb_next b)" "bb_next b' = Suc (bb_next b)" "bb_payments b' = bb_payments b" "bb_allocations b' = bb_allocations b"
    "bb_purchases b' = bb_purchases b"
    "\<exists>v. bb_invoices b' = bb_invoices b @ [v] \<and> iv_id v = i \<and> iv_account v = ii_account x \<and> iv_status v = InvoiceIssued
       \<and> iv_subtotal v = minor_value (subtotal t) \<and> iv_tax v = minor_value (tax t) \<and> iv_total v = minor_value (total_amount t)
       \<and> iv_number v = document_number y ''FAC-CM'' (ii_date x) None (map iv_number (bb_invoices b))"
    "bb_invoice_lines b' = bb_invoice_lines b @ map (new_invoice_line i t b) (charges_for x b)"
    "bb_receivables b' = map (\<lambda>r. if rc_id r \<in> rc_id ` set (charges_for x b) then r\<lparr>rc_invoice := Some i\<rparr> else r) (bb_receivables b)"
proof -
  from assms obtain t where t: "totals_of rate (charges_for x b) = Inr t" "length (charges_for x b) = length (ii_receivables x)"
    "\<not> (\<exists>r \<in> set (charges_for x b). rc_invoice r \<noteq> None)" "\<not> (\<exists>r \<in> set (charges_for x b). rc_status r \<noteq> ReceivablePending)"
    "\<not> (\<exists>r \<in> set (charges_for x b). rc_open r \<le> 0)"
    by (auto simp: issue_invoice_def Let_def result_simps split: if_splits)
  then have c: "\<forall>r \<in> set (charges_for x b). rc_invoice r = None \<and> rc_status r = ReceivablePending \<and> 0 < rc_open r"
    by (meson not_le)
  let ?v = "\<lparr>iv_id = i, iv_account = ii_account x, iv_contract = ii_contract x,
    iv_number = document_number y ''FAC-CM'' (ii_date x) None (map iv_number (bb_invoices b)),
    iv_date = ii_date x, iv_due = ii_due x, iv_subtotal = minor_value (subtotal t),
    iv_tax = minor_value (tax t), iv_total = minor_value (total_amount t), iv_status = InvoiceIssued, iv_tax_ref = ii_tax_ref x\<rparr>"
  have i: "i = show_nat (bb_next b)" and b': "b' = b\<lparr>bb_next := Suc (bb_next b), bb_invoices := bb_invoices b @ [?v],
      bb_invoice_lines := bb_invoice_lines b @ map (new_invoice_line i t b) (charges_for x b),
      bb_receivables := map (\<lambda>r. if rc_id r \<in> rc_id ` set (charges_for x b) then r\<lparr>rc_invoice := Some i\<rparr> else r) (bb_receivables b)\<rparr>"
    using assms t by (auto simp: issue_invoice_def Let_def split: if_splits)
  show thesis by (rule that [OF t(1,2) c i]) (simp_all add: b')
qed

section \<open>Every operation keeps the invariant\<close>

lemma charged_members:
  assumes ok: "billing_ok b" and i: "i = show_nat (bb_next b)"
    and free: "\<forall>r \<in> set (charges_for x b). rc_invoice r = None"
  defines "rs' \<equiv> map (\<lambda>r. if rc_id r \<in> rc_id ` set (charges_for x b) then r\<lparr>rc_invoice := Some i\<rparr> else r) (bb_receivables b)"
  shows "members rs' i = map (\<lambda>r. r\<lparr>rc_invoice := Some i\<rparr>) (charges_for x b)" "j \<noteq> i \<Longrightarrow> members rs' j = members (bb_receivables b) j"
proof -
  note keys = billing_keysD [OF ok]
  have sel: "rc_id r \<in> rc_id ` set (charges_for x b) \<longleftrightarrow> r \<in> set (charges_for x b)" if "r \<in> set (bb_receivables b)" for r
    using that keyed_unique [OF keys(1)] by (auto simp: charges_for_def)
  have old: "rc_invoice r \<noteq> Some i" if "r \<in> set (bb_receivables b)" for r
    using billing_invD(3) [OF ok that] keyed_fresh [OF keys(2)] unfolding invoiced_ok_def i by (metis imageI)
  have rs': "rs' = map (\<lambda>r. if r \<in> set (charges_for x b) then r\<lparr>rc_invoice := Some i\<rparr> else r) (bb_receivables b)"
    unfolding rs'_def using sel by simp
  have "members rs' i = map (\<lambda>r. r\<lparr>rc_invoice := Some i\<rparr>) (filter (\<lambda>r. r \<in> set (charges_for x b)) (bb_receivables b))"
    unfolding rs' members_def filter_map comp_def using old by (intro map_cong filter_cong) auto
  moreover have "filter (\<lambda>r. r \<in> set (charges_for x b)) (bb_receivables b) = charges_for x b"
    unfolding charges_for_def by (rule filter_cong) auto
  ultimately show "members rs' i = map (\<lambda>r. r\<lparr>rc_invoice := Some i\<rparr>) (charges_for x b)" by simp
  show "members rs' j = members (bb_receivables b) j" if j: "j \<noteq> i"
  proof -
    have "filter (\<lambda>r. rc_invoice r = Some j) (map (\<lambda>r. if r \<in> C then r\<lparr>rc_invoice := Some i\<rparr> else r) rs) = filter (\<lambda>r. rc_invoice r = Some j) rs"
      if "\<forall>r \<in> C. rc_invoice r = None" for C rs
      using that j by (induction rs) auto
    then show ?thesis unfolding rs' members_def using free .
  qed
qed

lemma issue_invoice_ok:
  assumes ok: "billing_ok b" and run: "issue_invoice rate y x b = Inr (i, b')" shows "billing_ok b'"
proof -
  obtain t where t: "totals_of rate (charges_for x b) = Inr t" "length (charges_for x b) = length (ii_receivables x)"
    and cs: "\<forall>r \<in> set (charges_for x b). rc_invoice r = None \<and> rc_status r = ReceivablePending \<and> 0 < rc_open r"
    and i: "i = show_nat (bb_next b)" and nxt: "bb_next b' = Suc (bb_next b)"
    and same: "bb_payments b' = bb_payments b" "bb_allocations b' = bb_allocations b" "bb_purchases b' = bb_purchases b"
    and iv: "\<exists>v. bb_invoices b' = bb_invoices b @ [v] \<and> iv_id v = i \<and> iv_account v = ii_account x \<and> iv_status v = InvoiceIssued
       \<and> iv_subtotal v = minor_value (subtotal t) \<and> iv_tax v = minor_value (tax t) \<and> iv_total v = minor_value (total_amount t)
       \<and> iv_number v = document_number y ''FAC-CM'' (ii_date x) None (map iv_number (bb_invoices b))"
    and ils: "bb_invoice_lines b' = bb_invoice_lines b @ map (new_invoice_line i t b) (charges_for x b)"
    and rs: "bb_receivables b' = map (\<lambda>r. if rc_id r \<in> rc_id ` set (charges_for x b) then r\<lparr>rc_invoice := Some i\<rparr> else r) (bb_receivables b)"
    by (rule issue_invoice_Inr [OF run])
  from iv obtain v where v: "bb_invoices b' = bb_invoices b @ [v]" "iv_id v = i" "iv_account v = ii_account x" "iv_status v = InvoiceIssued"
    "iv_subtotal v = minor_value (subtotal t)" "iv_tax v = minor_value (tax t)" "iv_total v = minor_value (total_amount t)" by blast
  note keys = billing_keysD [OF ok]
  have "\<forall>r \<in> set (charges_for x b). rc_invoice r = None" using cs by blast
  note m = charged_members [OF ok i this, folded rs]
  have orig: "rc_open r = rc_original r" if "r \<in> set (charges_for x b)" for r
    using that cs billing_invD(2) [OF ok, of r] by (auto simp: charges_for_def charge_ok_def)
  have other: "iv_id w \<noteq> i" if "w \<in> set (bb_invoices b)" for w using keyed_fresh_row [OF keys(2) that] by (simp add: i)
  have "\<exists>r \<in> set (charges_for x b). rc_open r \<noteq> 0"
    using totals_of_header(1) [OF t(1)] cs by (metis list.set_sel(1) less_irrefl)
  then have new: "header_ok (bb_receivables b') v" "shown_ok (bb_receivables b') v"
    using totals_of_header [OF t(1)] orig cs by (auto simp: header_ok_def shown_ok_def v m(1) collected_status_def comp_def cong: map_cong)
  show "billing_ok b'"
  proof (rule billing_invI)
    show "billing_keys b'"
      using keys keyed_append [OF keys(2), of v] v(2) i
      by (auto simp: billing_keys_def rs v(1) same nxt intro!: keyed_mono [OF _ le_SucI [OF order_refl]])
    show "charge_ok (bb_allocations b') r" if "r \<in> set (bb_receivables b')" for r
      using that billing_invD(2) [OF ok] by (auto simp: rs same)
    show "invoiced_ok (bb_invoices b') r" if r: "r \<in> set (bb_receivables b')" for r
    proof -
      obtain s where s: "s \<in> set (bb_receivables b)" "r = (if rc_id s \<in> rc_id ` set (charges_for x b) then s\<lparr>rc_invoice := Some i\<rparr> else s)"
        using r unfolding rs set_map image_iff by blast
      show ?thesis
      proof (cases "rc_id s \<in> rc_id ` set (charges_for x b)")
        case True
        then have "s \<in> set (charges_for x b)" using s(1) keyed_unique [OF keys(1)] by (auto simp: charges_for_def)
        then show ?thesis using True s(2) v by (auto simp: invoiced_ok_def charges_for_def)
      next
        case False
        then show ?thesis using s billing_invD(3) [OF ok s(1)] v by (auto simp: invoiced_ok_def)
      qed
    qed
    show "header_ok (bb_receivables b') w" if "w \<in> set (bb_invoices b')" for w
      using that new billing_invD(4) [OF ok, of w] other [of w] by (auto simp: v(1) header_ok_def m(2))
    show "shown_ok (bb_receivables b') w" if "w \<in> set (bb_invoices b')" for w
      using that new billing_invD(5) [OF ok, of w] other [of w] by (auto simp: v(1) shown_ok_def m(2))
    show "payment_ok (bb_allocations b') p" if "p \<in> set (bb_payments b')" for p
      using that billing_invD(6) [OF ok] by (simp add: same)
    show "allocation_ok (bb_receivables b') (bb_payments b') a" if "a \<in> set (bb_allocations b')" for a
    proof -
      have "rc_id ` set (bb_receivables b') = rc_id ` set (bb_receivables b)" unfolding rs by (rule same_keys) simp
      then show ?thesis using that allocation_ok_mono [OF billing_invD(7) [OF ok, of a]] by (simp add: same)
    qed
  qed
qed

lemma annul_invoice_ok:
  assumes ok: "billing_ok b" shows "billing_ok (annul_invoice i b)"
proof -
  let ?rs = "map (\<lambda>r. if rc_invoice r = Some i then r\<lparr>rc_invoice := None\<rparr> else r) (bb_receivables b)"
  let ?f = "\<lambda>v. v\<lparr>iv_status := InvoiceCancelled\<rparr>"
  have "members (map (\<lambda>r. if rc_invoice r = Some i then r\<lparr>rc_invoice := None\<rparr> else r) rs) j = members rs j" if "j \<noteq> i" for j rs
    using that unfolding members_def by (induction rs) auto
  note m = this [of _ "bb_receivables b"]
  have eqs: "bb_receivables (annul_invoice i b) = ?rs" "bb_invoices (annul_invoice i b) = update_by iv_id i ?f (bb_invoices b)"
    "bb_payments (annul_invoice i b) = bb_payments b" "bb_allocations (annul_invoice i b) = bb_allocations b"
    "bb_next (annul_invoice i b) = bb_next b"
    by (simp_all add: annul_invoice_def)
  show ?thesis
  proof (rule billing_invI)
    show "billing_keys (annul_invoice i b)" using billing_keysD [OF ok] by (simp add: billing_keys_def eqs)
    show "charge_ok (bb_allocations (annul_invoice i b)) r" if "r \<in> set (bb_receivables (annul_invoice i b))" for r
      using that billing_invD(2) [OF ok] by (auto simp: eqs)
    show "invoiced_ok (bb_invoices (annul_invoice i b)) r" if r: "r \<in> set (bb_receivables (annul_invoice i b))" for r
    proof -
      obtain s where s: "s \<in> set (bb_receivables b)" "r = (if rc_invoice s = Some i then s\<lparr>rc_invoice := None\<rparr> else s)"
        using r unfolding eqs set_map image_iff by blast
      show ?thesis
      proof (cases "rc_invoice s = Some i")
        case False
        with s(2) have "r = s" by simp
        then show ?thesis using billing_invD(3) [OF ok s(1)] False by (fastforce simp: invoiced_ok_def eqs set_update_by)
      qed (simp add: s(2) invoiced_ok_def)
    qed
    have inv: "v \<in> set (bb_invoices b) \<and> iv_id v \<noteq> i \<or> iv_status v = InvoiceCancelled"
      if v: "v \<in> set (bb_invoices (annul_invoice i b))" for v
    proof -
      obtain w where "w \<in> set (bb_invoices b)" "v = (if iv_id w = i then ?f w else w)"
        using v unfolding eqs set_update_by by blast
      then show ?thesis by (cases "iv_id w = i") simp_all
    qed
    show "header_ok (bb_receivables (annul_invoice i b)) v" if "v \<in> set (bb_invoices (annul_invoice i b))" for v
      using inv [OF that] billing_invD(4) [OF ok, of v] m [of "iv_id v"] by (auto simp: eqs header_ok_def)
    show "shown_ok (bb_receivables (annul_invoice i b)) v" if "v \<in> set (bb_invoices (annul_invoice i b))" for v
      using inv [OF that] billing_invD(5) [OF ok, of v] m [of "iv_id v"] by (auto simp: eqs shown_ok_def)
    show "payment_ok (bb_allocations (annul_invoice i b)) p" if "p \<in> set (bb_payments (annul_invoice i b))" for p
      using that billing_invD(6) [OF ok] by (simp add: eqs)
    show "allocation_ok (bb_receivables (annul_invoice i b)) (bb_payments (annul_invoice i b)) a"
      if "a \<in> set (bb_allocations (annul_invoice i b))" for a
    proof -
      have "rc_id ` set ?rs = rc_id ` set (bb_receivables b)" by (rule same_keys) simp
      then show ?thesis using that allocation_ok_mono [OF billing_invD(7) [OF ok, of a]] by (simp add: eqs)
    qed
  qed
qed

section \<open>Purchases\<close>

definition same_billing :: "billing_book \<Rightarrow> billing_book \<Rightarrow> bool" where
  "same_billing b b' = (bb_receivables b' = bb_receivables b \<and> bb_invoices b' = bb_invoices b \<and> bb_payments b' = bb_payments b
     \<and> bb_allocations b' = bb_allocations b \<and> bb_next b \<le> bb_next b')"

lemma same_billing_trans: "same_billing a b \<Longrightarrow> same_billing b c \<Longrightarrow> same_billing a c"
  by (auto simp: same_billing_def)

lemma same_billing_ok: "billing_ok b \<Longrightarrow> same_billing b b' \<Longrightarrow> billing_ok b'"
  unfolding billing_inv_def billing_keys_def same_billing_def by (auto intro: keyed_mono)

lemma create_installment_frame: "create_installment s l x b = Inr b' \<Longrightarrow> same_billing b b'"
  by (auto simp: create_installment_def link_core_installment_def same_billing_def Let_def split: prod.splits option.splits if_splits)

lemma create_installments_frame: "create_installments s l xs b = Inr b' \<Longrightarrow> same_billing b b'"
proof (induction xs arbitrary: b)
  case (Cons x xs)
  then show ?case by (auto simp: result_simps intro: same_billing_trans create_installment_frame)
qed (simp add: same_billing_def)

lemma resolve_consumer_frame: "resolve_consumer_id c r b = Inr (i, b') \<Longrightarrow> same_billing b b'"
  by (auto simp: resolve_consumer_id_def same_billing_def Let_def split: option.splits if_splits)

lemma record_purchase_ok:
  assumes ok: "billing_ok b" and run: "record_purchase x split consumer version risk mdr now b = Inr (i, b')" and m: "0 \<le> mc_amount mdr"
  shows "billing_ok b'"
proof -
  let ?i = "show_nat (bb_next b)"
  let ?b1 = "b\<lparr>bb_next := Suc (bb_next b), bb_purchases := bb_purchases b @ [new_purchase x split consumer version risk mdr ?i],
    bb_down_payments := bb_down_payments b @ [\<lparr>dp_purchase = ?i, dp_amount = down_payment split, dp_status = ''REPORTED''\<rparr>]\<rparr>"
  from run obtain b2 p where b2: "create_installments ?i (pi_core_loan x) (zip (pi_installments x) (installments split)) ?b1 = Inr b2"
    and b': "b' = b2\<lparr>bb_next := Suc (bb_next b2), bb_receivables := bb_receivables b2 @
      [mdr_receivable x ?i (mc_amount mdr) p now (show_nat (bb_next b2))]\<rparr>"
    by (auto simp: record_purchase_def Let_def result_simps)
  have "same_billing b ?b1" by (simp add: same_billing_def)
  then have ok2: "billing_ok b2" using same_billing_ok [OF ok] create_installments_frame [OF b2] same_billing_trans by blast
  show ?thesis
    by (rule new_receivable_ok [OF ok2, of b' "mdr_receivable x ?i (mc_amount mdr) p now (show_nat (bb_next b2))" "bb_next b2"])
      (simp_all add: b' mdr_receivable_def m)
qed

lemma register_purchase_ok:
  assumes ok: "billing_ok b" and run: "register_purchase x today now b = Inr (i, b')" shows "billing_ok b'"
proof -
  from run obtain split c b1 v mdr where "resolve_consumer_id (pi_consumer x) (pi_consumer_ref x) b = Inr (c, b1)"
    and mdr: "calculate_mdr (pi_amount x) v (pi_branch x) (pi_category x) (resolve_risk_tier (pi_consumer_ref x) b1) = Inr mdr"
    and rec: "record_purchase x split c (tariff_id v) (resolve_risk_tier (pi_consumer_ref x) b1) mdr now b1 = Inr (i, b')"
    by (auto simp: register_purchase_def Let_def result_simps)
  then have "billing_ok b1" using same_billing_ok [OF ok] resolve_consumer_frame by blast
  then show ?thesis using record_purchase_ok [OF _ rec calculate_mdr_nonneg [OF mdr]] by blast
qed

lemma ads_charge_ok:
  assumes ok: "billing_ok b"
    and run: "create_merchant_receivable_from_ads_invoice merchant product source ads_invoice micros currency due now b = Inr b'"
  shows "billing_ok b'"
proof -
  obtain r where "b' = b\<lparr>bb_next := Suc (bb_next b), bb_receivables := bb_receivables b @ [r]\<rparr>" "rc_id r = show_nat (bb_next b)"
    "rc_invoice r = None" "rc_open r = rc_original r" "0 \<le> rc_original r" "rc_status r = ReceivablePending"
    using run by (force simp: create_merchant_receivable_from_ads_invoice_def Let_def split: if_splits)
  then show ?thesis by (intro new_receivable_ok [OF ok, of b' r "bb_next b"]) simp_all
qed

section \<open>Payments\<close>

lemma members_update:
  assumes "\<And>s. s \<in> set rs \<Longrightarrow> rc_id s = i \<Longrightarrow> rc_invoice s \<noteq> Some j" "\<And>s. rc_invoice (f s) = rc_invoice s"
  shows "members (update_by rc_id i f rs) j = members rs j"
  using assms unfolding members_def update_by_def by (induction rs) auto

lemma apply_allocation_Inr:
  assumes "apply_allocation x p (i, v) (touched, b) = Inr (touched', b')"
  obtains r m where "r \<in> set (bb_receivables b)" "rc_id r = i" "rc_account r = pm_account x"
    "parse_money v (positive_money\<lparr>pm_currency := Some (pm_code x)\<rparr>) = Inr m" "m \<le> rc_open r"
    "to_upper (js_trim (rc_currency r)) = pm_code x"
    "touched' = (case rc_invoice r of None \<Rightarrow> touched | Some i \<Rightarrow> touched @ [i])"
    "b' = b\<lparr>bb_allocations := bb_allocations b @ [\<lparr>al_payment = p, al_receivable = i, al_applied = m\<rparr>],
       bb_receivables := update_by rc_id i (\<lambda>s. s\<lparr>rc_open := rc_open r - m,
         rc_status := (if rc_open r - m = 0 then ReceivablePaid else ReceivablePartiallyPaid)\<rparr>) (bb_receivables b)\<rparr>"
proof -
  from assms obtain r m where r: "find (\<lambda>r. rc_id r = i \<and> rc_account r = pm_account x) (bb_receivables b) = Some r"
    and rest: "parse_money v (positive_money\<lparr>pm_currency := Some (pm_code x)\<rparr>) = Inr m" "m \<le> rc_open r"
    "to_upper (js_trim (rc_currency r)) = pm_code x"
    "touched' = (case rc_invoice r of None \<Rightarrow> touched | Some i \<Rightarrow> touched @ [i])"
    "b' = b\<lparr>bb_allocations := bb_allocations b @ [\<lparr>al_payment = p, al_receivable = rc_id r, al_applied = m\<rparr>],
       bb_receivables := update_by rc_id (rc_id r) (\<lambda>s. s\<lparr>rc_open := rc_open r - m,
         rc_status := (if rc_open r - m = 0 then ReceivablePaid else ReceivablePartiallyPaid)\<rparr>) (bb_receivables b)\<rparr>"
    by (auto simp: apply_allocation_def Let_def result_simps)
  from r have "r \<in> set (bb_receivables b)" "rc_id r = i" "rc_account r = pm_account x"
    by (auto dest: find_Some_iff_nth)
  with rest that show thesis by simp
qed

lemma apply_allocation_ok:
  assumes ok: "billing_inv (set touched) {p} b" and p: "p \<in> py_id ` set (bb_payments b)"
    and run: "apply_allocation x p (i, v) (touched, b) = Inr (touched', b')"
  shows "billing_inv (set touched') {p} b'" "bb_payments b' = bb_payments b"
    "\<exists>m. parse_money v (positive_money\<lparr>pm_currency := Some (pm_code x)\<rparr>) = Inr m
       \<and> paid_with (bb_allocations b') p = paid_with (bb_allocations b) p + m"
proof -
  obtain r m where r: "r \<in> set (bb_receivables b)" "rc_id r = i" "rc_account r = pm_account x"
    and m: "parse_money v (positive_money\<lparr>pm_currency := Some (pm_code x)\<rparr>) = Inr m" "m \<le> rc_open r"
    and cur: "to_upper (js_trim (rc_currency r)) = pm_code x"
    and touched': "touched' = (case rc_invoice r of None \<Rightarrow> touched | Some i \<Rightarrow> touched @ [i])"
    and b': "b' = b\<lparr>bb_allocations := bb_allocations b @ [\<lparr>al_payment = p, al_receivable = i, al_applied = m\<rparr>],
       bb_receivables := update_by rc_id i (\<lambda>s. s\<lparr>rc_open := rc_open r - m,
         rc_status := (if rc_open r - m = 0 then ReceivablePaid else ReceivablePartiallyPaid)\<rparr>) (bb_receivables b)\<rparr>"
    by (rule apply_allocation_Inr [OF run])
  define f where "f = (\<lambda>s :: receivable_row. s\<lparr>rc_open := rc_open r - m, rc_status := (if rc_open r - m = 0 then ReceivablePaid else ReceivablePartiallyPaid)\<rparr>)"
  have f: "rc_id (f s) = rc_id s" "rc_invoice (f s) = rc_invoice s" "rc_original (f s) = rc_original s" "rc_account (f s) = rc_account s" for s
    by (simp_all add: f_def)
  note keys = billing_keysD [OF ok]
  have pos: "0 < m" using parse_money_positive [OF m(1)] .
  have same: "bb_payments b' = bb_payments b" "bb_invoices b' = bb_invoices b" "bb_next b' = bb_next b"
    and als: "bb_allocations b' = bb_allocations b @ [\<lparr>al_payment = p, al_receivable = i, al_applied = m\<rparr>]"
    and rs: "bb_receivables b' = update_by rc_id i f (bb_receivables b)"
    by (simp_all add: b' f_def)
  have row: "s \<in> set (bb_receivables b) \<and> rc_id s \<noteq> i \<or> s = f r" if s: "s \<in> set (bb_receivables b')" for s
  proof -
    obtain q where "q \<in> set (bb_receivables b)" "s = (if rc_id q = i then f q else q)"
      using s unfolding rs set_update_by by blast
    then show ?thesis using keyed_unique [OF keys(1) _ r(1)] r(2) by (cases "rc_id q = i") auto
  qed
  have fr: "charge_ok (bb_allocations b') (f r)"
    using billing_invD(2) [OF ok r(1)] pos m(2) r(2) by (auto simp: charge_ok_def als f_def)
  have inv_map: "map (\<lambda>r. (rc_invoice r, rc_original r)) (bb_receivables b') = map (\<lambda>r. (rc_invoice r, rc_original r)) (bb_receivables b)"
    by (simp add: rs update_by_def f)
  show "billing_inv (set touched') {p} b'"
  proof (rule billing_invI)
    show "billing_keys b'" using keys by (simp add: billing_keys_def same rs f)
    show "charge_ok (bb_allocations b') s" if "s \<in> set (bb_receivables b')" for s
      using row [OF that] fr billing_invD(2) [OF ok, of s] by (auto simp: charge_ok_def als)
    show "invoiced_ok (bb_invoices b') s" if "s \<in> set (bb_receivables b')" for s
      using row [OF that] billing_invD(3) [OF ok, of s] billing_invD(3) [OF ok r(1)] by (auto simp: invoiced_ok_def same f)
    show "header_ok (bb_receivables b') w" if "w \<in> set (bb_invoices b')" for w
      using that billing_invD(4) [OF ok] header_ok_cong [OF inv_map] by (simp add: same)
    show "shown_ok (bb_receivables b') w" if w: "w \<in> set (bb_invoices b')" "iv_id w \<notin> set touched'" for w
    proof -
      have "rc_invoice s \<noteq> Some (iv_id w)" if "s \<in> set (bb_receivables b)" "rc_id s = i" for s
        using keyed_unique [OF keys(1) that(1) r(1)] that(2) r(2) w(2) touched' by auto
      then have "members (bb_receivables b') (iv_id w) = members (bb_receivables b) (iv_id w)"
        unfolding rs using f(2) by (intro members_update) auto
      moreover have "iv_id w \<notin> set touched" using w(2) touched' by (auto split: option.splits)
      ultimately show ?thesis using billing_invD(5) [OF ok, of w] w(1) by (simp add: shown_ok_def same)
    qed
    show "payment_ok (bb_allocations b') q" if "q \<in> set (bb_payments b')" "py_id q \<notin> {p}" for q
      using that billing_invD(6) [OF ok, of q] by (auto simp: same payment_ok_def als)
    show "allocation_ok (bb_receivables b') (bb_payments b') a" if "a \<in> set (bb_allocations b')" for a
    proof -
      have ids: "rc_id ` set (bb_receivables b') = rc_id ` set (bb_receivables b)"
        unfolding rs update_by_def by (rule same_keys) (simp add: f)
      have "i \<in> rc_id ` set (bb_receivables b)" using r by auto
      with that ids p pos billing_invD(7) [OF ok, of a] show ?thesis by (auto simp: als same allocation_ok_def)
    qed
  qed
  show "bb_payments b' = bb_payments b" by (fact same(1))
  show "\<exists>m. parse_money v (positive_money\<lparr>pm_currency := Some (pm_code x)\<rparr>) = Inr m
       \<and> paid_with (bb_allocations b') p = paid_with (bb_allocations b) p + m"
    using m(1) by (simp add: als)
qed

lemma apply_allocations_ok:
  assumes "billing_inv (set touched) {p} b" "p \<in> py_id ` set (bb_payments b)"
    "apply_allocations x p as (touched, b) = Inr (touched', b')"
  shows "billing_inv (set touched') {p} b' \<and> bb_payments b' = bb_payments b
    \<and> (\<forall>ms. traverse (\<lambda>v. parse_money v (positive_money\<lparr>pm_currency := Some (pm_code x)\<rparr>)) (map snd as) = Inr ms \<longrightarrow>
         paid_with (bb_allocations b') p = paid_with (bb_allocations b) p + sum_list ms)"
  using assms
proof (induction as arbitrary: touched b)
  case (Cons a as)
  obtain i v where a: "a = (i, v)" by (cases a)
  from Cons.prems(3) obtain t1 b1 where s: "apply_allocation x p (i, v) (touched, b) = Inr (t1, b1)"
    "apply_allocations x p as (t1, b1) = Inr (touched', b')"
    by (auto simp: a and_then_eq_Inr)
  note one = apply_allocation_ok [OF Cons.prems(1,2) s(1)]
  have "p \<in> py_id ` set (bb_payments b1)" using Cons.prems(2) one(2) by simp
  note rest = Cons.IH [OF one(1) this s(2)]
  from one rest show ?case by (auto simp: a result_simps)
qed (simp add: result_simps)

lemma refresh_ok:
  assumes ok: "billing_inv T P b" shows "billing_inv (T - {i}) P (refresh_invoice_payment_status i b)"
proof (cases "\<exists>v. find_by iv_id i (bb_invoices b) = Some v \<and> members (bb_receivables b) i \<noteq> [] \<and> iv_status v \<noteq> InvoiceCancelled")
  case False
  then have "refresh_invoice_payment_status i b = b"
    by (auto simp: refresh_invoice_payment_status_def Let_def members_def split: option.splits)
  moreover have "shown_ok (bb_receivables b) w" if w: "w \<in> set (bb_invoices b)" "iv_id w = i" for w
    using False find_by_unique [OF _ w(1)] billing_keysD(2) [OF ok] billing_invD(4) [OF ok w(1)] w(2)
    by (auto simp: keyed_def header_ok_def shown_ok_def)
  ultimately show ?thesis using ok unfolding billing_inv_def by auto
next
  case True
  then obtain v where v: "find_by iv_id i (bb_invoices b) = Some v" "members (bb_receivables b) i \<noteq> []" "iv_status v \<noteq> InvoiceCancelled"
    by blast
  let ?g = "\<lambda>w :: invoice_row. w\<lparr>iv_status := collected_status (members (bb_receivables b) i)\<rparr>"
  have b': "refresh_invoice_payment_status i b = b\<lparr>bb_invoices := update_by iv_id i ?g (bb_invoices b)\<rparr>"
    using v by (simp add: refresh_invoice_payment_status_def members_def)
  have live: "collected_status rs \<noteq> InvoiceCancelled" for rs by (simp add: collected_status_def)
  have vi: "v \<in> set (bb_invoices b)" "iv_id v = i" using find_by_Some [OF v(1)] by simp_all
  have row: "w \<in> set (bb_invoices b) \<and> iv_id w \<noteq> i \<or> w = ?g v" if w: "w \<in> set (update_by iv_id i ?g (bb_invoices b))" for w
  proof -
    obtain q where "q \<in> set (bb_invoices b)" "w = (if iv_id q = i then ?g q else q)"
      using w unfolding set_update_by by blast
    then show ?thesis using keyed_unique [OF billing_keysD(2) [OF ok] _ vi(1)] vi(2) by (cases "iv_id q = i") auto
  qed
  have new: "header_ok (bb_receivables b) (?g v)" "shown_ok (bb_receivables b) (?g v)"
    using billing_invD(4) [OF ok vi(1)] v vi by (auto simp: header_ok_def shown_ok_def)
  define c where "c = b\<lparr>bb_invoices := update_by iv_id i ?g (bb_invoices b)\<rparr>"
  have eqs: "bb_receivables c = bb_receivables b" "bb_payments c = bb_payments b" "bb_allocations c = bb_allocations b"
    "bb_next c = bb_next b" "bb_invoices c = update_by iv_id i ?g (bb_invoices b)"
    by (simp_all add: c_def)
  have "billing_inv (T - {i}) P c"
  proof (rule billing_invI)
    show "billing_keys c" using billing_keysD [OF ok] by (simp add: billing_keys_def eqs)
    show "invoiced_ok (bb_invoices c) r" if r: "r \<in> set (bb_receivables c)" for r
      unfolding invoiced_ok_def
    proof (intro allI impI)
      fix j assume "rc_invoice r = Some j"
      then obtain w where w: "w \<in> set (bb_invoices b)" "iv_id w = j" "iv_status w \<noteq> InvoiceCancelled" "iv_account w = rc_account r"
        using billing_invD(3) [OF ok, of r] r by (auto simp: invoiced_ok_def eqs)
      then have "(if iv_id w = i then ?g w else w) \<in> set (bb_invoices c)" unfolding eqs set_update_by by blast
      with w show "\<exists>w \<in> set (bb_invoices c). iv_id w = j \<and> iv_status w \<noteq> InvoiceCancelled \<and> iv_account w = rc_account r"
        using live by (intro bexI [of _ "if iv_id w = i then ?g w else w"]) auto
    qed
    show "header_ok (bb_receivables c) w" if "w \<in> set (bb_invoices c)" for w
      using row [OF that [unfolded eqs]] new billing_invD(4) [OF ok] unfolding eqs by blast
    show "shown_ok (bb_receivables c) w" if "w \<in> set (bb_invoices c)" "iv_id w \<notin> T - {i}" for w
      using row [OF that(1) [unfolded eqs]] that(2) new billing_invD(5) [OF ok] unfolding eqs by blast
  qed (use billing_invD [OF ok] in \<open>simp_all add: eqs\<close>)
  then show ?thesis unfolding b' c_def .
qed

lemma refresh_all_ok: "billing_inv T P b \<Longrightarrow> billing_inv (T - set is) P (fold refresh_invoice_payment_status is b)"
proof (induction "is" arbitrary: T b)
  case (Cons i "is")
  have "T - set (i # is) = (T - {i}) - set is" by auto
  then show ?case using Cons.IH [OF refresh_ok [OF Cons.prems]] by simp
qed simp

lemma refresh_frame: "bb_payments (refresh_invoice_payment_status i b) = bb_payments b"
    "bb_allocations (refresh_invoice_payment_status i b) = bb_allocations b"
  by (auto simp: refresh_invoice_payment_status_def Let_def split: option.splits)

lemma refresh_all_frame: "bb_payments (fold refresh_invoice_payment_status is b) = bb_payments b"
    "bb_allocations (fold refresh_invoice_payment_status is b) = bb_allocations b"
  by (induction "is" arbitrary: b) (simp_all add: refresh_frame)

lemma parse_money_default:
  "parse_money v (positive_money\<lparr>pm_currency := c\<rparr>) = Inr m \<Longrightarrow> parse_money v (default_options\<lparr>pm_currency := c\<rparr>) = Inr m"
  by (auto simp: parse_money_def Let_def result_simps positive_money_def default_options_def split: if_splits)

lemma paid_with_fresh:
  assumes "billing_inv T P b" shows "paid_with (bb_allocations b) (show_nat (bb_next b)) = 0"
proof (rule paid_with_other, rule ballI)
  fix a assume "a \<in> set (bb_allocations b)"
  from billing_invD(7) [OF assms this] show "al_payment a \<noteq> show_nat (bb_next b)"
    using keyed_fresh [OF billing_keysD(3) [OF assms]] unfolding allocation_ok_def by metis
qed

lemma register_merchant_payment_ok:
  assumes ok: "billing_ok b" and run: "register_merchant_payment x b = Inr (i, b')" shows "billing_ok b'"
proof -
  let ?i = "show_nat (bb_next b)"
  from run obtain amount touched b2 where match: "allocations_match_payment (pm_amount x) (map snd (pm_allocations x)) (pm_code x) = Inr True"
    and amount: "parse_money (pm_amount x) (default_options\<lparr>pm_currency := Some (pm_code x)\<rparr>) = Inr amount"
    and loop: "apply_allocations x ?i (pm_allocations x) ([], b\<lparr>bb_next := Suc (bb_next b), bb_payments := bb_payments b @
        [\<lparr>py_id = ?i, py_account = pm_account x, py_amount = amount, py_currency = pm_code x, py_status = ''CONFIRMED''\<rparr>]\<rparr>) = Inr (touched, b2)"
    and b': "b' = fold refresh_invoice_payment_status (distinct_in_order touched) b2"
    by (auto simp: register_merchant_payment_def Let_def result_simps)
  define p where "p = \<lparr>py_id = ?i, py_account = pm_account x, py_amount = amount, py_currency = pm_code x, py_status = ''CONFIRMED''\<rparr>"
  define b1 where "b1 = b\<lparr>bb_next := Suc (bb_next b), bb_payments := bb_payments b @ [p]\<rparr>"
  have eqs: "bb_receivables b1 = bb_receivables b" "bb_invoices b1 = bb_invoices b" "bb_allocations b1 = bb_allocations b"
    "bb_payments b1 = bb_payments b @ [p]" "py_id p = ?i" by (simp_all add: b1_def p_def)
  have ok1: "billing_inv (set []) {?i} b1"
  proof (rule billing_invI)
    show "billing_keys b1"
      using billing_keysD [OF ok] keyed_append [OF billing_keysD(3) [OF ok], of p]
      by (auto simp: billing_keys_def b1_def p_def intro!: keyed_mono [OF _ le_SucI [OF order_refl]])
    show "allocation_ok (bb_receivables b1) (bb_payments b1) a" if "a \<in> set (bb_allocations b1)" for a
      using that unfolding eqs by (intro allocation_ok_mono [OF billing_invD(7) [OF ok]]) auto
    show "payment_ok (bb_allocations b1) q" if "q \<in> set (bb_payments b1)" "py_id q \<notin> {?i}" for q
      using that billing_invD(6) [OF ok, of q] by (auto simp: eqs)
  qed (use billing_invD [OF ok] in \<open>simp_all add: eqs\<close>)
  have "?i \<in> py_id ` set (bb_payments b1)" by (simp add: eqs)
  note looped = apply_allocations_ok [OF ok1 this loop [folded p_def, folded b1_def]]
  from match obtain ms where ms: "parse_money (pm_amount x) (positive_money\<lparr>pm_currency := Some (pm_code x)\<rparr>) = Inr (sum_list ms)"
    "traverse (\<lambda>v. parse_money v (positive_money\<lparr>pm_currency := Some (pm_code x)\<rparr>)) (map snd (pm_allocations x)) = Inr ms"
    by (auto simp: allocations_match_payment_def Let_def result_simps)
  have "amount = sum_list ms" using amount parse_money_default [OF ms(1)] by simp
  then have total: "paid_with (bb_allocations b2) ?i = amount" using looped ms(2) paid_with_fresh [OF ok] by (simp add: eqs)
  have b2': "billing_inv {} {?i} b'"
    using refresh_all_ok [of "set touched" "{?i}" b2 "distinct_in_order touched"] looped by (simp add: b')
  have "payment_ok (bb_allocations b') q" if "q \<in> set (bb_payments b')" "py_id q = ?i" for q
  proof -
    have "q \<in> set (bb_payments b @ [p])" using that(1) looped by (simp add: b' refresh_all_frame eqs)
    then have "q = p" using that(2) keyed_fresh_row [OF billing_keysD(3) [OF ok]] by auto
    then show ?thesis using total by (simp add: payment_ok_def b' refresh_all_frame p_def)
  qed
  then show ?thesis using b2' unfolding billing_inv_def by blast
qed

end
