(* ===== verification/BillingSystem.thy ===== *)
theory BillingSystem
  imports BillingInvariant
begin

text \<open>
  The reachable billing tables, and the contract of each operation: balances and statuses in every reachable state, which
  merchant discount rule prices a purchase, what a purchase, an invoice and the closing of a month leave behind. The last
  section runs one concrete month (a sale, its closing, a partial payment), at which the properties are applied.
\<close>

section \<open>Reachable books\<close>

text \<open>The master data (accounts, branches, tariffs, products) changes by other means, which leave the billing tables alone.\<close>

inductive billing_step :: "billing_book \<Rightarrow> billing_book \<Rightarrow> bool" where
  master: "same_billing b b' \<Longrightarrow> billing_step b b'"
| purchase: "register_purchase x today now b = Inr (i, b') \<Longrightarrow> billing_step b b'"
| ads_charge: "create_merchant_receivable_from_ads_invoice merchant product source ads_invoice micros currency due now b = Inr b'
    \<Longrightarrow> billing_step b b'"
| invoice: "issue_invoice rate y z b = Inr (i, b') \<Longrightarrow> billing_step b b'"
| payment: "register_merchant_payment w b = Inr (i, b') \<Longrightarrow> billing_step b b'"
| annul: "billing_step b (annul_invoice i b)"

inductive billing_reachable :: "billing_book \<Rightarrow> bool" where
  start: "bb_receivables b = [] \<Longrightarrow> bb_invoices b = [] \<Longrightarrow> bb_payments b = [] \<Longrightarrow> bb_allocations b = [] \<Longrightarrow> billing_reachable b"
| step: "billing_reachable b \<Longrightarrow> billing_step b b' \<Longrightarrow> billing_reachable b'"

lemma billing_step_ok: "billing_step b b' \<Longrightarrow> billing_ok b \<Longrightarrow> billing_ok b'"
  by (induction rule: billing_step.induct)
    (blast intro: same_billing_ok register_purchase_ok ads_charge_ok issue_invoice_ok register_merchant_payment_ok annul_invoice_ok)+

lemma billing_reachable_ok: "billing_reachable b \<Longrightarrow> billing_ok b"
proof (induction rule: billing_reachable.induct)
  case (start b)
  then show ?case by (simp add: billing_inv_def billing_keys_def keyed_def)
qed (rule billing_step_ok)

definition collected_on :: "billing_book \<Rightarrow> ident \<Rightarrow> int" where
  "collected_on b i = sum_list (map (applied (bb_allocations b) \<circ> rc_id) (members (bb_receivables b) i))"

lemma sum_balance:
  assumes "\<forall>r \<in> set rs. charge_ok als r"
  shows "sum_list (map (applied als \<circ> rc_id) rs) = sum_list (map rc_original rs) - sum_list (map rc_open rs)"
proof -
  have "map (applied als \<circ> rc_id) rs = map (\<lambda>r. rc_original r - rc_open r) rs"
    using assms by (intro map_cong refl) (simp add: charge_ok_def)
  then have "sum_list (map (applied als \<circ> rc_id) rs) = sum_list (map (\<lambda>r. rc_original r - rc_open r) rs)" by (rule arg_cong)
  also have "\<dots> = sum_list (map rc_original rs) - sum_list (map rc_open rs)" by (rule sum_list_subtractf)
  finally show ?thesis .
qed

lemma sum_zero_iff: "\<forall>x \<in> set xs. 0 \<le> f x \<Longrightarrow> (\<forall>x \<in> set xs. f x = 0) \<longleftrightarrow> sum_list (map f xs) = (0::int)"
proof (induction xs)
  case (Cons x xs)
  have "0 \<le> sum_list (map f xs)" using Cons.prems by (intro sum_list_nonneg) auto
  with Cons show ?case by auto
qed simp

lemma collected_status_sums:
  assumes "\<forall>r \<in> set rs. charge_ok als r" "rs \<noteq> []" "\<forall>r \<in> set rs. 0 < rc_original r"
  defines "c \<equiv> sum_list (map (applied als \<circ> rc_id) rs)" and "t \<equiv> sum_list (map rc_original rs)"
  shows "0 \<le> c" "c \<le> t" "0 < t" "collected_status rs = (if c = t then InvoicePaid else if 0 < c then InvoicePartiallyPaid else InvoiceIssued)"
proof -
  have closed: "(\<forall>r \<in> set rs. rc_open r = 0) \<longleftrightarrow> sum_list (map rc_open rs) = 0"
    using assms(1) unfolding charge_ok_def comp_apply by (intro sum_zero_iff) blast
  have "(\<forall>r \<in> set rs. (applied als \<circ> rc_id) r = 0) \<longleftrightarrow> sum_list (map (applied als \<circ> rc_id) rs) = 0"
    using assms(1) unfolding charge_ok_def comp_apply by (intro sum_zero_iff) blast
  moreover have "rc_open r < rc_original r \<longleftrightarrow> (applied als \<circ> rc_id) r \<noteq> 0" if "r \<in> set rs" for r
    using assms(1) that by (auto simp: charge_ok_def)
  ultimately have less: "(\<exists>r \<in> set rs. rc_open r < rc_original r) \<longleftrightarrow> c \<noteq> 0" unfolding c_def by blast
  have diff: "c = t - sum_list (map rc_open rs)" unfolding c_def t_def using sum_balance [OF assms(1)] .
  have "0 \<le> sum_list (map rc_open rs)" using assms(1) by (intro sum_list_nonneg) (auto simp: charge_ok_def)
  with diff show ct: "c \<le> t" by simp
  show c0: "0 \<le> c" unfolding c_def using assms(1) by (intro sum_list_nonneg) (auto simp: charge_ok_def)
  show "0 < t" unfolding t_def using assms(2,3) by (intro sum_list_pos_int) auto
  show "collected_status rs = (if c = t then InvoicePaid else if 0 < c then InvoicePartiallyPaid else InvoiceIssued)"
    using closed less diff c0 by (auto simp: collected_status_def)
qed

section \<open>Properties\<close>

text \<open>C21: in every reachable book the balance of a charge is what was charged less what payments applied to it, never
  negative, and its status says exactly that; and every payment is the sum of its allocations.\<close>

theorem balances_follow_payments:
  assumes "billing_reachable b"
  shows "(\<forall>r \<in> set (bb_receivables b). rc_open r = rc_original r - applied (bb_allocations b) (rc_id r) \<and> 0 \<le> rc_open r
      \<and> (rc_status r = ReceivablePending \<longleftrightarrow> applied (bb_allocations b) (rc_id r) = 0)
      \<and> (rc_status r = ReceivablePartiallyPaid \<longleftrightarrow> 0 < applied (bb_allocations b) (rc_id r) \<and> 0 < rc_open r)
      \<and> (rc_status r = ReceivablePaid \<longleftrightarrow> 0 < applied (bb_allocations b) (rc_id r) \<and> rc_open r = 0))
    \<and> (\<forall>p \<in> set (bb_payments b). py_amount p = paid_with (bb_allocations b) (py_id p))
    \<and> (\<forall>a \<in> set (bb_allocations b). 0 < al_applied a \<and> al_receivable a \<in> rc_id ` set (bb_receivables b))"
proof (intro conjI ballI)
  note ok = billing_reachable_ok [OF assms]
  fix r assume "r \<in> set (bb_receivables b)"
  note bal = billing_invD(2) [OF ok this, unfolded charge_ok_def]
  from bal show "rc_open r = rc_original r - applied (bb_allocations b) (rc_id r)" "0 \<le> rc_open r" by blast+
  from bal show "rc_status r = ReceivablePending \<longleftrightarrow> applied (bb_allocations b) (rc_id r) = 0"
    "rc_status r = ReceivablePartiallyPaid \<longleftrightarrow> 0 < applied (bb_allocations b) (rc_id r) \<and> 0 < rc_open r"
    "rc_status r = ReceivablePaid \<longleftrightarrow> 0 < applied (bb_allocations b) (rc_id r) \<and> rc_open r = 0" by auto
next
  note ok = billing_reachable_ok [OF assms]
  show "py_amount p = paid_with (bb_allocations b) (py_id p)" if "p \<in> set (bb_payments b)" for p
    using billing_invD(6) [OF ok that] by (simp add: payment_ok_def)
  show "0 < al_applied a" "al_receivable a \<in> rc_id ` set (bb_receivables b)" if "a \<in> set (bb_allocations b)" for a
    using billing_invD(7) [OF ok that] by (simp_all add: allocation_ok_def)
qed

text \<open>
  When the payments of an invoice run one after another its status says how much of it was collected: paid means the whole
  subtotal, and the tax is never part of it. Nothing in the code makes them run so: the refresh of the status locks neither
  the invoice nor the other charges. Two payments at once on different charges each read the other's charge as it was,
  both write the same partial status, and an invoice whose charges are all paid keeps it.
\<close>

lemma concurrent_refreshes_miss_paid:
  assumes "\<And>r. r \<in> set rs \<Longrightarrow> 0 < rc_open r \<and> rc_open r \<le> rc_original r" "r \<in> set rs" "s \<in> set rs" "rc_id r \<noteq> rc_id s"
    and "\<forall>x \<in> set rs. rc_id x = rc_id r \<or> rc_id x = rc_id s"
  defines "paid j \<equiv> map (\<lambda>x. if rc_id x = j then x\<lparr>rc_open := 0\<rparr> else x)"
  shows "collected_status (paid (rc_id r) rs) = InvoicePartiallyPaid" "collected_status (paid (rc_id s) rs) = InvoicePartiallyPaid"
    "collected_status (paid (rc_id s) (paid (rc_id r) rs)) = InvoicePaid"
proof -
  have rows: "r \<in> set rs" "s \<in> set rs" "0 < rc_open r" "rc_open r \<le> rc_original r" "0 < rc_open s" "rc_open s \<le> rc_original s"
    using assms(1) [OF assms(2)] assms(1) [OF assms(3)] assms(2,3) by auto
  have some: "collected_status (paid j rs) = InvoicePartiallyPaid"
    if "x \<in> set rs" "rc_id x = j" "0 < rc_original x" "y \<in> set rs" "rc_id y \<noteq> j" "0 < rc_open y" for x y j
  proof -
    have "x\<lparr>rc_open := 0\<rparr> \<in> set (paid j rs)" using that(1,2) by (auto simp: paid_def intro!: image_eqI [of _ _ x])
    moreover have "y \<in> set (paid j rs)" using that(4,5) by (auto simp: paid_def intro!: image_eqI [of _ _ y])
    ultimately show ?thesis using that(3,6) unfolding collected_status_def
      by (metis less_irrefl receivable_row.select_convs(7,8) receivable_row.surjective receivable_row.update_convs(8))
  qed
  show "collected_status (paid (rc_id r) rs) = InvoicePartiallyPaid" "collected_status (paid (rc_id s) rs) = InvoicePartiallyPaid"
    using some [of r "rc_id r" s] some [of s "rc_id s" r] rows assms(4) by auto
  show "collected_status (paid (rc_id s) (paid (rc_id r) rs)) = InvoicePaid"
    using assms(5) by (auto simp: collected_status_def paid_def)
qed

lemma invoice_status_shows_collection:
  assumes "billing_reachable b" "v \<in> set (bb_invoices b)" "iv_status v \<noteq> InvoiceCancelled"
  shows "iv_status v = (if collected_on b (iv_id v) = iv_subtotal v then InvoicePaid
      else if 0 < collected_on b (iv_id v) then InvoicePartiallyPaid else InvoiceIssued)
    \<and> 0 \<le> collected_on b (iv_id v) \<and> collected_on b (iv_id v) \<le> iv_subtotal v \<and> 0 < iv_subtotal v
    \<and> iv_total v = iv_subtotal v + iv_tax v
    \<and> (\<forall>r \<in> set (members (bb_receivables b) (iv_id v)). rc_account r = iv_account v)"
proof -
  note ok = billing_reachable_ok [OF assms(1)]
  let ?rs = "members (bb_receivables b) (iv_id v)"
  have h: "?rs \<noteq> []" "\<forall>r \<in> set ?rs. 0 < rc_original r" "iv_subtotal v = sum_list (map rc_original ?rs)" "iv_total v = iv_subtotal v + iv_tax v"
    using billing_invD(4) [OF ok assms(2)] assms(3) by (auto simp: header_ok_def)
  have mem: "r \<in> set (bb_receivables b)" "rc_invoice r = Some (iv_id v)" if "r \<in> set ?rs" for r
    using that by (simp_all add: members_def)
  then have "\<forall>r \<in> set ?rs. charge_ok (bb_allocations b) r" using billing_invD(2) [OF ok] by blast
  note sums = collected_status_sums [OF this h(1,2)]
  have "rc_account r = iv_account v" if "r \<in> set ?rs" for r
    using billing_invD(3) [OF ok mem(1) [OF that]] mem(2) [OF that] keyed_unique [OF billing_keysD(2) [OF ok] _ assms(2)]
    unfolding invoiced_ok_def by metis
  then show ?thesis
    using sums h billing_invD(5) [OF ok assms(2)] assms(3) by (simp add: shown_ok_def collected_on_def)
qed

section \<open>The tariff of a purchase\<close>

text \<open>Precedence of two rules: branch first, then category, then risk.\<close>

definition outranks :: "mdr_rule_row \<Rightarrow> mdr_rule_row \<Rightarrow> bool" where
  "outranks w r =
     (truthy (rule_branch r) < truthy (rule_branch w)
      \<or> truthy (rule_branch r) = truthy (rule_branch w)
        \<and> (truthy (rule_category r) < truthy (rule_category w)
           \<or> truthy (rule_category r) = truthy (rule_category w) \<and> truthy (rule_risk r) \<le> truthy (rule_risk w)))"

lemma outranks_iff: "outranks w r \<longleftrightarrow> mdr_rule_specificity r \<le> mdr_rule_specificity w"
  by (auto simp: outranks_def mdr_rule_specificity_def mdr_branch_weight_def mdr_category_weight_def mdr_risk_weight_def)

lemma pick_best_Some:
  assumes "pick_best_mdr_rule rules branch category risk = Some w"
  shows "w \<in> set rules" "mdr_rule_matches branch category risk w"
    "r \<in> set rules \<Longrightarrow> mdr_rule_matches branch category risk r \<Longrightarrow> outranks w r"
proof -
  let ?xs = "sort_key (\<lambda>r. - int (mdr_rule_specificity r)) (filter (mdr_rule_matches branch category risk) rules)"
  from assms obtain rest where xs: "?xs = w # rest" by (auto simp: pick_best_mdr_rule_def split: list.splits)
  have set: "set (w # rest) = {r \<in> set rules. mdr_rule_matches branch category risk r}" by (simp flip: xs)
  then show "w \<in> set rules" "mdr_rule_matches branch category risk w" by auto
  have "sorted (map (\<lambda>r. - int (mdr_rule_specificity r)) (w # rest))" using sorted_sort_key [of "\<lambda>r. - int (mdr_rule_specificity r)"] xs by metis
  then have "mdr_rule_specificity r \<le> mdr_rule_specificity w" if "r \<in> set (w # rest)" for r using that by auto
  then show "outranks w r" if "r \<in> set rules" "mdr_rule_matches branch category risk r" using that set by (auto simp: outranks_iff)
qed

text \<open>C26: the rule that prices a purchase is an applicable one that no applicable rule outranks, so which rule wins never
  depends on the order of the rules unless two fix the same dimensions; without one, no rule applies.\<close>

theorem best_rule_is_most_specific:
  "case pick_best_mdr_rule rules branch category risk of
     None \<Rightarrow> \<forall>r \<in> set rules. \<not> mdr_rule_matches branch category risk r
   | Some w \<Rightarrow> w \<in> set rules \<and> mdr_rule_matches branch category risk w
       \<and> (\<forall>r \<in> set rules. mdr_rule_matches branch category risk r \<longrightarrow> outranks w r
           \<and> (outranks r w \<longrightarrow> truthy (rule_branch r) = truthy (rule_branch w)
               \<and> truthy (rule_category r) = truthy (rule_category w) \<and> truthy (rule_risk r) = truthy (rule_risk w)))"
proof (cases "pick_best_mdr_rule rules branch category risk")
  case None
  then have "filter (mdr_rule_matches branch category risk) rules = []"
    by (auto simp: pick_best_mdr_rule_def split: list.splits dest: arg_cong [of _ _ set])
  with None show ?thesis by (simp add: filter_empty_conv)
next
  case (Some w)
  have "outranks r w \<Longrightarrow> outranks w r \<Longrightarrow> truthy (rule_branch r) = truthy (rule_branch w)
      \<and> truthy (rule_category r) = truthy (rule_category w) \<and> truthy (rule_risk r) = truthy (rule_risk w)" for r
    unfolding outranks_def by auto
  with pick_best_Some [OF Some] show ?thesis unfolding Some option.case by blast
qed

section \<open>What a purchase records\<close>

lemma create_installments_rows:
  assumes "create_installments s l xs b = Inr b'"
  shows "\<exists>rows. bb_installments b' = bb_installments b @ rows \<and> map bi_amount rows = map snd xs \<and> (\<forall>r \<in> set rows. bi_purchase r = s)
    \<and> bb_purchases b' = bb_purchases b \<and> bb_products b' = bb_products b"
  using assms
proof (induction xs arbitrary: b)
  case (Cons x xs)
  then obtain b1 where b1: "create_installment s l x b = Inr b1" "create_installments s l xs b1 = Inr b'" by (auto simp: and_then_eq_Inr)
  from b1(1) obtain row where "bb_installments b1 = bb_installments b @ [row]" "bi_amount row = snd x" "bi_purchase row = s"
    "bb_purchases b1 = bb_purchases b" "bb_products b1 = bb_products b"
    by (auto simp: create_installment_def link_core_installment_def Let_def split: prod.splits option.splits if_splits)
  with Cons.IH [OF b1(2)] show ?case by fastforce
qed simp

lemma parse_split_installments: "parse_purchase_split x = Inr s \<Longrightarrow> length (installments s) = length (installments_in x)"
  by (auto simp: parse_purchase_split_def result_simps dest: traverse_length)

lemma record_purchase_rows:
  assumes run: "record_purchase x split consumer version risk mdr now b = Inr (i, b')"
    and len: "length (installments split) = length (pi_installments x)"
  shows "i = show_nat (bb_next b)" "bb_purchases b' = bb_purchases b @ [new_purchase x split consumer version risk mdr i]"
    "\<exists>rows. bb_installments b' = bb_installments b @ rows \<and> map bi_amount rows = installments split \<and> (\<forall>r \<in> set rows. bi_purchase r = i)"
    "\<exists>r. bb_receivables b' = bb_receivables b @ [r] \<and> rc_source_id r = Some i \<and> rc_account r = pi_merchant x
       \<and> rc_original r = mc_amount mdr \<and> rc_open r = mc_amount mdr \<and> rc_issued r = now \<and> rc_status r = ReceivablePending \<and> rc_invoice r = None"
proof -
  let ?b1 = "b\<lparr>bb_next := Suc (bb_next b), bb_purchases := bb_purchases b @ [new_purchase x split consumer version risk mdr (show_nat (bb_next b))],
    bb_down_payments := bb_down_payments b @ [\<lparr>dp_purchase = show_nat (bb_next b), dp_amount = down_payment split, dp_status = ''REPORTED''\<rparr>]\<rparr>"
  from run obtain b2 p where b2: "create_installments (show_nat (bb_next b)) (pi_core_loan x) (zip (pi_installments x) (installments split)) ?b1 = Inr b2"
    and b': "b' = b2\<lparr>bb_next := Suc (bb_next b2), bb_receivables := bb_receivables b2 @
      [mdr_receivable x (show_nat (bb_next b)) (mc_amount mdr) p now (show_nat (bb_next b2))]\<rparr>" and i: "i = show_nat (bb_next b)"
    by (auto simp: record_purchase_def Let_def result_simps)
  show "i = show_nat (bb_next b)" by (fact i)
  from create_installments_rows [OF b2] len show "bb_purchases b' = bb_purchases b @ [new_purchase x split consumer version risk mdr i]"
    "\<exists>rows. bb_installments b' = bb_installments b @ rows \<and> map bi_amount rows = installments split \<and> (\<forall>r \<in> set rows. bi_purchase r = i)"
    by (auto simp: b' i)
  from create_installments_frame [OF b2] show "\<exists>r. bb_receivables b' = bb_receivables b @ [r] \<and> rc_source_id r = Some i \<and> rc_account r = pi_merchant x
       \<and> rc_original r = mc_amount mdr \<and> rc_open r = mc_amount mdr \<and> rc_issued r = now \<and> rc_status r = ReceivablePending \<and> rc_invoice r = None"
    by (simp add: b' i same_billing_def mdr_receivable_def)
qed

lemma resolve_consumer_tables:
  "resolve_consumer_id c r b = Inr (i, b') \<Longrightarrow> bb_purchases b' = bb_purchases b \<and> bb_installments b' = bb_installments b
     \<and> bb_receivables b' = bb_receivables b \<and> bb_tariffs b' = bb_tariffs b \<and> bb_tiers b' = bb_tiers b"
  by (auto simp: resolve_consumer_id_def Let_def split: option.splits if_splits)

lemma active_version_in_force:
  assumes "find_active_contract_version account on_day b = Some v"
  shows "\<exists>w \<in> set (bb_tariffs b). v = w\<lparr>tariff_rules := filter rule_active (tariff_rules w)\<rparr> \<and> tariff_account w = account
    \<and> tariff_contract_status w = ''ACTIVE'' \<and> tariff_status w = ''ACTIVE'' \<and> tariff_from w \<le> on_day
    \<and> (case tariff_to w of None \<Rightarrow> True | Some t \<Rightarrow> on_day \<le> t)"
proof -
  have pick: "foldl (\<lambda>a c. if tariff_from a < tariff_from c then c else a) a cs \<in> insert a (set cs)" for a :: tariff_version_row and cs
  proof (induction cs arbitrary: a)
    case (Cons c cs)
    show ?case using Cons [of "if tariff_from a < tariff_from c then c else a"] by (auto split: if_splits)
  qed simp
  from assms obtain a cs where f: "filter (\<lambda>v. tariff_account v = account \<and> tariff_contract_status v = ''ACTIVE'' \<and> tariff_status v = ''ACTIVE'' \<and>
             tariff_from v \<le> on_day \<and> (case tariff_to v of None \<Rightarrow> True | Some t \<Rightarrow> on_day \<le> t)) (bb_tariffs b) = a # cs"
    and v: "v = (let best = foldl (\<lambda>a c. if tariff_from a < tariff_from c then c else a) a cs in best\<lparr>tariff_rules := filter rule_active (tariff_rules best)\<rparr>)"
    by (auto simp: find_active_contract_version_def Let_def split: list.splits)
  let ?w = "foldl (\<lambda>a c. if tariff_from a < tariff_from c then c else a) a cs"
  have "?w \<in> set (a # cs)" using pick by simp
  then show ?thesis unfolding f [symmetric] using v by (intro bexI [of _ ?w]) (auto simp: Let_def)
qed

lemma assert_purchase_split_Inr:
  assumes "assert_purchase_split x = Inr u" shows "purchase_split_violations x = Inr []"
proof -
  from assms obtain vs where vs: "purchase_split_violations x = Inr vs"
    "(case vs of [] \<Rightarrow> Inr () | MoneyRuleViolation code _ # _ \<Rightarrow> Inl (SPLIT_VIOLATION code)) = Inr u"
    by (auto simp: assert_purchase_split_def and_then_eq_Inr)
  from vs(2) have "vs = []"
  proof (cases vs)
    case (Cons a as)
    with vs(2) show ?thesis by (cases a) simp
  qed
  with vs(1) show ?thesis by simp
qed

lemma traverse_map: "traverse f (map g xs) = traverse (\<lambda>x. f (g x)) xs"
  by (induction xs) simp_all

text \<open>C25: a registered purchase is of a merchant who is a customer, at a branch that may originate, under an active version
  of an active contract in force on the day. Its amounts are those of the request: the purchase is the down payment plus
  what is financed, the down payment is within a cent of 60 per cent of it, and the installments are the requested ones and
  add up to what is financed. It charges the merchant one pending receivable: the fee of the tariff that was in force,
  priced by the risk tier the Core decided.\<close>

theorem purchase_contract:
  assumes "register_purchase x today now b = Inr (i, b')"
  shows "\<exists>p rows r v mdr m.
      bb_purchases b' = bb_purchases b @ [p] \<and> bp_id p = i \<and> bb_installments b' = bb_installments b @ rows
      \<and> bb_receivables b' = bb_receivables b @ [r]
      \<and> m \<in> set (bb_merchants b) \<and> merchant_id m = pi_merchant x \<and> merchant_lifecycle m = ''CUSTOMER''
      \<and> bp_merchant p = pi_merchant x \<and> bp_branch p = pi_branch x \<and> branch_enabled (pi_branch x) (pi_merchant x) b
      \<and> parse_money (pi_amount x) positive_money = Inr (bp_purchase p)
      \<and> parse_money (pi_down_payment x) default_options = Inr (bp_down_payment p)
      \<and> parse_money (pi_financed x) default_options = Inr (bp_financed p)
      \<and> bp_purchase p = bp_down_payment p + bp_financed p
      \<and> \<bar>bp_down_payment p - rounded_quotient HALF_UP (bp_purchase p * 60) 100\<bar> \<le> 1
      \<and> traverse (\<lambda>y. parse_money (installment_amount (fst y)) positive_money) (pi_installments x) = Inr (map bi_amount rows)
      \<and> sum_list (map bi_amount rows) = bp_financed p \<and> (\<forall>k \<in> set rows. bi_purchase k = i)
      \<and> v \<in> set (bb_tariffs b) \<and> tariff_account v = pi_merchant x \<and> tariff_contract_status v = ''ACTIVE''
      \<and> tariff_status v = ''ACTIVE'' \<and> tariff_from v \<le> today \<and> (case tariff_to v of None \<Rightarrow> True | Some t \<Rightarrow> today \<le> t)
      \<and> bp_version p = tariff_id v \<and> bp_risk p = resolve_risk_tier (pi_consumer_ref x) b
      \<and> calculate_mdr (pi_amount x) (v\<lparr>tariff_rules := filter rule_active (tariff_rules v)\<rparr>) (pi_branch x) (pi_category x) (bp_risk p) = Inr mdr
      \<and> bp_mdr p = mc_amount mdr \<and> bp_rate p = mc_rate mdr \<and> bp_rule p = mc_rule mdr
      \<and> rc_source_id r = Some i \<and> rc_account r = pi_merchant x \<and> rc_original r = bp_mdr p \<and> rc_open r = bp_mdr p
      \<and> rc_issued r = now \<and> rc_status r = ReceivablePending \<and> rc_invoice r = None"
proof -
  from assms obtain split c b1 v mdr m where enabled: "branch_enabled (pi_branch x) (pi_merchant x) b"
    and m: "find_by merchant_id (pi_merchant x) (bb_merchants b) = Some m" "merchant_lifecycle m = ''CUSTOMER''"
    and accepted: "assert_purchase_split (split_input x) = Inr ()" and split: "parse_purchase_split (split_input x) = Inr split"
    and c: "resolve_consumer_id (pi_consumer x) (pi_consumer_ref x) b = Inr (c, b1)"
    and v: "find_active_contract_version (pi_merchant x) today b1 = Some v"
    and mdr: "calculate_mdr (pi_amount x) v (pi_branch x) (pi_category x) (resolve_risk_tier (pi_consumer_ref x) b1) = Inr mdr"
    and rec: "record_purchase x split c (tariff_id v) (resolve_risk_tier (pi_consumer_ref x) b1) mdr now b1 = Inr (i, b')"
    by (auto simp: register_purchase_def Let_def result_simps)
  note tables = resolve_consumer_tables [OF c]
  have risk: "resolve_risk_tier (pi_consumer_ref x) b1 = resolve_risk_tier (pi_consumer_ref x) b"
    unfolding resolve_risk_tier_def conjunct2 [OF conjunct2 [OF conjunct2 [OF conjunct2 [OF tables]]]] ..
  from accepted have "purchase_split_violations (split_input x) = Inr []" by (rule assert_purchase_split_Inr)
  then have sums: "down_payment split + financed split = purchase split" "sum_list (installments split) = financed split"
    "\<bar>down_payment split - rounded_quotient HALF_UP (purchase split * 60) 100\<bar> \<le> 1"
    using split by (auto simp: purchase_split_accepted_iff)
  from split have requested: "parse_money (pi_amount x) positive_money = Inr (purchase split)"
    "parse_money (pi_down_payment x) default_options = Inr (down_payment split)"
    "parse_money (pi_financed x) default_options = Inr (financed split)"
    "traverse (\<lambda>y. parse_money (installment_amount (fst y)) positive_money) (pi_installments x) = Inr (installments split)"
    by (auto simp: parse_purchase_split_def split_input_def result_simps traverse_map comp_def)
  have len: "length (installments split) = length (pi_installments x)" using parse_split_installments [OF split] by (simp add: split_input_def)
  note rows = record_purchase_rows [OF rec len]
  obtain w where w: "w \<in> set (bb_tariffs b)" "v = w\<lparr>tariff_rules := filter rule_active (tariff_rules w)\<rparr>" "tariff_account w = pi_merchant x"
    "tariff_contract_status w = ''ACTIVE''" "tariff_status w = ''ACTIVE''" "tariff_from w \<le> today"
    "case tariff_to w of None \<Rightarrow> True | Some t \<Rightarrow> today \<le> t"
    using active_version_in_force [OF v] tables by auto
  obtain ks where ks: "bb_installments b' = bb_installments b @ ks" "map bi_amount ks = installments split" "\<forall>k \<in> set ks. bi_purchase k = i"
    using rows(3) tables by auto
  moreover obtain r where "bb_receivables b' = bb_receivables b @ [r]" "rc_source_id r = Some i" "rc_account r = pi_merchant x"
    "rc_original r = mc_amount mdr" "rc_open r = mc_amount mdr" "rc_issued r = now" "rc_status r = ReceivablePending" "rc_invoice r = None"
    using rows(4) tables by auto
  moreover have "tariff_id v = tariff_id w" by (simp add: w(2))
  ultimately show ?thesis
    using rows(2) tables ks sums w mdr risk enabled m(2) find_by_Some [OF m(1)] requested
    by (intro exI [of _ "new_purchase x split c (tariff_id v) (resolve_risk_tier (pi_consumer_ref x) b1) mdr i"] exI [of _ ks] exI [of _ r]
        exI [of _ w] exI [of _ mdr] exI [of _ m])
      (simp add: new_purchase_def)
qed

section \<open>What an invoice says\<close>

lemma lines_by_id:
  assumes "distinct (map line_id ls)"
  shows "map (\<lambda>i. List.last (filter (\<lambda>l. line_id l = i) ls)) (map line_id ls) = ls"
proof -
  have "List.last (filter (\<lambda>k. line_id k = line_id l) ls) = l" if "l \<in> set ls" for l
    using filter_unique [OF assms that] by simp
  then show ?thesis by (simp add: map_idI)
qed

lemma totals_of_lines:
  assumes t: "totals_of rate rs = Inr t" and d: "distinct (map rc_id rs)"
  shows "sum_list (map (minor_value \<circ> line_net \<circ> (line_of t \<circ> rc_id)) rs) = minor_value (subtotal t)"
    "sum_list (map (minor_value \<circ> line_tax \<circ> (line_of t \<circ> rc_id)) rs) = minor_value (tax t)"
    "\<forall>r \<in> set rs. minor_value (line_total (line_of t (rc_id r))) = minor_value (line_net (line_of t (rc_id r))) + minor_value (line_tax (line_of t (rc_id r)))
       \<and> minor_value (line_net (line_of t (rc_id r))) = rc_open r"
proof -
  from t have a: "compute_invoice_totals (map charge_of rs) rate = Inr t" by (simp add: totals_of_def)
  from invoice_totals_parts [OF a] obtain nets taxes where parse:
    "traverse (\<lambda>c. parse_money (amount_open c) (positive_money\<lparr>pm_currency := Some (totals_currency t)\<rparr>)) (map charge_of rs) = Inr nets"
    and tax: "allocate_proportionally (minor_value (tax t)) nets = Inr taxes" and sub: "minor_value (subtotal t) = sum_list nets"
    and ls: "traverse invoice_line (zip (map charge_of rs) (zip nets taxes)) = Inr (lines t)" by metis
  have nets: "nets = map rc_open rs" using traverse_texts [OF parse] .
  have len: "length nets = length (map charge_of rs)" "length taxes = length (map charge_of rs)"
    using allocation_total(2) [OF tax] by (simp_all add: nets)
  note vals = invoice_lines_values [OF ls len]
  have ids: "map line_id (lines t) = map rc_id rs" using vals by (simp add: comp_def charge_of_def)
  then have ls': "map (line_of t \<circ> rc_id) rs = lines t"
    using lines_by_id [of "lines t"] d unfolding line_of_def by (metis (no_types, lifting) List.map.compositionality comp_apply map_cong)
  show "sum_list (map (minor_value \<circ> line_net \<circ> (line_of t \<circ> rc_id)) rs) = minor_value (subtotal t)"
    using vals sub ls' by (metis List.map.compositionality)
  show "sum_list (map (minor_value \<circ> line_tax \<circ> (line_of t \<circ> rc_id)) rs) = minor_value (tax t)"
    using vals ls' allocation_total(1) [OF tax] by (metis List.map.compositionality)
  show "\<forall>r \<in> set rs. minor_value (line_total (line_of t (rc_id r))) = minor_value (line_net (line_of t (rc_id r))) + minor_value (line_tax (line_of t (rc_id r)))
       \<and> minor_value (line_net (line_of t (rc_id r))) = rc_open r"
  proof
    fix r assume r: "r \<in> set rs"
    then have "line_of t (rc_id r) \<in> set (lines t)" unfolding ls' [symmetric] by auto
    then have "minor_value (line_total (line_of t (rc_id r))) = minor_value (line_net (line_of t (rc_id r))) + minor_value (line_tax (line_of t (rc_id r)))"
      using vals by blast
    moreover have "map (minor_value \<circ> line_net \<circ> (line_of t \<circ> rc_id)) rs = map rc_open rs"
      using vals nets ls' by (metis List.map.compositionality)
    ultimately show "minor_value (line_total (line_of t (rc_id r))) = minor_value (line_net (line_of t (rc_id r))) + minor_value (line_tax (line_of t (rc_id r)))
       \<and> minor_value (line_net (line_of t (rc_id r))) = rc_open r" using r by (simp add: map_eq_conv)
  qed
qed

lemma charges_distinct: "billing_ok b \<Longrightarrow> distinct (map rc_id (charges_for x b))"
  using billing_keysD(1) [of "{}" "{}" b] by (simp add: keyed_def charges_for_def distinct_map_filter)

text \<open>C23: an issued invoice bills exactly the charges it names, which were pending, open and never billed; one line for each,
  whose nets, taxes and totals add up to the header, under the next number of the series; no other charge changes.\<close>

theorem invoice_contract:
  assumes "billing_reachable b" "issue_invoice rate y x b = Inr (i, b')"
  shows "\<exists>v ls. bb_invoices b' = bb_invoices b @ [v] \<and> bb_invoice_lines b' = bb_invoice_lines b @ ls \<and> iv_id v = i
      \<and> iv_number v = document_number y ''FAC-CM'' (ii_date x) None (map iv_number (bb_invoices b))
      \<and> length ls = length (ii_receivables x) \<and> (\<forall>l \<in> set ls. il_invoice l = i \<and> il_total l = il_unit l + il_tax l)
      \<and> sum_list (map il_unit ls) = iv_subtotal v \<and> sum_list (map il_tax ls) = iv_tax v \<and> iv_total v = iv_subtotal v + iv_tax v
      \<and> map il_unit ls = map rc_open (charges_for x b)
      \<and> (\<forall>r \<in> set (charges_for x b). rc_invoice r = None \<and> rc_status r = ReceivablePending \<and> 0 < rc_open r)
      \<and> bb_receivables b' = map (\<lambda>r. if rc_id r \<in> set (ii_receivables x) \<and> rc_account r = ii_account x
            then r\<lparr>rc_invoice := Some i\<rparr> else r) (bb_receivables b)"
proof -
  note ok = billing_reachable_ok [OF assms(1)]
  obtain t where t: "totals_of rate (charges_for x b) = Inr t" and len: "length (charges_for x b) = length (ii_receivables x)"
    and cs: "\<forall>r \<in> set (charges_for x b). rc_invoice r = None \<and> rc_status r = ReceivablePending \<and> 0 < rc_open r"
    and i: "i = show_nat (bb_next b)" and nxt: "bb_next b' = Suc (bb_next b)"
    and same: "bb_payments b' = bb_payments b" "bb_allocations b' = bb_allocations b" "bb_purchases b' = bb_purchases b"
    and iv: "\<exists>v. bb_invoices b' = bb_invoices b @ [v] \<and> iv_id v = i \<and> iv_account v = ii_account x \<and> iv_status v = InvoiceIssued
       \<and> iv_subtotal v = minor_value (subtotal t) \<and> iv_tax v = minor_value (tax t) \<and> iv_total v = minor_value (total_amount t)
       \<and> iv_number v = document_number y ''FAC-CM'' (ii_date x) None (map iv_number (bb_invoices b))"
    and ils: "bb_invoice_lines b' = bb_invoice_lines b @ map (new_invoice_line i t b) (charges_for x b)"
    and rs: "bb_receivables b' = map (\<lambda>r. if rc_id r \<in> rc_id ` set (charges_for x b) then r\<lparr>rc_invoice := Some i\<rparr> else r) (bb_receivables b)"
    by (rule issue_invoice_Inr [OF assms(2)])
  let ?ls = "map (new_invoice_line i t b) (charges_for x b)"
  note lines = totals_of_lines [OF t charges_distinct [OF ok]]
  have unit: "il_unit (new_invoice_line i t b r) = minor_value (line_net (line_of t (rc_id r)))"
    "il_tax (new_invoice_line i t b r) = minor_value (line_tax (line_of t (rc_id r)))"
    "il_total (new_invoice_line i t b r) = minor_value (line_total (line_of t (rc_id r)))" "il_invoice (new_invoice_line i t b r) = i" for r
    by (simp_all add: new_invoice_line_def Let_def)
  have "rc_id r \<in> rc_id ` set (charges_for x b) \<longleftrightarrow> rc_id r \<in> set (ii_receivables x) \<and> rc_account r = ii_account x"
    if "r \<in> set (bb_receivables b)" for r
    using that keyed_unique [OF billing_keysD(1) [OF ok] that] by (auto simp: charges_for_def)
  then have "bb_receivables b' = map (\<lambda>r. if rc_id r \<in> set (ii_receivables x) \<and> rc_account r = ii_account x
            then r\<lparr>rc_invoice := Some i\<rparr> else r) (bb_receivables b)" unfolding rs by (intro map_cong) auto
  moreover have "map il_unit ?ls = map rc_open (charges_for x b)" "\<forall>l \<in> set ?ls. il_invoice l = i \<and> il_total l = il_unit l + il_tax l"
    using lines(3) by (simp_all add: unit)
  moreover have "sum_list (map il_unit ?ls) = minor_value (subtotal t)" "sum_list (map il_tax ?ls) = minor_value (tax t)"
    using lines(1,2) by (simp_all add: unit comp_def)
  moreover obtain v where "bb_invoices b' = bb_invoices b @ [v]" "iv_id v = i" "iv_subtotal v = minor_value (subtotal t)"
    "iv_tax v = minor_value (tax t)" "iv_total v = minor_value (total_amount t)"
    "iv_number v = document_number y ''FAC-CM'' (ii_date x) None (map iv_number (bb_invoices b))" using iv by blast
  moreover have "length ?ls = length (ii_receivables x)" using len by simp
  ultimately show ?thesis using ils cs totals_of_header(3) [OF t]
    by (intro exI [of _ v] exI [of _ ?ls] conjI) (simp_all only:)
qed

section \<open>Groups and batches\<close>

definition grouped :: "receivable_row list \<Rightarrow> ((ident \<times> string) \<times> ident list) list \<Rightarrow> bool" where
  "grouped cs gs = (distinct (map fst gs) \<and> distinct (concat (map snd gs)) \<and> set (concat (map snd gs)) = rc_id ` set cs
     \<and> (\<forall>g \<in> set gs. \<forall>j \<in> set (snd g). \<exists>c \<in> set cs. rc_id c = j \<and> rc_account c = fst (fst g)))"

lemma agregar_cases:
  assumes "distinct (map fst gs)"
  obtains "(rc_account r, rc_currency r) \<notin> fst ` set gs" "agregar r gs = gs @ [((rc_account r, rc_currency r), [rc_id r])]"
  | us ids vs where "gs = us @ ((rc_account r, rc_currency r), ids) # vs" "agregar r gs = us @ ((rc_account r, rc_currency r), ids @ [rc_id r]) # vs"
proof (cases "(rc_account r, rc_currency r) \<in> fst ` set gs")
  case True
  then obtain us ids vs where gs: "gs = us @ ((rc_account r, rc_currency r), ids) # vs" by (force simp: in_set_conv_decomp)
  have "map (\<lambda>g. if fst g = k then (k, snd g @ [x]) else g) xs = xs" if "k \<notin> fst ` set xs" for k x and xs :: "((ident \<times> string) \<times> ident list) list"
    using that by (induction xs) auto
  with assms that(2) [OF gs] True show thesis by (simp add: gs agregar_def Let_def image_Un)
next
  case False
  with that(1) show thesis by (simp add: agregar_def Let_def)
qed

lemma grouped_agregar:
  assumes "grouped cs gs" "rc_id r \<notin> rc_id ` set cs" shows "grouped (cs @ [r]) (agregar r gs)"
proof -
  have d: "distinct (map fst gs)" and dd: "distinct (concat (map snd gs))" and s: "set (concat (map snd gs)) = rc_id ` set cs"
    and own: "\<forall>g \<in> set gs. \<forall>j \<in> set (snd g). \<exists>c \<in> set cs. rc_id c = j \<and> rc_account c = fst (fst g)"
    using assms(1) by (simp_all add: grouped_def)
  have new: "rc_id r \<notin> set (concat (map snd gs))" using assms(2) s by simp
  show ?thesis
  proof (cases rule: agregar_cases [OF d, of r])
    case 1
    then show ?thesis using d dd s own new by (auto simp: grouped_def)
  next
    case (2 us ids vs)
    have "distinct (map fst (agregar r gs))" using d unfolding 2(2) by (simp add: 2(1))
    moreover have "distinct (concat (map snd (agregar r gs)))" using dd new unfolding 2(2) by (auto simp: 2(1))
    moreover have "set (concat (map snd (agregar r gs))) = rc_id ` set (cs @ [r])" using s unfolding 2(2) by (auto simp: 2(1))
    moreover have "\<exists>c \<in> set (cs @ [r]). rc_id c = j \<and> rc_account c = fst (fst g)" if "g \<in> set (agregar r gs)" "j \<in> set (snd g)" for g j
    proof -
      from that(1) consider "g \<in> set gs" | "g = ((rc_account r, rc_currency r), ids @ [rc_id r])"
        unfolding 2(2) by (auto simp: 2(1))
      then show ?thesis
      proof cases
        case 1
        with own that(2) show ?thesis by auto
      next
        case new: 2
        have "((rc_account r, rc_currency r), ids) \<in> set gs" by (simp add: 2(1))
        with own new that(2) show ?thesis by fastforce
      qed
    qed
    ultimately show ?thesis by (simp add: grouped_def)
  qed
qed

lemma grouped_fold: "grouped cs gs \<Longrightarrow> distinct (map rc_id (cs @ xs)) \<Longrightarrow> grouped (cs @ xs) (fold agregar xs gs)"
proof (induction xs arbitrary: cs gs)
  case (Cons x xs)
  from Cons.prems(2) have "rc_id x \<notin> rc_id ` set cs" by auto
  from Cons.IH [OF grouped_agregar [OF Cons.prems(1) this]] Cons.prems(2) show ?case by simp
qed simp

lemma grouped_grupos: "distinct (map rc_id cs) \<Longrightarrow> grouped cs (grupos_de cs)"
  using grouped_fold [of "[]" "[]" cs] by (simp add: grupos_de_def grouped_def)

lemma tandas_batches: "concat (tandas ids) = ids \<and> (\<forall>t \<in> set (tandas ids). t \<noteq> [] \<and> length t \<le> max_lineas_por_factura)"
proof (induction ids rule: tandas.induct)
  case (1 ids)
  show ?case
  proof (cases "ids = []")
    case True
    then show ?thesis by (simp add: tandas.simps)
  next
    case False
    then have "take max_lineas_por_factura ids \<noteq> []" by (simp add: max_lineas_por_factura_def)
    with 1 False show ?thesis by (subst (1 2) tandas.simps) simp
  qed
qed

lemma tandas_de_batches:
  shows "concat (map snd (tandas_de gs)) = concat (map snd gs)"
    "x \<in> set (tandas_de gs) \<Longrightarrow> length (snd x) \<le> max_lineas_por_factura \<and> (\<exists>g \<in> set gs. fst x = fst (fst g) \<and> set (snd x) \<subseteq> set (snd g))"
proof -
  have "concat (map snd (map (\<lambda>t. (a, t)) (tandas ids))) = ids" for a :: ident and ids
    using tandas_batches [of ids] by (simp add: comp_def)
  then show "concat (map snd (tandas_de gs)) = concat (map snd gs)"
    by (induction gs) (simp_all add: tandas_de_def)
  have sub: "set t \<subseteq> set ids" if "t \<in> set (tandas ids)" for t ids :: "ident list"
  proof -
    have "set t \<subseteq> set (concat (tandas ids))" using that by auto
    then show ?thesis using tandas_batches [of ids] by simp
  qed
  assume "x \<in> set (tandas_de gs)"
  then obtain g t where g: "g \<in> set gs" "t \<in> set (tandas (snd g))" "x = (fst (fst g), t)" by (auto simp: tandas_de_def)
  with sub tandas_batches [of "snd g"] show "length (snd x) \<le> max_lineas_por_factura \<and> (\<exists>g \<in> set gs. fst x = fst (fst g) \<and> set (snd x) \<subseteq> set (snd g))"
    by auto
qed

section \<open>The cycle\<close>

lemma charges_cover:
  assumes ok: "billing_ok b" and len: "length (charges_for x b) = length (ii_receivables x)" and d: "distinct (ii_receivables x)"
  shows "rc_id ` set (charges_for x b) = set (ii_receivables x)"
proof (rule card_subset_eq)
  show "rc_id ` set (charges_for x b) \<subseteq> set (ii_receivables x)" by (auto simp: charges_for_def)
  have "card (rc_id ` set (charges_for x b)) = length (map rc_id (charges_for x b))"
    using distinct_card [OF charges_distinct [OF ok, of x]] by simp
  then show "card (rc_id ` set (charges_for x b)) = card (set (ii_receivables x))" using len distinct_card [OF d] by simp
qed simp

definition charge_row :: "billing_book \<Rightarrow> ident \<Rightarrow> receivable_row option" where
  "charge_row b j = find_by rc_id j (bb_receivables b)"

lemma charge_row_iff: "billing_ok b \<Longrightarrow> charge_row b j = Some r \<longleftrightarrow> r \<in> set (bb_receivables b) \<and> rc_id r = j"
  using billing_keysD(1) [of "{}" "{}" b] find_by_unique find_by_Some unfolding charge_row_def keyed_def by metis

lemma charge_row_map:
  assumes "\<And>r. rc_id (f r) = rc_id r" "bb_receivables b' = map f (bb_receivables b)"
  shows "charge_row b' j = map_option f (charge_row b j)"
proof -
  have "find_by rc_id j (map f rs) = map_option f (find_by rc_id j rs)" for rs using assms(1) by (induction rs) auto
  with assms(2) show ?thesis by (simp add: charge_row_def)
qed

text \<open>A batch that is billed: its charges get the invoice, the others stay, and the invoice has them as its members.\<close>

lemma billed_batch:
  assumes ok: "billing_ok b" and run: "issue_invoice rate y x b = Inr (i, b')" and d: "distinct (ii_receivables x)"
  shows "j \<in> set (ii_receivables x) \<Longrightarrow> \<exists>r. charge_row b j = Some r \<and> charge_row b' j = Some (r\<lparr>rc_invoice := Some i\<rparr>)"
    "j \<notin> set (ii_receivables x) \<Longrightarrow> charge_row b' j = charge_row b j"
    "length (members (bb_receivables b') i) = length (ii_receivables x)"
    "iv_id ` set (bb_invoices b') = insert i (iv_id ` set (bb_invoices b))" "i \<notin> iv_id ` set (bb_invoices b)"
    "k \<in> iv_id ` set (bb_invoices b) \<Longrightarrow> k \<in> iv_id ` set (bb_invoices b') \<and> members (bb_receivables b') k = members (bb_receivables b) k"
proof -
  obtain t where t: "totals_of rate (charges_for x b) = Inr t" and len: "length (charges_for x b) = length (ii_receivables x)"
    and cs: "\<forall>r \<in> set (charges_for x b). rc_invoice r = None \<and> rc_status r = ReceivablePending \<and> 0 < rc_open r"
    and i: "i = show_nat (bb_next b)" and nxt: "bb_next b' = Suc (bb_next b)"
    and same: "bb_payments b' = bb_payments b" "bb_allocations b' = bb_allocations b" "bb_purchases b' = bb_purchases b"
    and iv: "\<exists>v. bb_invoices b' = bb_invoices b @ [v] \<and> iv_id v = i \<and> iv_account v = ii_account x \<and> iv_status v = InvoiceIssued
       \<and> iv_subtotal v = minor_value (subtotal t) \<and> iv_tax v = minor_value (tax t) \<and> iv_total v = minor_value (total_amount t)
       \<and> iv_number v = document_number y ''FAC-CM'' (ii_date x) None (map iv_number (bb_invoices b))"
    and ils: "bb_invoice_lines b' = bb_invoice_lines b @ map (new_invoice_line i t b) (charges_for x b)"
    and rs: "bb_receivables b' = map (\<lambda>r. if rc_id r \<in> rc_id ` set (charges_for x b) then r\<lparr>rc_invoice := Some i\<rparr> else r) (bb_receivables b)"
    by (rule issue_invoice_Inr [OF run])
  note cover = charges_cover [OF ok len d]
  have row: "charge_row b' j = map_option (\<lambda>r. if rc_id r \<in> set (ii_receivables x) then r\<lparr>rc_invoice := Some i\<rparr> else r) (charge_row b j)" for j
    by (rule charge_row_map) (simp_all add: rs cover)
  show "\<exists>r. charge_row b j = Some r \<and> charge_row b' j = Some (r\<lparr>rc_invoice := Some i\<rparr>)" if j: "j \<in> set (ii_receivables x)"
  proof -
    obtain r where "r \<in> set (charges_for x b)" "rc_id r = j" using j unfolding cover [symmetric] by auto
    then have "charge_row b j = Some r" by (simp add: charge_row_iff [OF ok] charges_for_def)
    with j \<open>rc_id r = j\<close> show ?thesis by (simp add: row)
  qed
  show "charge_row b' j = charge_row b j" if "j \<notin> set (ii_receivables x)"
  proof (cases "charge_row b j")
    case (Some r)
    then have "rc_id r = j" using charge_row_iff [OF ok] by blast
    with Some that show ?thesis by (simp add: row)
  qed (simp add: row)
  have "\<forall>r \<in> set (charges_for x b). rc_invoice r = None" using cs by blast
  note m = charged_members [OF ok i this, folded rs]
  show "length (members (bb_receivables b') i) = length (ii_receivables x)" using m(1) len by simp
  have fresh: "i \<notin> iv_id ` set (bb_invoices b)" using keyed_fresh [OF billing_keysD(2) [OF ok]] by (simp add: i)
  then show "i \<notin> iv_id ` set (bb_invoices b)" .
  show "iv_id ` set (bb_invoices b') = insert i (iv_id ` set (bb_invoices b))" using iv by auto
  show "k \<in> iv_id ` set (bb_invoices b') \<and> members (bb_receivables b') k = members (bb_receivables b) k" if "k \<in> iv_id ` set (bb_invoices b)"
  proof -
    have "k \<noteq> i" using fresh that by blast
    with iv that m(2) show ?thesis by fastforce
  qed
qed

definition cycle_kept :: "(ident \<times> ident list) list \<Rightarrow> ident list \<Rightarrow> ident list \<Rightarrow> billing_book \<Rightarrow> billing_book \<Rightarrow> bool" where
  "cycle_kept ts facturas errores b b' =
     ((\<forall>j. j \<notin> set (concat (map snd ts)) \<longrightarrow> charge_row b' j = charge_row b j)
      \<and> (\<forall>a t j. (a, t) \<in> set ts \<longrightarrow> j \<in> set t \<longrightarrow>
           (\<exists>r. \<exists>i \<in> set facturas. charge_row b j = Some r \<and> charge_row b' j = Some (r\<lparr>rc_invoice := Some i\<rparr>))
           \<or> charge_row b' j = charge_row b j \<and> a \<in> set errores)
      \<and> (\<forall>k \<in> iv_id ` set (bb_invoices b). k \<in> iv_id ` set (bb_invoices b') \<and> members (bb_receivables b') k = members (bb_receivables b) k))"

lemma cierre_loop:
  assumes "billing_reachable b" "distinct (concat (map snd ts))" "\<forall>x \<in> set ts. length (snd x) \<le> m"
    "\<forall>i \<in> set F. i \<in> iv_id ` set (bb_invoices b) \<and> length (members (bb_receivables b) i) \<le> m"
    "fold (facturar_tanda rate y hoy vence) ts (F, E, b) = (F', E', b')"
  shows "billing_reachable b' \<and> set F \<subseteq> set F' \<and> set E \<subseteq> set E' \<and> cycle_kept ts F' E' b b'
    \<and> (\<forall>i \<in> set F'. i \<in> iv_id ` set (bb_invoices b') \<and> length (members (bb_receivables b') i) \<le> m)
    \<and> (\<exists>new. F' = F @ new \<and> iv_id ` set (bb_invoices b') = iv_id ` set (bb_invoices b) \<union> set new \<and> iv_id ` set (bb_invoices b) \<inter> set new = {})"
  using assms
proof (induction ts arbitrary: F E b)
  case Nil
  then show ?case by (auto simp: cycle_kept_def)
next
  case (Cons x ts)
  obtain a t where x: "x = (a, t)" by (cases x)
  have dt: "distinct t" "distinct (concat (map snd ts))" "set t \<inter> set (concat (map snd ts)) = {}" using Cons.prems(2) by (auto simp: x)
  let ?in = "\<lparr>ii_account = a, ii_contract = None, ii_date = hoy, ii_due = vence, ii_receivables = t, ii_tax_ref = None\<rparr>"
  show ?case
  proof (cases "issue_invoice rate y ?in b")
    case (Inl e)
    then have "facturar_tanda rate y hoy vence x (F, E, b) = (F, E @ [a], b)" by (simp add: x facturar_tanda_def)
    then have "fold (facturar_tanda rate y hoy vence) ts (F, E @ [a], b) = (F', E', b')" using Cons.prems(5) by simp
    from Cons.IH [OF Cons.prems(1) dt(2) _ Cons.prems(4) this] Cons.prems(3)
    have r: "billing_reachable b'" "set F \<subseteq> set F'" "set (E @ [a]) \<subseteq> set E'" "cycle_kept ts F' E' b b'"
      "\<forall>i \<in> set F'. i \<in> iv_id ` set (bb_invoices b') \<and> length (members (bb_receivables b') i) \<le> m"
      "\<exists>new. F' = F @ new \<and> iv_id ` set (bb_invoices b') = iv_id ` set (bb_invoices b) \<union> set new \<and> iv_id ` set (bb_invoices b) \<inter> set new = {}"
      by simp_all
    have "cycle_kept (x # ts) F' E' b b'"
      unfolding cycle_kept_def
    proof (intro conjI allI impI)
      fix j assume "j \<notin> set (concat (map snd (x # ts)))"
      then show "charge_row b' j = charge_row b j" using r(4) unfolding cycle_kept_def by simp
    next
      fix c u j assume u: "(c, u) \<in> set (x # ts)" and j: "j \<in> set u"
      show "(\<exists>r. \<exists>i \<in> set F'. charge_row b j = Some r \<and> charge_row b' j = Some (r\<lparr>rc_invoice := Some i\<rparr>))
           \<or> charge_row b' j = charge_row b j \<and> c \<in> set E'"
      proof (cases "(c, u) \<in> set ts")
        case False
        with u j x dt(3) have "c = a" "j \<notin> set (concat (map snd ts))" by auto
        then show ?thesis using r(3,4) unfolding cycle_kept_def by simp
      qed (use j r(4) in \<open>auto simp: cycle_kept_def\<close>)
    qed (use r(4) in \<open>auto simp: cycle_kept_def\<close>)
    with r show ?thesis by auto
  next
    case (Inr z)
    obtain i b1 where z: "z = (i, b1)" by (cases z)
    have run: "issue_invoice rate y ?in b = Inr (i, b1)" using Inr z by simp
    note ok = billing_reachable_ok [OF Cons.prems(1)]
    note bill = billed_batch [OF ok run, simplified invoice_input.simps, OF dt(1)]
    have reach: "billing_reachable b1" using Cons.prems(1) run by (blast intro: billing_reachable.step billing_step.invoice)
    have "facturar_tanda rate y hoy vence x (F, E, b) = (F @ [i], E, b1)" using run by (simp add: x facturar_tanda_def)
    then have rest: "fold (facturar_tanda rate y hoy vence) ts (F @ [i], E, b1) = (F', E', b')" using Cons.prems(5) by simp
    have "\<forall>k \<in> set (F @ [i]). k \<in> iv_id ` set (bb_invoices b1) \<and> length (members (bb_receivables b1) k) \<le> m"
      using Cons.prems(3,4) bill(3,4,6) by (auto simp: x)
    from Cons.IH [OF reach dt(2) _ this rest] Cons.prems(3)
    have r: "billing_reachable b'" "set (F @ [i]) \<subseteq> set F'" "set E \<subseteq> set E'" "cycle_kept ts F' E' b1 b'"
      "\<forall>i \<in> set F'. i \<in> iv_id ` set (bb_invoices b') \<and> length (members (bb_receivables b') i) \<le> m"
      and "\<exists>new. F' = (F @ [i]) @ new \<and> iv_id ` set (bb_invoices b') = iv_id ` set (bb_invoices b1) \<union> set new
        \<and> iv_id ` set (bb_invoices b1) \<inter> set new = {}"
      by simp_all
    then obtain new where "F' = F @ (i # new)" "iv_id ` set (bb_invoices b') = iv_id ` set (bb_invoices b) \<union> set (i # new)"
      "iv_id ` set (bb_invoices b) \<inter> set (i # new) = {}"
      unfolding bill(4) using bill(5) by auto
    then have fresh: "\<exists>new. F' = F @ new \<and> iv_id ` set (bb_invoices b') = iv_id ` set (bb_invoices b) \<union> set new
      \<and> iv_id ` set (bb_invoices b) \<inter> set new = {}" by blast
    have "cycle_kept (x # ts) F' E' b b'"
      unfolding cycle_kept_def
    proof (intro conjI allI impI)
      fix j assume "j \<notin> set (concat (map snd (x # ts)))"
      then show "charge_row b' j = charge_row b j" using r(4) bill(2) [of j] unfolding cycle_kept_def by (simp add: x)
    next
      fix c u j assume u: "(c, u) \<in> set (x # ts)" and j: "j \<in> set u"
      show "(\<exists>r. \<exists>i \<in> set F'. charge_row b j = Some r \<and> charge_row b' j = Some (r\<lparr>rc_invoice := Some i\<rparr>))
           \<or> charge_row b' j = charge_row b j \<and> c \<in> set E'"
      proof (cases "j \<in> set t")
        case True
        with dt(3) have "j \<notin> set (concat (map snd ts))" by blast
        then have "charge_row b' j = charge_row b1 j" using r(4) unfolding cycle_kept_def by blast
        then show ?thesis using bill(1) [OF True] r(2) by auto
      next
        case False
        with u j x have "(c, u) \<in> set ts" by auto
        then have "(\<exists>r. \<exists>i \<in> set F'. charge_row b1 j = Some r \<and> charge_row b' j = Some (r\<lparr>rc_invoice := Some i\<rparr>))
           \<or> charge_row b' j = charge_row b1 j \<and> c \<in> set E'" using j r(4) unfolding cycle_kept_def by blast
        then show ?thesis using bill(2) [OF False] by simp
      qed
    next
      show "\<forall>k \<in> iv_id ` set (bb_invoices b). k \<in> iv_id ` set (bb_invoices b') \<and> members (bb_receivables b') k = members (bb_receivables b) k"
        using r(4) bill(6) unfolding cycle_kept_def by metis
    qed
    with r(1-3,5) fresh show ?thesis by auto
  qed
qed

definition cargo_pendiente :: "day \<Rightarrow> receivable_row \<Rightarrow> bool" where
  "cargo_pendiente hoy r = (rc_status r = ReceivablePending \<and> rc_invoice r = None \<and> 0 < rc_open r \<and> rc_issued r < medianoche_la_paz hoy)"

lemma cargos_pendientes_set: "set (cargos_pendientes hoy b) = {r \<in> set (bb_receivables b). cargo_pendiente hoy r}"
  by (auto simp: cargos_pendientes_def cargo_pendiente_def)

lemma cargos_pendientes_distinct: "billing_ok b \<Longrightarrow> distinct (map rc_id (cargos_pendientes hoy b))"
  using billing_keysD(1) [of "{}" "{}" b] unfolding keyed_def cargos_pendientes_def
  by (auto intro!: distinct_map_sort_filter simp: distinct_map inj_on_def)

text \<open>
  What the batches a run got to leave of the charges: a pending charge of one of them is on exactly one invoice the run
  created, or its account failed; every other charge stays.
\<close>

lemma cierre_charges:
  assumes reach: "billing_reachable b"
    and fold: "fold (facturar_tanda rate y hoy vence) hechas ([], [], b) = (facturas, errores, b')"
    and part: "hechas @ resto = tandas_de (grupos_de (cargos_pendientes hoy b))"
  shows "billing_reachable b'" "iv_id ` set (bb_invoices b') = iv_id ` set (bb_invoices b) \<union> set facturas"
    "iv_id ` set (bb_invoices b) \<inter> set facturas = {}" "\<forall>i \<in> set facturas. length (members (bb_receivables b') i) \<le> 500"
    "r \<in> set (bb_receivables b) \<Longrightarrow> cargo_pendiente hoy r \<Longrightarrow>
       (\<exists>i \<in> set facturas. r\<lparr>rc_invoice := Some i\<rparr> \<in> set (bb_receivables b'))
       \<or> r \<in> set (bb_receivables b') \<and> (rc_account r \<in> set errores \<or> resto \<noteq> [])"
    "r \<in> set (bb_receivables b) \<Longrightarrow> \<not> cargo_pendiente hoy r \<Longrightarrow> r \<in> set (bb_receivables b')"
proof -
  let ?cs = "cargos_pendientes hoy b" let ?gs = "grupos_de ?cs" let ?ts = "tandas_de ?gs"
  note ok = billing_reachable_ok [OF reach]
  have gr: "grouped ?cs ?gs" by (rule grouped_grupos [OF cargos_pendientes_distinct [OF ok]])
  have ids: "set (concat (map snd ?ts)) = rc_id ` set ?cs" using gr by (simp add: grouped_def tandas_de_batches(1))
  have "distinct (concat (map snd ?ts))" using gr by (simp add: grouped_def tandas_de_batches(1))
  then have d: "distinct (concat (map snd hechas))" unfolding part [symmetric] by simp
  have sub: "set hechas \<subseteq> set ?ts" unfolding part [symmetric] by simp
  have lines: "\<forall>x \<in> set hechas. length (snd x) \<le> 500"
    using tandas_de_batches(2) sub by (auto simp: max_lineas_por_factura_def)
  from cierre_loop [OF reach d lines _ fold]
  have loop: "billing_reachable b'" "cycle_kept hechas facturas errores b b'"
    "\<forall>i \<in> set facturas. length (members (bb_receivables b') i) \<le> 500"
    "iv_id ` set (bb_invoices b') = iv_id ` set (bb_invoices b) \<union> set facturas" "iv_id ` set (bb_invoices b) \<inter> set facturas = {}"
    by auto
  then show "billing_reachable b'" "iv_id ` set (bb_invoices b') = iv_id ` set (bb_invoices b) \<union> set facturas"
    "iv_id ` set (bb_invoices b) \<inter> set facturas = {}" "\<forall>i \<in> set facturas. length (members (bb_receivables b') i) \<le> 500"
    by blast+
  note ok' = billing_reachable_ok [OF loop(1)]
  have left: "charge_row b' (rc_id r) = Some r" if "charge_row b (rc_id r) = Some r" "rc_id r \<notin> set (concat (map snd hechas))"
    using loop(2) that unfolding cycle_kept_def by metis
  have pend: "rc_id r \<in> rc_id ` set ?cs \<longleftrightarrow> cargo_pendiente hoy r" if "r \<in> set (bb_receivables b)"
    using that keyed_unique [OF billing_keysD(1) [OF ok] that] by (auto simp: cargos_pendientes_set)
  assume r: "r \<in> set (bb_receivables b)"
  then have row: "charge_row b (rc_id r) = Some r" by (simp add: charge_row_iff [OF ok])
  show "r \<in> set (bb_receivables b')" if "\<not> cargo_pendiente hoy r"
  proof -
    have "rc_id r \<notin> set (concat (map snd ?ts))" using that pend [OF r] ids by simp
    then have "rc_id r \<notin> set (concat (map snd hechas))" using sub by auto
    with left row show ?thesis by (simp add: charge_row_iff [OF ok'])
  qed
  show "(\<exists>i \<in> set facturas. r\<lparr>rc_invoice := Some i\<rparr> \<in> set (bb_receivables b'))
       \<or> r \<in> set (bb_receivables b') \<and> (rc_account r \<in> set errores \<or> resto \<noteq> [])" if p: "cargo_pendiente hoy r"
  proof (cases "rc_id r \<in> set (concat (map snd hechas))")
    case False
    have "rc_id r \<in> set (concat (map snd (hechas @ resto)))" unfolding part using p pend [OF r] ids by simp
    with False have "resto \<noteq> []" by auto
    with left row False show ?thesis by (simp add: charge_row_iff [OF ok'])
  next
    case True
    then obtain a t where t: "(a, t) \<in> set hechas" "rc_id r \<in> set t" by fastforce
    with sub have "(a, t) \<in> set ?ts" by blast
    from tandas_de_batches(2) [OF this] obtain g where g: "g \<in> set ?gs" "a = fst (fst g)" "set t \<subseteq> set (snd g)" by auto
    from gr g t(2) obtain c where c: "c \<in> set ?cs" "rc_id c = rc_id r" "rc_account c = a" unfolding grouped_def by blast
    then have "c = r" using r keyed_unique [OF billing_keysD(1) [OF ok]] by (simp add: cargos_pendientes_set)
    with c have a: "a = rc_account r" by simp
    from loop(2) t row have "(\<exists>i \<in> set facturas. charge_row b' (rc_id r) = Some (r\<lparr>rc_invoice := Some i\<rparr>))
        \<or> charge_row b' (rc_id r) = Some r \<and> a \<in> set errores" unfolding cycle_kept_def by (metis option.inject)
    with a show ?thesis by (auto simp: charge_row_iff [OF ok'])
  qed
qed

lemma ejecutar_cierre_claimed:
  "clave_del_ciclo_cerrado hoy \<in> run_key ` set (cy_runs s) \<Longrightarrow>
    ejecutar_cierre rate y hoy vence caida s = (Some (None, RunAlreadyRun, [], []), s)"
  by (simp add: ejecutar_cierre_def reclamar_ciclo_def Let_def)

text \<open>The parts of a run that claimed its cycle.\<close>

lemma ejecutar_cierre_runs:
  assumes new: "clave_del_ciclo_cerrado hoy \<notin> run_key ` set (cy_runs s)"
    and run: "ejecutar_cierre rate y hoy vence caida s = (out, s')"
  obtains hechas resto facturas errores where
    "hechas @ resto = tandas_de (grupos_de (cargos_pendientes hoy (cy_book s)))" "caida = None \<longrightarrow> resto = []"
    "fold (facturar_tanda rate y hoy vence) hechas ([], [], cy_book s) = (facturas, errores, cy_book s')"
    "case caida of None \<Rightarrow> \<exists>i status. out = Some (Some i, status, facturas, errores) \<and> (status = RunDone \<longleftrightarrow> errores = [])
         \<and> status \<noteq> RunAlreadyRun
         \<and> (\<exists>w \<in> set (cy_runs s'). run_key w = clave_del_ciclo_cerrado hoy \<and> run_status w = Some status
              \<and> run_invoices w = facturas \<and> run_errors w = errores)
       | Some _ \<Rightarrow> out = None \<and> (\<exists>w \<in> set (cy_runs s'). run_key w = clave_del_ciclo_cerrado hoy \<and> run_status w = None)"
proof -
  let ?ts = "tandas_de (grupos_de (cargos_pendientes hoy (cy_book s)))"
  let ?h = "case caida of None \<Rightarrow> ?ts | Some n \<Rightarrow> take n ?ts" let ?r = "case caida of None \<Rightarrow> [] | Some n \<Rightarrow> drop n ?ts"
  obtain facturas errores b where f: "fold (facturar_tanda rate y hoy vence) ?h ([], [], cy_book s) = (facturas, errores, b)"
    by (rule prod_cases3)
  have rec: "reclamar_ciclo hoy s = Some (show_nat (cy_next s), s\<lparr>cy_next := Suc (cy_next s), cy_runs := cy_runs s @
           [\<lparr>run_id = show_nat (cy_next s), run_key = clave_del_ciclo_cerrado hoy, run_status = None, run_accounts = 0,
             run_invoices = [], run_errors = []\<rparr>]\<rparr>)"
    using new by (simp add: reclamar_ciclo_def Let_def)
  show thesis
    using run f rec
    by (intro that [of ?h ?r facturas errores])
      (auto simp: ejecutar_cierre_def Let_def update_by_def split: option.splits)
qed

text \<open>C24: a month is closed once. The run that claims the cycle bills every pending charge of before the day's midnight in La Paz
  on exactly one of the invoices it creates, or reports the account that failed; it touches no other charge or invoice, and no
  invoice has more lines than the tax authority admits. Claim, batches and result commit one by one: a run that ends in between
  leaves the remaining charges pending, without a report, under a cycle that stays claimed. In either case every later run for
  the same month, on any day of it, does nothing at all.\<close>

theorem cycle_bills_once:
  assumes "billing_reachable (cy_book s)" and "clave_del_ciclo_cerrado hoy \<notin> run_key ` set (cy_runs s)"
    and "ejecutar_cierre rate y hoy vence caida s = (out, s')"
  shows "(\<forall>r \<in> set (bb_receivables (cy_book s)).
        if cargo_pendiente hoy r
        then (\<exists>i \<in> iv_id ` set (bb_invoices (cy_book s')) - iv_id ` set (bb_invoices (cy_book s)).
              r\<lparr>rc_invoice := Some i\<rparr> \<in> set (bb_receivables (cy_book s')))
          \<or> r \<in> set (bb_receivables (cy_book s'))
            \<and> (case out of None \<Rightarrow> caida \<noteq> None | Some (_, _, _, errores) \<Rightarrow> rc_account r \<in> set errores)
        else r \<in> set (bb_receivables (cy_book s')))
    \<and> (\<forall>i \<in> iv_id ` set (bb_invoices (cy_book s')) - iv_id ` set (bb_invoices (cy_book s)).
         length (members (bb_receivables (cy_book s')) i) \<le> 500)
    \<and> (out = None \<longleftrightarrow> caida \<noteq> None)
    \<and> (\<exists>w \<in> set (cy_runs s'). run_key w = clave_del_ciclo_cerrado hoy
         \<and> (case out of None \<Rightarrow> run_status w = None
            | Some (i, status, facturas, errores) \<Rightarrow> run_status w = Some status \<and> (status = RunDone \<longleftrightarrow> errores = [])
                \<and> run_invoices w = facturas \<and> run_errors w = errores
                \<and> set facturas = iv_id ` set (bb_invoices (cy_book s')) - iv_id ` set (bb_invoices (cy_book s))))
    \<and> (\<forall>hoy2 t. clave_del_ciclo_cerrado hoy2 = clave_del_ciclo_cerrado hoy \<and> set (cy_runs s') \<subseteq> set (cy_runs t) \<longrightarrow>
         ejecutar_cierre rate2 y2 hoy2 vence2 caida2 t = (Some (None, RunAlreadyRun, [], []), t))"
proof -
  obtain hechas resto facturas errores where
    run: "hechas @ resto = tandas_de (grupos_de (cargos_pendientes hoy (cy_book s)))" "caida = None \<longrightarrow> resto = []"
    "fold (facturar_tanda rate y hoy vence) hechas ([], [], cy_book s) = (facturas, errores, cy_book s')"
    and out: "case caida of None \<Rightarrow> \<exists>i status. out = Some (Some i, status, facturas, errores) \<and> (status = RunDone \<longleftrightarrow> errores = [])
         \<and> status \<noteq> RunAlreadyRun
         \<and> (\<exists>w \<in> set (cy_runs s'). run_key w = clave_del_ciclo_cerrado hoy \<and> run_status w = Some status
              \<and> run_invoices w = facturas \<and> run_errors w = errores)
       | Some _ \<Rightarrow> out = None \<and> (\<exists>w \<in> set (cy_runs s'). run_key w = clave_del_ciclo_cerrado hoy \<and> run_status w = None)"
    by (rule ejecutar_cierre_runs [OF assms(2,3)]) (rule that)
  note c = cierre_charges [OF assms(1) run(3,1)]
  have new: "iv_id ` set (bb_invoices (cy_book s')) - iv_id ` set (bb_invoices (cy_book s)) = set facturas" using c(2,3) by blast
  have reported: "case out of None \<Rightarrow> caida \<noteq> None | Some (_, _, _, es) \<Rightarrow> a \<in> set es" if "a \<in> set errores \<or> resto \<noteq> []" for a
    using out run(2) that by (auto split: option.splits)
  have charges: "\<forall>r \<in> set (bb_receivables (cy_book s)). if cargo_pendiente hoy r
        then (\<exists>i \<in> set facturas. r\<lparr>rc_invoice := Some i\<rparr> \<in> set (bb_receivables (cy_book s')))
          \<or> r \<in> set (bb_receivables (cy_book s')) \<and> (case out of None \<Rightarrow> caida \<noteq> None | Some (_, _, _, errores) \<Rightarrow> rc_account r \<in> set errores)
        else r \<in> set (bb_receivables (cy_book s'))"
    using c(5,6) reported by auto
  have claimed: "\<exists>w \<in> set (cy_runs s'). run_key w = clave_del_ciclo_cerrado hoy
         \<and> (case out of None \<Rightarrow> run_status w = None
            | Some (i, status, fs, es) \<Rightarrow> run_status w = Some status \<and> (status = RunDone \<longleftrightarrow> es = [])
                \<and> run_invoices w = fs \<and> run_errors w = es \<and> set fs = set facturas)"
    using out by (fastforce split: option.splits)
  then have again: "\<forall>hoy2 t. clave_del_ciclo_cerrado hoy2 = clave_del_ciclo_cerrado hoy \<and> set (cy_runs s') \<subseteq> set (cy_runs t) \<longrightarrow>
         ejecutar_cierre rate2 y2 hoy2 vence2 caida2 t = (Some (None, RunAlreadyRun, [], []), t)"
    by (intro allI impI ejecutar_cierre_claimed) (metis imageI subsetD)
  have "out = None \<longleftrightarrow> caida \<noteq> None" using out by (auto split: option.splits)
  then show ?thesis unfolding new using charges c(4) claimed again by blast
qed

section \<open>A concrete month\<close>

definition demo_rule :: mdr_rule_row where
  "demo_rule = \<lparr>rule_id = ''R'', rule_category = None, rule_branch = Some ''S'', rule_risk = None, rule_rate = ''5'',
     rule_min = None, rule_max = None, rule_active = True\<rparr>"

definition demo_general_rule :: mdr_rule_row where
  "demo_general_rule = demo_rule\<lparr>rule_id := ''G'', rule_branch := None, rule_rate := ''3''\<rparr>"

definition demo_market :: billing_book where
  "demo_market = \<lparr>bb_next = 0, bb_merchants = [\<lparr>merchant_id = ''M'', merchant_lifecycle = ''CUSTOMER''\<rparr>],
     bb_branches = [\<lparr>branch_id = ''S'', branch_account = ''M'', branch_status = ''ACTIVE'', can_originate = True\<rparr>],
     bb_consumers = [], bb_tiers = [],
     bb_tariffs = [\<lparr>tariff_id = ''T'', tariff_account = ''M'', tariff_contract_status = ''ACTIVE'', tariff_status = ''ACTIVE'',
        tariff_from = ''2026-01-01'', tariff_to = None, tariff_terms = [], tariff_rules = [demo_general_rule, demo_rule]\<rparr>],
     bb_products = [], bb_purchases = [], bb_installments = [], bb_down_payments = [], bb_links = [],
     bb_receivables = [], bb_invoices = [], bb_invoice_lines = [], bb_payments = [], bb_allocations = []\<rparr>"

definition demo_sale :: purchase_input where
  "demo_sale = \<lparr>pi_merchant = ''M'', pi_branch = ''S'', pi_consumer = Some ''C'', pi_consumer_ref = None,
     pi_amount = JString ''10'', pi_down_payment = JString ''6'', pi_financed = JString ''4'',
     pi_installments = [(\<lparr>installment_number = Finite 1, installment_amount = JString ''2''\<rparr>, ''2026-02-10'', None),
        (\<lparr>installment_number = Finite 2, installment_amount = JString ''2''\<rparr>, ''2026-03-10'', None)],
     pi_category = None, pi_mdr_due = ''2026-02-28'', pi_core_loan = None\<rparr>"

definition demo_split :: purchase_split where
  "demo_split = \<lparr>purchase = 1000, down_payment = 600, financed = 400, installments = [200, 200]\<rparr>"

lemma demo_money:
  "parse_money (JString ''10'') positive_money = Inr 1000" "parse_money (JString ''6'') default_options = Inr 600"
  "parse_money (JString ''4'') default_options = Inr 400" "parse_money (JString ''2'') positive_money = Inr 200"
  "parse_rate_percent (JString ''5'') = Inr 5000000" "rounded_quotient money_rounding_mode 5000000000 100000000 = 50"
  "rounded_quotient money_rounding_mode 60000000000 100000000 = 600"
  "parse_money (JString ''0.50'') (positive_money\<lparr>pm_currency := Some ''BOB''\<rparr>) = Inr 50"
  "parse_money (JString ''0.50'') (default_options\<lparr>pm_currency := Some ''BOB''\<rparr>) = Inr 50"
  "parse_money (JString ''0.20'') (positive_money\<lparr>pm_currency := Some ''BOB''\<rparr>) = Inr 20"
  "parse_money (JString ''0.20'') (default_options\<lparr>pm_currency := Some ''BOB''\<rparr>) = Inr 20"
  "parse_rate_percent (JString ''13'') = Inr 13000000" "rounded_quotient money_rounding_mode 650000000 100000000 = 7"
  "minor_text 50 2 = ''0.50''" "minor_text 7 2 = ''0.07''" "minor_text 57 2 = ''0.57''" "minor_text 5000000 6 = ''5.000000''"
  "assert_single_currency [''BOB''] = Inr ''BOB''" "allocate_proportionally 7 [50] = Inr [7]"
  "to_upper (js_trim ''BOB'') = ''BOB''" "document_number ''2026'' ''FAC-CM'' ''2026-02-01'' None [] = ''FAC-CM-2026-000001''"
  by code_simp+

lemma demo_parse: "parse_purchase_split (split_input demo_sale) = Inr demo_split"
  by (simp add: parse_purchase_split_def split_input_def demo_sale_def demo_money demo_split_def)

lemma demo_accepted: "assert_purchase_split (split_input demo_sale) = Inr ()"
proof -
  have "rounded_quotient HALF_UP 60000 100 = 600" by code_simp
  then have "purchase_split_violations (split_input demo_sale) = Inr []"
    unfolding purchase_split_accepted_iff using demo_parse by (simp add: demo_split_def split_input_def demo_sale_def)
  then show ?thesis by (simp add: assert_purchase_split_def lift_billing_def)
qed

lemma demo_fee: "compute_mdr_fee (JString ''10'') \<lparr>rate_percent = JString ''5'', min_fee_amount = JNull, max_fee_amount = JNull\<rparr>
  = Inr \<lparr>rate_units = 5000000, rate_text = ''5.000000'', fee_minor = 50, fee_text = ''0.50''\<rparr>"
  by (simp add: compute_mdr_fee_def demo_money present_def from_minor_units_def assert_scale_def max_supported_scale_def default_amount_scale_def)

definition demo_tariff :: tariff_version_row where
  "demo_tariff = hd (bb_tariffs demo_market)"

definition demo_receivable :: receivable_row where
  "demo_receivable = mdr_receivable demo_sale ''0'' 50 None ''2026-02-01T03:59:59.999Z'' ''3''"

definition demo_sold :: billing_book where
  "demo_sold = demo_market\<lparr>bb_next := 4, bb_consumers := [\<lparr>consumer_id = ''C'', consumer_ref = None\<rparr>],
     bb_purchases := [new_purchase demo_sale demo_split ''C'' ''T'' None \<lparr>mc_rate = ''5.000000'', mc_amount = 50, mc_source = MdrRules, mc_rule = Some ''R''\<rparr> ''0''],
     bb_down_payments := [\<lparr>dp_purchase = ''0'', dp_amount = 600, dp_status = ''REPORTED''\<rparr>],
     bb_installments := [\<lparr>bi_id = ''1'', bi_purchase = ''0'', bi_number = Finite 1, bi_due = ''2026-02-10'', bi_amount = 200\<rparr>,
        \<lparr>bi_id = ''2'', bi_purchase = ''0'', bi_number = Finite 2, bi_due = ''2026-03-10'', bi_amount = 200\<rparr>],
     bb_receivables := [demo_receivable]\<rparr>"

lemma demo_ids: "show_nat 0 = ''0''" "show_nat (Suc 0) = ''1''" "show_nat 2 = ''2''" "show_nat 3 = ''3''" "show_nat 4 = ''4''" "show_nat 5 = ''5''"
  "show_nat (Suc (Suc 0)) = ''2''" "show_nat (Suc (Suc (Suc 0))) = ''3''"
  by code_simp+

lemma demo_mdr: "calculate_mdr (pi_amount demo_sale) demo_tariff ''S'' None None
    = Inr \<lparr>mc_rate = ''5.000000'', mc_amount = 50, mc_source = MdrRules, mc_rule = Some ''R''\<rparr>"
proof -
  have "pick_best_mdr_rule (tariff_rules demo_tariff) ''S'' None None = Some demo_rule" by code_simp
  then show ?thesis
    by (simp add: calculate_mdr_def lift_parse_def lift_billing_def lift_money_def demo_rule_def optional_text_def demo_fee demo_sale_def)
qed

lemma demo_run:
  "register_purchase demo_sale ''2026-01-31'' ''2026-02-01T03:59:59.999Z'' demo_market = Inr (''0'', demo_sold)"
proof -
  define b1 where "b1 = demo_market\<lparr>bb_consumers := [\<lparr>consumer_id = ''C'', consumer_ref = None\<rparr>]\<rparr>"
  have pre: "find_by merchant_id (pi_merchant demo_sale) (bb_merchants demo_market) = Some \<lparr>merchant_id = ''M'', merchant_lifecycle = ''CUSTOMER''\<rparr>"
    "branch_enabled ''S'' (pi_merchant demo_sale) demo_market"
    by code_simp+
  have consumer: "resolve_consumer_id (pi_consumer demo_sale) (pi_consumer_ref demo_sale) demo_market = Inr (''C'', b1)"
    by (simp add: resolve_consumer_id_def demo_sale_def demo_market_def b1_def)
  have "find_active_contract_version (pi_merchant demo_sale) ''2026-01-31'' demo_market = Some demo_tariff" by code_simp
  then have version: "find_active_contract_version (pi_merchant demo_sale) ''2026-01-31'' b1 = Some demo_tariff"
    by (simp add: find_active_contract_version_def b1_def)
  have risk: "resolve_risk_tier (pi_consumer_ref demo_sale) b1 = None" by (simp add: resolve_risk_tier_def demo_sale_def)
  have rec: "record_purchase demo_sale demo_split ''C'' (tariff_id demo_tariff) None
      \<lparr>mc_rate = ''5.000000'', mc_amount = 50, mc_source = MdrRules, mc_rule = Some ''R''\<rparr> ''2026-02-01T03:59:59.999Z'' b1 = Inr (''0'', demo_sold)"
    by (simp add: record_purchase_def b1_def demo_market_def demo_ids demo_sale_def demo_split_def create_installment_def
        find_product_by_source_type_def demo_sold_def demo_receivable_def mdr_receivable_def demo_tariff_def new_purchase_def Let_def eval_nat_numeral)
  have fields: "pi_branch demo_sale = ''S''" "pi_category demo_sale = None" by (simp_all add: demo_sale_def)
  show ?thesis
    using demo_mdr rec by (simp add: register_purchase_def pre demo_accepted demo_parse lift_parse_def lift_billing_def lift_money_def consumer version risk fields)
qed

definition demo_month :: cycle_state where
  "demo_month = \<lparr>cy_runs = [], cy_next = 0, cy_book = demo_sold\<rparr>"

definition demo_invoice :: invoice_row where
  "demo_invoice = \<lparr>iv_id = ''4'', iv_account = ''M'', iv_contract = None, iv_number = ''FAC-CM-2026-000001'', iv_date = ''2026-02-01'',
     iv_due = ''2026-02-15'', iv_subtotal = 50, iv_tax = 7, iv_total = 57, iv_status = InvoiceIssued, iv_tax_ref = None\<rparr>"

definition demo_billed :: billing_book where
  "demo_billed = demo_sold\<lparr>bb_next := 5, bb_invoices := [demo_invoice],
     bb_invoice_lines := [\<lparr>il_invoice = ''4'', il_source = ''MDR'', il_source_id = Some ''0'', il_product = None,
        il_description = ''Cargo MDR'', il_unit = 50, il_tax = 7, il_total = 57\<rparr>],
     bb_receivables := [demo_receivable\<lparr>rc_invoice := Some ''4''\<rparr>]\<rparr>"

definition demo_request :: invoice_input where
  "demo_request = \<lparr>ii_account = ''M'', ii_contract = None, ii_date = ''2026-02-01'', ii_due = ''2026-02-15'', ii_receivables = [''3''], ii_tax_ref = None\<rparr>"

lemma demo_minor: "minor_value ''0.50'' = 50" "minor_value ''0.07'' = 7" "minor_value ''0.57'' = 57"
  by code_simp+

lemma demo_charges: "charges_for demo_request demo_sold = [demo_receivable]"
  by (simp add: charges_for_def demo_request_def demo_sold_def demo_receivable_def mdr_receivable_def demo_sale_def)

lemma demo_totals: "totals_of (JString ''13'') [demo_receivable] = Inr \<lparr>totals_currency = ''BOB'', subtotal = ''0.50'', tax = ''0.07'',
    total_amount = ''0.57'', lines = [\<lparr>line_id = ''3'', line_net = ''0.50'', line_tax = ''0.07'', line_total = ''0.57''\<rparr>]\<rparr>"
proof -
  have "cents m = Inr (minor_text m 2)" for m by (simp add: cents_eq_Inr)
  then show ?thesis
    by (simp add: totals_of_def lift_billing_def charge_of_def demo_receivable_def mdr_receivable_def compute_invoice_totals_def
        invoice_currency_def invoice_line_def demo_money lift_money_def sum_minor_def)
qed

lemma demo_issue: "issue_invoice (JString ''13'') ''2026'' demo_request demo_sold = Inr (''4'', demo_billed)"
proof -
  have b: "bb_next demo_sold = 4" "bb_invoices demo_sold = []" "bb_invoice_lines demo_sold = []" "bb_products demo_sold = []"
    "bb_receivables demo_sold = [demo_receivable]" by (simp_all add: demo_sold_def demo_market_def)
  have r: "rc_id demo_receivable = ''3''" "rc_invoice demo_receivable = None" "rc_status demo_receivable = ReceivablePending"
    "rc_open demo_receivable = 50" "rc_source demo_receivable = ''MDR''" "rc_source_id demo_receivable = Some ''0''" "rc_product demo_receivable = None"
    by (simp_all add: demo_receivable_def mdr_receivable_def)
  have x: "ii_receivables demo_request = [''3'']" "ii_date demo_request = ''2026-02-01''" "ii_account demo_request = ''M''"
    "ii_contract demo_request = None" "ii_due demo_request = ''2026-02-15''" "ii_tax_ref demo_request = None"
    by (simp_all add: demo_request_def)
  show ?thesis
    by (simp add: issue_invoice_def demo_charges demo_totals demo_ids b r x demo_billed_def demo_invoice_def demo_money
        demo_minor new_invoice_line_def line_of_def product_of_source_def Let_def)
qed

lemma demo_sold_reachable: "billing_reachable demo_sold"
proof (rule billing_reachable.step [OF _ billing_step.purchase [OF demo_run]])
  show "billing_reachable demo_market" by (rule billing_reachable.start) (simp_all add: demo_market_def)
qed

lemma demo_billed_reachable: "billing_reachable demo_billed"
  by (rule billing_reachable.step [OF demo_sold_reachable billing_step.invoice [OF demo_issue]])

lemma demo_cycle: "ejecutar_cierre (JString ''13'') ''2026'' ''2026-02-01'' ''2026-02-15'' None demo_month
  = (Some (Some ''0'', RunDone, [''4''], []), \<lparr>cy_runs = [\<lparr>run_id = ''0'', run_key = ''MONTHLY:2026-01'', run_status = Some RunDone,
       run_accounts = 1, run_invoices = [''4''], run_errors = []\<rparr>], cy_next = 1, cy_book = demo_billed\<rparr>)"
proof -
  have key: "clave_del_ciclo_cerrado ''2026-02-01'' = ''MONTHLY:2026-01''" by code_simp
  have pending: "cargos_pendientes ''2026-02-01'' demo_sold = [demo_receivable]" by code_simp
  have "rc_id demo_receivable = ''3''" "rc_account demo_receivable = ''M''" "rc_currency demo_receivable = ''BOB''"
    by (simp_all add: demo_receivable_def mdr_receivable_def demo_sale_def)
  then have groups: "grupos_de [demo_receivable] = [((''M'', ''BOB''), [''3''])]" by (simp add: grupos_de_def agregar_def)
  have "tandas [''3''] = [[''3'']]" by (simp add: tandas.simps max_lineas_por_factura_def)
  then have batches: "tandas_de [((''M'', ''BOB''), [''3''])] = [(''M'', [''3''])]" by (simp add: tandas_de_def)
  show ?thesis
    using demo_issue by (simp add: ejecutar_cierre_def reclamar_ciclo_def update_by_def demo_month_def key pending groups batches facturar_tanda_def demo_request_def demo_ids Let_def)
qed

definition demo_payment :: payment_input where
  "demo_payment = \<lparr>pm_account = ''M'', pm_amount = JString ''0.20'', pm_code = ''BOB'', pm_allocations = [(''3'', JString ''0.20'')]\<rparr>"

definition demo_paid :: billing_book where
  "demo_paid = demo_billed\<lparr>bb_next := 6, bb_invoices := [demo_invoice\<lparr>iv_status := InvoicePartiallyPaid\<rparr>],
     bb_receivables := [demo_receivable\<lparr>rc_invoice := Some ''4'', rc_open := 30, rc_status := ReceivablePartiallyPaid\<rparr>],
     bb_payments := [\<lparr>py_id = ''5'', py_account = ''M'', py_amount = 20, py_currency = ''BOB'', py_status = ''CONFIRMED''\<rparr>],
     bb_allocations := [\<lparr>al_payment = ''5'', al_receivable = ''3'', al_applied = 20\<rparr>]\<rparr>"

lemma demo_pay: "register_merchant_payment demo_payment demo_billed = Inr (''5'', demo_paid)"
proof -
  have b: "bb_next demo_billed = 5" "bb_invoices demo_billed = [demo_invoice]" "bb_payments demo_billed = []" "bb_allocations demo_billed = []"
    "bb_receivables demo_billed = [demo_receivable\<lparr>rc_invoice := Some ''4''\<rparr>]" by (simp_all add: demo_billed_def demo_sold_def demo_market_def)
  have r: "rc_id demo_receivable = ''3''" "rc_account demo_receivable = ''M''" "rc_open demo_receivable = 50" "rc_original demo_receivable = 50"
    "rc_currency demo_receivable = ''BOB''" by (simp_all add: demo_receivable_def mdr_receivable_def demo_sale_def)
  have v: "iv_id demo_invoice = ''4''" "iv_status demo_invoice = InvoiceIssued" by (simp_all add: demo_invoice_def)
  have x: "pm_account demo_payment = ''M''" "pm_amount demo_payment = JString ''0.20''" "pm_code demo_payment = ''BOB''"
    "pm_allocations demo_payment = [(''3'', JString ''0.20'')]" by (simp_all add: demo_payment_def)
  have paid: "demo_paid = demo_billed\<lparr>bb_next := 6, bb_payments := [\<lparr>py_id = ''5'', py_account = ''M'', py_amount = 20, py_currency = ''BOB'', py_status = ''CONFIRMED''\<rparr>],
     bb_allocations := [\<lparr>al_payment = ''5'', al_receivable = ''3'', al_applied = 20\<rparr>],
     bb_receivables := [demo_receivable\<lparr>rc_invoice := Some ''4'', rc_open := 30, rc_status := ReceivablePartiallyPaid\<rparr>],
     bb_invoices := [demo_invoice\<lparr>iv_status := InvoicePartiallyPaid\<rparr>]\<rparr>" by (simp add: demo_paid_def)
  show ?thesis
    by (simp add: register_merchant_payment_def allocations_match_payment_def demo_money sum_minor_def lift_parse_def lift_billing_def lift_money_def
        b r v x apply_allocation_def refresh_invoice_payment_status_def collected_status_def update_by_def demo_ids Let_def paid)
qed

lemma demo_paid_reachable: "billing_reachable demo_paid"
  by (rule billing_reachable.step [OF demo_billed_reachable billing_step.payment [OF demo_pay]])

lemma balances_follow_payments_witness:
  "rc_status (hd (bb_receivables demo_paid)) = ReceivablePartiallyPaid \<longleftrightarrow>
     0 < applied (bb_allocations demo_paid) ''3'' \<and> 0 < rc_open (hd (bb_receivables demo_paid))"
proof -
  have "bb_receivables demo_paid = [demo_receivable\<lparr>rc_invoice := Some ''4'', rc_open := 30, rc_status := ReceivablePartiallyPaid\<rparr>]"
    by (simp add: demo_paid_def)
  moreover have "rc_id demo_receivable = ''3''" by (simp add: demo_receivable_def mdr_receivable_def)
  ultimately show ?thesis using balances_follow_payments [OF demo_paid_reachable] by simp
qed

lemma best_rule_is_most_specific_witness:
  "pick_best_mdr_rule [demo_general_rule, demo_rule] ''S'' None None = Some demo_rule \<and> outranks demo_rule demo_general_rule"
proof -
  have run: "pick_best_mdr_rule [demo_general_rule, demo_rule] ''S'' None None = Some demo_rule"
    and "mdr_rule_matches ''S'' None None demo_general_rule" by code_simp+
  with best_rule_is_most_specific [of "[demo_general_rule, demo_rule]" "''S''" None None] show ?thesis by simp
qed

lemma purchase_contract_witness:
  "\<exists>p rows. bb_purchases demo_sold = [p] \<and> bb_installments demo_sold = rows \<and> sum_list (map bi_amount rows) = bp_financed p"
  using purchase_contract [OF demo_run] by (auto simp: demo_market_def)

lemma invoice_contract_witness:
  "\<exists>v (ls :: invoice_line_row list). bb_invoices demo_billed = [v] \<and> length ls = 1 \<and> sum_list (map il_total ls) = iv_total v"
proof -
  have total: "sum_list (map il_total ls) = sum_list (map il_unit ls) + sum_list (map il_tax ls)"
    if "\<forall>l \<in> set ls. il_total l = il_unit l + il_tax l" for ls using that by (induction ls) auto
  from invoice_contract [OF demo_sold_reachable demo_issue] show ?thesis
  proof (elim exE conjE)
    fix v and ls :: "invoice_line_row list"
    assume "bb_invoices demo_billed = bb_invoices demo_sold @ [v]" "length ls = length (ii_receivables demo_request)"
      "\<forall>l \<in> set ls. il_invoice l = ''4'' \<and> il_total l = il_unit l + il_tax l"
      "sum_list (map il_unit ls) = iv_subtotal v" "sum_list (map il_tax ls) = iv_tax v" "iv_total v = iv_subtotal v + iv_tax v"
    then have "bb_invoices demo_billed = [v] \<and> length ls = 1 \<and> sum_list (map il_total ls) = iv_total v"
      using total [of ls] by (simp add: demo_sold_def demo_market_def demo_request_def)
    then show ?thesis by blast
  qed
qed

text \<open>The month runs to its end; the run that ends after the claim leaves the charge pending for good.\<close>

lemma demo_crash: "ejecutar_cierre (JString ''13'') ''2026'' ''2026-02-01'' ''2026-02-15'' (Some 0) demo_month
  = (None, \<lparr>cy_runs = [\<lparr>run_id = ''0'', run_key = ''MONTHLY:2026-01'', run_status = None, run_accounts = 0, run_invoices = [],
       run_errors = []\<rparr>], cy_next = 1, cy_book = demo_sold\<rparr>)"
proof -
  have "clave_del_ciclo_cerrado ''2026-02-01'' = ''MONTHLY:2026-01''" by code_simp
  then show ?thesis by (simp add: ejecutar_cierre_def reclamar_ciclo_def demo_month_def demo_ids Let_def split_beta)
qed

lemma cycle_bills_once_witness:
  "\<exists>s' s''. ejecutar_cierre (JString ''13'') ''2026'' ''2026-02-01'' ''2026-02-15'' None demo_month = (Some (Some ''0'', RunDone, [''4''], []), s')
     \<and> (\<exists>i \<in> iv_id ` set (bb_invoices (cy_book s')). demo_receivable\<lparr>rc_invoice := Some i\<rparr> \<in> set (bb_receivables (cy_book s')))
     \<and> ejecutar_cierre (JString ''13'') ''2026'' ''2026-02-01'' ''2026-02-15'' (Some 0) demo_month = (None, s'')
     \<and> demo_receivable \<in> set (bb_receivables (cy_book s''))
     \<and> ejecutar_cierre (JString ''13'') ''2026'' ''2026-02-02'' ''2026-02-15'' None s'' = (Some (None, RunAlreadyRun, [], []), s'')"
proof -
  have reach: "billing_reachable (cy_book demo_month)" using demo_sold_reachable by (simp add: demo_month_def)
  have new: "clave_del_ciclo_cerrado ''2026-02-01'' \<notin> run_key ` set (cy_runs demo_month)" by (simp add: demo_month_def)
  have pending: "demo_receivable \<in> set (bb_receivables (cy_book demo_month))" "cargo_pendiente ''2026-02-01'' demo_receivable"
    by (simp add: demo_month_def demo_sold_def) code_simp
  have same: "clave_del_ciclo_cerrado ''2026-02-02'' = clave_del_ciclo_cerrado ''2026-02-01''" by code_simp
  from cycle_bills_once [OF reach new demo_cycle, of JNull "[]" "[]" None] pending obtain i where
    "i \<in> iv_id ` set (bb_invoices demo_billed)" "demo_receivable\<lparr>rc_invoice := Some i\<rparr> \<in> set (bb_receivables demo_billed)"
    by fastforce
  moreover note crash = cycle_bills_once [OF reach new demo_crash, of "JString ''13''" "''2026''" "''2026-02-15''" None]
  have "demo_receivable \<in> set (bb_receivables demo_sold)"
    using bspec [OF conjunct1 [OF crash] pending(1)] by (simp add: pending(2) demo_month_def)
  moreover from crash have "\<forall>hoy2 t. clave_del_ciclo_cerrado hoy2 = clave_del_ciclo_cerrado ''2026-02-01''
      \<and> set (cy_runs (\<lparr>cy_runs = [\<lparr>run_id = ''0'', run_key = ''MONTHLY:2026-01'', run_status = None,
        run_accounts = 0, run_invoices = [], run_errors = []\<rparr>], cy_next = 1, cy_book = demo_sold\<rparr>)) \<subseteq> set (cy_runs t) \<longrightarrow>
      ejecutar_cierre (JString ''13'') ''2026'' hoy2 ''2026-02-15'' None t = (Some (None, RunAlreadyRun, [], []), t)"
    by (elim conjE)
  ultimately show ?thesis using same by (auto simp: demo_cycle demo_crash)
qed

end
